(* ===== verification/Prelude.thy ===== *)
theory Prelude
  imports Main "HOL-Library.Product_Lexorder" "HOL-Library.List_Lexorder" "HOL-Library.Char_ord"
begin

text \<open>
  Shared vocabulary of the development: results of fallible Go functions as sums, the list
  operations behind SQL statements (conditional row update, first matching row), and the generic
  lemmas on them.  Tables are lists of rows; a row update that keeps the key column is the locale
  \<open>row_update\<close>, interpreted by the tables that use it.
\<close>

named_theorems store_defs \<open>definitions of the statements of the store, unfolded together\<close>

section \<open>Results of fallible functions\<close>

text \<open>A Go function returning \<open>(value, error)\<close> is a sum: \<open>Inl\<close> the error, \<open>Inr\<close> the value.\<close>

definition bindR :: "'e + 'a \<Rightarrow> ('a \<Rightarrow> 'e + 'b) \<Rightarrow> 'e + 'b" where
  "bindR m f = (case m of Inl e \<Rightarrow> Inl e | Inr a \<Rightarrow> f a)"

lemma bindR_simps [simp]:
  "bindR (Inl e) f = Inl e"
  "bindR (Inr a) f = f a"
  by (simp_all add: bindR_def)

lemma bindR_Inr_iff: "bindR m f = Inr b \<longleftrightarrow> (\<exists>a. m = Inr a \<and> f a = Inr b)"
  by (cases m) auto

lemma bindR_Inl_iff: "bindR m f = Inl e \<longleftrightarrow> m = Inl e \<or> (\<exists>a. m = Inr a \<and> f a = Inl e)"
  by (cases m) auto

lemma bindR_Inr_right [simp]: "bindR m Inr = m"
  by (cases m) auto

lemma if_Inl_Inr_iff: "(if b then Inl e else m) = Inr a \<longleftrightarrow> \<not> b \<and> m = Inr a"
  by auto

text \<open>\<open>if err != nil { return wrap(err) }\<close>.\<close>

definition mapErr :: "('e \<Rightarrow> 'f) \<Rightarrow> 'e + 'a \<Rightarrow> 'f + 'a" where
  "mapErr w m = (case m of Inl e \<Rightarrow> Inl (w e) | Inr a \<Rightarrow> Inr a)"

lemma mapErr_simps [simp]:
  "mapErr w (Inl e) = Inl (w e)"
  "mapErr w (Inr a) = Inr a"
  by (simp_all add: mapErr_def)

lemma mapErr_Inr_iff [simp]: "mapErr w m = Inr a \<longleftrightarrow> m = Inr a"
  by (cases m) auto

lemma mapErr_Inl_iff: "mapErr w m = Inl f \<longleftrightarrow> (\<exists>e. m = Inl e \<and> f = w e)"
  by (cases m) auto

lemmas result_iffs = bindR_Inr_iff bindR_Inl_iff if_Inl_Inr_iff

definition is_ok :: "'e + 'a \<Rightarrow> bool" where
  "is_ok m = (case m of Inl _ \<Rightarrow> False | Inr _ \<Rightarrow> True)"

lemma is_ok_simps [simp]: "\<not> is_ok (Inl e)" "is_ok (Inr a)"
  by (simp_all add: is_ok_def)

lemma is_ok_iff: "is_ok m \<longleftrightarrow> (\<exists>a. m = Inr a)"
  by (cases m) auto

section \<open>Rows of a table\<close>

text \<open>\<open>UPDATE t SET ... WHERE p\<close> on the rows of a table.\<close>

definition upd_where :: "('r \<Rightarrow> bool) \<Rightarrow> ('r \<Rightarrow> 'r) \<Rightarrow> 'r list \<Rightarrow> 'r list" where
  "upd_where p f rows = map (\<lambda>r. if p r then f r else r) rows"

lemma length_upd_where [simp]: "length (upd_where p f rows) = length rows"
  by (simp add: upd_where_def)

lemma upd_where_Nil [simp]: "upd_where p f [] = []"
  by (simp add: upd_where_def)

lemma upd_where_Cons [simp]:
  "upd_where p f (r # rows) = (if p r then f r else r) # upd_where p f rows"
  by (simp add: upd_where_def)

lemma upd_where_append [simp]:
  "upd_where p f (xs @ ys) = upd_where p f xs @ upd_where p f ys"
  by (simp add: upd_where_def)

lemma set_upd_where: "set (upd_where p f rows) = (\<lambda>r. if p r then f r else r) ` set rows"
  by (simp add: upd_where_def)

lemma map_upd_where: "(\<And>r. r \<in> set rows \<Longrightarrow> p r \<Longrightarrow> g (f r) = g r) \<Longrightarrow>
    map g (upd_where p f rows) = map g rows"
  by (simp add: upd_where_def)

lemma upd_where_id: "(\<And>r. r \<in> set rows \<Longrightarrow> \<not> p r) \<Longrightarrow> upd_where p f rows = rows"
  by (induction rows) auto

lemma upd_where_distinct_split:
  assumes "distinct (map k rows)" "r \<in> set rows"
  obtains xs ys where "rows = xs @ r # ys" "\<forall>x \<in> set xs \<union> set ys. k x \<noteq> k r"
proof -
  from assms(2) obtain xs ys where rows: "rows = xs @ r # ys" by (meson split_list)
  with assms(1) have "\<forall>x \<in> set xs \<union> set ys. k x \<noteq> k r" by (auto simp: image_iff)
  with rows show ?thesis using that by blast
qed

lemma distinct_key_inj:
  "distinct (map k rows) \<Longrightarrow> a \<in> set rows \<Longrightarrow> b \<in> set rows \<Longrightarrow> k a = k b \<Longrightarrow> a = b"
  by (metis distinct_map inj_on_def)

lemma distinct_mapD: "distinct (map f xs) \<Longrightarrow> distinct xs"
  by (simp add: distinct_map)

lemma find_key_Some:
  "List.find (\<lambda>r. k r = x) rows = Some r \<Longrightarrow> r \<in> set rows \<and> k r = x"
  by (auto simp: find_Some_iff)

lemma find_key_None: "List.find (\<lambda>r. k r = x) rows = None \<longleftrightarrow> x \<notin> k ` set rows"
  by (auto simp: find_None_iff)

lemma find_filter: "List.find p (filter q xs) = List.find (\<lambda>x. q x \<and> p x) xs"
  by (induction xs) auto

lemma find_append:
  "List.find p (xs @ ys) = (case List.find p xs of None \<Rightarrow> List.find p ys | Some x \<Rightarrow> Some x)"
  by (induction xs) auto

lemma key_imageI: "r \<in> A \<Longrightarrow> k r = i \<Longrightarrow> i \<in> k ` A"
  by auto

lemma filter_key_Nil: "filter (\<lambda>r. k r = i) rows = [] \<longleftrightarrow> i \<notin> k ` set rows"
  by (auto simp: filter_empty_conv)

lemma length_filter_key_removed:
  "distinct (map k rows) \<Longrightarrow> i \<in> k ` set rows \<Longrightarrow>
   length (filter (\<lambda>r. k r \<noteq> i) rows) = length rows - 1"
proof (induction rows)
  case (Cons r rows)
  show ?case
  proof (cases "k r = i")
    case True
    with Cons.prems(1) have "filter (\<lambda>r. k r \<noteq> i) rows = rows" 
      by (intro filter_True ballI notI) (metis distinct.simps(2) imageI list.simps(9) set_map)
    with True show ?thesis by simp
  next
    case False
    with Cons.prems have "rows \<noteq> []" "i \<in> k ` set rows" by auto
    with False Cons show ?thesis by simp
  qed
qed simp

lemma find_key_distinct:
  assumes "distinct (map k rows)" "r \<in> set rows"
  shows "List.find (\<lambda>q. k q = k r) rows = Some r"
proof -
  from assms obtain q where q: "List.find (\<lambda>q. k q = k r) rows = Some q"
    by (metis find_key_None imageI not_None_eq)
  then have "q \<in> set rows \<and> k q = k r" by (rule find_key_Some)
  with assms have "q = r" by (metis distinct_key_inj)
  with q show ?thesis by simp
qed

text \<open>Writing one unused value into a unique column of the row with a given key.\<close>

lemma distinct_upd_column:
  assumes "distinct (map k rows)" "distinct (map c rows)"
    "\<And>q. q \<in> set rows \<Longrightarrow> k q \<noteq> i \<Longrightarrow> i \<in> k ` set rows \<Longrightarrow> c q \<noteq> v" "\<And>r. c (f r) = v"
  shows "distinct (map c (upd_where (\<lambda>r. k r = i) f rows))"
proof (cases "i \<in> k ` set rows")
  case True
  then obtain r where r: "r \<in> set rows" "k r = i" by blast
  with assms(1) obtain xs ys where rows: "rows = xs @ r # ys"
    and oth: "\<forall>x \<in> set xs \<union> set ys. k x \<noteq> i"
    by (metis upd_where_distinct_split)
  from oth have "upd_where (\<lambda>r. k r = i) f xs = xs" "upd_where (\<lambda>r. k r = i) f ys = ys"
    by (auto intro!: upd_where_id)
  moreover have "v \<notin> c ` (set xs \<union> set ys)" using assms(3) True oth rows by auto
  ultimately show ?thesis using assms(2,4) r(2) rows by auto
next
  case False
  then have "upd_where (\<lambda>r. k r = i) f rows = rows" by (intro upd_where_id) auto
  with assms(2) show ?thesis by simp
qed

text \<open>A row update that keeps the key column keeps everything stated through keys.\<close>

locale row_update =
  fixes key :: "'r \<Rightarrow> 'k" and f :: "'r \<Rightarrow> 'r"
  assumes key_keep: "key (f r) = key r"
begin

lemma keys_upd: "map key (upd_where p f rows) = map key rows"
  by (simp add: map_upd_where key_keep)

lemma key_set_upd: "key ` set (upd_where p f rows) = key ` set rows"
  using keys_upd by (metis list.set_map)

lemma distinct_upd: "distinct (map key rows) \<Longrightarrow> distinct (map key (upd_where p f rows))"
  by (simp add: keys_upd)

lemma find_upd_key: "List.find (\<lambda>r. key r = k) (upd_where (\<lambda>r. key r = k) f rows)
    = map_option f (List.find (\<lambda>r. key r = k) rows)"
  by (induction rows) (auto simp: key_keep)

lemma find_upd_other: "k' \<noteq> k \<Longrightarrow>
    List.find (\<lambda>r. key r = k') (upd_where (\<lambda>r. key r = k) f rows)
    = List.find (\<lambda>r. key r = k') rows"
  by (induction rows) (auto simp: key_keep)

end

section \<open>Sorted reads\<close>

text \<open>A loop that reads rows first and then rewrites each by its key rewrites exactly those rows.\<close>

lemma fold_upd_rows:
  assumes "\<And>w. k (g w) = k w" "distinct (map k rows)" "distinct (map k ws)" "set ws \<subseteq> set rows"
    "\<And>w. w \<in> set ws \<Longrightarrow> h w w = g w"
  shows "fold (\<lambda>w. upd_where (\<lambda>v. k v = k w) (h w)) ws rows = map (\<lambda>v. if k v \<in> k ` set ws then g v else v) rows"
  using assms(2-5)
proof (induction ws arbitrary: rows)
  case (Cons w ws)
  let ?f = "\<lambda>v. if k v = k w then g v else v"
  have "h w v = g v" if "v \<in> set rows" "k v = k w" for v
    using distinct_key_inj [OF Cons.prems(1) that(1) _ that(2)] Cons.prems(3,4) by simp
  then have first: "upd_where (\<lambda>v. k v = k w) (h w) rows = map ?f rows"
    unfolding upd_where_def by (intro map_cong refl if_cong)
  have "map k (map ?f rows) = map k rows" using assms(1) by simp
  then have "distinct (map k (map ?f rows))" using Cons.prems(1) by metis
  moreover have "set ws \<subseteq> set (map ?f rows)"
  proof
    fix v assume "v \<in> set ws"
    then have "k v \<noteq> k w" "v \<in> set rows" using Cons.prems(2,3) by (auto simp: image_iff)
    then show "v \<in> set (map ?f rows)" unfolding set_map by (intro image_eqI [of _ _ v]) simp
  qed
  ultimately have "fold (\<lambda>w. upd_where (\<lambda>v. k v = k w) (h w)) ws (map ?f rows)
      = map (\<lambda>v. if k v \<in> k ` set ws then g v else v) (map ?f rows)"
    using Cons.prems(2,4) by (intro Cons.IH) simp_all
  also have "\<dots> = map (\<lambda>v. if k v \<in> k ` set (w # ws) then g v else v) rows"
    using Cons.prems(2) assms(1) by auto
  finally show ?case using first by simp
qed simp

text \<open>\<open>SELECT ... ORDER BY k\<close> is \<^const>\<open>sort_key\<close>; over distinct keys the result is determined by
  its keys and rows alone.\<close>

lemma insort_key_map:
  "(\<And>x. f (g x) = f x) \<Longrightarrow> insort_key f (g x) (map g xs) = map g (insort_key f x xs)"
  by (induction xs) auto

lemma sort_key_map: "(\<And>x. f (g x) = f x) \<Longrightarrow> sort_key f (map g xs) = map g (sort_key f xs)"
  by (induction xs) (simp_all add: insort_key_map)

lemma sort_key_unique:
  fixes k :: "'r \<Rightarrow> 'o::linorder"
  assumes "distinct (map k rows)" "sorted (map k ys)" "set ys = set rows" "distinct ys"
  shows "sort_key k rows = ys"
proof -
  have inj: "inj_on k (set rows)" and dr: "distinct rows"
    using assms(1) by (simp_all add: distinct_map)
  have len: "length (sort_key k rows) = length ys"
    by (metis assms(3,4) distinct_card dr length_sort)
  have "map k (sort_key k rows) = map k ys"
  proof (rule sorted_distinct_set_unique)
    show "sorted (map k (sort_key k rows))" by simp
    show "distinct (map k (sort_key k rows))" using inj dr by (simp add: distinct_map)
    show "sorted (map k ys)" by (fact assms(2))
    show "distinct (map k ys)" using inj assms(3,4) by (simp add: distinct_map)
    show "set (map k (sort_key k rows)) = set (map k ys)" using assms(3) by simp
  qed
  then show ?thesis
    using inj assms(3) by (metis inj_on_map_eq_map set_sort sup.idem)
qed

end
