(* ===== verification/Go_Std.thy ===== *)
theory Go_Std
  imports Prelude "HOL-Library.Word"
begin

text \<open>
  The parts of Go's standard library the modelled packages rely on: packages \<open>strings\<close>,
  \<open>strconv\<close>, \<open>net\<close> and \<open>net/netip\<close> (parsing only), \<open>encoding/json\<close> (validity) and \<open>time\<close>.  Go strings
  are byte sequences, here \<^typ>\<open>string\<close>.  Where Go consults Unicode tables (case mapping of
  non-ASCII text) the table is a parameter.
\<close>

unbundle bit_operations_syntax

section \<open>Package strings\<close>

definition ascii_upper :: "char \<Rightarrow> char" where
  "ascii_upper c = (if 97 \<le> (of_char c :: nat) \<and> (of_char c :: nat) \<le> 122
     then char_of ((of_char c :: nat) - 32) else c)"

definition ascii_lower :: "char \<Rightarrow> char" where
  "ascii_lower c = (if 65 \<le> (of_char c :: nat) \<and> (of_char c :: nat) \<le> 90
     then char_of ((of_char c :: nat) + 32) else c)"

definition is_ascii :: "string \<Rightarrow> bool" where
  "is_ascii s = list_all (\<lambda>c. (of_char c :: nat) < 128) s"

text \<open>\<open>strings.ToUpper\<close> and \<open>strings.ToLower\<close> map ASCII text byte by byte; \<open>uni\<close> stands for the Unicode
  case mapping of a text that is not all ASCII.\<close>

definition ToUpper :: "(string \<Rightarrow> string) \<Rightarrow> string \<Rightarrow> string" where
  "ToUpper uni s = (if is_ascii s then map ascii_upper s else uni s)"

definition ToLower :: "(string \<Rightarrow> string) \<Rightarrow> string \<Rightarrow> string" where
  "ToLower uni s = (if is_ascii s then map ascii_lower s else uni s)"

text \<open>The UTF-8 encodings of the code points \<open>unicode.IsSpace\<close> accepts.\<close>

definition go_spaces :: "string list" where
  "go_spaces =
    [[CHR 0x09], [CHR 0x0A], [CHR 0x0B], [CHR 0x0C], [CHR 0x0D], [CHR 0x20],
     [CHR 0xC2, CHR 0x85], [CHR 0xC2, CHR 0xA0], [CHR 0xE1, CHR 0x9A, CHR 0x80],
     [CHR 0xE2, CHR 0x80, CHR 0x80], [CHR 0xE2, CHR 0x80, CHR 0x81],
     [CHR 0xE2, CHR 0x80, CHR 0x82], [CHR 0xE2, CHR 0x80, CHR 0x83],
     [CHR 0xE2, CHR 0x80, CHR 0x84], [CHR 0xE2, CHR 0x80, CHR 0x85],
     [CHR 0xE2, CHR 0x80, CHR 0x86], [CHR 0xE2, CHR 0x80, CHR 0x87],
     [CHR 0xE2, CHR 0x80, CHR 0x88], [CHR 0xE2, CHR 0x80, CHR 0x89],
     [CHR 0xE2, CHR 0x80, CHR 0x8A], [CHR 0xE2, CHR 0x80, CHR 0xA8],
     [CHR 0xE2, CHR 0x80, CHR 0xA9], [CHR 0xE2, CHR 0x80, CHR 0xAF],
     [CHR 0xE2, CHR 0x81, CHR 0x9F], [CHR 0xE3, CHR 0x80, CHR 0x80]]"

function trim_front :: "string list \<Rightarrow> string \<Rightarrow> string" where
  "trim_front ws s = (case List.find (\<lambda>w. w \<noteq> [] \<and> take (length w) s = w) ws of
     None \<Rightarrow> s | Some w \<Rightarrow> trim_front ws (drop (length w) s))"
  by pat_completeness auto
termination
proof (relation "measure (length \<circ> snd)", goal_cases)
  case (2 ws s w)
  then have "w \<noteq> []" "take (length w) s = w" by (auto simp: find_Some_iff)
  then have "0 < length w" "length w \<le> length s" by (auto, metis length_take min.cobounded1)
  then have "length s - length w < length s" by linarith
  then show ?case by simp
qed simp

declare trim_front.simps [simp del]

definition TrimSpace :: "string \<Rightarrow> string" where
  "TrimSpace s = rev (trim_front (map rev go_spaces) (rev (trim_front go_spaces s)))"

text \<open>\<open>strings.Split(s, c)\<close> for a one-byte separator; an empty text gives one empty field.\<close>

fun Split :: "char \<Rightarrow> string \<Rightarrow> string list" where
  "Split c [] = [[]]"
| "Split c (x # xs) = (if x = c then [] # Split c xs
     else (case Split c xs of [] \<Rightarrow> [[x]] | f # fs \<Rightarrow> (x # f) # fs))"

fun Join :: "char \<Rightarrow> string list \<Rightarrow> string" where
  "Join c [] = []"
| "Join c [f] = f"
| "Join c (f # fs) = f @ c # Join c fs"

lemma Split_nonempty [simp]: "Split c s \<noteq> []"
  by (cases s) (auto split: list.split)

lemma Split_no_sep: "c \<notin> set s \<Longrightarrow> Split c s = [s]"
  by (induction s) auto

lemma Split_append_sep: "c \<notin> set f \<Longrightarrow> Split c (f @ c # s) = f # Split c s"
  by (induction f) auto

lemma Split_Join: "fs \<noteq> [] \<Longrightarrow> \<forall>f \<in> set fs. c \<notin> set f \<Longrightarrow> Split c (Join c fs) = fs"
  by (induction c fs rule: Join.induct) (auto simp: Split_no_sep Split_append_sep)

section \<open>Package strconv\<close>

text \<open>Integers of type \<open>int\<close> and \<open>int64\<close> are \<^typ>\<open>int\<close> within \<open>[-2^63, 2^63)\<close>; arithmetic that can
  overflow is followed by \<open>wrap64\<close>.\<close>

definition int64_ok :: "int \<Rightarrow> bool" where
  "int64_ok n = (- (2 ^ 63) \<le> n \<and> n < 2 ^ 63)"

definition wrap64 :: "int \<Rightarrow> int" where
  "wrap64 n = (n + 2 ^ 63) mod 2 ^ 64 - 2 ^ 63"

lemma wrap64_id: "int64_ok n \<Longrightarrow> wrap64 n = n"
  by (simp add: int64_ok_def wrap64_def)

text \<open>Go's integer division truncates towards zero.\<close>

definition quo :: "int \<Rightarrow> int \<Rightarrow> int" where
  "quo a b = sgn a * sgn b * (\<bar>a\<bar> div \<bar>b\<bar>)"

lemma quo_pos: "0 \<le> a \<Longrightarrow> 0 < b \<Longrightarrow> quo a b = a div b"
  by (cases "a = 0") (simp_all add: quo_def sgn_if)

definition digit_char :: "int \<Rightarrow> char" where
  "digit_char d = char_of (48 + nat d)"

definition is_digit :: "char \<Rightarrow> bool" where
  "is_digit c = (48 \<le> (of_char c :: nat) \<and> (of_char c :: nat) \<le> 57)"

definition digit_val :: "char \<Rightarrow> int" where
  "digit_val c = of_char c - 48"

function dec_digits :: "int \<Rightarrow> string" where
  "dec_digits n = (if n < 10 then [digit_char n]
     else dec_digits (n div 10) @ [digit_char (n mod 10)])"
  by pat_completeness auto
termination by (relation "measure nat") auto

declare dec_digits.simps [simp del]

definition digits_val :: "string \<Rightarrow> int" where
  "digits_val s = fold (\<lambda>c n. 10 * n + digit_val c) s 0"

text \<open>\<open>strconv.Itoa\<close> and \<open>strconv.FormatInt(_, 10)\<close>.\<close>

definition Itoa :: "int \<Rightarrow> string" where
  "Itoa n = (if n < 0 then CHR ''-'' # dec_digits (- n) else dec_digits n)"

text \<open>\<open>strconv.Atoi\<close>: an optional sign, then one or more decimal digits, in the range of \<open>int64\<close>.\<close>

definition Atoi :: "string \<Rightarrow> int option" where
  "Atoi s =
    (let (neg, ds) = (case s of
        [] \<Rightarrow> (False, [])
      | c # cs \<Rightarrow> if c = CHR ''-'' then (True, cs) else if c = CHR ''+'' then (False, cs)
                 else (False, s))
     in if ds = [] \<or> \<not> list_all is_digit ds then None
        else let v = (if neg then - digits_val ds else digits_val ds)
             in if int64_ok v then Some v else None)"

definition FormatBool :: "bool \<Rightarrow> string" where
  "FormatBool b = (if b then ''true'' else ''false'')"

definition ParseBool :: "string \<Rightarrow> bool option" where
  "ParseBool s =
    (if s \<in> set [''1'', ''t'', ''T'', ''TRUE'', ''true'', ''True''] then Some True
     else if s \<in> set [''0'', ''f'', ''F'', ''FALSE'', ''false'', ''False''] then Some False
     else None)"

lemma ParseBool_FormatBool [simp]: "ParseBool (FormatBool b) = Some b"
  by (simp add: ParseBool_def FormatBool_def)

lemma of_char_char_of_small: "n < 256 \<Longrightarrow> (of_char (char_of n :: char) :: nat) = n"
  by (simp add: of_char_of)

lemma digit_char_props:
  assumes "0 \<le> d" "d < 10"
  shows "is_digit (digit_char d)" "digit_val (digit_char d) = d"
proof -
  have "(of_char (digit_char d) :: nat) = 48 + nat d"
    using assms by (simp add: digit_char_def of_char_char_of_small)
  moreover then have "(of_char (digit_char d) :: int) = 48 + d"
    using assms by (metis int_nat_eq of_nat_add of_nat_numeral of_nat_of_char)
  ultimately show "is_digit (digit_char d)" "digit_val (digit_char d) = d"
    using assms by (simp_all add: is_digit_def digit_val_def)
qed

lemma digits_val_snoc: "digits_val (s @ [c]) = 10 * digits_val s + digit_val c"
  by (simp add: digits_val_def)

lemma dec_digits_all_digits: "0 \<le> n \<Longrightarrow> list_all is_digit (dec_digits n)"
proof (induction n rule: dec_digits.induct)
  case (1 n)
  then show ?case by (subst dec_digits.simps) (auto simp: digit_char_props)
qed

lemma dec_digits_not_Nil [simp]: "dec_digits n \<noteq> []"
  by (subst dec_digits.simps) simp

lemma digits_val_dec_digits: "0 \<le> n \<Longrightarrow> digits_val (dec_digits n) = n"
proof (induction n rule: dec_digits.induct)
  case (1 n)
  show ?case
  proof (cases "n < 10")
    case True
    with 1 show ?thesis by (subst dec_digits.simps) (simp add: digits_val_def digit_char_props)
  next
    case False
    with 1 show ?thesis by (subst dec_digits.simps) (simp add: digits_val_snoc digit_char_props)
  qed
qed

lemma is_digit_sign [simp]: "\<not> is_digit CHR ''-''" "\<not> is_digit CHR ''+''"
  by (simp_all add: is_digit_def)

lemma Atoi_Itoa: "int64_ok n \<Longrightarrow> Atoi (Itoa n) = Some n"
proof -
  assume ok: "int64_ok n"
  show ?thesis
  proof (cases "n < 0")
    case True
    with ok show ?thesis
      by (simp add: Itoa_def Atoi_def dec_digits_all_digits digits_val_dec_digits)
  next
    case False
    obtain c cs where cs: "dec_digits n = c # cs" by (cases "dec_digits n") auto
    with False dec_digits_all_digits [of n] have "is_digit c" by simp
    then have "c \<noteq> CHR ''-''" "c \<noteq> CHR ''+''" by auto
    with False ok cs dec_digits_all_digits [of n] digits_val_dec_digits [of n]
    show ?thesis by (simp add: Itoa_def Atoi_def)
  qed
qed

section \<open>Trimming\<close>

text \<open>A text that starts and ends with bytes that begin or end no white space is left alone.\<close>

definition plain_char :: "char \<Rightarrow> bool" where
  "plain_char c = (33 \<le> (of_char c :: nat) \<and> (of_char c :: nat) < 128)"

lemma trim_front_plain:
  assumes "list_all (\<lambda>w. w = [] \<or> \<not> plain_char (hd w)) ws" "plain_char c"
  shows "trim_front ws (c # s) = c # s"
proof -
  have "List.find (\<lambda>w. w \<noteq> [] \<and> take (length w) (c # s) = w) ws = None"
    using assms by (auto simp: find_None_iff list_all_iff take_Cons split: nat.splits)
  then show ?thesis by (subst trim_front.simps) simp
qed

lemma go_spaces_not_plain:
  "list_all (\<lambda>w. w = [] \<or> \<not> plain_char (hd w)) go_spaces"
  "list_all (\<lambda>w. w = [] \<or> \<not> plain_char (hd w)) (map rev go_spaces)"
  by (simp_all add: go_spaces_def plain_char_def)

lemma trim_front_Nil [simp]: "trim_front ws [] = []"
  by (subst trim_front.simps) (auto split: option.split simp: find_Some_iff)

lemma TrimSpace_plain:
  assumes "s = [] \<or> (plain_char (hd s) \<and> plain_char (last s))"
  shows "TrimSpace s = s"
proof (cases "s = []")
  case False
  then obtain c cs where s: "s = c # cs" by (cases s) auto
  from False obtain d ds where r: "rev s = d # ds" by (cases "rev s") auto
  then have "d = last s" by (metis hd_rev list.sel(1))
  with False assms have "plain_char c" "plain_char d" by (auto simp: s)
  then have "trim_front go_spaces s = s" "trim_front (map rev go_spaces) (rev s) = rev s"
    by (simp only: s trim_front_plain [OF go_spaces_not_plain(1)],
        simp only: r trim_front_plain [OF go_spaces_not_plain(2)])
  then show ?thesis by (simp add: TrimSpace_def)
qed (simp add: TrimSpace_def)

lemma ascii_upper_id:
  "65 \<le> (of_char c :: nat) \<Longrightarrow> (of_char c :: nat) \<le> 90 \<Longrightarrow> ascii_upper c = c"
  by (simp add: ascii_upper_def)

section \<open>Package time\<close>

text \<open>A \<open>time.Time\<close> is its offset from the Unix epoch in nanoseconds; the zero time is year 1.  A
  \<open>time.Duration\<close> is a number of nanoseconds.\<close>

type_synonym time = int
type_synonym duration = int

definition time_zero :: time where
  "time_zero = -62135596800 * 10 ^ 9"

definition Second :: duration where
  "Second = 10 ^ 9"

definition Unix :: "time \<Rightarrow> int" where
  "Unix t = t div 10 ^ 9"

definition time_Unix :: "int \<Rightarrow> time" where
  "time_Unix s = s * 10 ^ 9"

lemma Unix_time_Unix [simp]: "Unix (time_Unix s) = s"
  by (simp add: Unix_def time_Unix_def)

section \<open>Packages net and net/netip\<close>

text \<open>Dotted-quad IPv4 addresses as \<open>netip.parseIPv4\<close> reads them: four decimal fields of at most
  three digits without leading zeros, each at most 255.\<close>

definition ipv4_field :: "string \<Rightarrow> int option" where
  "ipv4_field f = (if f = [] \<or> length f > 3 \<or> \<not> list_all is_digit f
       \<or> (length f > 1 \<and> hd f = CHR ''0'') \<or> digits_val f > 255
     then None else Some (digits_val f))"

definition ParseAddr4 :: "string \<Rightarrow> 32 word option" where
  "ParseAddr4 s = (case Split CHR ''.'' s of
     [a, b, c, d] \<Rightarrow> (case (ipv4_field a, ipv4_field b, ipv4_field c, ipv4_field d) of
        (Some w, Some x, Some y, Some z) \<Rightarrow>
          Some (word_of_int (((w * 256 + x) * 256 + y) * 256 + z))
      | _ \<Rightarrow> None)
   | _ \<Rightarrow> None)"

text \<open>The text before and after the last slash.\<close>

definition cut_last_slash :: "string \<Rightarrow> (string \<times> string) option" where
  "cut_last_slash s = (if CHR ''/'' \<in> set s
     then Some (rev (tl (dropWhile (\<lambda>c. c \<noteq> CHR ''/'') (rev s))),
                rev (takeWhile (\<lambda>c. c \<noteq> CHR ''/'') (rev s)))
     else None)"

text \<open>\<open>netip.ParsePrefix\<close> restricted to IPv4: the address is kept unmasked.\<close>

definition ParsePrefix4 :: "string \<Rightarrow> (32 word \<times> nat) option" where
  "ParsePrefix4 s = (case cut_last_slash s of
     None \<Rightarrow> None
   | Some (a, b) \<Rightarrow> (case ParseAddr4 a of
        None \<Rightarrow> None
      | Some ip \<Rightarrow>
          if length b > 1 \<and> \<not> (CHR ''1'' \<le> hd b \<and> hd b \<le> CHR ''9'') then None
          else (case Atoi b of
              None \<Rightarrow> None
            | Some n \<Rightarrow> if n < 0 \<or> n > 32 then None else Some (ip, nat n))))"

text \<open>\<open>Prefix.Contains\<close>: the leading bits agree.\<close>

definition prefix_contains :: "32 word \<times> nat \<Rightarrow> 32 word \<Rightarrow> bool" where
  "prefix_contains p a = (drop_bit (32 - snd p) a = drop_bit (32 - snd p) (fst p))"

definition is_hex :: "char \<Rightarrow> bool" where
  "is_hex c = (is_digit c \<or> c \<in> set ''abcdefABCDEF'')"

text \<open>The group loop of \<open>netip.parseIPv6\<close>; \<open>i\<close> counts the bytes filled, \<open>ell\<close> tells whether the
  ellipsis was seen.\<close>

function ipv6_groups :: "nat \<Rightarrow> bool \<Rightarrow> string \<Rightarrow> bool" where
  "ipv6_groups i ell s =
    (if 16 \<le> i then s = [] \<and> \<not> ell
     else
       let g = takeWhile is_hex s; r = dropWhile is_hex s in
       if g = [] \<or> length g > 4 then False
       else if r \<noteq> [] \<and> hd r = CHR ''.'' then
         (if \<not> ell \<and> i \<noteq> 12 then False
          else if i + 4 > 16 then False
          else case ParseAddr4 s of None \<Rightarrow> False | Some _ \<Rightarrow>
            (if i + 4 < 16 then ell else \<not> ell))
       else if r = [] then (if i + 2 < 16 then ell else \<not> ell)
       else if hd r \<noteq> CHR '':'' then False
       else if tl r = [] then False
       else if hd (tl r) = CHR '':'' then
         (if ell then False
          else if tl (tl r) = [] then i + 2 < 16
          else ipv6_groups (i + 2) True (tl (tl r)))
       else ipv6_groups (i + 2) ell (tl r))"
  by pat_completeness auto
termination by (relation "measure (\<lambda>(i, _, _). 16 - i)") auto

declare ipv6_groups.simps [simp del]

text \<open>\<open>net.ParseIP(s) != nil\<close>: an IPv4 address or an IPv6 address without a zone.\<close>

definition ParseIP_ok :: "string \<Rightarrow> bool" where
  "ParseIP_ok s = (ParseAddr4 s \<noteq> None \<or>
     (CHR ''%'' \<notin> set s \<and> CHR '':'' \<in> set s \<and>
      (if take 2 s = ''::'' then (if drop 2 s = [] then True else ipv6_groups 0 True (drop 2 s))
       else ipv6_groups 0 False s)))"

end
