(* ===== verification/Go_Json.thy ===== *)
theory Go_Json
  imports Go_Std
begin

text \<open>
  \<open>json.Valid\<close> of Go's standard library, which guards the stored tunnel configuration: the byte-wise
  scanner with its stack of open objects and arrays, run over the whole text.
\<close>

datatype json_open = ParseObjectKey | ParseObjectValue | ParseArrayValue

datatype json_step = BeginValue | BeginValueOrEmpty | BeginString | BeginStringOrEmpty | EndValue
  | EndTop | InString | InEsc | InEscU nat | Neg | Num1 | Num0 | Dot | Dot0 | ExpE | ExpSign | Exp0
  | Lit string

type_synonym json_scan = "json_step \<times> json_open list"

definition json_space :: "char \<Rightarrow> bool" where
  "json_space c = (c \<in> set [CHR '' '', CHR 0x09, CHR 0x0A, CHR 0x0D])"

definition json_push :: "json_step \<Rightarrow> json_open \<Rightarrow> json_open list \<Rightarrow> json_scan option" where
  "json_push st p stack = (if length stack \<ge> 10000 then None else Some (st, p # stack))"

definition json_pop :: "json_open list \<Rightarrow> json_scan option" where
  "json_pop stack = (if tl stack = [] then Some (EndTop, []) else Some (EndValue, tl stack))"

definition begin_value :: "char \<Rightarrow> json_open list \<Rightarrow> json_scan option" where
  "begin_value c stack =
    (if json_space c then Some (BeginValue, stack)
     else if c = CHR ''{'' then json_push BeginStringOrEmpty ParseObjectKey stack
     else if c = CHR ''['' then json_push BeginValueOrEmpty ParseArrayValue stack
     else if c = CHR 0x22 then Some (InString, stack)
     else if c = CHR ''-'' then Some (Neg, stack)
     else if c = CHR ''0'' then Some (Num0, stack)
     else if c = CHR ''t'' then Some (Lit ''rue'', stack)
     else if c = CHR ''f'' then Some (Lit ''alse'', stack)
     else if c = CHR ''n'' then Some (Lit ''ull'', stack)
     else if is_digit c then Some (Num1, stack) else None)"

definition begin_string :: "char \<Rightarrow> json_open list \<Rightarrow> json_scan option" where
  "begin_string c stack =
    (if json_space c then Some (BeginString, stack)
     else if c = CHR 0x22 then Some (InString, stack) else None)"

fun end_value :: "char \<Rightarrow> json_open list \<Rightarrow> json_scan option" where
  "end_value c [] = (if json_space c then Some (EndTop, []) else None)"
| "end_value c (p # stack) =
    (if json_space c then Some (EndValue, p # stack)
     else case p of
       ParseObjectKey \<Rightarrow> if c = CHR '':'' then Some (BeginValue, ParseObjectValue # stack) else None
     | ParseObjectValue \<Rightarrow>
         if c = CHR '','' then Some (BeginString, ParseObjectKey # stack)
         else if c = CHR ''}'' then json_pop (p # stack) else None
     | ParseArrayValue \<Rightarrow>
         if c = CHR '','' then Some (BeginValue, p # stack)
         else if c = CHR '']'' then json_pop (p # stack) else None)"

fun json_next :: "json_scan \<Rightarrow> char \<Rightarrow> json_scan option" where
  "json_next (BeginValue, k) c = begin_value c k"
| "json_next (BeginValueOrEmpty, k) c =
    (if json_space c then Some (BeginValueOrEmpty, k)
     else if c = CHR '']'' then end_value c k else begin_value c k)"
| "json_next (BeginString, k) c = begin_string c k"
| "json_next (BeginStringOrEmpty, k) c =
    (if json_space c then Some (BeginStringOrEmpty, k)
     else if c = CHR ''}'' then end_value c (ParseObjectValue # tl k) else begin_string c k)"
| "json_next (EndValue, k) c = end_value c k"
| "json_next (EndTop, k) c = (if json_space c then Some (EndTop, k) else None)"
| "json_next (InString, k) c =
    (if c = CHR 0x22 then Some (EndValue, k)
     else if c = CHR 0x5C then Some (InEsc, k)
     else if (of_char c :: nat) < 32 then None else Some (InString, k))"
| "json_next (InEsc, k) c =
    (if c \<in> set (CHR 0x5C # CHR 0x22 # ''/bfnrt'') then Some (InString, k)
     else if c = CHR ''u'' then Some (InEscU 3, k) else None)"
| "json_next (InEscU n, k) c =
    (if is_hex c then Some (if n = 0 then InString else InEscU (n - 1), k) else None)"
| "json_next (Neg, k) c =
    (if c = CHR ''0'' then Some (Num0, k) else if is_digit c then Some (Num1, k) else None)"
| "json_next (Num1, k) c =
    (if is_digit c then Some (Num1, k)
     else if c = CHR ''.'' then Some (Dot, k)
     else if c = CHR ''e'' \<or> c = CHR ''E'' then Some (ExpE, k) else end_value c k)"
| "json_next (Num0, k) c =
    (if c = CHR ''.'' then Some (Dot, k)
     else if c = CHR ''e'' \<or> c = CHR ''E'' then Some (ExpE, k) else end_value c k)"
| "json_next (Dot, k) c = (if is_digit c then Some (Dot0, k) else None)"
| "json_next (Dot0, k) c =
    (if is_digit c then Some (Dot0, k)
     else if c = CHR ''e'' \<or> c = CHR ''E'' then Some (ExpE, k) else end_value c k)"
| "json_next (ExpE, k) c =
    (if c = CHR ''+'' \<or> c = CHR ''-'' then Some (ExpSign, k)
     else if is_digit c then Some (Exp0, k) else None)"
| "json_next (ExpSign, k) c = (if is_digit c then Some (Exp0, k) else None)"
| "json_next (Exp0, k) c = (if is_digit c then Some (Exp0, k) else end_value c k)"
| "json_next (Lit [], k) c = end_value c k"
| "json_next (Lit (d # ds), k) c =
    (if c = d then Some (if ds = [] then EndValue else Lit ds, k) else None)"

fun json_run :: "json_scan \<Rightarrow> string \<Rightarrow> json_scan option" where
  "json_run st [] = Some st"
| "json_run st (c # cs) = (case json_next st c of None \<Rightarrow> None | Some st' \<Rightarrow> json_run st' cs)"

text \<open>The end of the text counts as one more space.\<close>

definition json_Valid :: "string \<Rightarrow> bool" where
  "json_Valid s = (case json_run (BeginValue, []) s of
     None \<Rightarrow> False
   | Some st \<Rightarrow> (case json_next st CHR '' '' of None \<Rightarrow> False | Some (st', _) \<Rightarrow> st' = EndTop))"

end
