(* ===== verification/Store_Model.thy ===== *)
theory Store_Model
  imports Go_Json
begin

text \<open>
  \<open>internal/store/model.go\<close>: tunnels, rules and peers, and the checks each goes through before it is
  written.  Enumerations of the source are strings there (a value of another spelling is
  representable and refused by the checks), so they are strings here too.  The error values are the
  sentinels of \<open>store.go\<close> and \<open>auth.go\<close>; \<open>ErrOther\<close> is an error that wraps none of them.  The texts of
  the messages are not modelled.
\<close>

datatype err = ErrConflict | ErrNotFound | ErrInUse | ErrInvalid | ErrPasswordChanged
  | ErrNoPassword | ErrOther

abbreviation TunnelWireGuard :: string where "TunnelWireGuard \<equiv> ''wireguard''"
abbreviation TunnelVLESS :: string where "TunnelVLESS \<equiv> ''vless''"
abbreviation TunnelShadowsocks :: string where "TunnelShadowsocks \<equiv> ''shadowsocks''"
abbreviation TunnelTrojan :: string where "TunnelTrojan \<equiv> ''trojan''"
abbreviation TunnelHysteria2 :: string where "TunnelHysteria2 \<equiv> ''hysteria2''"
abbreviation TunnelSOCKS :: string where "TunnelSOCKS \<equiv> ''socks''"
abbreviation TunnelRaw :: string where "TunnelRaw \<equiv> ''raw''"

abbreviation SourceURL :: string where "SourceURL \<equiv> ''url''"
abbreviation SourceWGConf :: string where "SourceWGConf \<equiv> ''wg_conf''"
abbreviation SourceJSON :: string where "SourceJSON \<equiv> ''json''"
abbreviation SourcePool :: string where "SourcePool \<equiv> ''pool''"
abbreviation SourceWARP :: string where "SourceWARP \<equiv> ''warp''"

abbreviation ActionTunnel :: string where "ActionTunnel \<equiv> ''tunnel''"
abbreviation ActionDirect :: string where "ActionDirect \<equiv> ''direct''"
abbreviation ActionBlock :: string where "ActionBlock \<equiv> ''block''"

abbreviation ScopeAll :: string where "ScopeAll \<equiv> ''all''"
abbreviation ScopeSelected :: string where "ScopeSelected \<equiv> ''selected''"

definition TunnelTypes :: "string list" where
  "TunnelTypes = [TunnelWireGuard, TunnelVLESS, TunnelShadowsocks, TunnelTrojan, TunnelHysteria2,
     TunnelSOCKS, TunnelRaw]"

definition RuleActions :: "string list" where
  "RuleActions = [ActionTunnel, ActionDirect, ActionBlock]"

record pool_server =
  ps_url :: string
  ps_country :: string
  ps_title :: string
  ps_ping_ms :: int
  ps_misses :: int

record tunnel =
  t_id :: string
  t_name :: string
  t_type :: string
  t_source :: string
  t_raw :: string
  t_parsed :: string
  t_enabled :: bool
  t_created_at :: time
  t_pool :: "pool_server list"
  t_pool_updated_at :: time
  t_builtin :: bool
  t_country :: string

record rule =
  r_id :: string
  r_name :: string
  r_action :: string
  r_tunnel_id :: string
  r_via_tunnel_id :: string
  r_priority :: int
  r_enabled :: bool
  r_community_lists :: "string list"
  r_domains :: "string list"
  r_subnets :: "string list"
  r_remote_lists :: "string list"
  r_peer_scope :: string
  r_peer_ids :: "string list"
  r_resolve_real_ip :: bool

record peer =
  p_wireguard_disabled :: bool
  p_reality_enabled :: bool
  p_reality_credential_id :: string
  p_reality_revision :: int
  p_egress_tunnel_id :: "string option"
  p_id :: string
  p_name :: string
  p_public_key :: string
  p_private_key :: string
  p_preshared_key :: string
  p_address :: string
  p_enabled :: bool
  p_created_at :: time

section \<open>Tunnel.validate\<close>

text \<open>The switch over the form in which the configuration was entered.\<close>

definition validate_source :: "tunnel \<Rightarrow> err + unit" where
  "validate_source t =
    (if t_source t = SourcePool then
       (if t_type t \<in> set [TunnelWireGuard, TunnelRaw, []] then Inl ErrInvalid
        else if t_parsed t \<noteq> [] then Inl ErrInvalid
        else if \<exists>s \<in> set (t_pool t). ps_url s = [] then Inl ErrInvalid
        else Inr ())
     else if t_source t = SourceWARP then
       (if t_type t \<noteq> TunnelWireGuard then Inl ErrInvalid
        else if t_pool t \<noteq> [] then Inl ErrInvalid
        else Inr ())
     else if t_source t \<in> set [SourceURL, SourceWGConf, SourceJSON] then
       (if t_pool t \<noteq> [] then Inl ErrInvalid else Inr ())
     else Inl ErrInvalid)"

definition tunnel_validate :: "tunnel \<Rightarrow> err + unit" where
  "tunnel_validate t =
    (if t_name t = [] then Inl ErrInvalid
     else if t_type t \<notin> set TunnelTypes then Inl ErrInvalid
     else bindR (validate_source t) (\<lambda>_.
       if t_builtin t \<and> t_source t \<noteq> SourcePool then Inl ErrInvalid
       else if t_country t \<noteq> [] \<and> t_source t \<noteq> SourcePool then Inl ErrInvalid
       else if t_raw t = [] then Inl ErrInvalid
       else if t_parsed t \<noteq> [] \<and> \<not> json_Valid (t_parsed t) then Inl ErrInvalid
       else Inr ()))"

section \<open>Rule.validate\<close>

definition rule_validate :: "rule \<Rightarrow> err + unit" where
  "rule_validate r =
    (if r_name r = [] then Inl ErrInvalid
     else if r_action r \<notin> set RuleActions then Inl ErrInvalid
     else if r_action r = ActionTunnel \<and> r_tunnel_id r = [] then Inl ErrInvalid
     else if r_action r \<in> set [ActionDirect, ActionBlock] \<and> r_tunnel_id r \<noteq> [] then Inl ErrInvalid
     else if r_resolve_real_ip r \<and> r_action r = ActionTunnel \<and> r_subnets r = []
       \<and> r_remote_lists r = [] \<and> r_community_lists r = [] then Inl ErrInvalid
     else if r_community_lists r = [] \<and> r_remote_lists r = [] \<and> r_domains r = []
       \<and> r_subnets r = [] then Inl ErrInvalid
     else if r_via_tunnel_id r \<noteq> [] \<and> r_action r \<noteq> ActionTunnel then Inl ErrInvalid
     else if r_peer_scope r = ScopeAll then
       (if r_peer_ids r \<noteq> [] then Inl ErrInvalid else Inr ())
     else if r_peer_scope r = ScopeSelected then
       (if r_peer_ids r = [] \<and> r_enabled r then Inl ErrInvalid else Inr ())
     else Inl ErrInvalid)"

section \<open>Peer.validate\<close>

definition peer_validate :: "peer \<Rightarrow> err + unit" where
  "peer_validate p =
    (if p_enabled p \<and> p_wireguard_disabled p \<and> \<not> p_reality_enabled p then Inl ErrInvalid
     else if p_name p = [] then Inl ErrInvalid
     else if p_public_key p = [] \<or> p_private_key p = [] \<or> p_preshared_key p = [] then Inl ErrInvalid
     else if p_address p = [] then Inl ErrInvalid
     else Inr ())"

section \<open>What the checks promise\<close>

text \<open>Every refusal of the three checks is \<open>ErrInvalid\<close>, so callers map it to one API code.\<close>

lemma validate_errors:
  "tunnel_validate t = Inl e \<Longrightarrow> e = ErrInvalid"
  "rule_validate r = Inl e \<Longrightarrow> e = ErrInvalid"
  "peer_validate p = Inl e \<Longrightarrow> e = ErrInvalid"
  by (auto simp: tunnel_validate_def validate_source_def rule_validate_def peer_validate_def
      bindR_Inl_iff split: if_splits)

text \<open>A rule that can be written has a target exactly when it routes to a tunnel, has a second
  link only with a first one, and always has a match condition.\<close>

lemma rule_validate_ok:
  assumes "rule_validate r = Inr ()"
  shows "r_action r = ActionTunnel \<longleftrightarrow> r_tunnel_id r \<noteq> []"
    "r_via_tunnel_id r \<noteq> [] \<Longrightarrow> r_tunnel_id r \<noteq> []"
    "r_community_lists r \<noteq> [] \<or> r_remote_lists r \<noteq> [] \<or> r_domains r \<noteq> [] \<or> r_subnets r \<noteq> []"
    "r_peer_scope r \<noteq> ScopeSelected \<Longrightarrow> r_peer_ids r = []"
    "r_enabled r \<Longrightarrow> r_peer_scope r = ScopeSelected \<Longrightarrow> r_peer_ids r \<noteq> []"
    "r_peer_scope r = ScopeAll \<or> r_peer_scope r = ScopeSelected"
  using assms by (auto simp: rule_validate_def RuleActions_def split: if_splits)

lemma tunnel_validate_ok:
  assumes "tunnel_validate t = Inr ()"
  shows "t_builtin t \<Longrightarrow> t_source t = SourcePool" "t_raw t \<noteq> []" "t_name t \<noteq> []"
    "t_pool t \<noteq> [] \<Longrightarrow> t_source t = SourcePool"
    "t_source t = SourcePool \<Longrightarrow> t_type t \<noteq> TunnelWireGuard \<and> t_parsed t = []"
    "t_source t = SourceWARP \<Longrightarrow> t_type t = TunnelWireGuard"
  using assms
  by (auto simp: tunnel_validate_def validate_source_def bindR_Inr_iff split: if_splits)

lemma peer_validate_ok:
  "peer_validate p = Inr () \<Longrightarrow> p_enabled p \<Longrightarrow> \<not> p_wireguard_disabled p \<or> p_reality_enabled p"
  by (auto simp: peer_validate_def split: if_splits)

end
