(* ===== verification/Store_Db.thy ===== *)
theory Store_Db
  imports Store_Model
begin

text \<open>
  The SQLite database behind \<open>internal/store\<close>: the tables of \<open>migrate.go\<close> at the last schema version
  as lists of rows in insertion order, the constraints the schema declares (primary keys, \<open>UNIQUE\<close>,
  foreign keys with \<open>RESTRICT\<close> or \<open>CASCADE\<close>), the statements the Go code sends, and the transaction
  wrapper of \<open>store.go\<close>.  A statement that breaks a constraint fails and changes nothing.  Columns
  holding JSON texts of lists hold the lists.  Failures of the driver itself (I/O, cancelled
  contexts) are not modelled.
\<close>

section \<open>Tables\<close>

record tunnel_row =
  tr_id :: string
  tr_name :: string
  tr_type :: string
  tr_source :: string
  tr_raw :: string
  tr_parsed :: string
  tr_enabled :: bool
  tr_created_at :: int
  tr_pool :: "pool_server list"
  tr_pool_updated_at :: int
  tr_builtin :: bool
  tr_country :: string

text \<open>\<open>tunnel_id\<close> and \<open>via_tunnel_id\<close> are nullable columns.\<close>

record rule_row =
  rr_id :: string
  rr_name :: string
  rr_action :: string
  rr_tunnel_id :: "string option"
  rr_via_tunnel_id :: "string option"
  rr_priority :: int
  rr_enabled :: bool
  rr_community_lists :: "string list"
  rr_domains :: "string list"
  rr_subnets :: "string list"
  rr_remote_lists :: "string list"
  rr_peer_scope :: string
  rr_peer_ids :: "string list"
  rr_resolve_real_ip :: bool

record peer_row =
  pr_id :: string
  pr_name :: string
  pr_public_key :: string
  pr_private_key :: string
  pr_preshared_key :: string
  pr_address :: string
  pr_enabled :: bool
  pr_created_at :: int
  pr_egress_tunnel_id :: "string option"
  pr_wireguard_disabled :: bool
  pr_reality_enabled :: bool
  pr_reality_credential_id :: string
  pr_reality_revision :: int

record session_row =
  sr_token_hash :: string
  sr_created_at :: int
  sr_expires_at :: int

record check_row =
  cr_tunnel_id :: string
  cr_status :: string
  cr_checked_at :: int
  cr_notified_status :: string
  cr_ok_at :: int

record warp_row =
  wr_tunnel_id :: string
  wr_device_id :: string
  wr_access_token :: string
  wr_created_at :: int

record identity_row =
  ir_identity_id :: string
  ir_private_key :: string
  ir_short_id :: string

record cred_row =
  kr_peer_id :: string
  kr_credential_id :: string
  kr_revision :: int
  kr_uuid :: string

text \<open>\<open>reality_identity\<close> has at most the row with \<open>singleton = 1\<close>.\<close>

record db =
  db_tunnels :: "tunnel_row list"
  db_rules :: "rule_row list"
  db_peers :: "peer_row list"
  db_settings :: "(string \<times> string) list"
  db_sessions :: "session_row list"
  db_checks :: "check_row list"
  db_warp :: "warp_row list"
  db_identity :: "identity_row option"
  db_creds :: "cred_row list"

definition empty_db :: db where
  "empty_db = \<lparr>db_tunnels = [], db_rules = [], db_peers = [], db_settings = [], db_sessions = [],
     db_checks = [], db_warp = [], db_identity = None, db_creds = []\<rparr>"

section \<open>Constraints of the schema\<close>

definition tunnel_ids :: "db \<Rightarrow> string set" where
  "tunnel_ids s = tr_id ` set (db_tunnels s)"

definition peer_ids :: "db \<Rightarrow> string set" where
  "peer_ids s = pr_id ` set (db_peers s)"

lemma tunnel_ids_upd [simp]:
  "tunnel_ids (s\<lparr>db_rules := a\<rparr>) = tunnel_ids s" "tunnel_ids (s\<lparr>db_peers := b\<rparr>) = tunnel_ids s"
  "tunnel_ids (s\<lparr>db_settings := c\<rparr>) = tunnel_ids s" "tunnel_ids (s\<lparr>db_sessions := d\<rparr>) = tunnel_ids s"
  "tunnel_ids (s\<lparr>db_checks := e\<rparr>) = tunnel_ids s" "tunnel_ids (s\<lparr>db_warp := f\<rparr>) = tunnel_ids s"
  "tunnel_ids (s\<lparr>db_identity := g\<rparr>) = tunnel_ids s" "tunnel_ids (s\<lparr>db_creds := h\<rparr>) = tunnel_ids s"
  "tunnel_ids (s\<lparr>db_tunnels := t\<rparr>) = tr_id ` set t"
  by (simp_all add: tunnel_ids_def)

lemma peer_ids_upd [simp]:
  "peer_ids (s\<lparr>db_rules := a\<rparr>) = peer_ids s" "peer_ids (s\<lparr>db_tunnels := b\<rparr>) = peer_ids s"
  "peer_ids (s\<lparr>db_settings := c\<rparr>) = peer_ids s" "peer_ids (s\<lparr>db_sessions := d\<rparr>) = peer_ids s"
  "peer_ids (s\<lparr>db_checks := e\<rparr>) = peer_ids s" "peer_ids (s\<lparr>db_warp := f\<rparr>) = peer_ids s"
  "peer_ids (s\<lparr>db_identity := g\<rparr>) = peer_ids s" "peer_ids (s\<lparr>db_creds := h\<rparr>) = peer_ids s"
  "peer_ids (s\<lparr>db_peers := p\<rparr>) = pr_id ` set p"
  by (simp_all add: peer_ids_def)

text \<open>A nullable reference is satisfied by NULL or by an existing row.\<close>

definition ref_ok :: "string set \<Rightarrow> string option \<Rightarrow> bool" where
  "ref_ok ids r = (case r of None \<Rightarrow> True | Some i \<Rightarrow> i \<in> ids)"

lemma ref_ok_simps [simp]: "ref_ok ids None" "ref_ok ids (Some i) \<longleftrightarrow> i \<in> ids"
  by (simp_all add: ref_ok_def)

lemma ref_ok_mono: "ref_ok A r \<Longrightarrow> A \<subseteq> B \<Longrightarrow> ref_ok B r"
  by (cases r) auto

lemma ref_ok_remove: "ref_ok A r \<Longrightarrow> r \<noteq> Some i \<Longrightarrow> ref_ok (A - {i}) r"
  by (cases r) auto

definition tunnels_ok :: "tunnel_row list \<Rightarrow> bool" where
  "tunnels_ok ts \<longleftrightarrow> distinct (map tr_id ts) \<and> distinct (map tr_name ts)"

definition rules_ok :: "string set \<Rightarrow> rule_row list \<Rightarrow> bool" where
  "rules_ok tids rs \<longleftrightarrow> distinct (map rr_id rs) \<and> distinct (map rr_priority rs) \<and>
     (\<forall>r \<in> set rs. ref_ok tids (rr_tunnel_id r) \<and> ref_ok tids (rr_via_tunnel_id r))"

definition peers_ok :: "string set \<Rightarrow> peer_row list \<Rightarrow> bool" where
  "peers_ok tids ps \<longleftrightarrow> distinct (map pr_id ps) \<and> distinct (map pr_public_key ps) \<and>
     distinct (map pr_address ps) \<and> (\<forall>p \<in> set ps. ref_ok tids (pr_egress_tunnel_id p))"

definition checks_ok :: "string set \<Rightarrow> check_row list \<Rightarrow> bool" where
  "checks_ok tids cs \<longleftrightarrow> distinct (map cr_tunnel_id cs) \<and> cr_tunnel_id ` set cs \<subseteq> tids"

definition warp_ok :: "string set \<Rightarrow> warp_row list \<Rightarrow> bool" where
  "warp_ok tids ws \<longleftrightarrow> distinct (map wr_tunnel_id ws) \<and> wr_tunnel_id ` set ws \<subseteq> tids"

definition creds_ok :: "string set \<Rightarrow> cred_row list \<Rightarrow> bool" where
  "creds_ok pids ks \<longleftrightarrow> distinct (map kr_peer_id ks) \<and> distinct (map kr_credential_id ks) \<and>
     distinct (map kr_uuid ks) \<and> kr_peer_id ` set ks \<subseteq> pids"

definition schema_ok :: "db \<Rightarrow> bool" where
  "schema_ok s \<longleftrightarrow> tunnels_ok (db_tunnels s) \<and> rules_ok (tunnel_ids s) (db_rules s) \<and>
     peers_ok (tunnel_ids s) (db_peers s) \<and> checks_ok (tunnel_ids s) (db_checks s) \<and>
     warp_ok (tunnel_ids s) (db_warp s) \<and> creds_ok (peer_ids s) (db_creds s) \<and>
     distinct (map fst (db_settings s)) \<and> distinct (map sr_token_hash (db_sessions s))"

lemma schema_ok_empty: "schema_ok empty_db"
  by (simp add: schema_ok_def empty_db_def tunnels_ok_def rules_ok_def peers_ok_def checks_ok_def
      warp_ok_def creds_ok_def)

section \<open>Statements and transactions\<close>

text \<open>What the driver reports; the Go code recognises the two kinds by their texts.\<close>

datatype sql_err = UNIQUE_failed | FOREIGN_KEY_failed

text \<open>\<open>Store.tx\<close>: commit the state of a successful body, roll back otherwise.\<close>

definition tx :: "(db \<Rightarrow> err + 'a \<times> db) \<Rightarrow> db \<Rightarrow> (err + 'a) \<times> db" where
  "tx body s = (case body s of Inl e \<Rightarrow> (Inl e, s) | Inr (a, s') \<Rightarrow> (Inr a, s'))"

text \<open>\<open>checkAffected\<close>: a statement that matched no row is \<open>ErrNotFound\<close>.\<close>

definition checkAffected :: "nat \<Rightarrow> err + unit" where
  "checkAffected n = (if n = 0 then Inl ErrNotFound else Inr ())"

lemma checkAffected_ok [simp]: "checkAffected n = Inr u \<longleftrightarrow> n \<noteq> 0"
  by (simp add: checkAffected_def)

lemma tx_Inr: "tx body s = (Inr a, s') \<longleftrightarrow> body s = Inr (a, s')"
  by (cases "body s") (auto simp: tx_def)

lemma tx_Inl: "tx body s = (Inl e, s') \<longleftrightarrow> body s = Inl e \<and> s' = s"
  by (cases "body s") (auto simp: tx_def)

lemma length_filter_0_iff: "length (filter p xs) = 0 \<longleftrightarrow> (\<forall>x \<in> set xs. \<not> p x)"
  by (induction xs) auto

text \<open>The contract every operation of the store offers: a refused operation leaves the state
  untouched, and an accepted one keeps the invariant.  The argument holds what the call draws from
  outside as well (fresh identifiers, the clock); \<open>ok\<close> says what is relied on about it.\<close>

locale store_op =
  fixes run :: "'arg \<Rightarrow> db \<Rightarrow> (err + 'a) \<times> db" and inv :: "db \<Rightarrow> bool" and ok :: "'arg \<Rightarrow> bool"
  assumes rollback: "run x s = (Inl e, s') \<Longrightarrow> s' = s"
    and keeps: "inv s \<Longrightarrow> ok x \<Longrightarrow> run x s = (Inr a, s') \<Longrightarrow> inv s'"
begin

lemma step_inv: "inv s \<Longrightarrow> ok x \<Longrightarrow> inv (snd (run x s))"
  by (cases "run x s"; cases "fst (run x s)") (auto dest: rollback intro: keeps)

text \<open>A property of states that accepted calls keep is kept by every call.\<close>

lemma lift_step:
  assumes "\<And>a s'. run x s = (Inr a, s') \<Longrightarrow> P s'" "P s"
  shows "P (snd (run x s))"
  using assms by (cases "run x s"; cases "fst (run x s)") (auto dest: rollback)

end

end
