(* ===== verification/Store_Rules.thy ===== *)
theory Store_Rules
  imports Store_Db
begin

text \<open>
  \<open>internal/store/rules.go\<close>: reading and writing routing rules.  The order in which rules are checked
  is the \<open>priority\<close> column, owned by the store: the invariant \<open>dense\<close> says that priorities are always
  0 to N-1, and the lemmas show each operation as an operation on the ordered list of rules.
\<close>

section \<open>Rows and rules\<close>

definition null_string :: "string \<Rightarrow> string option" where
  "null_string x = (if x = [] then None else Some x)"

definition string_of_null :: "string option \<Rightarrow> string" where
  "string_of_null x = (case x of None \<Rightarrow> [] | Some v \<Rightarrow> v)"

text \<open>\<open>ruleArgs\<close> with the id column.\<close>

definition ruleArgs :: "rule \<Rightarrow> rule_row" where
  "ruleArgs r = \<lparr>rr_id = r_id r, rr_name = r_name r, rr_action = r_action r,
     rr_tunnel_id = null_string (r_tunnel_id r), rr_via_tunnel_id = null_string (r_via_tunnel_id r),
     rr_priority = r_priority r, rr_enabled = r_enabled r,
     rr_community_lists = r_community_lists r, rr_domains = r_domains r, rr_subnets = r_subnets r,
     rr_remote_lists = r_remote_lists r, rr_peer_scope = r_peer_scope r, rr_peer_ids = r_peer_ids r,
     rr_resolve_real_ip = r_resolve_real_ip r\<rparr>"

definition scanRule :: "rule_row \<Rightarrow> rule" where
  "scanRule w = \<lparr>r_id = rr_id w, r_name = rr_name w, r_action = rr_action w,
     r_tunnel_id = string_of_null (rr_tunnel_id w),
     r_via_tunnel_id = string_of_null (rr_via_tunnel_id w),
     r_priority = rr_priority w, r_enabled = rr_enabled w,
     r_community_lists = rr_community_lists w, r_domains = rr_domains w, r_subnets = rr_subnets w,
     r_remote_lists = rr_remote_lists w, r_peer_scope = rr_peer_scope w, r_peer_ids = rr_peer_ids w,
     r_resolve_real_ip = rr_resolve_real_ip w\<rparr>"

section \<open>Statements\<close>

text \<open>\<open>INSERT INTO rules\<close>: unique id and priority, then the two references.\<close>

definition insert_rule :: "rule_row \<Rightarrow> db \<Rightarrow> sql_err + db" where
  "insert_rule w s =
    (if rr_id w \<in> rr_id ` set (db_rules s) \<or> rr_priority w \<in> rr_priority ` set (db_rules s)
       then Inl UNIQUE_failed
     else if \<not> ref_ok (tunnel_ids s) (rr_tunnel_id w) \<or> \<not> ref_ok (tunnel_ids s) (rr_via_tunnel_id w)
       then Inl FOREIGN_KEY_failed
     else Inr (s\<lparr>db_rules := db_rules s @ [w]\<rparr>))"

text \<open>\<open>UPDATE rules SET ... WHERE id = ?\<close> of every column but id and priority; the result counts the
  affected rows.\<close>

definition overwrite_row :: "rule_row \<Rightarrow> rule_row \<Rightarrow> rule_row" where
  "overwrite_row w old = w\<lparr>rr_id := rr_id old, rr_priority := rr_priority old\<rparr>"

definition update_rule_row :: "rule_row \<Rightarrow> db \<Rightarrow> sql_err + nat \<times> db" where
  "update_rule_row w s =
    (let n = length (filter (\<lambda>r. rr_id r = rr_id w) (db_rules s)) in
     if 0 < n \<and> (\<not> ref_ok (tunnel_ids s) (rr_tunnel_id w) \<or> \<not> ref_ok (tunnel_ids s) (rr_via_tunnel_id w))
       then Inl FOREIGN_KEY_failed
     else Inr (n, s\<lparr>db_rules := upd_where (\<lambda>r. rr_id r = rr_id w) (overwrite_row w) (db_rules s)\<rparr>))"

text \<open>\<open>UPDATE rules SET priority = ? WHERE id = ?\<close>: the unique index is checked at the row.\<close>

definition set_rule_priority :: "string \<Rightarrow> int \<Rightarrow> db \<Rightarrow> sql_err + db" where
  "set_rule_priority i p s =
    (if \<exists>r \<in> set (db_rules s). rr_id r = i \<and> (\<exists>q \<in> set (db_rules s). rr_id q \<noteq> i \<and> rr_priority q = p)
       then Inl UNIQUE_failed
     else Inr (s\<lparr>db_rules := upd_where (\<lambda>r. rr_id r = i) (\<lambda>r. r\<lparr>rr_priority := p\<rparr>) (db_rules s)\<rparr>))"

section \<open>Operations\<close>

text \<open>\<open>validateRulePeers\<close>: the selected peers without repetitions, each of which must exist.\<close>

fun selected_peers :: "string set \<Rightarrow> string list \<Rightarrow> string list \<Rightarrow> string list \<Rightarrow> err + string list" where
  "selected_peers pids seen sel [] = Inr sel"
| "selected_peers pids seen sel (i # ids) =
    (if i \<in> set seen then selected_peers pids seen sel ids
     else if i \<notin> pids then Inl ErrInvalid
     else selected_peers pids (i # seen) (sel @ [i]) ids)"

definition validateRulePeers :: "rule \<Rightarrow> db \<Rightarrow> err + rule" where
  "validateRulePeers r s =
    (if r_peer_scope r \<noteq> ScopeSelected then Inr r
     else bindR (selected_peers (peer_ids s) [] [] (r_peer_ids r)) (\<lambda>sel. Inr (r\<lparr>r_peer_ids := sel\<rparr>)))"

text \<open>\<open>wrapRuleWriteErr\<close>: a broken reference means the tunnel was not found.\<close>

definition wrapRuleWriteErr :: "sql_err \<Rightarrow> err" where
  "wrapRuleWriteErr e = (case e of FOREIGN_KEY_failed \<Rightarrow> ErrNotFound | UNIQUE_failed \<Rightarrow> ErrOther)"

text \<open>\<open>SELECT MAX(priority) FROM rules\<close>; NULL on an empty table.\<close>

definition max_priority :: "db \<Rightarrow> int option" where
  "max_priority s = (if db_rules s = [] then None else Some (Max (rr_priority ` set (db_rules s))))"

definition create_rule_tx :: "rule \<Rightarrow> db \<Rightarrow> err + rule \<times> db" where
  "create_rule_tx r s =
    bindR (validateRulePeers r s) (\<lambda>r.
      let r = r\<lparr>r_priority := (case max_priority s of None \<Rightarrow> 0 | Some m \<Rightarrow> m + 1)\<rparr> in
      bindR (mapErr wrapRuleWriteErr (insert_rule (ruleArgs r) s)) (\<lambda>s'. Inr (r, s')))"

text \<open>\<open>nid\<close> is the identifier \<open>newID\<close> hands out during the call.\<close>

definition CreateRule :: "string \<times> rule \<Rightarrow> db \<Rightarrow> (err + rule) \<times> db" where
  "CreateRule = (\<lambda>(nid, r) s. case rule_validate r of
      Inl e \<Rightarrow> (Inl e, s)
    | Inr _ \<Rightarrow> tx (create_rule_tx (if r_id r = [] then r\<lparr>r_id := nid\<rparr> else r)) s)"

definition Rule :: "db \<Rightarrow> string \<Rightarrow> err + rule" where
  "Rule s i = (case List.find (\<lambda>w. rr_id w = i) (db_rules s) of
     None \<Rightarrow> Inl ErrNotFound | Some w \<Rightarrow> Inr (scanRule w))"

definition Rules :: "db \<Rightarrow> rule list" where
  "Rules s = map scanRule (sort_key rr_priority (db_rules s))"

definition update_rule_tx :: "rule \<Rightarrow> db \<Rightarrow> err + unit \<times> db" where
  "update_rule_tx r s =
    bindR (validateRulePeers r s) (\<lambda>r.
      bindR (mapErr wrapRuleWriteErr (update_rule_row (ruleArgs r) s)) (\<lambda>(n, s').
        bindR (checkAffected n) (\<lambda>_. Inr ((), s'))))"

definition UpdateRule :: "rule \<Rightarrow> db \<Rightarrow> (err + unit) \<times> db" where
  "UpdateRule r s = (case rule_validate r of
      Inl e \<Rightarrow> (Inl e, s)
    | Inr _ \<Rightarrow> if r_id r = [] then (Inl ErrInvalid, s) else tx (update_rule_tx r) s)"

definition ruleIDsByPriority :: "db \<Rightarrow> string list" where
  "ruleIDsByPriority s = map rr_id (sort_key rr_priority (db_rules s))"

text \<open>One pass of \<open>applyOrder\<close>: priority \<open>g i\<close> for the \<open>i\<close>-th identifier.\<close>

fun assign_priorities :: "(nat \<Rightarrow> int) \<Rightarrow> nat \<Rightarrow> string list \<Rightarrow> db \<Rightarrow> err + db" where
  "assign_priorities g i [] s = Inr s"
| "assign_priorities g i (d # ds) s =
    bindR (mapErr (\<lambda>_. ErrOther) (set_rule_priority d (g i) s)) (assign_priorities g (Suc i) ds)"

definition applyOrder :: "string list \<Rightarrow> db \<Rightarrow> err + db" where
  "applyOrder ids s = bindR (assign_priorities (\<lambda>i. - (int i + 1)) 0 ids s)
     (assign_priorities int 0 ids)"

definition delete_rule_tx :: "string \<Rightarrow> db \<Rightarrow> err + unit \<times> db" where
  "delete_rule_tx i s =
    bindR (checkAffected (length (filter (\<lambda>r. rr_id r = i) (db_rules s)))) (\<lambda>_.
      let s' = s\<lparr>db_rules := filter (\<lambda>r. rr_id r \<noteq> i) (db_rules s)\<rparr> in
      bindR (applyOrder (ruleIDsByPriority s') s') (\<lambda>s''. Inr ((), s'')))"

definition DeleteRule :: "string \<Rightarrow> db \<Rightarrow> (err + unit) \<times> db" where
  "DeleteRule i = tx (delete_rule_tx i)"

text \<open>\<open>sameSet\<close>: the new order is a permutation of the current one.\<close>

fun same_set_loop :: "string list \<Rightarrow> string list \<Rightarrow> string list \<Rightarrow> err + unit" where
  "same_set_loop cur seen [] = Inr ()"
| "same_set_loop cur seen (i # ids) =
    (if i \<notin> set cur then Inl ErrNotFound
     else if i \<in> set seen then Inl ErrInvalid
     else same_set_loop cur (i # seen) ids)"

definition sameSet :: "string list \<Rightarrow> string list \<Rightarrow> err + unit" where
  "sameSet cur nxt = (if length cur \<noteq> length nxt then Inl ErrInvalid else same_set_loop cur [] nxt)"

definition reorder_rules_tx :: "string list \<Rightarrow> db \<Rightarrow> err + unit \<times> db" where
  "reorder_rules_tx ids s =
    bindR (sameSet (ruleIDsByPriority s) ids) (\<lambda>_.
      bindR (applyOrder ids s) (\<lambda>s'. Inr ((), s')))"

definition ReorderRules :: "string list \<Rightarrow> db \<Rightarrow> (err + unit) \<times> db" where
  "ReorderRules ids = tx (reorder_rules_tx ids)"

section \<open>Rows and rules, again\<close>

lemma null_string_inverse [simp]: "string_of_null (null_string x) = x"
  by (simp add: null_string_def string_of_null_def)

lemma scanRule_ruleArgs: "scanRule (ruleArgs r) = r"
  by (simp add: scanRule_def ruleArgs_def)

lemma ruleArgs_sel [simp]:
  "rr_id (ruleArgs r) = r_id r" "rr_priority (ruleArgs r) = r_priority r"
  "rr_tunnel_id (ruleArgs r) = null_string (r_tunnel_id r)"
  "rr_via_tunnel_id (ruleArgs r) = null_string (r_via_tunnel_id r)"
  "rr_peer_scope (ruleArgs r) = r_peer_scope r" "rr_peer_ids (ruleArgs r) = r_peer_ids r"
  "rr_enabled (ruleArgs r) = r_enabled r" "rr_action (ruleArgs r) = r_action r"
  by (simp_all add: ruleArgs_def)

lemma scanRule_sel [simp]:
  "r_id (scanRule w) = rr_id w" "r_priority (scanRule w) = rr_priority w"
  "r_peer_scope (scanRule w) = rr_peer_scope w" "r_peer_ids (scanRule w) = rr_peer_ids w"
  "r_enabled (scanRule w) = rr_enabled w" "r_name (scanRule w) = rr_name w"
  by (simp_all add: scanRule_def)

interpretation prio_upd: row_update rr_id "\<lambda>r. r\<lparr>rr_priority := p\<rparr>"
  by unfold_locales simp

interpretation overwrite_upd: row_update rr_id "overwrite_row w"
  by unfold_locales (simp add: overwrite_row_def)

section \<open>Selected peers\<close>

lemma selected_peers_ok:
  assumes "selected_peers pids seen sel ids = Inr out" "set sel \<subseteq> set seen" "distinct sel"
  shows "distinct out \<and> set out = set sel \<union> (set ids - set seen) \<and> set ids \<subseteq> set seen \<union> pids"
  using assms
proof (induction pids seen sel ids arbitrary: out rule: selected_peers.induct)
  case (2 pids seen sel i ids)
  show ?case
  proof (cases "i \<in> set seen")
    case True
    with 2(3) have "selected_peers pids seen sel ids = Inr out" by simp
    with True "2.IH"(1) 2(4,5) show ?thesis by fastforce
  next
    case False
    with 2(3) have i: "i \<in> pids" and rec: "selected_peers pids (i # seen) (sel @ [i]) ids = Inr out"
      by (auto split: if_splits)
    have "distinct out \<and> set out = set (sel @ [i]) \<union> (set ids - set (i # seen)) \<and>
        set ids \<subseteq> set (i # seen) \<union> pids"
      using 2(4,5) False i by (intro "2.IH"(2) rec) auto
    with False i show ?thesis by auto
  qed
qed simp

lemma validateRulePeers_ok:
  assumes "validateRulePeers r s = Inr r'"
  shows "r' = r\<lparr>r_peer_ids := r_peer_ids r'\<rparr>" "set (r_peer_ids r') = set (r_peer_ids r)"
    "r_peer_scope r = ScopeSelected \<Longrightarrow> distinct (r_peer_ids r') \<and> set (r_peer_ids r') \<subseteq> peer_ids s"
    "r_peer_scope r \<noteq> ScopeSelected \<Longrightarrow> r' = r"
  using assms selected_peers_ok [where seen = "[]" and sel = "[]" and pids = "peer_ids s"
      and ids = "r_peer_ids r"]
  by (auto simp: validateRulePeers_def bindR_Inr_iff split: if_splits)

section \<open>Renumbering\<close>

text \<open>The rows after a pass of \<open>applyOrder\<close>: the \<open>k\<close>-th listed identifier gets priority \<open>g (i + k)\<close>.\<close>

fun renumber :: "(nat \<Rightarrow> int) \<Rightarrow> nat \<Rightarrow> string list \<Rightarrow> rule_row \<Rightarrow> rule_row" where
  "renumber g i [] r = r"
| "renumber g i (d # ds) r = (if rr_id r = d then r\<lparr>rr_priority := g i\<rparr> else renumber g (Suc i) ds r)"

lemma map_renumber_Nil [simp]: "map (renumber g i []) rows = rows"
  by (induction rows) auto

lemma renumber_id [simp]: "rr_id (renumber g i ds r) = rr_id r"
  by (induction g i ds r rule: renumber.induct) auto

lemma renumber_notin: "rr_id r \<notin> set ds \<Longrightarrow> renumber g i ds r = r"
  by (induction g i ds r rule: renumber.induct) auto

lemma renumber_twice: "set ds = set es \<Longrightarrow> distinct ds \<Longrightarrow>
   renumber g i ds (renumber h j es r) = renumber g i ds r"
proof -
  have *: "renumber g i ds (r\<lparr>rr_priority := p\<rparr>) = renumber g i ds r" if "rr_id r \<in> set ds" for p i ds
    using that by (induction ds arbitrary: i) auto
  have "\<exists>p. renumber h j es r = r\<lparr>rr_priority := p\<rparr>" if "rr_id r \<in> set es"
    using that by (induction es arbitrary: j) auto
  then show "set ds = set es \<Longrightarrow> distinct ds \<Longrightarrow> ?thesis"
    by (metis * renumber_notin)
qed

lemma renumber_priority:
  "distinct ds \<Longrightarrow> k < length ds \<Longrightarrow> rr_id r = ds ! k \<Longrightarrow> rr_priority (renumber g i ds r) = g (i + k)"
proof (induction ds arbitrary: i k)
  case (Cons d ds)
  then show ?case by (cases k) auto
qed simp

definition unranked :: "rule_row \<Rightarrow> rule_row" where
  "unranked r = r\<lparr>rr_priority := 0\<rparr>"

lemma unranked_renumber [simp]: "unranked (renumber g i ds r) = unranked r"
  by (induction g i ds r rule: renumber.induct) (auto simp: unranked_def)

text \<open>A pass succeeds when none of the new priorities is in use, whatever the order of the rows.\<close>

lemma assign_priorities_ok:
  assumes "distinct ds" "inj g"
    "\<forall>j. i \<le> j \<and> j < i + length ds \<longrightarrow> g j \<notin> rr_priority ` set (db_rules s)"
  shows "assign_priorities g i ds s = Inr (s\<lparr>db_rules := map (renumber g i ds) (db_rules s)\<rparr>)"
  using assms(1,3)
proof (induction ds arbitrary: i s)
  case (Cons d ds)
  let ?rows = "upd_where (\<lambda>r. rr_id r = d) (\<lambda>r. r\<lparr>rr_priority := g i\<rparr>) (db_rules s)"
  have "set_rule_priority d (g i) s = Inr (s\<lparr>db_rules := ?rows\<rparr>)"
  proof -
    have "g i \<notin> rr_priority ` set (db_rules s)" using Cons.prems(2) by simp
    then have "\<not> (\<exists>q \<in> set (db_rules s). rr_id q \<noteq> d \<and> rr_priority q = g i)" by force
    then show ?thesis by (simp add: set_rule_priority_def)
  qed
  moreover have "\<forall>j. Suc i \<le> j \<and> j < Suc i + length ds \<longrightarrow> g j \<notin> rr_priority ` set ?rows"
  proof (intro allI impI notI)
    fix j assume j: "Suc i \<le> j \<and> j < Suc i + length ds" and "g j \<in> rr_priority ` set ?rows"
    then have "g j = g i \<or> g j \<in> rr_priority ` set (db_rules s)"
      by (auto simp: set_upd_where split: if_splits)
    with j Cons.prems(2) \<open>inj g\<close> show False by (auto dest: injD)
  qed
  ultimately have "assign_priorities g i (d # ds) s
      = Inr (s\<lparr>db_rules := map (renumber g (Suc i) ds) ?rows\<rparr>)"
    using Cons.IH [of "Suc i" "s\<lparr>db_rules := ?rows\<rparr>"] Cons.prems(1) by simp
  moreover have "map (renumber g (Suc i) ds) ?rows = map (renumber g i (d # ds)) (db_rules s)"
    using Cons.prems(1) by (auto simp: upd_where_def renumber_notin)
  ultimately show ?case by simp
qed simp

section \<open>Dense priorities\<close>

definition dense :: "db \<Rightarrow> bool" where
  "dense s \<longleftrightarrow> rr_priority ` set (db_rules s) = int ` {..<length (db_rules s)}"

lemma dense_empty: "dense empty_db"
  by (simp add: dense_def empty_db_def)

definition rules_inv :: "db \<Rightarrow> bool" where
  "rules_inv s \<longleftrightarrow> schema_ok s \<and> dense s"

lemma rules_inv_distinct:
  assumes "rules_inv s"
  shows "distinct (map rr_id (db_rules s))" "distinct (map rr_priority (db_rules s))"
  using assms by (auto simp: rules_inv_def schema_ok_def rules_ok_def)

lemma dense_nonneg: "dense s \<Longrightarrow> r \<in> set (db_rules s) \<Longrightarrow> 0 \<le> rr_priority r"
  unfolding dense_def by (metis imageE image_eqI of_nat_0_le_iff)

lemma sorted_map_int_upt: "sorted (map int [0..<n])"
  by (simp add: sorted_wrt_map sorted_wrt_iff_nth_less)

lemma dense_priorities_sorted:
  assumes "dense s" "distinct (map rr_priority (db_rules s))"
  shows "map rr_priority (sort_key rr_priority (db_rules s)) = map int [0..<length (db_rules s)]"
proof (rule sorted_distinct_set_unique)
  show "distinct (map rr_priority (sort_key rr_priority (db_rules s)))"
    using assms(2) by (simp add: distinct_map)
  show "set (map rr_priority (sort_key rr_priority (db_rules s))) = set (map int [0..<length (db_rules s)])"
    using assms(1) by (simp add: dense_def atLeast0LessThan)
qed (simp_all add: sorted_map_int_upt distinct_map)

text \<open>Both passes of \<open>applyOrder\<close> together: identifiers listed once, all of them, and nonnegative
  priorities to start with, are enough for neither pass to hit the unique index.\<close>

lemma applyOrder_ok:
  assumes "distinct ids" "set ids = rr_id ` set (db_rules s)" "\<forall>r \<in> set (db_rules s). 0 \<le> rr_priority r"
  shows "applyOrder ids s = Inr (s\<lparr>db_rules := map (renumber int 0 ids) (db_rules s)\<rparr>)"
proof -
  let ?neg = "\<lambda>i. - (int i + 1)"
  let ?s1 = "s\<lparr>db_rules := map (renumber ?neg 0 ids) (db_rules s)\<rparr>"
  have "assign_priorities ?neg 0 ids s = Inr ?s1"
    using assms(1,3) by (intro assign_priorities_ok) (auto simp: inj_def)
  moreover have "rr_priority r < 0" if r1: "r \<in> set (db_rules ?s1)" for r
  proof -
    from r1 obtain q where "r = renumber ?neg 0 ids q" "q \<in> set (db_rules s)" by auto
    moreover from this(2) assms(2) obtain k where "k < length ids" "rr_id q = ids ! k"
      by (metis image_eqI in_set_conv_nth)
    ultimately show ?thesis using assms(1) by (simp add: renumber_priority)
  qed
  then have "assign_priorities int 0 ids ?s1
      = Inr (?s1\<lparr>db_rules := map (renumber int 0 ids) (db_rules ?s1)\<rparr>)"
    using assms(1) by (intro assign_priorities_ok) (force simp: inj_def)+
  ultimately show ?thesis
    using assms(1) by (simp add: applyOrder_def renumber_twice comp_def)
qed

text \<open>Reading the rules back after \<open>applyOrder\<close> gives them in the order of the identifiers.\<close>

lemma renumbered_order:
  assumes "distinct (map rr_id rows)" "set ys = set rows" "distinct ys" "map rr_id ys = ids"
  shows "map rr_priority (map (renumber int 0 ids) ys) = map int [0..<length ys]"
    and "sort_key rr_priority (map (renumber int 0 ids) rows) = map (renumber int 0 ids) ys"
proof -
  have dids: "distinct ids"
    using assms by (metis distinct_map)
  then show prio: "map rr_priority (map (renumber int 0 ids) ys) = map int [0..<length ys]"
    using assms(4) by (intro nth_equalityI) (auto simp: renumber_priority)
  have inj: "inj_on (renumber int 0 ids) (set rows)"
    using assms(1) by (metis (no_types, lifting) distinct_map inj_on_def renumber_id)
  have rows: "distinct (map rr_priority (map (renumber int 0 ids) rows))"
  proof -
    have "length rows = length ys"
      by (metis assms(1,2,3) distinct_card distinct_map)
    moreover have "rr_priority ` renumber int 0 ids ` set rows = int ` {..<length ys}"
      using prio assms(2) by (metis atLeast0LessThan atLeast_upt list.set_map)
    ultimately show ?thesis
      by (intro card_distinct) (simp add: image_image card_image)
  qed
  then show "sort_key rr_priority (map (renumber int 0 ids) rows) = map (renumber int 0 ids) ys"
  proof (rule sort_key_unique)
    show "sorted (map rr_priority (map (renumber int 0 ids) ys))"
      unfolding prio by (rule sorted_map_int_upt)
    show "set (map (renumber int 0 ids) ys) = set (map (renumber int 0 ids) rows)"
      using assms(2) by simp
    show "distinct (map (renumber int 0 ids) ys)"
      using inj assms(2,3) by (simp add: distinct_map)
  qed
qed

section \<open>The operations on the ordered list of rules\<close>

lemma rows_distinct: "rules_inv s \<Longrightarrow> distinct (db_rules s)"
  using rules_inv_distinct(1) distinct_map by blast

lemma Rules_ids: "map r_id (Rules s) = ruleIDsByPriority s"
  by (simp add: Rules_def ruleIDsByPriority_def comp_def)

lemma set_ruleIDs: "set (ruleIDsByPriority s) = rr_id ` set (db_rules s)"
  by (simp add: ruleIDsByPriority_def)

lemma distinct_ruleIDs: "rules_inv s \<Longrightarrow> distinct (ruleIDsByPriority s)"
  using rules_inv_distinct(1) by (auto simp: ruleIDsByPriority_def distinct_map)

text \<open>Changing only the rules, keeping their identifiers' uniqueness and references, keeps the rest.\<close>

lemma schema_ok_rules:
  "schema_ok s \<Longrightarrow> schema_ok (s\<lparr>db_rules := rows\<rparr>) \<longleftrightarrow> rules_ok (tunnel_ids s) rows"
  by (auto simp: schema_ok_def tunnel_ids_def peer_ids_def)

lemma unranked_refs:
  "unranked r = unranked q \<Longrightarrow> rr_tunnel_id r = rr_tunnel_id q \<and> rr_via_tunnel_id r = rr_via_tunnel_id q
    \<and> rr_peer_scope r = rr_peer_scope q \<and> rr_peer_ids r = rr_peer_ids q \<and> rr_enabled r = rr_enabled q"
  by (cases r; cases q) (simp add: unranked_def)

lemma renumber_keeps [simp]:
  "rr_tunnel_id (renumber g i ds r) = rr_tunnel_id r"
  "rr_via_tunnel_id (renumber g i ds r) = rr_via_tunnel_id r"
  "rr_peer_scope (renumber g i ds r) = rr_peer_scope r"
  "rr_peer_ids (renumber g i ds r) = rr_peer_ids r"
  "rr_enabled (renumber g i ds r) = rr_enabled r"
  using unranked_refs [OF unranked_renumber [of g i ds r]] by simp_all

text \<open>Renumbering in the order of \<open>ys\<close>, a permutation of the rows.\<close>

lemma renumber_all:
  assumes inv: "schema_ok s" and rows: "rules_ok (tunnel_ids s) rows"
    and nonneg: "\<forall>r \<in> set rows. 0 \<le> rr_priority r"
    and ys: "set ys = set rows" "distinct ys"
    and s': "applyOrder (map rr_id ys) (s\<lparr>db_rules := rows\<rparr>) = Inr s'"
  shows "rules_inv s'" "db_rules s' = map (renumber int 0 (map rr_id ys)) rows"
    "sort_key rr_priority (db_rules s') = map (renumber int 0 (map rr_id ys)) ys"
    "s' = s\<lparr>db_rules := db_rules s'\<rparr>"
proof -
  let ?ids = "map rr_id ys"
  have dr: "distinct (map rr_id rows)" using rows by (simp add: rules_ok_def)
  then have dids: "distinct ?ids" using ys by (simp add: distinct_map)
  have s'eq: "s' = s\<lparr>db_rules := map (renumber int 0 ?ids) rows\<rparr>"
    using applyOrder_ok [of ?ids "s\<lparr>db_rules := rows\<rparr>"] s' dids ys nonneg by simp
  then show db': "db_rules s' = map (renumber int 0 ?ids) rows" and "s' = s\<lparr>db_rules := db_rules s'\<rparr>"
    by simp_all
  note order = renumbered_order [OF dr ys refl]
  then show sorted': "sort_key rr_priority (db_rules s') = map (renumber int 0 ?ids) ys" using db' by simp
  have len: "length ys = length rows" by (metis dr distinct_card distinct_map ys)
  have "map rr_priority (sort_key rr_priority (db_rules s')) = map int [0..<length rows]"
    using order(1) sorted' len by simp
  then have "set (map rr_priority (sort_key rr_priority (db_rules s'))) = set (map int [0..<length rows])"
    by simp
  then have dense: "dense s'" using db' by (simp add: dense_def atLeast0LessThan)
  then have "distinct (map rr_priority (db_rules s'))"
    by (intro card_distinct) (metis card_image card_lessThan dense_def inj_on_of_nat length_map list.set_map)
  then have "rules_ok (tunnel_ids s) (db_rules s')"
    using rows unfolding rules_ok_def db' by (simp add: comp_def)
  with inv s'eq db' dense show "rules_inv s'"
    by (simp add: rules_inv_def schema_ok_rules)
qed

subsection \<open>CreateRule\<close>

lemma create_rule_tx_ok:
  assumes inv: "rules_inv s" and ok: "create_rule_tx r s = Inr (r', s')"
  shows "Rules s' = Rules s @ [r']" "rules_inv s'" "s' = s\<lparr>db_rules := db_rules s @ [ruleArgs r']\<rparr>"
    "r_id r' = r_id r" "r_peer_scope r' = r_peer_scope r" "set (r_peer_ids r') = set (r_peer_ids r)"
    "r_peer_scope r = ScopeSelected \<Longrightarrow> distinct (r_peer_ids r') \<and> set (r_peer_ids r') \<subseteq> peer_ids s"
    "unranked (ruleArgs r') = unranked (ruleArgs (r\<lparr>r_peer_ids := r_peer_ids r'\<rparr>))"
proof -
  let ?n = "length (db_rules s)"
  from ok obtain q where q: "validateRulePeers r s = Inr q"
    and r': "r' = q\<lparr>r_priority := (case max_priority s of None \<Rightarrow> 0 | Some m \<Rightarrow> m + 1)\<rparr>"
    and ins: "insert_rule (ruleArgs r') s = Inr s'"
    by (auto simp: create_rule_tx_def bindR_Inr_iff Let_def)
  from ins have s': "s' = s\<lparr>db_rules := db_rules s @ [ruleArgs r']\<rparr>"
    and new: "r_id r' \<notin> rr_id ` set (db_rules s)" "r_priority r' \<notin> rr_priority ` set (db_rules s)"
    and refs: "ref_ok (tunnel_ids s) (null_string (r_tunnel_id r'))"
      "ref_ok (tunnel_ids s) (null_string (r_via_tunnel_id r'))"
    by (auto simp: insert_rule_def split: if_splits)
  have dense: "dense s" using inv by (simp add: rules_inv_def)
  have prio: "r_priority r' = int ?n"
  proof (cases ?n)
    case (Suc m)
    then have "Max (rr_priority ` set (db_rules s)) = int m"
      using dense by (auto simp: dense_def intro!: Max_eqI)
    with Suc r' show ?thesis by (auto simp: max_priority_def)
  qed (simp add: r' max_priority_def)
  from s' new refs inv show inv': "rules_inv s'"
    by (auto simp: rules_inv_def schema_ok_rules rules_ok_def schema_ok_def dense_def prio lessThan_Suc)
  have fresh: "ruleArgs r' \<notin> set (db_rules s)" using new(1) by (metis image_eqI ruleArgs_sel(1))
  have "sort_key rr_priority (db_rules s') = sort_key rr_priority (db_rules s) @ [ruleArgs r']"
  proof (rule sort_key_unique)
    show "sorted (map rr_priority (sort_key rr_priority (db_rules s) @ [ruleArgs r']))"
      using dense prio by (auto simp: sorted_append dense_def)
  qed (use rules_inv_distinct(2) [OF inv'] rows_distinct [OF inv] fresh s' in auto)
  then show "Rules s' = Rules s @ [r']" by (simp add: Rules_def scanRule_ruleArgs)
  show "s' = s\<lparr>db_rules := db_rules s @ [ruleArgs r']\<rparr>" by (fact s')
  from validateRulePeers_ok [OF q] show "r_id r' = r_id r" "r_peer_scope r' = r_peer_scope r"
    "set (r_peer_ids r') = set (r_peer_ids r)"
    "r_peer_scope r = ScopeSelected \<Longrightarrow> distinct (r_peer_ids r') \<and> set (r_peer_ids r') \<subseteq> peer_ids s"
    by (cases q; cases r; simp add: r')+
  from validateRulePeers_ok(1) [OF q]
  show "unranked (ruleArgs r') = unranked (ruleArgs (r\<lparr>r_peer_ids := r_peer_ids r'\<rparr>))"
    by (cases q; cases r; simp add: r' ruleArgs_def unranked_def)
qed

lemma CreateRule_Inr:
  "CreateRule (nid, r) s = (Inr r', s') \<longleftrightarrow> rule_validate r = Inr () \<and>
     create_rule_tx (if r_id r = [] then r\<lparr>r_id := nid\<rparr> else r) s = Inr (r', s')"
  by (cases "rule_validate r") (auto simp: CreateRule_def tx_Inr)

interpretation create_rule: store_op CreateRule rules_inv "\<lambda>_. True"
proof
  fix x :: "string \<times> rule" and s s' e
  assume "CreateRule x s = (Inl e, s')"
  then show "s' = s" by (cases x) (auto simp: CreateRule_def tx_Inl split: sum.splits)
next
  fix x :: "string \<times> rule" and s s' a
  assume "rules_inv s" "CreateRule x s = (Inr a, s')"
  then show "rules_inv s'" using create_rule_tx_ok(2) by (cases x) (auto simp: CreateRule_Inr)
qed

subsection \<open>DeleteRule\<close>

lemma delete_rule_tx_ok:
  assumes inv: "rules_inv s" and ok: "delete_rule_tx i s = Inr (u, s')"
  shows "rules_inv s'" "s' = s\<lparr>db_rules := db_rules s'\<rparr>"
    "map unranked (sort_key rr_priority (db_rules s'))
      = map unranked (filter (\<lambda>r. rr_id r \<noteq> i) (sort_key rr_priority (db_rules s)))"
    "i \<in> rr_id ` set (db_rules s)"
    "set (map unranked (db_rules s')) \<subseteq> set (map unranked (db_rules s))"
proof -
  let ?rows = "filter (\<lambda>r. rr_id r \<noteq> i) (db_rules s)"
  let ?ys = "sort_key rr_priority ?rows"
  have ap: "applyOrder (map rr_id ?ys) (s\<lparr>db_rules := ?rows\<rparr>) = Inr s'"
    and ex: "length (filter (\<lambda>r. rr_id r = i) (db_rules s)) \<noteq> 0"
    using ok by (auto simp: delete_rule_tx_def bindR_Inr_iff Let_def ruleIDsByPriority_def)
  have rows: "rules_ok (tunnel_ids s) ?rows" "schema_ok s"
    using inv by (auto simp: rules_inv_def schema_ok_def rules_ok_def distinct_map_filter)
  have "\<forall>r \<in> set ?rows. 0 \<le> rr_priority r"
    using inv dense_nonneg by (auto simp: rules_inv_def)
  moreover have "distinct ?ys" using rows(1) by (auto simp: rules_ok_def distinct_map)
  ultimately have "rules_inv s'" and db': "db_rules s' = map (renumber int 0 (map rr_id ?ys)) ?rows"
    and srt: "sort_key rr_priority (db_rules s') = map (renumber int 0 (map rr_id ?ys)) ?ys"
    and "s' = s\<lparr>db_rules := db_rules s'\<rparr>"
    using renumber_all [OF rows(2,1) _ _ _ ap] by auto
  then show "rules_inv s'" "s' = s\<lparr>db_rules := db_rules s'\<rparr>" by blast+
  show "map unranked (sort_key rr_priority (db_rules s'))
      = map unranked (filter (\<lambda>r. rr_id r \<noteq> i) (sort_key rr_priority (db_rules s)))"
    unfolding srt by (simp add: comp_def filter_sort)
  show "i \<in> rr_id ` set (db_rules s)" using ex by (auto simp: filter_key_Nil)
  show "set (map unranked (db_rules s')) \<subseteq> set (map unranked (db_rules s))"
    unfolding db' by (auto simp: comp_def)
qed

text \<open>Deleting an existing rule always succeeds: compacting the priorities cannot fail.\<close>

lemma delete_rule_tx_total:
  assumes inv: "rules_inv s" and i: "i \<in> rr_id ` set (db_rules s)"
  shows "\<exists>s'. delete_rule_tx i s = Inr ((), s')"
proof -
  let ?s = "s\<lparr>db_rules := filter (\<lambda>r. rr_id r \<noteq> i) (db_rules s)\<rparr>"
  have "distinct (ruleIDsByPriority ?s)"
    using rules_inv_distinct(1) [OF inv] by (auto simp: ruleIDsByPriority_def distinct_map inj_on_def)
  then have "\<exists>s'. applyOrder (ruleIDsByPriority ?s) ?s = Inr s'"
    using applyOrder_ok [of "ruleIDsByPriority ?s" ?s] inv
    by (auto simp: set_ruleIDs rules_inv_def dense_nonneg)
  moreover have "length (filter (\<lambda>r. rr_id r = i) (db_rules s)) \<noteq> 0"
    using i by (auto simp: filter_key_Nil)
  ultimately show ?thesis by (auto simp: delete_rule_tx_def Let_def checkAffected_def)
qed

interpretation delete_rule: store_op DeleteRule rules_inv "\<lambda>_. True"
  by unfold_locales (auto simp: DeleteRule_def tx_Inr tx_Inl delete_rule_tx_ok(1))

subsection \<open>ReorderRules\<close>

lemma same_set_loop_iff:
  "same_set_loop cur seen ids = Inr () \<longleftrightarrow> set ids \<subseteq> set cur \<and> distinct ids \<and> set ids \<inter> set seen = {}"
  by (induction cur seen ids rule: same_set_loop.induct) auto

lemma sameSet_iff:
  assumes "distinct cur"
  shows "sameSet cur nxt = Inr () \<longleftrightarrow> distinct nxt \<and> set nxt = set cur"
proof
  assume "sameSet cur nxt = Inr ()"
  then have "length cur = length nxt" "set nxt \<subseteq> set cur" "distinct nxt"
    by (auto simp: sameSet_def same_set_loop_iff split: if_splits)
  then show "distinct nxt \<and> set nxt = set cur"
    using assms by (metis List.finite_set card_subset_eq distinct_card)
next
  assume "distinct nxt \<and> set nxt = set cur"
  then show "sameSet cur nxt = Inr ()"
    using assms by (auto simp: sameSet_def same_set_loop_iff) (metis distinct_card)+
qed

text \<open>The rows in the order of a permutation of their identifiers.\<close>

lemma rows_in_order:
  assumes "distinct (map rr_id rows)" "distinct ids" "set ids = rr_id ` set rows"
  obtains ys where "map rr_id ys = ids" "set ys = set rows" "distinct ys"
proof -
  let ?row = "\<lambda>i. the (List.find (\<lambda>r. rr_id r = i) rows)"
  have row: "?row (rr_id r) = r" if "r \<in> set rows" for r
    using find_key_distinct [OF assms(1) that] by simp
  have "map rr_id (map ?row ids) = ids"
    using assms(3) row by (auto intro!: map_idI)
  moreover have "set (map ?row ids) = set rows"
    using assms(3) row by force
  ultimately show ?thesis using that assms(2) by (metis distinct_map)
qed

lemma reorder_rules_tx_ok:
  assumes inv: "rules_inv s"
  shows "(\<exists>s'. reorder_rules_tx ids s = Inr ((), s')) \<longleftrightarrow> distinct ids \<and> set ids = set (ruleIDsByPriority s)"
    and "reorder_rules_tx ids s = Inr (u, s') \<Longrightarrow>
      rules_inv s' \<and> ruleIDsByPriority s' = ids \<and> s' = s\<lparr>db_rules := db_rules s'\<rparr>
      \<and> map unranked (db_rules s') = map unranked (db_rules s)"
proof -
  note same = sameSet_iff [OF distinct_ruleIDs [OF inv], of ids]
  have nonneg: "\<forall>r \<in> set (db_rules s). 0 \<le> rr_priority r"
    using inv dense_nonneg by (auto simp: rules_inv_def)
  show "(\<exists>s'. reorder_rules_tx ids s = Inr ((), s')) \<longleftrightarrow> distinct ids \<and> set ids = set (ruleIDsByPriority s)"
    using same applyOrder_ok [OF _ _ nonneg, of ids]
    by (auto simp: reorder_rules_tx_def bindR_Inr_iff set_ruleIDs)
  assume "reorder_rules_tx ids s = Inr (u, s')"
  then have ids: "distinct ids" "set ids = rr_id ` set (db_rules s)" and ap: "applyOrder ids s = Inr s'"
    using same by (auto simp: reorder_rules_tx_def bindR_Inr_iff set_ruleIDs)
  have sch: "schema_ok s" "rules_ok (tunnel_ids s) (db_rules s)"
    using inv by (auto simp: rules_inv_def schema_ok_def)
  obtain ys where ys: "map rr_id ys = ids" "set ys = set (db_rules s)" "distinct ys"
    using rows_in_order [OF rules_inv_distinct(1) [OF inv] ids] .
  note r = renumber_all [OF sch nonneg ys(2,3), of s', unfolded ys(1)]
  from r(2) ap have db': "db_rules s' = map (renumber int 0 ids) (db_rules s)" by simp
  then have "map unranked (db_rules s') = map unranked (db_rules s)" by (simp add: comp_def)
  moreover from r(3) ap have "ruleIDsByPriority s' = ids"
    using ys(1) by (simp add: ruleIDsByPriority_def comp_def)
  ultimately show "rules_inv s' \<and> ruleIDsByPriority s' = ids \<and> s' = s\<lparr>db_rules := db_rules s'\<rparr>
      \<and> map unranked (db_rules s') = map unranked (db_rules s)"
    using r(1,4) ap by simp
qed

interpretation reorder_rules: store_op ReorderRules rules_inv "\<lambda>_. True"
  by unfold_locales (auto simp: ReorderRules_def tx_Inr tx_Inl dest: reorder_rules_tx_ok(2))

subsection \<open>UpdateRule\<close>

lemma update_rule_tx_ok:
  assumes inv: "rules_inv s" and ok: "update_rule_tx r s = Inr (u, s')"
  obtains r' where "validateRulePeers r s = Inr r'" "r_id r \<in> rr_id ` set (db_rules s)"
    "s' = s\<lparr>db_rules := upd_where (\<lambda>w. rr_id w = r_id r) (overwrite_row (ruleArgs r')) (db_rules s)\<rparr>"
    "rules_inv s'"
proof -
  from ok obtain r' n where v: "validateRulePeers r s = Inr r'"
    and up: "update_rule_row (ruleArgs r') s = Inr (n, s')" and n: "n \<noteq> 0"
    by (auto simp: update_rule_tx_def bindR_Inr_iff)
  have rid: "r_id r' = r_id r"
    using validateRulePeers_ok(1) [OF v] by (cases r; cases r') simp
  let ?rows = "upd_where (\<lambda>w. rr_id w = r_id r) (overwrite_row (ruleArgs r')) (db_rules s)"
  from up n rid have s': "s' = s\<lparr>db_rules := ?rows\<rparr>" and ex: "r_id r \<in> rr_id ` set (db_rules s)"
    and refs: "ref_ok (tunnel_ids s) (null_string (r_tunnel_id r'))"
      "ref_ok (tunnel_ids s) (null_string (r_via_tunnel_id r'))"
    by (auto simp: update_rule_row_def Let_def filter_key_Nil split: if_splits)
  have prio: "map rr_priority ?rows = map rr_priority (db_rules s)"
    by (simp add: map_upd_where overwrite_row_def)
  have "rules_ok (tunnel_ids s) ?rows"
    using inv refs prio overwrite_upd.keys_upd
    by (auto simp: rules_inv_def schema_ok_def rules_ok_def set_upd_where overwrite_row_def)
  moreover have "dense s'"
    using inv s' arg_cong [OF prio, of set] by (simp add: rules_inv_def dense_def)
  ultimately have "rules_inv s'"
    using inv s' by (simp add: rules_inv_def schema_ok_rules)
  with v ex s' show ?thesis using that by blast
qed

lemma UpdateRule_Inr:
  "UpdateRule r s = (Inr u, s') \<longleftrightarrow>
     rule_validate r = Inr () \<and> r_id r \<noteq> [] \<and> update_rule_tx r s = Inr (u, s')"
  by (cases "rule_validate r") (auto simp: UpdateRule_def tx_Inr)

interpretation update_rule: store_op UpdateRule rules_inv "\<lambda>_. True"
proof
  fix x s e s'
  assume "UpdateRule x s = (Inl e, s')"
  then show "s' = s" by (auto simp: UpdateRule_def tx_Inl split: sum.splits if_splits)
next
  fix x s a s'
  assume "rules_inv s" "UpdateRule x s = (Inr a, s')"
  then show "rules_inv s'" using update_rule_tx_ok by (metis UpdateRule_Inr)
qed

section \<open>Properties\<close>

text \<open>The specification sees a list of rules without their priorities: the place in the list is the
  priority.\<close>

definition forget :: "rule \<Rightarrow> rule" where
  "forget r = r\<lparr>r_priority := 0\<rparr>"

lemma forget_scanRule: "forget (scanRule w) = scanRule (unranked w)"
  by (simp add: forget_def scanRule_def unranked_def)

lemma map_forget_Rules: "map forget (Rules s) = map scanRule (map unranked (sort_key rr_priority (db_rules s)))"
  by (simp add: Rules_def forget_scanRule comp_def)

lemma Rules_priorities: "rules_inv s \<Longrightarrow> map r_priority (Rules s) = map int [0..<length (Rules s)]"
  using dense_priorities_sorted [OF _ rules_inv_distinct(2)]
  by (auto simp: Rules_def rules_inv_def comp_def)

lemma forget_id [simp]: "r_id (forget r) = r_id r"
  by (simp add: forget_def)

lemma distinct_Rules_ids: "rules_inv s \<Longrightarrow> distinct (map r_id (Rules s))"
  by (simp add: Rules_ids distinct_ruleIDs)

lemma Rules_id_set: "r_id ` set (Rules s) = rr_id ` set (db_rules s)"
  using Rules_ids [of s] set_ruleIDs [of s] by (metis list.set_map)

text \<open>A small state to exercise the statements on: two rules.\<close>

definition demo_rule :: "string \<Rightarrow> rule" where
  "demo_rule n = \<lparr>r_id = n, r_name = n, r_action = ActionBlock, r_tunnel_id = [], r_via_tunnel_id = [],
     r_priority = 7, r_enabled = True, r_community_lists = [], r_domains = [''example.org''],
     r_subnets = [], r_remote_lists = [], r_peer_scope = ScopeAll, r_peer_ids = [],
     r_resolve_real_ip = False\<rparr>"

definition demo_db :: db where
  "demo_db = snd (CreateRule ([], demo_rule ''b'') (snd (CreateRule ([], demo_rule ''a'') empty_db)))"

lemma rules_inv_empty: "rules_inv empty_db"
  by (simp add: rules_inv_def schema_ok_empty dense_empty)

lemma rules_inv_demo: "rules_inv demo_db"
  unfolding demo_db_def by (intro create_rule.step_inv rules_inv_empty TrueI)

lemmas create_eval = CreateRule_def demo_rule_def rule_validate_def RuleActions_def tx_def
  create_rule_tx_def validateRulePeers_def max_priority_def insert_rule_def ruleArgs_def
  null_string_def Let_def

lemma demo_db_rows: "db_rules demo_db =
    [(ruleArgs (demo_rule ''a''))\<lparr>rr_priority := 0\<rparr>, (ruleArgs (demo_rule ''b''))\<lparr>rr_priority := 1\<rparr>]"
  by (simp add: demo_db_def empty_db_def create_eval)

lemma demo_Rules_eq:
  "Rules demo_db = [(demo_rule ''a'')\<lparr>r_priority := 0\<rparr>, (demo_rule ''b'')\<lparr>r_priority := 1\<rparr>]"
  by (simp add: Rules_def demo_db_rows) (simp add: scanRule_def ruleArgs_def demo_rule_def)

lemma demo_Rules: "map r_id (Rules demo_db) = [''a'', ''b'']"
  by (simp add: demo_Rules_eq demo_rule_def)

text \<open>CreateRule puts the new rule at the end of the checking order: after an accepted call the
  list of rules is the old list followed by the returned rule, and no other table changed.\<close>

lemma CreateRule_appends:
  assumes "rules_inv s" "CreateRule (nid, r) s = (Inr r', s')"
  shows "Rules s' = Rules s @ [r'] \<and> r_priority r' = int (length (Rules s)) \<and>
    s' = s\<lparr>db_rules := db_rules s'\<rparr>"
proof -
  from assms(2) have "create_rule_tx (if r_id r = [] then r\<lparr>r_id := nid\<rparr> else r) s = Inr (r', s')"
    by (simp add: CreateRule_Inr)
  note ok = create_rule_tx_ok [OF assms(1) this]
  have "r_priority r' = int (length (Rules s))"
    using Rules_priorities [OF ok(2)] ok(1) by simp
  with ok(1,3) show ?thesis by simp
qed

text \<open>DeleteRule removes exactly the named rule and keeps the order of the others, renumbered
  without gaps; it succeeds for every existing rule and answers ErrNotFound otherwise.\<close>

lemma DeleteRule_removes:
  assumes "rules_inv s"
  shows "if i \<in> set (map r_id (Rules s))
    then \<exists>s'. DeleteRule i s = (Inr (), s')
      \<and> map forget (Rules s') = map forget (filter (\<lambda>r. r_id r \<noteq> i) (Rules s))
      \<and> map r_priority (Rules s') = map int [0..<length (Rules s) - 1]
    else DeleteRule i s = (Inl ErrNotFound, s)"
proof (cases "i \<in> rr_id ` set (db_rules s)")
  case True
  then obtain s' where s': "delete_rule_tx i s = Inr ((), s')"
    using delete_rule_tx_total [OF assms] by blast
  note ok = delete_rule_tx_ok [OF assms s']
  have fg: "map forget (Rules s') = map forget (filter (\<lambda>r. r_id r \<noteq> i) (Rules s))"
    unfolding map_forget_Rules ok(3) by (simp add: Rules_def filter_map forget_scanRule comp_def)
  with True have "length (Rules s') = length (Rules s) - 1"
    using length_filter_key_removed [OF distinct_Rules_ids [OF assms], of i]
    by (metis Rules_id_set length_map)
  with fg ok(1) s' True show ?thesis
    by (auto simp: DeleteRule_def tx_def Rules_id_set Rules_priorities)
next
  case False
  then show ?thesis
    by (auto simp: DeleteRule_def tx_def delete_rule_tx_def checkAffected_def Rules_id_set
        filter_key_Nil)
qed

text \<open>ReorderRules accepts exactly the permutations of the current rules; afterwards the rules
  are checked in the requested order, unchanged but for their priorities 0 to N-1.\<close>

lemma ReorderRules_permutes:
  assumes "rules_inv s"
  shows "(fst (ReorderRules ids s) = Inr () \<longleftrightarrow> distinct ids \<and> set ids = r_id ` set (Rules s)) \<and>
    (\<forall>s'. ReorderRules ids s = (Inr (), s') \<longrightarrow>
       map r_id (Rules s') = ids \<and> forget ` set (Rules s') = forget ` set (Rules s) \<and>
       map r_priority (Rules s') = map int [0..<length ids])"
proof (intro conjI allI impI)
  have "fst (ReorderRules ids s) = Inr () \<longleftrightarrow> (\<exists>s'. reorder_rules_tx ids s = Inr ((), s'))"
    by (cases "reorder_rules_tx ids s") (auto simp: ReorderRules_def tx_def)
  then show "fst (ReorderRules ids s) = Inr () \<longleftrightarrow> distinct ids \<and> set ids = r_id ` set (Rules s)"
    using reorder_rules_tx_ok(1) [OF assms, of ids] by (simp add: set_ruleIDs Rules_id_set)
next
  fix s' assume "ReorderRules ids s = (Inr (), s')"
  then have "reorder_rules_tx ids s = Inr ((), s')" by (simp add: ReorderRules_def tx_Inr)
  from reorder_rules_tx_ok(2) [OF assms this]
  have inv': "rules_inv s'" and order: "ruleIDsByPriority s' = ids"
    and rows: "map unranked (db_rules s') = map unranked (db_rules s)" by auto
  show ids: "map r_id (Rules s') = ids" using order by (simp add: Rules_ids)
  have "unranked ` set (db_rules s') = unranked ` set (db_rules s)"
    using rows by (metis list.set_map)
  then have "scanRule ` unranked ` set (db_rules s') = scanRule ` unranked ` set (db_rules s)" by simp
  then show "forget ` set (Rules s') = forget ` set (Rules s)"
    by (simp add: Rules_def image_image forget_scanRule)
  show "map r_priority (Rules s') = map int [0..<length ids]"
    using Rules_priorities [OF inv'] ids by (metis length_map)
qed

text \<open>UpdateRule changes the named rule in place: order, priorities and all other rules stay, and
  the stored rule is the given one with its selected peers checked and deduplicated.\<close>

lemma UpdateRule_in_place:
  assumes "rules_inv s" "UpdateRule r s = (Inr (), s')"
  shows "\<exists>r'. validateRulePeers r s = Inr r' \<and>
    Rules s' = map (\<lambda>q. if r_id q = r_id r then r'\<lparr>r_priority := r_priority q\<rparr> else q) (Rules s)"
proof -
  from assms(2) have "update_rule_tx r s = Inr ((), s')" by (simp add: UpdateRule_Inr)
  from update_rule_tx_ok [OF assms(1) this] obtain r' where v: "validateRulePeers r s = Inr r'"
    and s': "s' = s\<lparr>db_rules := upd_where (\<lambda>w. rr_id w = r_id r) (overwrite_row (ruleArgs r')) (db_rules s)\<rparr>"
    by blast
  let ?f = "\<lambda>w. if rr_id w = r_id r then overwrite_row (ruleArgs r') w else w"
  have rid: "r_id r' = r_id r" using validateRulePeers_ok(1) [OF v] by (cases r; cases r') simp
  have "sort_key rr_priority (map ?f (db_rules s)) = map ?f (sort_key rr_priority (db_rules s))"
    by (rule sort_key_map) (simp add: overwrite_row_def)
  then have "Rules s' = map (\<lambda>w. scanRule (?f w)) (sort_key rr_priority (db_rules s))"
    by (simp add: Rules_def s' upd_where_def comp_def)
  moreover have "scanRule (?f w) = (if r_id (scanRule w) = r_id r
      then r'\<lparr>r_priority := r_priority (scanRule w)\<rparr> else scanRule w)" for w
    using rid by (simp add: overwrite_row_def scanRule_def ruleArgs_def)
  ultimately show ?thesis using v by (auto simp: Rules_def comp_def)
qed

end
