(* ===== verification/Store_Reality.thy ===== *)
theory Store_Reality
  imports Store_Rules
begin

text \<open>
  The credential statements of \<open>internal/store/reality.go\<close> that other operations call inside their
  transactions: creating the server identity, giving a peer its first credential, and invalidating
  credentials.  The invariant \<open>reality_inv\<close> ties the \<open>reality_\<close> columns of \<open>peers\<close> to the rows of
  \<open>reality_credentials\<close>.  Identifiers and key material are drawn by \<open>uuid.NewString\<close> and
  \<open>crypto/rand\<close>; the values drawn during a call are its arguments.
\<close>

text \<open>\<open>ensureRealityIdentity\<close>; \<open>fresh\<close> is the identity generated when none is stored.\<close>

definition ensureRealityIdentity :: "identity_row \<Rightarrow> db \<Rightarrow> db" where
  "ensureRealityIdentity fresh s =
    (if db_identity s \<noteq> None then s else s\<lparr>db_identity := Some fresh\<rparr>)"

text \<open>\<open>INSERT INTO reality_credentials\<close>: three unique columns, then the reference to the peer.\<close>

definition insert_cred :: "cred_row \<Rightarrow> db \<Rightarrow> sql_err + db" where
  "insert_cred k s =
    (if kr_peer_id k \<in> kr_peer_id ` set (db_creds s) \<or> kr_credential_id k \<in> kr_credential_id ` set (db_creds s)
        \<or> kr_uuid k \<in> kr_uuid ` set (db_creds s) then Inl UNIQUE_failed
     else if kr_peer_id k \<notin> peer_ids s then Inl FOREIGN_KEY_failed
     else Inr (s\<lparr>db_creds := db_creds s @ [k]\<rparr>))"

definition ensurePeerReality :: "string \<Rightarrow> string \<Rightarrow> peer \<Rightarrow> db \<Rightarrow> err + peer \<times> db" where
  "ensurePeerReality cid uuid p s =
    (if p_reality_credential_id p \<noteq> [] \<and> p_reality_revision p > 0 then Inr (p, s)
     else
       let p = p\<lparr>p_reality_credential_id := cid, p_reality_revision := 1\<rparr> in
       bindR (mapErr (\<lambda>_. ErrOther) (insert_cred \<lparr>kr_peer_id = p_id p, kr_credential_id = cid,
           kr_revision = 1, kr_uuid = uuid\<rparr> s)) (\<lambda>s.
         Inr (p, s\<lparr>db_peers := upd_where (\<lambda>w. pr_id w = p_id p)
           (\<lambda>w. w\<lparr>pr_reality_credential_id := cid, pr_reality_revision := 1\<rparr>) (db_peers s)\<rparr>)))"

text \<open>\<open>UPDATE reality_credentials SET revision = revision + 1, uuid = ? WHERE peer_id = ?\<close>.\<close>

definition bump_cred :: "string \<Rightarrow> cred_row \<Rightarrow> cred_row" where
  "bump_cred uuid k = k\<lparr>kr_revision := kr_revision k + 1, kr_uuid := uuid\<rparr>"

definition bump_creds :: "string \<Rightarrow> string \<Rightarrow> db \<Rightarrow> sql_err + db" where
  "bump_creds uuid i s =
    (if \<exists>k \<in> set (db_creds s). kr_peer_id k = i \<and> (\<exists>q \<in> set (db_creds s). kr_peer_id q \<noteq> i \<and> kr_uuid q = uuid)
       then Inl UNIQUE_failed
     else Inr (s\<lparr>db_creds := upd_where (\<lambda>k. kr_peer_id k = i) (bump_cred uuid) (db_creds s)\<rparr>))"

text \<open>The loop over the selected credentials; \<open>uuids n\<close> is the \<open>n\<close>-th identifier drawn.\<close>

fun bump_all :: "(nat \<Rightarrow> string) \<Rightarrow> nat \<Rightarrow> string list \<Rightarrow> db \<Rightarrow> err + db" where
  "bump_all uuids n [] s = Inr s"
| "bump_all uuids n (i # ids) s =
    bindR (mapErr (\<lambda>_. ErrOther) (bump_creds (uuids n) i s)) (bump_all uuids (Suc n) ids)"

text \<open>\<open>COALESCE((SELECT revision FROM reality_credentials WHERE peer_id = peers.id), 0)\<close>.\<close>

definition live_revision :: "db \<Rightarrow> string \<Rightarrow> int" where
  "live_revision s i = (case List.find (\<lambda>k. kr_peer_id k = i) (db_creds s) of
     None \<Rightarrow> 0 | Some k \<Rightarrow> kr_revision k)"

definition sync_revision :: "db \<Rightarrow> peer_row \<Rightarrow> peer_row" where
  "sync_revision s w = w\<lparr>pr_reality_revision := live_revision s (pr_id w)\<rparr>"

definition invalidateReality :: "(nat \<Rightarrow> string) \<Rightarrow> string \<Rightarrow> db \<Rightarrow> err + db" where
  "invalidateReality uuids pid s =
    (let ids = map kr_peer_id (filter (\<lambda>k. pid = [] \<or> kr_peer_id k = pid) (db_creds s)) in
     bindR (bump_all uuids 0 ids s) (\<lambda>s'.
       Inr (s'\<lparr>db_peers := upd_where (\<lambda>w. pid = [] \<or> pr_id w = pid) (sync_revision s') (db_peers s')\<rparr>)))"

section \<open>The invariant\<close>

text \<open>Either a peer was never given a credential, or its columns repeat its credential row, whose
  revision counts from 1.  Enabled access always has a credential behind it.\<close>

definition cols_ok :: "cred_row list \<Rightarrow> peer_row \<Rightarrow> bool" where
  "cols_ok ks w \<longleftrightarrow> (case List.find (\<lambda>k. kr_peer_id k = pr_id w) ks of
     None \<Rightarrow> pr_reality_credential_id w = [] \<and> pr_reality_revision w = 0
   | Some k \<Rightarrow> kr_credential_id k \<noteq> [] \<and> kr_credential_id k = pr_reality_credential_id w \<and>
       kr_revision k = pr_reality_revision w \<and> 1 \<le> kr_revision k)"

definition peer_cred_ok :: "cred_row list \<Rightarrow> peer_row \<Rightarrow> bool" where
  "peer_cred_ok ks w \<longleftrightarrow> cols_ok ks w \<and> (pr_reality_enabled w \<longrightarrow> pr_id w \<in> kr_peer_id ` set ks)"

definition reality_inv :: "db \<Rightarrow> bool" where
  "reality_inv s \<longleftrightarrow> (\<forall>w \<in> set (db_peers s). peer_cred_ok (db_creds s) w)"

text \<open>A credential is dead for an admission when its revision moved past the admitted one, or the row
  is gone; no later runtime may use it.\<close>

definition dead :: "string \<Rightarrow> int \<Rightarrow> db \<Rightarrow> bool" where
  "dead cid n s \<longleftrightarrow> (\<forall>k \<in> set (db_creds s). kr_credential_id k = cid \<longrightarrow> n < kr_revision k)"

text \<open>Two states that differ in credentials and peers only, and two peers that differ in their
  credential columns only.\<close>

definition creds_peers_only :: "db \<Rightarrow> db \<Rightarrow> bool" where
  "creds_peers_only s s' \<longleftrightarrow> s' = s\<lparr>db_creds := db_creds s', db_peers := db_peers s'\<rparr>"

definition same_peer :: "peer \<Rightarrow> peer \<Rightarrow> bool" where
  "same_peer p p' \<longleftrightarrow> p' = p\<lparr>p_reality_credential_id := p_reality_credential_id p',
     p_reality_revision := p_reality_revision p'\<rparr>"

lemma creds_peers_only_upd:
  "creds_peers_only s (s\<lparr>db_creds := a, db_peers := b\<rparr>)" "creds_peers_only s (s\<lparr>db_peers := b\<rparr>)"
  "creds_peers_only s (s\<lparr>db_creds := a\<rparr>)" "creds_peers_only s s"
  by (simp_all add: creds_peers_only_def)

lemma creds_peers_only_trans:
  assumes "creds_peers_only s s1" "creds_peers_only s1 s2"
  shows "creds_peers_only s s2"
proof -
  have "s1 = s\<lparr>db_creds := db_creds s1, db_peers := db_peers s1\<rparr>"
    using assms(1) by (simp only: creds_peers_only_def)
  then have "s1\<lparr>db_creds := a, db_peers := b\<rparr> = s\<lparr>db_creds := a, db_peers := b\<rparr>" for a b
    by (metis (no_types) db.update_convs(3,9) db.surjective)
  with assms(2) show ?thesis by (simp only: creds_peers_only_def)
qed

lemma creds_peers_only_sel:
  assumes "creds_peers_only s s'"
  shows "db_rules s' = db_rules s" "db_tunnels s' = db_tunnels s" "db_settings s' = db_settings s"
    "db_sessions s' = db_sessions s" "db_checks s' = db_checks s" "db_warp s' = db_warp s"
    "db_identity s' = db_identity s"
  by (subst assms [unfolded creds_peers_only_def], simp)+

lemma same_peer_sel:
  assumes "same_peer p p'"
  shows "p_id p' = p_id p" "p_reality_enabled p' = p_reality_enabled p" "p_enabled p' = p_enabled p"
    "p_name p' = p_name p" "p_public_key p' = p_public_key p" "p_private_key p' = p_private_key p"
    "p_preshared_key p' = p_preshared_key p" "p_address p' = p_address p"
    "p_egress_tunnel_id p' = p_egress_tunnel_id p" "p_wireguard_disabled p' = p_wireguard_disabled p"
    "p_created_at p' = p_created_at p"
  by (subst assms [unfolded same_peer_def], simp)+

interpretation bump_upd: row_update kr_peer_id "bump_cred uuid"
  by unfold_locales (simp add: bump_cred_def)

interpretation bump_cid: row_update kr_credential_id "bump_cred uuid"
  by unfold_locales (simp add: bump_cred_def)

interpretation sync_upd: row_update pr_id "sync_revision s"
  by unfold_locales (simp add: sync_revision_def)

section \<open>Bumping credentials\<close>

lemma schema_ok_creds:
  "schema_ok s \<Longrightarrow> schema_ok (s\<lparr>db_creds := ks\<rparr>) \<longleftrightarrow> creds_ok (peer_ids s) ks"
  by (auto simp: schema_ok_def)

lemma schema_ok_peers_cols:
  assumes "schema_ok s" "\<And>w. pr_id (f w) = pr_id w" "\<And>w. pr_public_key (f w) = pr_public_key w"
    "\<And>w. pr_address (f w) = pr_address w" "\<And>w. pr_egress_tunnel_id (f w) = pr_egress_tunnel_id w"
  shows "schema_ok (s\<lparr>db_peers := upd_where p f (db_peers s)\<rparr>)"
proof -
  have "map pr_id (upd_where p f (db_peers s)) = map pr_id (db_peers s)"
    "map pr_public_key (upd_where p f (db_peers s)) = map pr_public_key (db_peers s)"
    "map pr_address (upd_where p f (db_peers s)) = map pr_address (db_peers s)"
    "map pr_egress_tunnel_id (upd_where p f (db_peers s)) = map pr_egress_tunnel_id (db_peers s)"
    using assms(2-5) by (simp_all add: map_upd_where)
  moreover from this(1,4) have "pr_id ` set (upd_where p f (db_peers s)) = peer_ids s"
    "pr_egress_tunnel_id ` set (upd_where p f (db_peers s)) = pr_egress_tunnel_id ` set (db_peers s)"
    by (metis list.set_map peer_ids_def)+
  ultimately show ?thesis using assms(1)
    by (auto simp: schema_ok_def peers_ok_def) (metis (no_types, lifting) image_iff)
qed

text \<open>One statement: the credential of the peer advances, every other one stays.\<close>

lemma bump_creds_ok:
  assumes "schema_ok s" "bump_creds u i s = Inr s'"
  shows "schema_ok s'" "db_creds s' = upd_where (\<lambda>k. kr_peer_id k = i) (bump_cred u) (db_creds s)"
    "s' = s\<lparr>db_creds := db_creds s'\<rparr>"
proof -
  let ?ks = "upd_where (\<lambda>k. kr_peer_id k = i) (bump_cred u) (db_creds s)"
  from assms(2) have s': "s' = s\<lparr>db_creds := ?ks\<rparr>"
    and free: "\<forall>k \<in> set (db_creds s). kr_peer_id k = i \<longrightarrow>
      (\<forall>q \<in> set (db_creds s). kr_peer_id q \<noteq> i \<longrightarrow> kr_uuid q \<noteq> u)"
    by (auto simp: bump_creds_def split: if_splits)
  show "db_creds s' = ?ks" "s' = s\<lparr>db_creds := db_creds s'\<rparr>" by (simp_all add: s')
  have ck: "creds_ok (peer_ids s) (db_creds s)" using assms(1) by (simp add: schema_ok_def)
  have uu: "distinct (map kr_uuid ?ks)"
    using ck free by (intro distinct_upd_column [where v = u]) (auto simp: creds_ok_def bump_cred_def)
  with ck have "creds_ok (peer_ids s) ?ks"
    by (simp add: creds_ok_def bump_upd.key_set_upd bump_upd.distinct_upd bump_cid.distinct_upd)
  with assms(1) s' show "schema_ok s'" by (simp add: schema_ok_creds)
qed

lemma find_bumped:
  "List.find (\<lambda>k. kr_peer_id k = j) (upd_where (\<lambda>k. kr_peer_id k = i) (bump_cred u) ks) =
     (if j = i then map_option (bump_cred u) (List.find (\<lambda>k. kr_peer_id k = j) ks)
      else List.find (\<lambda>k. kr_peer_id k = j) ks)"
  by (simp add: bump_upd.find_upd_key bump_upd.find_upd_other)

text \<open>The loop over distinct peers: each listed credential advances by exactly one revision.\<close>

lemma bump_all_ok:
  assumes "schema_ok s" "distinct ids" "bump_all uuids n ids s = Inr s'"
  shows "schema_ok s' \<and> s' = s\<lparr>db_creds := db_creds s'\<rparr> \<and>
    map kr_peer_id (db_creds s') = map kr_peer_id (db_creds s) \<and>
    (\<forall>j. map_option (\<lambda>k. (kr_credential_id k, kr_revision k)) (List.find (\<lambda>k. kr_peer_id k = j) (db_creds s')) =
       map_option (\<lambda>k. (kr_credential_id k, kr_revision k + (if j \<in> set ids then 1 else 0)))
         (List.find (\<lambda>k. kr_peer_id k = j) (db_creds s)))"
  using assms
proof (induction uuids n ids s rule: bump_all.induct)
  case (2 uuids n i ids s)
  then obtain s1 where s1: "bump_creds (uuids n) i s = Inr s1" and rec: "bump_all uuids (Suc n) ids s1 = Inr s'"
    by (auto simp: bindR_Inr_iff)
  note one = bump_creds_ok [OF "2.prems"(1) s1]
  have IH: "schema_ok s' \<and> s' = s1\<lparr>db_creds := db_creds s'\<rparr> \<and>
    map kr_peer_id (db_creds s') = map kr_peer_id (db_creds s1) \<and>
    (\<forall>j. map_option (\<lambda>k. (kr_credential_id k, kr_revision k)) (List.find (\<lambda>k. kr_peer_id k = j) (db_creds s')) =
       map_option (\<lambda>k. (kr_credential_id k, kr_revision k + (if j \<in> set ids then 1 else 0)))
         (List.find (\<lambda>k. kr_peer_id k = j) (db_creds s1)))"
    using "2.IH" s1 rec one(1) "2.prems"(2) by simp
  have keys: "map kr_peer_id (db_creds s1) = map kr_peer_id (db_creds s)"
    unfolding one(2) by (rule bump_upd.keys_upd)
  have upd1: "s1\<lparr>db_creds := x\<rparr> = s\<lparr>db_creds := x\<rparr>" for x by (subst one(3)) simp
  from IH have "s' = s1\<lparr>db_creds := db_creds s'\<rparr>" by (elim conjE)
  then have frame: "s' = s\<lparr>db_creds := db_creds s'\<rparr>" using upd1 by (rule trans)
  have "i \<notin> set ids" using "2.prems"(2) by simp
  then have step: "map_option (\<lambda>k. (kr_credential_id k, kr_revision k + (if j \<in> set ids then 1 else 0)))
         (List.find (\<lambda>k. kr_peer_id k = j) (db_creds s1)) =
       map_option (\<lambda>k. (kr_credential_id k, kr_revision k + (if j \<in> set (i # ids) then 1 else 0)))
         (List.find (\<lambda>k. kr_peer_id k = j) (db_creds s))" for j
    unfolding one(2) find_bumped
    by (cases "List.find (\<lambda>k. kr_peer_id k = j) (db_creds s)") (auto simp: bump_cred_def)
  show ?case using IH keys frame step by simp
qed simp

section \<open>invalidateReality\<close>

lemma invalidateReality_ok:
  assumes sch: "schema_ok s" and ok: "invalidateReality uuids pid s = Inr s'"
  shows "schema_ok s'"
    "map kr_peer_id (db_creds s') = map kr_peer_id (db_creds s)"
    "\<And>j. map_option (\<lambda>k. (kr_credential_id k, kr_revision k)) (List.find (\<lambda>k. kr_peer_id k = j) (db_creds s')) =
       map_option (\<lambda>k. (kr_credential_id k, kr_revision k + (if pid = [] \<or> j = pid then 1 else 0)))
         (List.find (\<lambda>k. kr_peer_id k = j) (db_creds s))"
    "db_peers s' = upd_where (\<lambda>w. pid = [] \<or> pr_id w = pid) (sync_revision s') (db_peers s)"
    "creds_peers_only s s'"
proof -
  let ?ids = "map kr_peer_id (filter (\<lambda>k. pid = [] \<or> kr_peer_id k = pid) (db_creds s))"
  from ok obtain s1 where s1: "bump_all uuids 0 ?ids s = Inr s1"
    and s': "s' = s1\<lparr>db_peers := upd_where (\<lambda>w. pid = [] \<or> pr_id w = pid) (sync_revision s1) (db_peers s1)\<rparr>"
    by (auto simp: invalidateReality_def Let_def bindR_Inr_iff)
  have "distinct ?ids" using sch by (auto simp: schema_ok_def creds_ok_def distinct_map_filter)
  note all = bump_all_ok [OF sch this s1]
  have s1_frame: "s1 = s\<lparr>db_creds := db_creds s1\<rparr>" using all by (elim conjE)
  then have peers1: "db_peers s1 = db_peers s" by (metis db.ext_inject db.surjective db.update_convs(9))
  have sync: "sync_revision s' = sync_revision s1"
    by (simp add: s' sync_revision_def live_revision_def fun_eq_iff)
  show "schema_ok s'"
    unfolding s' by (rule schema_ok_peers_cols) (use all in \<open>simp_all add: sync_revision_def\<close>)
  show "map kr_peer_id (db_creds s') = map kr_peer_id (db_creds s)" using all by (simp add: s')
  show "db_peers s' = upd_where (\<lambda>w. pid = [] \<or> pr_id w = pid) (sync_revision s') (db_peers s)"
    unfolding sync by (simp add: s' peers1)
  have "creds_peers_only s s1" by (subst s1_frame) (rule creds_peers_only_upd)
  then show "creds_peers_only s s'"
    unfolding s' by (rule creds_peers_only_trans) (rule creds_peers_only_upd)
  fix j
  have rows: "map_option (\<lambda>k. (kr_credential_id k, kr_revision k)) (List.find (\<lambda>k. kr_peer_id k = j) (db_creds s')) =
       map_option (\<lambda>k. (kr_credential_id k, kr_revision k + (if j \<in> set ?ids then 1 else 0)))
         (List.find (\<lambda>k. kr_peer_id k = j) (db_creds s))"
    using all by (simp add: s')
  show "map_option (\<lambda>k. (kr_credential_id k, kr_revision k)) (List.find (\<lambda>k. kr_peer_id k = j) (db_creds s')) =
       map_option (\<lambda>k. (kr_credential_id k, kr_revision k + (if pid = [] \<or> j = pid then 1 else 0)))
         (List.find (\<lambda>k. kr_peer_id k = j) (db_creds s))"
  proof (cases "List.find (\<lambda>k. kr_peer_id k = j) (db_creds s)")
    case (Some k)
    then have "k \<in> set (db_creds s) \<and> kr_peer_id k = j" by (rule find_key_Some)
    then have "j \<in> set ?ids \<longleftrightarrow> pid = [] \<or> j = pid" by auto
    with rows show ?thesis by simp
  qed (use rows in simp)
qed

lemma invalidateReality_cols:
  assumes sch: "schema_ok s" and ok: "invalidateReality uuids pid s = Inr s'"
    and w: "w \<in> set (db_peers s)" "cols_ok (db_creds s) w"
    and w': "w' = (if pid = [] \<or> pr_id w = pid then sync_revision s' w else w)"
  shows "cols_ok (db_creds s') w'"
proof (cases "List.find (\<lambda>k. kr_peer_id k = pr_id w) (db_creds s)")
  note i = invalidateReality_ok [OF sch ok]
  case None
  with i(3) [of "pr_id w"] have "List.find (\<lambda>k. kr_peer_id k = pr_id w) (db_creds s') = None" by simp
  with None w(2) show ?thesis by (simp add: cols_ok_def w' sync_revision_def live_revision_def)
next
  note i = invalidateReality_ok [OF sch ok]
  case (Some k)
  with i(3) [of "pr_id w"] obtain k' where
    "List.find (\<lambda>k. kr_peer_id k = pr_id w) (db_creds s') = Some k'"
    "kr_credential_id k' = kr_credential_id k"
    "kr_revision k' = kr_revision k + (if pid = [] \<or> pr_id w = pid then 1 else 0)"
    by auto
  with Some w(2) show ?thesis by (auto simp: cols_ok_def w' sync_revision_def live_revision_def)
qed

lemma invalidateReality_reality_inv:
  assumes sch: "schema_ok s" and inv: "reality_inv s" and ok: "invalidateReality uuids pid s = Inr s'"
  shows "reality_inv s'"
  unfolding reality_inv_def
proof
  note i = invalidateReality_ok [OF sch ok]
  fix w' assume "w' \<in> set (db_peers s')"
  then obtain w where w: "w \<in> set (db_peers s)"
    and w': "w' = (if pid = [] \<or> pr_id w = pid then sync_revision s' w else w)"
    by (auto simp: i(4) set_upd_where)
  have old: "cols_ok (db_creds s) w" "pr_reality_enabled w \<Longrightarrow> pr_id w \<in> kr_peer_id ` set (db_creds s)"
    using inv w by (auto simp: reality_inv_def peer_cred_ok_def)
  have keys: "kr_peer_id ` set (db_creds s') = kr_peer_id ` set (db_creds s)"
    using i(2) by (metis list.set_map)
  have "pr_id w' = pr_id w" "pr_reality_enabled w' = pr_reality_enabled w"
    by (simp_all add: w' sync_revision_def)
  with old(2) invalidateReality_cols [OF sch ok w old(1) w'] show "peer_cred_ok (db_creds s') w'"
    by (simp add: peer_cred_ok_def keys)
qed

text \<open>Membership seen through the row of a peer.\<close>

lemma cred_find:
  "schema_ok s \<Longrightarrow> k \<in> set (db_creds s) \<Longrightarrow> List.find (\<lambda>q. kr_peer_id q = kr_peer_id k) (db_creds s) = Some k"
  by (rule find_key_distinct) (simp_all add: schema_ok_def creds_ok_def)

lemma invalidateReality_cred_back:
  assumes sch: "schema_ok s" and ok: "invalidateReality uuids pid s = Inr s'" and k': "k' \<in> set (db_creds s')"
  obtains k where "k \<in> set (db_creds s)" "kr_peer_id k = kr_peer_id k'"
    "kr_credential_id k = kr_credential_id k'"
    "kr_revision k' = kr_revision k + (if pid = [] \<or> kr_peer_id k' = pid then 1 else 0)"
proof -
  note i = invalidateReality_ok [OF sch ok]
  from cred_find [OF i(1) k'] i(3) [of "kr_peer_id k'"] obtain k where
    k: "List.find (\<lambda>k. kr_peer_id k = kr_peer_id k') (db_creds s) = Some k"
    "kr_credential_id k = kr_credential_id k'"
    "kr_revision k' = kr_revision k + (if pid = [] \<or> kr_peer_id k' = pid then 1 else 0)"
    by (cases "List.find (\<lambda>k. kr_peer_id k = kr_peer_id k') (db_creds s)") auto
  with find_key_Some [OF k(1)] show ?thesis using that by blast
qed

lemma invalidateReality_dead:
  assumes "schema_ok s" "invalidateReality uuids pid s = Inr s'" "dead c n s"
  shows "dead c n s'"
  unfolding dead_def
proof (intro ballI impI)
  fix k' assume "k' \<in> set (db_creds s')" "kr_credential_id k' = c"
  then obtain k where "k \<in> set (db_creds s)" "kr_credential_id k = c"
    "kr_revision k' = kr_revision k + (if pid = [] \<or> kr_peer_id k' = pid then 1 else 0)"
    using invalidateReality_cred_back [OF assms(1,2)] by metis
  with assms(3) show "n < kr_revision k'" by (fastforce simp: dead_def)
qed

text \<open>The credential of an invalidated peer is dead for the admission in force before.\<close>

lemma invalidateReality_kills:
  assumes "schema_ok s" "invalidateReality uuids pid s = Inr s'"
    "k \<in> set (db_creds s)" "pid = [] \<or> kr_peer_id k = pid"
  shows "dead (kr_credential_id k) (kr_revision k) s'"
  unfolding dead_def
proof (intro ballI impI)
  fix k' assume k': "k' \<in> set (db_creds s')" "kr_credential_id k' = kr_credential_id k"
  then obtain q where q: "q \<in> set (db_creds s)" "kr_peer_id q = kr_peer_id k'"
    "kr_credential_id q = kr_credential_id k"
    "kr_revision k' = kr_revision q + (if pid = [] \<or> kr_peer_id k' = pid then 1 else 0)"
    using invalidateReality_cred_back [OF assms(1,2)] by metis
  have "q = k"
    using assms(1,3) q by (auto simp: schema_ok_def creds_ok_def intro: distinct_key_inj)
  with q assms(4) show "kr_revision k < kr_revision k'" by auto
qed

section \<open>ensurePeerReality\<close>

text \<open>A peer row without its credential columns: what the credential statements leave alone.\<close>

definition bare :: "peer_row \<Rightarrow> peer_row" where
  "bare w = w\<lparr>pr_reality_credential_id := [], pr_reality_revision := 0\<rparr>"

lemma bare_upd_where:
  "(\<And>w. bare (f w) = bare w) \<Longrightarrow> map bare (upd_where p f ws) = map bare ws"
  by (simp add: map_upd_where)

lemma bare_eqD: "bare w = bare v \<Longrightarrow> pr_id w = pr_id v \<and> pr_public_key w = pr_public_key v \<and>
    pr_address w = pr_address v \<and> pr_egress_tunnel_id w = pr_egress_tunnel_id v \<and>
    pr_reality_enabled w = pr_reality_enabled v \<and> pr_enabled w = pr_enabled v \<and> pr_name w = pr_name v"
  by (cases w; cases v) (simp add: bare_def)

lemma ensurePeerReality_ok:
  assumes sch: "schema_ok s" and cols: "\<forall>w \<in> set (db_peers s). cols_ok (db_creds s) w"
    and cid: "cid \<noteq> []"
    and w0: "w0 \<in> set (db_peers s)" "pr_id w0 = p_id p"
      "pr_reality_credential_id w0 = p_reality_credential_id p"
      "pr_reality_revision w0 = p_reality_revision p"
    and ok: "ensurePeerReality cid uuid p s = Inr (p', s')"
  shows "schema_ok s' \<and> (\<forall>w \<in> set (db_peers s'). cols_ok (db_creds s') w) \<and>
    p_id p \<in> kr_peer_id ` set (db_creds s') \<and>
    kr_peer_id ` set (db_creds s) \<subseteq> kr_peer_id ` set (db_creds s') \<and>
    map bare (db_peers s') = map bare (db_peers s) \<and>
    creds_peers_only s s' \<and> same_peer p p' \<and>
    (\<forall>c n. dead c n s \<longrightarrow> c \<noteq> cid \<longrightarrow> dead c n s')"
proof (cases "p_reality_credential_id p \<noteq> [] \<and> p_reality_revision p > 0")
  case True
  with ok have eq: "p' = p" "s' = s" by (auto simp: ensurePeerReality_def)
  have "cols_ok (db_creds s) w0" using cols w0(1) by blast
  with True w0 have "p_id p \<in> kr_peer_id ` set (db_creds s)"
    by (auto simp: cols_ok_def find_key_None split: option.splits dest!: find_key_Some
        intro: key_imageI)
  with eq sch cols show ?thesis by (simp add: creds_peers_only_upd same_peer_def)
next
  case False
  let ?k = "\<lparr>kr_peer_id = p_id p, kr_credential_id = cid, kr_revision = 1, kr_uuid = uuid\<rparr>"
  let ?f = "\<lambda>w. w\<lparr>pr_reality_credential_id := cid, pr_reality_revision := 1\<rparr>"
  let ?ps = "upd_where (\<lambda>w. pr_id w = p_id p) ?f (db_peers s)"
  from False ok have s': "s' = s\<lparr>db_creds := db_creds s @ [?k], db_peers := ?ps\<rparr>"
    and p': "p' = p\<lparr>p_reality_credential_id := cid, p_reality_revision := 1\<rparr>"
    and new: "p_id p \<notin> kr_peer_id ` set (db_creds s)" "cid \<notin> kr_credential_id ` set (db_creds s)"
      "uuid \<notin> kr_uuid ` set (db_creds s)" "p_id p \<in> peer_ids s"
    by (auto simp: ensurePeerReality_def Let_def bindR_Inr_iff insert_cred_def split: if_splits)
  have "schema_ok (s\<lparr>db_creds := db_creds s @ [?k]\<rparr>)"
    using sch new by (simp add: schema_ok_creds) (auto simp: schema_ok_def creds_ok_def)
  from schema_ok_peers_cols [OF this, of ?f "\<lambda>w. pr_id w = p_id p"] have "schema_ok s'" by (simp add: s')
  moreover have "cols_ok (db_creds s') w'" if "w' \<in> set (db_peers s')" for w'
  proof -
    from that obtain w where w: "w \<in> set (db_peers s)" and w': "w' = (if pr_id w = p_id p then ?f w else w)"
      by (auto simp: s' set_upd_where)
    then have "cols_ok (db_creds s) w" using cols by blast
    moreover have "List.find (\<lambda>k. kr_peer_id k = p_id p) (db_creds s) = None"
      using new(1) by (simp add: find_key_None)
    ultimately show ?thesis using cid w'
      by (cases "pr_id w = p_id p") (auto simp: cols_ok_def s' find_append split: option.splits)
  qed
  moreover have "map bare (db_peers s') = map bare (db_peers s)"
    by (simp add: s' bare_upd_where bare_def)
  ultimately show ?thesis by (auto simp: s' p' dead_def creds_peers_only_upd same_peer_def)
qed

section \<open>Operations and dead credentials\<close>

text \<open>An operation of the store that never brings a dead credential revision back to life.  \<open>mints\<close>
  are the credential identifiers a call may create.\<close>

locale admission_op = store_op run inv ok
  for run :: "'arg \<Rightarrow> db \<Rightarrow> (err + 'a) \<times> db" and inv :: "db \<Rightarrow> bool" and ok :: "'arg \<Rightarrow> bool" +
  fixes mints :: "'arg \<Rightarrow> string set"
  assumes dead_kept: "inv s \<Longrightarrow> ok x \<Longrightarrow> run x s = (Inr a, s') \<Longrightarrow> dead c n s \<Longrightarrow> c \<notin> mints x \<Longrightarrow> dead c n s'"
begin

lemma step_dead: "inv s \<Longrightarrow> ok x \<Longrightarrow> dead c n s \<Longrightarrow> c \<notin> mints x \<Longrightarrow> dead c n (snd (run x s))"
  by (rule lift_step) (rule dead_kept)

end

end
