(* ===== verification/Store_Peers.thy ===== *)
theory Store_Peers
  imports Store_Reality
begin

text \<open>
  \<open>internal/store/peers.go\<close>: client devices.  Besides the schema, two facts hold in every state these
  operations reach: the Reality columns agree with the credential table (\<open>reality_inv\<close>), and a rule
  for selected peers names existing peers only, at least one while it is enabled
  (\<open>selection_inv\<close>); identifiers of peers are never empty.
\<close>

section \<open>Rows and peers\<close>

text \<open>The columns of the INSERT of \<open>CreatePeer\<close>: a new peer has no credential.\<close>

definition peerArgs :: "peer \<Rightarrow> peer_row" where
  "peerArgs p = \<lparr>pr_id = p_id p, pr_name = p_name p, pr_public_key = p_public_key p,
     pr_private_key = p_private_key p, pr_preshared_key = p_preshared_key p,
     pr_address = p_address p, pr_enabled = p_enabled p, pr_created_at = Unix (p_created_at p),
     pr_egress_tunnel_id = p_egress_tunnel_id p, pr_wireguard_disabled = p_wireguard_disabled p,
     pr_reality_enabled = p_reality_enabled p, pr_reality_credential_id = [],
     pr_reality_revision = 0\<rparr>"

definition scanPeer :: "peer_row \<Rightarrow> peer" where
  "scanPeer w = \<lparr>p_wireguard_disabled = pr_wireguard_disabled w,
     p_reality_enabled = pr_reality_enabled w,
     p_reality_credential_id = pr_reality_credential_id w,
     p_reality_revision = pr_reality_revision w, p_egress_tunnel_id = pr_egress_tunnel_id w,
     p_id = pr_id w, p_name = pr_name w, p_public_key = pr_public_key w,
     p_private_key = pr_private_key w, p_preshared_key = pr_preshared_key w,
     p_address = pr_address w, p_enabled = pr_enabled w,
     p_created_at = time_Unix (pr_created_at w)\<rparr>"

definition find_peer :: "db \<Rightarrow> string \<Rightarrow> peer_row option" where
  "find_peer s i = List.find (\<lambda>w. pr_id w = i) (db_peers s)"

definition Peer :: "db \<Rightarrow> string \<Rightarrow> err + peer" where
  "Peer s i = (case find_peer s i of None \<Rightarrow> Inl ErrNotFound | Some w \<Rightarrow> Inr (scanPeer w))"

definition Peers :: "db \<Rightarrow> peer list" where
  "Peers s = map scanPeer (sort_key (\<lambda>w. (pr_created_at w, pr_id w)) (db_peers s))"

section \<open>Writing\<close>

definition validatePeerEgress :: "string option \<Rightarrow> db \<Rightarrow> err + unit" where
  "validatePeerEgress eid s = (case eid of
     None \<Rightarrow> Inr ()
   | Some t \<Rightarrow> if TrimSpace t = [] then Inl ErrInvalid
       else if t \<notin> tunnel_ids s then Inl ErrInvalid else Inr ())"

text \<open>\<open>isUniqueViolation\<close> with \<open>peerConflictErr\<close>.\<close>

definition peerWriteErr :: "sql_err \<Rightarrow> err" where
  "peerWriteErr e = (case e of UNIQUE_failed \<Rightarrow> ErrInvalid | FOREIGN_KEY_failed \<Rightarrow> ErrOther)"

definition insert_peer :: "peer_row \<Rightarrow> db \<Rightarrow> sql_err + db" where
  "insert_peer w s =
    (if pr_id w \<in> peer_ids s \<or> pr_public_key w \<in> pr_public_key ` set (db_peers s)
        \<or> pr_address w \<in> pr_address ` set (db_peers s) then Inl UNIQUE_failed
     else if \<not> ref_ok (tunnel_ids s) (pr_egress_tunnel_id w) then Inl FOREIGN_KEY_failed
     else Inr (s\<lparr>db_peers := db_peers s @ [w]\<rparr>))"

definition create_peer_tx :: "string \<Rightarrow> string \<Rightarrow> peer \<Rightarrow> db \<Rightarrow> err + peer \<times> db" where
  "create_peer_tx cid uuid p s =
    bindR (validatePeerEgress (p_egress_tunnel_id p) s) (\<lambda>_.
    bindR (mapErr peerWriteErr (insert_peer (peerArgs p) s)) (\<lambda>s.
      if p_reality_enabled p then ensurePeerReality cid uuid p s else Inr (p, s)))"

text \<open>What a call draws from outside: the identifiers of \<open>newID\<close> in the order they may be used, and
  the clock.\<close>

record draws =
  dr_id :: string
  dr_credential :: string
  dr_uuid :: string
  dr_now :: time

definition CreatePeer :: "draws \<times> peer \<Rightarrow> db \<Rightarrow> (err + peer) \<times> db" where
  "CreatePeer = (\<lambda>(d, p) s. case peer_validate p of
      Inl e \<Rightarrow> (Inl e, s)
    | Inr _ \<Rightarrow>
        let p = p\<lparr>p_reality_credential_id := [], p_reality_revision := 0\<rparr>;
            p = (if p_id p = [] then p\<lparr>p_id := dr_id d\<rparr> else p);
            p = (if p_created_at p = time_zero then p\<lparr>p_created_at := dr_now d\<rparr> else p)
        in tx (create_peer_tx (dr_credential d) (dr_uuid d) p) s)"

text \<open>\<open>updatePeer\<close>: every column but id, creation time and the credential columns.\<close>

definition overwrite_peer :: "peer \<Rightarrow> peer_row \<Rightarrow> peer_row" where
  "overwrite_peer p w = w\<lparr>pr_name := p_name p, pr_public_key := p_public_key p,
     pr_private_key := p_private_key p, pr_preshared_key := p_preshared_key p,
     pr_address := p_address p, pr_enabled := p_enabled p,
     pr_egress_tunnel_id := p_egress_tunnel_id p,
     pr_wireguard_disabled := p_wireguard_disabled p, pr_reality_enabled := p_reality_enabled p\<rparr>"

definition update_peer_row :: "peer \<Rightarrow> db \<Rightarrow> sql_err + nat \<times> db" where
  "update_peer_row p s =
    (let n = length (filter (\<lambda>w. pr_id w = p_id p) (db_peers s)) in
     if 0 < n \<and> (\<exists>q \<in> set (db_peers s). pr_id q \<noteq> p_id p \<and>
          (pr_public_key q = p_public_key p \<or> pr_address q = p_address p)) then Inl UNIQUE_failed
     else if 0 < n \<and> \<not> ref_ok (tunnel_ids s) (p_egress_tunnel_id p) then Inl FOREIGN_KEY_failed
     else Inr (n, s\<lparr>db_peers := upd_where (\<lambda>w. pr_id w = p_id p) (overwrite_peer p) (db_peers s)\<rparr>))"

definition updatePeer :: "peer \<Rightarrow> db \<Rightarrow> err + db" where
  "updatePeer p s =
    bindR (validatePeerEgress (p_egress_tunnel_id p) s) (\<lambda>_.
    bindR (mapErr peerWriteErr (update_peer_row p s)) (\<lambda>(n, s').
    bindR (checkAffected n) (\<lambda>_. Inr s')))"

definition update_peer_tx :: "peer \<Rightarrow> db \<Rightarrow> err + unit \<times> db" where
  "update_peer_tx p s = (case find_peer s (p_id p) of
     None \<Rightarrow> Inl ErrNotFound
   | Some old \<Rightarrow>
       if (pr_reality_enabled old \<or> p_reality_enabled p) \<and>
          (pr_reality_enabled old \<noteq> p_reality_enabled p \<or> pr_enabled old \<noteq> p_enabled p
           \<or> pr_wireguard_disabled old \<noteq> p_wireguard_disabled p) then Inl ErrInvalid
       else bindR (updatePeer p s) (\<lambda>s'. Inr ((), s')))"

definition UpdatePeer :: "peer \<Rightarrow> db \<Rightarrow> (err + unit) \<times> db" where
  "UpdatePeer p s = (case peer_validate p of
      Inl e \<Rightarrow> (Inl e, s)
    | Inr _ \<Rightarrow> if p_id p = [] then (Inl ErrInvalid, s) else tx (update_peer_tx p) s)"

record peer_patch =
  pp_wireguard_enabled :: "bool option"
  pp_reality_enabled :: "bool option"
  pp_name :: "string option"
  pp_enabled :: "bool option"
  pp_set_egress_tunnel :: bool
  pp_egress_tunnel_id :: "string option"

text \<open>\<open>PeerPatch.Apply\<close>: the merged peer and the verdict of its validation.\<close>

definition patch_apply :: "peer_patch \<Rightarrow> peer \<Rightarrow> peer" where
  "patch_apply c p =
    (let p = (case pp_wireguard_enabled c of None \<Rightarrow> p | Some b \<Rightarrow> p\<lparr>p_wireguard_disabled := \<not> b\<rparr>);
         p = (case pp_reality_enabled c of None \<Rightarrow> p | Some b \<Rightarrow> p\<lparr>p_reality_enabled := b\<rparr>);
         p = (case pp_name c of None \<Rightarrow> p | Some n \<Rightarrow> p\<lparr>p_name := TrimSpace n\<rparr>);
         p = (case pp_enabled c of None \<Rightarrow> p | Some b \<Rightarrow> p\<lparr>p_enabled := b\<rparr>)
     in if pp_set_egress_tunnel c then p\<lparr>p_egress_tunnel_id := pp_egress_tunnel_id c\<rparr> else p)"

definition Apply :: "peer_patch \<Rightarrow> peer \<Rightarrow> err + peer" where
  "Apply c p = bindR (peer_validate (patch_apply c p)) (\<lambda>_. Inr (patch_apply c p))"

definition ValidatePeerPatch :: "peer \<Rightarrow> peer_patch \<Rightarrow> db \<Rightarrow> err + unit" where
  "ValidatePeerPatch p c s =
    bindR (Apply c p) (\<lambda>nxt. validatePeerEgress (p_egress_tunnel_id nxt) s)"

definition patch_peer_tx :: "draws \<Rightarrow> (nat \<Rightarrow> string) \<Rightarrow> string \<Rightarrow> peer_patch \<Rightarrow> db \<Rightarrow> err + peer \<times> db" where
  "patch_peer_tx d uuids i c s = (case find_peer s i of
     None \<Rightarrow> Inl ErrNotFound
   | Some w \<Rightarrow>
       let wasActive = pr_enabled w \<and> pr_reality_enabled w in
       bindR (Apply c (scanPeer w)) (\<lambda>p.
       bindR (if p_reality_enabled p then ensurePeerReality (dr_credential d) (dr_uuid d) p s
              else Inr (p, s)) (\<lambda>(p, s).
       bindR (updatePeer p s) (\<lambda>s.
         if wasActive \<and> (\<not> p_enabled p \<or> \<not> p_reality_enabled p)
         then bindR (invalidateReality uuids (p_id p) s) (\<lambda>s.
           Inr (p\<lparr>p_reality_revision := p_reality_revision p + 1\<rparr>, s))
         else Inr (p, s)))))"

definition PatchPeer :: "draws \<times> (nat \<Rightarrow> string) \<times> string \<times> peer_patch \<Rightarrow> db \<Rightarrow> (err + peer) \<times> db" where
  "PatchPeer = (\<lambda>(d, uuids, i, c). tx (patch_peer_tx d uuids i c))"

section \<open>Deleting\<close>

text \<open>The peers of a rule that are still present, once each.\<close>

fun kept_peers :: "string set \<Rightarrow> string list \<Rightarrow> string list \<Rightarrow> string list" where
  "kept_peers present seen [] = []"
| "kept_peers present seen (i # ids) =
    (if i \<in> present \<and> i \<notin> set seen then i # kept_peers present (i # seen) ids
     else kept_peers present seen ids)"

text \<open>The loop over the rules, with the identifiers of the affected and of the inactivated ones.\<close>

fun prune_rules :: "string set \<Rightarrow> rule list \<Rightarrow> string list \<times> string list \<times> db \<Rightarrow> string list \<times> string list \<times> db" where
  "prune_rules present [] acc = acc"
| "prune_rules present (r # rs) (aff, inact, s) =
    (if r_peer_scope r \<noteq> ScopeSelected then prune_rules present rs (aff, inact, s)
     else
       let kept = kept_peers present [] (r_peer_ids r); enabled = (r_enabled r \<and> kept \<noteq> []) in
       if length kept = length (r_peer_ids r) \<and> enabled = r_enabled r
       then prune_rules present rs (aff, inact, s)
       else prune_rules present rs
         (aff @ [r_id r], if kept = [] then inact @ [r_id r] else inact,
          s\<lparr>db_rules := upd_where (\<lambda>w. rr_id w = r_id r)
              (\<lambda>w. w\<lparr>rr_peer_ids := kept, rr_enabled := enabled\<rparr>) (db_rules s)\<rparr>))"

record peer_deletion =
  pd_affected_rule_ids :: "string list"
  pd_inactivated_rule_ids :: "string list"

text \<open>\<open>DELETE FROM peers WHERE id = ?\<close> cascades to the credentials.\<close>

definition delete_peer_row :: "string \<Rightarrow> db \<Rightarrow> db" where
  "delete_peer_row i s = s\<lparr>db_peers := filter (\<lambda>w. pr_id w \<noteq> i) (db_peers s),
     db_creds := filter (\<lambda>k. kr_peer_id k \<noteq> i) (db_creds s)\<rparr>"

definition delete_peer_tx :: "string \<Rightarrow> db \<Rightarrow> err + peer_deletion \<times> db" where
  "delete_peer_tx i s =
    bindR (checkAffected (length (filter (\<lambda>w. pr_id w = i) (db_peers s)))) (\<lambda>_.
      let s' = delete_peer_row i s;
          (aff, inact, s'') = prune_rules (peer_ids s') (Rules s') ([], [], s')
      in Inr (\<lparr>pd_affected_rule_ids = aff, pd_inactivated_rule_ids = inact\<rparr>, s''))"

definition DeletePeerWithEffects :: "string \<Rightarrow> db \<Rightarrow> (err + peer_deletion) \<times> db" where
  "DeletePeerWithEffects i = tx (delete_peer_tx i)"

definition DeletePeer :: "string \<Rightarrow> db \<Rightarrow> (err + unit) \<times> db" where
  "DeletePeer i s = (case DeletePeerWithEffects i s of
     (Inl e, s') \<Rightarrow> (Inl e, s') | (Inr _, s') \<Rightarrow> (Inr (), s'))"

section \<open>Invariants\<close>

definition selection_ok :: "string set \<Rightarrow> rule_row \<Rightarrow> bool" where
  "selection_ok pids r \<longleftrightarrow> (rr_peer_scope r = ScopeSelected \<longrightarrow>
     distinct (rr_peer_ids r) \<and> set (rr_peer_ids r) \<subseteq> pids \<and> (rr_enabled r \<longrightarrow> rr_peer_ids r \<noteq> []))"

definition selection_inv :: "db \<Rightarrow> bool" where
  "selection_inv s \<longleftrightarrow> (\<forall>r \<in> set (db_rules s). selection_ok (peer_ids s) r)"

definition store_inv :: "db \<Rightarrow> bool" where
  "store_inv s \<longleftrightarrow> rules_inv s \<and> reality_inv s \<and> selection_inv s \<and> [] \<notin> peer_ids s"

lemma store_inv_empty: "store_inv empty_db"
  unfolding store_inv_def using rules_inv_empty
  by (simp add: reality_inv_def selection_inv_def peer_ids_def) (simp add: empty_db_def)

lemma store_invD:
  assumes "store_inv s"
  shows "rules_inv s" "reality_inv s" "selection_inv s" "schema_ok s" "dense s" "[] \<notin> peer_ids s"
  using assms by (auto simp: store_inv_def rules_inv_def)

section \<open>Frames\<close>

lemma scanPeer_sel [simp]:
  "p_id (scanPeer w) = pr_id w" "p_reality_credential_id (scanPeer w) = pr_reality_credential_id w"
  "p_reality_revision (scanPeer w) = pr_reality_revision w"
  "p_reality_enabled (scanPeer w) = pr_reality_enabled w" "p_enabled (scanPeer w) = pr_enabled w"
  by (simp_all add: scanPeer_def)

lemma patch_apply_keeps [simp]:
  "p_id (patch_apply c p) = p_id p"
  "p_reality_credential_id (patch_apply c p) = p_reality_credential_id p"
  "p_reality_revision (patch_apply c p) = p_reality_revision p"
  "p_public_key (patch_apply c p) = p_public_key p" "p_private_key (patch_apply c p) = p_private_key p"
  "p_preshared_key (patch_apply c p) = p_preshared_key p" "p_address (patch_apply c p) = p_address p"
  by (simp_all add: patch_apply_def Let_def split: option.split)

interpretation overwrite_peer_upd: row_update pr_id "overwrite_peer p"
  by unfold_locales (simp add: overwrite_peer_def)

lemma find_peer_Some: "find_peer s i = Some w \<Longrightarrow> w \<in> set (db_peers s) \<and> pr_id w = i"
  unfolding find_peer_def by (rule find_key_Some)

lemma peer_ids_bare: "map bare (db_peers s') = map bare (db_peers s) \<Longrightarrow> peer_ids s' = peer_ids s"
proof -
  assume "map bare (db_peers s') = map bare (db_peers s)"
  then have "pr_id ` bare ` set (db_peers s') = pr_id ` bare ` set (db_peers s)" by (metis list.set_map)
  then show ?thesis by (simp add: image_image bare_def peer_ids_def)
qed

text \<open>The rules' invariants look at rules and at the identifiers of tunnels and peers only.\<close>

lemma dense_frame: "db_rules s' = db_rules s \<Longrightarrow> dense s' = dense s"
  by (simp add: dense_def)

lemma selection_inv_frame:
  "db_rules s' = db_rules s \<Longrightarrow> peer_ids s \<subseteq> peer_ids s' \<Longrightarrow> selection_inv s \<Longrightarrow> selection_inv s'"
  by (auto simp: selection_inv_def selection_ok_def)

lemma dead_frame: "db_creds s' = db_creds s \<Longrightarrow> dead c n s' = dead c n s"
  by (simp add: dead_def)

section \<open>CreatePeer\<close>

lemma insert_peer_ok:
  assumes "schema_ok s" "insert_peer w s = Inr s'"
  shows "schema_ok s'" "s' = s\<lparr>db_peers := db_peers s @ [w]\<rparr>" "pr_id w \<notin> peer_ids s"
proof -
  from assms(2) show s': "s' = s\<lparr>db_peers := db_peers s @ [w]\<rparr>" and new: "pr_id w \<notin> peer_ids s"
    by (auto simp: insert_peer_def split: if_splits)
  from assms(2) have "pr_public_key w \<notin> pr_public_key ` set (db_peers s)"
    "pr_address w \<notin> pr_address ` set (db_peers s)" "ref_ok (tunnel_ids s) (pr_egress_tunnel_id w)"
    by (auto simp: insert_peer_def split: if_splits)
  with assms(1) new show "schema_ok s'"
    by (auto simp: s' schema_ok_def peers_ok_def creds_ok_def peer_ids_def)
qed

lemma create_peer_tx_ok:
  assumes inv: "store_inv s" and cid: "cid \<noteq> []" and pid0: "p_id p \<noteq> []"
    and p: "p_reality_credential_id p = []" "p_reality_revision p = 0"
    and ok: "create_peer_tx cid uuid p s = Inr (p', s')"
  shows "store_inv s'" "peer_ids s' = insert (p_id p) (peer_ids s)" "p_id p \<notin> peer_ids s"
    "\<And>c n. dead c n s \<Longrightarrow> c \<noteq> cid \<Longrightarrow> dead c n s'"
    "map bare (db_peers s') = map bare (db_peers s) @ [bare (peerArgs p)]"
    "creds_peers_only s s'"
proof -
  let ?w = "peerArgs p"
  from ok obtain s1 where ins: "insert_peer ?w s = Inr s1"
    and rest: "(if p_reality_enabled p then ensurePeerReality cid uuid p s1 else Inr (p, s1)) = Inr (p', s')"
    by (auto simp: create_peer_tx_def bindR_Inr_iff)
  note i = insert_peer_ok [OF store_invD(4) [OF inv] ins]
  have pid: "pr_id ?w = p_id p" by (simp add: peerArgs_def)
  from i(3) pid show "p_id p \<notin> peer_ids s" by simp
  then have nocred: "p_id p \<notin> kr_peer_id ` set (db_creds s)"
    using store_invD(4) [OF inv] by (auto simp: schema_ok_def creds_ok_def)
  have neww: "cols_ok (db_creds s) ?w"
    using nocred unfolding cols_ok_def pid by (simp add: find_key_None [THEN iffD2] peerArgs_def)
  have old: "\<forall>w \<in> set (db_peers s). peer_cred_ok (db_creds s) w"
    using store_invD(2) [OF inv] by (simp add: reality_inv_def)
  have cols1: "\<forall>w \<in> set (db_peers s1). cols_ok (db_creds s1) w"
    using old neww by (auto simp: i(2) peer_cred_ok_def)
  have facts: "schema_ok s' \<and> reality_inv s' \<and> map bare (db_peers s') = map bare (db_peers s1) \<and>
      creds_peers_only s1 s' \<and> (\<forall>c n. dead c n s1 \<longrightarrow> c \<noteq> cid \<longrightarrow> dead c n s')"
  proof (cases "p_reality_enabled p")
    case True
    with rest have en: "ensurePeerReality cid uuid p s1 = Inr (p', s')" by simp
    have w1: "?w \<in> set (db_peers s1)" by (simp add: i(2))
    have colsw: "pr_reality_credential_id ?w = p_reality_credential_id p"
      "pr_reality_revision ?w = p_reality_revision p" by (simp_all add: peerArgs_def p)
    note e = ensurePeerReality_ok [OF i(1) cols1 cid w1 pid colsw en]
    have "pr_id w' \<in> kr_peer_id ` set (db_creds s')" if "w' \<in> set (db_peers s')" "pr_reality_enabled w'" for w'
    proof -
      from that(1) e obtain w where "w \<in> set (db_peers s1)" "bare w' = bare w"
        by (metis (no_types, lifting) imageE image_eqI list.set_map)
      then show ?thesis using that(2) e old bare_eqD [of w' w] pid
        by (auto simp: i(2) peer_cred_ok_def)
    qed
    with e show ?thesis by (simp add: reality_inv_def peer_cred_ok_def)
  next
    case False
    with rest have "s' = s1" by simp
    moreover have "reality_inv s1"
      using old neww False by (auto simp: reality_inv_def i(2) peer_cred_ok_def peerArgs_def)
    ultimately show ?thesis using i(1) by (simp add: creds_peers_only_upd)
  qed
  have only1: "creds_peers_only s s1" unfolding i(2) by (rule creds_peers_only_upd)
  from facts have only2: "creds_peers_only s1 s'" by (elim conjE)
  from only1 only2 show only: "creds_peers_only s s'" by (rule creds_peers_only_trans)
  have rules': "db_rules s' = db_rules s" using only by (rule creds_peers_only_sel)
  show "map bare (db_peers s') = map bare (db_peers s) @ [bare ?w]" using facts by (simp add: i(2))
  have ids1: "peer_ids s1 = insert (p_id p) (peer_ids s)" by (simp add: i(2) pid peer_ids_def)
  then show ids': "peer_ids s' = insert (p_id p) (peer_ids s)" using facts peer_ids_bare by blast
  show "\<And>c n. dead c n s \<Longrightarrow> c \<noteq> cid \<Longrightarrow> dead c n s'"
    using facts dead_frame [of s1 s] i(2) by simp
  show "store_inv s'"
    using facts store_invD [OF inv] dense_frame [OF rules'] selection_inv_frame [OF rules'] ids' pid0
    by (simp add: store_inv_def rules_inv_def subset_insertI)
qed

section \<open>UpdatePeer\<close>

lemma updatePeer_ok:
  assumes "schema_ok s" "updatePeer p s = Inr s'"
  shows "schema_ok s'"
    "s' = s\<lparr>db_peers := upd_where (\<lambda>w. pr_id w = p_id p) (overwrite_peer p) (db_peers s)\<rparr>"
    "p_id p \<in> peer_ids s"
proof -
  let ?ps = "upd_where (\<lambda>w. pr_id w = p_id p) (overwrite_peer p) (db_peers s)"
  from assms(2) obtain n where up: "update_peer_row p s = Inr (n, s')" and n: "n \<noteq> 0"
    by (auto simp: updatePeer_def bindR_Inr_iff)
  from up n show s': "s' = s\<lparr>db_peers := ?ps\<rparr>" and "p_id p \<in> peer_ids s"
    by (auto simp: update_peer_row_def Let_def filter_key_Nil peer_ids_def split: if_splits)
  from up n have ref: "ref_ok (tunnel_ids s) (p_egress_tunnel_id p)"
    and free: "\<forall>q \<in> set (db_peers s). pr_id q \<noteq> p_id p \<longrightarrow>
      pr_public_key q \<noteq> p_public_key p \<and> pr_address q \<noteq> p_address p"
    by (auto simp: update_peer_row_def Let_def split: if_splits)
  have pk: "peers_ok (tunnel_ids s) (db_peers s)" using assms(1) by (simp add: schema_ok_def)
  have "distinct (map pr_public_key ?ps)" "distinct (map pr_address ?ps)"
    using pk free
    by (intro distinct_upd_column [where v = "p_public_key p"] distinct_upd_column [where v = "p_address p"];
        simp add: peers_ok_def overwrite_peer_def)+
  then have "peers_ok (tunnel_ids s) ?ps"
    using pk ref overwrite_peer_upd.distinct_upd
    by (auto simp: peers_ok_def set_upd_where overwrite_peer_def)
  moreover have "pr_id ` set ?ps = peer_ids s"
    by (simp add: overwrite_peer_upd.key_set_upd peer_ids_def)
  ultimately show "schema_ok s'" using assms(1) by (simp add: s' schema_ok_def)
qed

lemma overwrite_keeps [simp]:
  "pr_id (overwrite_peer p w) = pr_id w"
  "pr_reality_credential_id (overwrite_peer p w) = pr_reality_credential_id w"
  "pr_reality_revision (overwrite_peer p w) = pr_reality_revision w"
  "pr_reality_enabled (overwrite_peer p w) = p_reality_enabled p"
  "pr_enabled (overwrite_peer p w) = p_enabled p"
  by (simp_all add: overwrite_peer_def)

lemma cols_ok_overwrite [simp]: "cols_ok ks (overwrite_peer p w) = cols_ok ks w"
  by (simp add: cols_ok_def split: option.split)

text \<open>Overwriting the ordinary columns keeps the credential columns, so only the access flag matters.\<close>

lemma updatePeer_reality_inv:
  assumes "updatePeer p s = Inr s'" "schema_ok s" "\<forall>w \<in> set (db_peers s). cols_ok (db_creds s) w"
    "\<forall>w \<in> set (db_peers s). pr_id w \<noteq> p_id p \<longrightarrow> pr_reality_enabled w \<longrightarrow> pr_id w \<in> kr_peer_id ` set (db_creds s)"
    "p_reality_enabled p \<Longrightarrow> p_id p \<in> kr_peer_id ` set (db_creds s)"
  shows "reality_inv s'"
  using assms(3-5) updatePeer_ok(2) [OF assms(2,1)]
  by (auto simp: reality_inv_def set_upd_where peer_cred_ok_def split: if_splits)

lemma store_inv_peers:
  assumes "store_inv s" "schema_ok s'" "reality_inv s'" "db_rules s' = db_rules s" "peer_ids s' = peer_ids s"
  shows "store_inv s'"
  using assms dense_frame [OF assms(4)] selection_inv_frame [OF assms(4)]
  by (auto simp: store_inv_def rules_inv_def)

lemma update_peer_tx_ok:
  assumes inv: "store_inv s" and ok: "update_peer_tx p s = Inr (u, s')"
  shows "store_inv s'" "db_creds s' = db_creds s"
    "s' = s\<lparr>db_peers := upd_where (\<lambda>w. pr_id w = p_id p) (overwrite_peer p) (db_peers s)\<rparr>"
proof -
  from ok obtain old where old: "find_peer s (p_id p) = Some old" and up: "updatePeer p s = Inr s'"
    and gate: "pr_reality_enabled old = p_reality_enabled p"
    by (auto simp: update_peer_tx_def bindR_Inr_iff split: option.splits if_splits)
  note u = updatePeer_ok [OF store_invD(4) [OF inv] up]
  show "s' = s\<lparr>db_peers := upd_where (\<lambda>w. pr_id w = p_id p) (overwrite_peer p) (db_peers s)\<rparr>" by (fact u(2))
  show "db_creds s' = db_creds s" by (simp add: u(2))
  have old_ok: "\<forall>w \<in> set (db_peers s). peer_cred_ok (db_creds s) w"
    using store_invD(2) [OF inv] by (simp add: reality_inv_def)
  have "reality_inv s'"
  proof (rule updatePeer_reality_inv [OF up store_invD(4) [OF inv]])
    show "p_reality_enabled p \<Longrightarrow> p_id p \<in> kr_peer_id ` set (db_creds s)"
      using old_ok find_peer_Some [OF old] gate by (metis peer_cred_ok_def)
  qed (use old_ok in \<open>auto simp: peer_cred_ok_def\<close>)
  then show "store_inv s'"
    by (rule store_inv_peers [OF inv u(1)])
      (simp_all add: u(2) overwrite_peer_upd.key_set_upd peer_ids_def)
qed

section \<open>PatchPeer\<close>

lemma invalidateReality_store_inv:
  assumes inv: "store_inv s" and ok: "invalidateReality uuids pid s = Inr s'"
  shows "store_inv s'" "map bare (db_peers s') = map bare (db_peers s)"
proof -
  note v = invalidateReality_ok [OF store_invD(4) [OF inv] ok]
  show b: "map bare (db_peers s') = map bare (db_peers s)"
    unfolding v(4) by (rule bare_upd_where) (simp add: bare_def sync_revision_def)
  show "store_inv s'"
    using invalidateReality_reality_inv [OF store_invD(4) [OF inv] store_invD(2) [OF inv] ok] v(1)
      creds_peers_only_sel(1) [OF v(5)] peer_ids_bare [OF b] by (intro store_inv_peers [OF inv])
qed

text \<open>The peer row as the patch leaves it, before credentials are touched.\<close>

lemma patch_peer_tx_ok:
  assumes inv: "store_inv s" and cid: "dr_credential d \<noteq> []"
    and ok: "patch_peer_tx d uuids i c s = Inr (p', s')"
  obtains w where "find_peer s i = Some w" "peer_validate (patch_apply c (scanPeer w)) = Inr ()"
    "store_inv s'"
    "map bare (db_peers s') = map bare (upd_where (\<lambda>w. pr_id w = i) (overwrite_peer (patch_apply c (scanPeer w))) (db_peers s))"
    "creds_peers_only s s'"
    "\<And>x n. dead x n s \<Longrightarrow> x \<noteq> dr_credential d \<Longrightarrow> dead x n s'"
    "pr_enabled w \<Longrightarrow> pr_reality_enabled w \<Longrightarrow>
       \<not> (p_enabled (patch_apply c (scanPeer w)) \<and> p_reality_enabled (patch_apply c (scanPeer w))) \<Longrightarrow>
       dead (pr_reality_credential_id w) (pr_reality_revision w) s'"
proof -
  from ok obtain w where w: "find_peer s i = Some w" by (auto simp: patch_peer_tx_def split: option.splits)
  let ?p = "patch_apply c (scanPeer w)"
  let ?quit = "(pr_enabled w \<and> pr_reality_enabled w) \<and> (\<not> p_enabled ?p \<or> \<not> p_reality_enabled ?p)"
  from ok w obtain p1 s1 s2 where val: "peer_validate ?p = Inr ()"
    and en: "(if p_reality_enabled ?p then ensurePeerReality (dr_credential d) (dr_uuid d) ?p s else Inr (?p, s)) = Inr (p1, s1)"
    and up: "updatePeer p1 s1 = Inr s2"
    and fin: "(if (pr_enabled w \<and> pr_reality_enabled w) \<and> (\<not> p_enabled p1 \<or> \<not> p_reality_enabled p1)
         then bindR (invalidateReality uuids (p_id p1) s2) (\<lambda>s. Inr (p1\<lparr>p_reality_revision := p_reality_revision p1 + 1\<rparr>, s))
         else Inr (p1, s2)) = Inr (p', s')"
    by (auto simp: patch_peer_tx_def Apply_def bindR_Inr_iff Let_def)
  note wi = find_peer_Some [OF w]
  have sch: "schema_ok s" and old: "\<forall>w \<in> set (db_peers s). peer_cred_ok (db_creds s) w"
    using store_invD(2,4) [OF inv] by (simp_all add: reality_inv_def)
  then have cols: "\<forall>w \<in> set (db_peers s). cols_ok (db_creds s) w" by (simp add: peer_cred_ok_def)
  have e: "schema_ok s1 \<and> (\<forall>w \<in> set (db_peers s1). cols_ok (db_creds s1) w) \<and>
      (p_reality_enabled ?p \<longrightarrow> i \<in> kr_peer_id ` set (db_creds s1)) \<and>
      kr_peer_id ` set (db_creds s) \<subseteq> kr_peer_id ` set (db_creds s1) \<and>
      map bare (db_peers s1) = map bare (db_peers s) \<and>
      creds_peers_only s s1 \<and> same_peer ?p p1 \<and>
      (\<forall>x n. dead x n s \<longrightarrow> x \<noteq> dr_credential d \<longrightarrow> dead x n s1)"
    using ensurePeerReality_ok [OF sch cols cid, of w ?p "dr_uuid d" p1 s1] en sch cols wi
    by (cases "p_reality_enabled ?p") (auto simp: creds_peers_only_upd same_peer_def split: if_splits)
  then have p1: "same_peer ?p p1" and sch1: "schema_ok s1" by blast+
  then have p1i: "p_id p1 = i" "p_reality_enabled p1 = p_reality_enabled ?p" "p_enabled p1 = p_enabled ?p"
    "overwrite_peer p1 = overwrite_peer ?p"
    using wi by (simp_all add: same_peer_sel [OF p1] overwrite_peer_def fun_eq_iff)
  note u = updatePeer_ok [OF sch1 up]
  have en1: "pr_id v \<in> kr_peer_id ` set (db_creds s1)" if "v \<in> set (db_peers s1)" "pr_reality_enabled v" for v
  proof -
    from that(1) e obtain v0 where "v0 \<in> set (db_peers s)" "bare v = bare v0"
      by (metis (no_types, lifting) imageE image_eqI list.set_map)
    then show ?thesis using that(2) e old bare_eqD [of v v0] by (auto simp: peer_cred_ok_def)
  qed
  have r2: "reality_inv s2"
    using en1 e p1i by (intro updatePeer_reality_inv [OF up sch1]) auto
  have bare2: "map bare (db_peers s2) = map bare (upd_where (\<lambda>w. pr_id w = i) (overwrite_peer ?p) (db_peers s))"
  proof -
    have ow: "bare (if pr_id v = i then overwrite_peer ?p v else v)
        = (\<lambda>b. if pr_id b = i then bare (overwrite_peer ?p b) else b) (bare v)" for v
      by (simp add: bare_def overwrite_peer_def)
    have ows: "map bare (upd_where (\<lambda>w. pr_id w = i) (overwrite_peer ?p) ws)
        = map (\<lambda>b. if pr_id b = i then bare (overwrite_peer ?p b) else b) (map bare ws)" for ws
      by (simp add: upd_where_def ow comp_def)
    have b1: "map bare (db_peers s1) = map bare (db_peers s)" using e by (elim conjE)
    have "map bare (db_peers s2) = map bare (upd_where (\<lambda>w. pr_id w = i) (overwrite_peer ?p) (db_peers s1))"
      by (simp add: u(2) p1i)
    then show ?thesis unfolding ows b1 .
  qed
  have only2: "creds_peers_only s s2"
  proof (rule creds_peers_only_trans)
    from e show "creds_peers_only s s1" by (elim conjE)
    show "creds_peers_only s1 s2" unfolding u(2) by (rule creds_peers_only_upd)
  qed
  have dead2: "dead x n s2" if "dead x n s" "x \<noteq> dr_credential d" for x n
    using that e dead_frame [of s2 s1] u(2) by simp
  have inv2: "store_inv s2"
  proof (rule store_inv_peers [OF inv u(1) r2])
    show "db_rules s2 = db_rules s" using only2 by (rule creds_peers_only_sel)
    show "peer_ids s2 = peer_ids s"
      using peer_ids_bare [of s1 s] e by (simp add: u(2) overwrite_peer_upd.key_set_upd peer_ids_def)
  qed
  show ?thesis
  proof (cases ?quit)
    case True
    with fin p1i obtain s3 where inval: "invalidateReality uuids i s2 = Inr s3" and s3: "s' = s3"
      by (auto simp: bindR_Inr_iff)
    note v = invalidateReality_ok [OF u(1) inval]
    have only: "creds_peers_only s s3" using creds_peers_only_trans [OF only2 v(5)] .
    note b3 = invalidateReality_store_inv(2) [OF inv2 inval]
    have "store_inv s3" by (rule invalidateReality_store_inv(1) [OF inv2 inval])
    moreover have "dead x n s3" if "dead x n s" "x \<noteq> dr_credential d" for x n
      using invalidateReality_dead [OF u(1) inval dead2 [OF that]] .
    moreover have "dead (pr_reality_credential_id w) (pr_reality_revision w) s3"
    proof -
      have "peer_cred_ok (db_creds s) w" using old wi by blast
      with True obtain k where k: "List.find (\<lambda>k. kr_peer_id k = i) (db_creds s) = Some k"
        and kw: "kr_credential_id k = pr_reality_credential_id w" "kr_revision k = pr_reality_revision w"
          "kr_credential_id k \<noteq> []" "1 \<le> kr_revision k"
        using wi by (auto simp: peer_cred_ok_def cols_ok_def find_key_None split: option.splits)
      have "s1 = s"
        using en kw wi by (auto simp: ensurePeerReality_def split: if_splits)
      then have "k \<in> set (db_creds s2)" "kr_peer_id k = i"
        using find_key_Some [OF k] by (simp_all add: u(2))
      from invalidateReality_kills [OF u(1) inval this(1)] this(2) kw show ?thesis by simp
    qed
    ultimately show ?thesis using that [OF w val] only bare2 b3 s3 by simp
  next
    case False
    with fin p1i have s3: "s' = s2" by auto
    show ?thesis
      using that [OF w val] False inv2 bare2 only2 dead2 unfolding s3 by blast
  qed
qed

section \<open>What a patch leaves to be read\<close>

interpretation cred_cols_upd: row_update pr_id "\<lambda>w. w\<lparr>pr_reality_credential_id := a, pr_reality_revision := b\<rparr>"
  by unfold_locales simp

interpretation sync_upd: row_update pr_id "sync_revision s"
  by unfold_locales (simp add: sync_revision_def)

lemma find_ensurePeerReality:
  assumes "ensurePeerReality cid uuid p s = Inr (p1, s1)" "find_peer s (p_id p) = Some w"
    "pr_reality_credential_id w = p_reality_credential_id p" "pr_reality_revision w = p_reality_revision p"
  shows "\<exists>w1. find_peer s1 (p_id p) = Some w1 \<and> bare w1 = bare w \<and>
      pr_reality_credential_id w1 = p_reality_credential_id p1 \<and> pr_reality_revision w1 = p_reality_revision p1"
    "j \<noteq> p_id p \<Longrightarrow> find_peer s1 j = find_peer s j"
  using assms
  by (auto simp: ensurePeerReality_def insert_cred_def bindR_Inr_iff find_peer_def Let_def bare_def
      cred_cols_upd.find_upd_key cred_cols_upd.find_upd_other split: if_splits)

lemma find_updatePeer:
  assumes "schema_ok s" "updatePeer p s = Inr s'"
  shows "find_peer s' j = (if j = p_id p then map_option (overwrite_peer p) (find_peer s j) else find_peer s j)"
  using updatePeer_ok(2) [OF assms]
  by (simp add: find_peer_def overwrite_peer_upd.find_upd_key overwrite_peer_upd.find_upd_other)

lemma find_invalidateReality:
  assumes "schema_ok s" "invalidateReality uuids i s = Inr s'" "i \<noteq> []"
  shows "find_peer s' j = (if j = i then map_option (sync_revision s') (find_peer s j) else find_peer s j)"
  unfolding find_peer_def invalidateReality_ok(4) [OF assms(1,2)]
  using assms(3) by (simp add: sync_upd.find_upd_key sync_upd.find_upd_other)

lemma scan_overwritten:
  assumes "pr_id w = p_id p" "time_Unix (pr_created_at w) = p_created_at p"
    "pr_reality_credential_id w = p_reality_credential_id p" "pr_reality_revision w = p_reality_revision p"
  shows "scanPeer (overwrite_peer p w) = p"
  using assms by (simp add: scanPeer_def overwrite_peer_def)

lemma live_revision_bumped:
  assumes "schema_ok s" "invalidateReality uuids i s = Inr s'" "cols_ok (db_creds s) w" "pr_id w = i"
    "pr_reality_credential_id w \<noteq> []"
  shows "live_revision s' i = pr_reality_revision w + 1"
proof -
  from assms(3,4,5) obtain k where k: "List.find (\<lambda>k. kr_peer_id k = i) (db_creds s) = Some k"
    "kr_revision k = pr_reality_revision w"
    by (auto simp: cols_ok_def split: option.splits)
  then show ?thesis
    using invalidateReality_ok(3) [OF assms(1,2), of i]
    by (auto simp: live_revision_def split: option.splits)
qed

lemma same_peer_upd:
  assumes "same_peer p q"
  shows "same_peer p (q\<lparr>p_reality_revision := n\<rparr>)"
proof -
  from assms obtain a b where "q = p\<lparr>p_reality_credential_id := a, p_reality_revision := b\<rparr>"
    unfolding same_peer_def by blast
  then show ?thesis by (simp add: same_peer_def)
qed

lemma patch_peer_tx_reads:
  assumes inv: "store_inv s" and cid: "dr_credential d \<noteq> []"
    and ok: "patch_peer_tx d uuids i c s = Inr (p', s')" and w: "find_peer s i = Some w"
  shows "\<exists>w'. find_peer s' i = Some w' \<and> scanPeer w' = p' \<and> same_peer (patch_apply c (scanPeer w)) p'"
    "j \<noteq> i \<Longrightarrow> find_peer s' j = find_peer s j"
proof -
  let ?p = "patch_apply c (scanPeer w)"
  from ok w obtain p1 s1 s2 where
    en: "(if p_reality_enabled ?p then ensurePeerReality (dr_credential d) (dr_uuid d) ?p s else Inr (?p, s)) = Inr (p1, s1)"
    and up: "updatePeer p1 s1 = Inr s2"
    and fin: "(if (pr_enabled w \<and> pr_reality_enabled w) \<and> (\<not> p_enabled p1 \<or> \<not> p_reality_enabled p1)
         then bindR (invalidateReality uuids (p_id p1) s2) (\<lambda>s. Inr (p1\<lparr>p_reality_revision := p_reality_revision p1 + 1\<rparr>, s))
         else Inr (p1, s2)) = Inr (p', s')"
    by (auto simp: patch_peer_tx_def Apply_def bindR_Inr_iff Let_def)
  note wi = find_peer_Some [OF w]
  have sch: "schema_ok s" and old: "\<forall>w \<in> set (db_peers s). peer_cred_ok (db_creds s) w"
    using store_invD(2,4) [OF inv] by (simp_all add: reality_inv_def)
  then have cols: "\<forall>w \<in> set (db_peers s). cols_ok (db_creds s) w" by (simp add: peer_cred_ok_def)
  have e: "schema_ok s1 \<and> (\<forall>w \<in> set (db_peers s1). cols_ok (db_creds s1) w) \<and> same_peer ?p p1"
    using ensurePeerReality_ok [OF sch cols cid, of w ?p "dr_uuid d" p1 s1] en sch cols wi
    by (cases "p_reality_enabled ?p") (auto simp: same_peer_def split: if_splits)
  then have sch1: "schema_ok s1" and p1: "same_peer ?p p1" by blast+
  have p1i: "p_id p1 = i" using wi by (simp add: same_peer_sel [OF p1])
  have "p_created_at ?p = time_Unix (pr_created_at w)"
    by (simp add: patch_apply_def scanPeer_def Let_def split: option.split)
  then have p1c: "p_created_at p1 = time_Unix (pr_created_at w)" by (simp add: same_peer_sel [OF p1])
  have f1: "\<exists>w1. find_peer s1 i = Some w1 \<and> bare w1 = bare w \<and>
      pr_reality_credential_id w1 = p_reality_credential_id p1 \<and> pr_reality_revision w1 = p_reality_revision p1"
    and g1: "j \<noteq> i \<Longrightarrow> find_peer s1 j = find_peer s j"
    using find_ensurePeerReality [of _ _ ?p s p1 s1 w] en w wi by (auto split: if_splits)
  from f1 obtain w1 where w1: "find_peer s1 i = Some w1" "bare w1 = bare w"
    "pr_reality_credential_id w1 = p_reality_credential_id p1" "pr_reality_revision w1 = p_reality_revision p1"
    by blast
  have w1c: "pr_id w1 = i" "pr_created_at w1 = pr_created_at w"
    using arg_cong [OF w1(2), of pr_created_at] find_peer_Some [OF w1(1)] by (simp_all add: bare_def)
  have scan: "scanPeer (overwrite_peer p1 w1) = p1"
    using w1 w1c p1i p1c by (intro scan_overwritten) simp_all
  note u = updatePeer_ok [OF sch1 up]
  have f2: "find_peer s2 i = Some (overwrite_peer p1 w1)" and g2: "j \<noteq> i \<Longrightarrow> find_peer s2 j = find_peer s j"
    using w1(1) g1 by (simp_all add: find_updatePeer [OF sch1 up] p1i)
  show "\<exists>w'. find_peer s' i = Some w' \<and> scanPeer w' = p' \<and> same_peer ?p p'" "j \<noteq> i \<Longrightarrow> find_peer s' j = find_peer s j"
  proof (atomize (full), cases "(pr_enabled w \<and> pr_reality_enabled w) \<and> (\<not> p_enabled p1 \<or> \<not> p_reality_enabled p1)")
    case False
    then have "s' = s2" "p' = p1" using fin by auto
    then show "(\<exists>w'. find_peer s' i = Some w' \<and> scanPeer w' = p' \<and> same_peer ?p p') \<and> (j \<noteq> i \<longrightarrow> find_peer s' j = find_peer s j)"
      using f2 g2 scan p1 by blast
  next
    case True
    with fin obtain s3 where v: "invalidateReality uuids i s2 = Inr s3" and s3: "s' = s3"
      and p': "p' = p1\<lparr>p_reality_revision := p_reality_revision p1 + 1\<rparr>"
      by (auto simp: bindR_Inr_iff p1i)
    have i0: "i \<noteq> []" using store_invD(6) [OF inv] wi by (auto simp: peer_ids_def image_iff)
    have cw1: "cols_ok (db_creds s2) w1"
      using e find_peer_Some [OF w1(1)] by (simp add: u(2))
    have "peer_cred_ok (db_creds s) w" using old wi by blast
    then have "p_reality_credential_id ?p \<noteq> []" "0 < p_reality_revision ?p"
      using True wi by (auto simp: peer_cred_ok_def cols_ok_def find_key_None split: option.splits)
    then have "p_reality_credential_id p1 = p_reality_credential_id ?p"
      using en by (auto simp: ensurePeerReality_def split: if_splits)
    then have cne: "pr_reality_credential_id w1 \<noteq> []" using w1(3) \<open>p_reality_credential_id ?p \<noteq> []\<close> by simp
    have live: "live_revision s3 i = p_reality_revision p1 + 1"
      using live_revision_bumped [OF u(1) v cw1 w1c(1) cne] w1(4) by simp
    have "find_peer s3 i = Some (sync_revision s3 (overwrite_peer p1 w1))"
      and g3: "j \<noteq> i \<Longrightarrow> find_peer s3 j = find_peer s j"
      using f2 g2 by (simp_all add: find_invalidateReality [OF u(1) v i0])
    moreover have "scanPeer (sync_revision s3 (overwrite_peer p1 w1)) = p'"
      using scan live w1c(1) unfolding p' by (simp add: sync_revision_def scanPeer_def) (metis peer.update_convs(4))
    moreover have "same_peer ?p p'" using p1 unfolding p' by (rule same_peer_upd)
    ultimately show "(\<exists>w'. find_peer s' i = Some w' \<and> scanPeer w' = p' \<and> same_peer ?p p') \<and> (j \<noteq> i \<longrightarrow> find_peer s' j = find_peer s j)"
      unfolding s3 by blast
  qed
qed

section \<open>DeletePeer\<close>

lemma kept_peers_le: "length (kept_peers P seen ids) \<le> length ids"
  by (induction P seen ids rule: kept_peers.induct) auto

lemma kept_peers_same: "length (kept_peers P seen ids) = length ids \<Longrightarrow> kept_peers P seen ids = ids"
proof (induction P seen ids rule: kept_peers.induct)
  case (2 P seen i ids)
  then show ?case using kept_peers_le [of P seen ids] by (auto split: if_splits)
qed simp

lemma kept_peers_filter:
  "distinct ids \<Longrightarrow> set ids \<inter> set seen = {} \<Longrightarrow> kept_peers P seen ids = filter (\<lambda>i. i \<in> P) ids"
  by (induction P seen ids rule: kept_peers.induct) auto

text \<open>What the loop does to one row.\<close>

definition prune_row :: "string set \<Rightarrow> rule_row \<Rightarrow> rule_row" where
  "prune_row P w = (if rr_peer_scope w = ScopeSelected
     then w\<lparr>rr_peer_ids := kept_peers P [] (rr_peer_ids w),
            rr_enabled := (rr_enabled w \<and> kept_peers P [] (rr_peer_ids w) \<noteq> [])\<rparr> else w)"

definition is_pruned :: "string set \<Rightarrow> rule_row \<Rightarrow> bool" where
  "is_pruned P w \<longleftrightarrow> rr_peer_scope w = ScopeSelected \<and>
     \<not> (length (kept_peers P [] (rr_peer_ids w)) = length (rr_peer_ids w) \<and>
        (rr_enabled w \<and> kept_peers P [] (rr_peer_ids w) \<noteq> []) = rr_enabled w)"

lemma not_is_pruned: "\<not> is_pruned P w \<Longrightarrow> prune_row P w = w"
  using kept_peers_same [of P "[]" "rr_peer_ids w"] by (auto simp: is_pruned_def prune_row_def)

lemma prune_row_keeps [simp]:
  "rr_id (prune_row P w) = rr_id w" "rr_priority (prune_row P w) = rr_priority w"
  "rr_tunnel_id (prune_row P w) = rr_tunnel_id w" "rr_via_tunnel_id (prune_row P w) = rr_via_tunnel_id w"
  by (simp_all add: prune_row_def)

lemma prune_rules_step:
  "prune_rules P (scanRule w # rs) (aff, inact, s) =
    (if is_pruned P w
     then prune_rules P rs (aff @ [rr_id w], if kept_peers P [] (rr_peer_ids w) = [] then inact @ [rr_id w] else inact,
       s\<lparr>db_rules := upd_where (\<lambda>v. rr_id v = rr_id w)
           (\<lambda>v. v\<lparr>rr_peer_ids := kept_peers P [] (rr_peer_ids w),
                  rr_enabled := (rr_enabled w \<and> kept_peers P [] (rr_peer_ids w) \<noteq> [])\<rparr>) (db_rules s)\<rparr>)
     else prune_rules P rs (aff, inact, s))"
  by (simp add: is_pruned_def Let_def scanRule_def)

text \<open>The loop prunes exactly the rows it is given and reports those that changed.\<close>

lemma prune_rules_fold:
  "prune_rules P (map scanRule ws) (aff, inact, s) =
    (aff @ map rr_id (filter (is_pruned P) ws),
     inact @ map rr_id (filter (\<lambda>w. is_pruned P w \<and> kept_peers P [] (rr_peer_ids w) = []) ws),
     s\<lparr>db_rules := fold (\<lambda>w. upd_where (\<lambda>v. rr_id v = rr_id w)
         (\<lambda>v. v\<lparr>rr_peer_ids := kept_peers P [] (rr_peer_ids w),
                rr_enabled := (rr_enabled w \<and> kept_peers P [] (rr_peer_ids w) \<noteq> [])\<rparr>))
       (filter (is_pruned P) ws) (db_rules s)\<rparr>)"
  by (induction ws arbitrary: aff inact s) (simp_all only: list.map prune_rules_step, simp_all)

lemma prune_rules_eq:
  assumes "distinct (map rr_id (db_rules s))" "distinct (map rr_id ws)" "set ws = set (db_rules s)"
  shows "prune_rules P (map scanRule ws) (aff, inact, s) =
    (aff @ map rr_id (filter (is_pruned P) ws),
     inact @ map rr_id (filter (\<lambda>w. is_pruned P w \<and> kept_peers P [] (rr_peer_ids w) = []) ws),
     s\<lparr>db_rules := map (prune_row P) (db_rules s)\<rparr>)"
proof -
  let ?ws = "filter (is_pruned P) ws"
  have "distinct (map rr_id ?ws)" "set ?ws \<subseteq> set (db_rules s)"
    using assms(2,3) by (auto simp: distinct_map_filter)
  then have "fold (\<lambda>w. upd_where (\<lambda>v. rr_id v = rr_id w)
         (\<lambda>v. v\<lparr>rr_peer_ids := kept_peers P [] (rr_peer_ids w),
                rr_enabled := (rr_enabled w \<and> kept_peers P [] (rr_peer_ids w) \<noteq> [])\<rparr>)) ?ws (db_rules s)
      = map (\<lambda>v. if rr_id v \<in> rr_id ` set ?ws then prune_row P v else v) (db_rules s)"
    by (intro fold_upd_rows assms(1)) (simp_all add: prune_row_def is_pruned_def)
  also have "\<dots> = map (prune_row P) (db_rules s)"
  proof (intro map_cong refl)
    fix v assume "v \<in> set (db_rules s)"
    then show "(if rr_id v \<in> rr_id ` set ?ws then prune_row P v else v) = prune_row P v"
      using assms(3) not_is_pruned [of P v] by (cases "is_pruned P v") auto
  qed
  finally show ?thesis by (simp add: prune_rules_fold)
qed

lemma delete_peer_row_sel [simp]:
  "db_rules (delete_peer_row i s) = db_rules s" "peer_ids (delete_peer_row i s) = peer_ids s - {i}"
  "Rules (delete_peer_row i s) = Rules s"
  by (auto simp: delete_peer_row_def peer_ids_def Rules_def)

lemma delete_peer_tx_eq:
  assumes "rules_inv s"
  shows "delete_peer_tx i s = (if i \<in> peer_ids s then
    Inr (\<lparr>pd_affected_rule_ids = map rr_id (filter (is_pruned (peer_ids s - {i})) (sort_key rr_priority (db_rules s))),
      pd_inactivated_rule_ids = map rr_id (filter (\<lambda>w. is_pruned (peer_ids s - {i}) w \<and>
         kept_peers (peer_ids s - {i}) [] (rr_peer_ids w) = []) (sort_key rr_priority (db_rules s)))\<rparr>,
      (delete_peer_row i s)\<lparr>db_rules := map (prune_row (peer_ids s - {i})) (db_rules s)\<rparr>)
    else Inl ErrNotFound)"
proof -
  let ?ws = "sort_key rr_priority (db_rules s)"
  have gone: "filter (\<lambda>w. pr_id w = i) (db_peers s) = [] \<longleftrightarrow> i \<notin> peer_ids s"
    by (simp add: filter_key_Nil peer_ids_def)
  have "distinct (map rr_id ?ws)" using rules_inv_distinct(1) [OF assms] by (simp add: distinct_map)
  then have "prune_rules (peer_ids s - {i}) (map scanRule ?ws) ([], [], delete_peer_row i s) =
    (map rr_id (filter (is_pruned (peer_ids s - {i})) ?ws),
     map rr_id (filter (\<lambda>w. is_pruned (peer_ids s - {i}) w \<and>
         kept_peers (peer_ids s - {i}) [] (rr_peer_ids w) = []) ?ws),
     (delete_peer_row i s)\<lparr>db_rules := map (prune_row (peer_ids s - {i})) (db_rules s)\<rparr>)"
    using prune_rules_eq [of "delete_peer_row i s" ?ws] rules_inv_distinct(1) [OF assms] by simp
  then show ?thesis
    by (simp add: delete_peer_tx_def checkAffected_def gone Rules_def Let_def)
qed

text \<open>The effect of a deletion on one rule, in terms of rules.\<close>

definition drop_peer :: "string \<Rightarrow> rule \<Rightarrow> rule" where
  "drop_peer i r = (if r_peer_scope r = ScopeSelected
     then r\<lparr>r_peer_ids := filter (\<lambda>j. j \<noteq> i) (r_peer_ids r),
            r_enabled := (r_enabled r \<and> filter (\<lambda>j. j \<noteq> i) (r_peer_ids r) \<noteq> [])\<rparr> else r)"

lemma kept_without:
  assumes "selection_ok P w" "rr_peer_scope w = ScopeSelected"
  shows "kept_peers (P - {i}) [] (rr_peer_ids w) = filter (\<lambda>j. j \<noteq> i) (rr_peer_ids w)"
  using assms unfolding selection_ok_def
  by (subst kept_peers_filter) (auto intro: filter_cong)

lemma scan_prune_row: "selection_ok P w \<Longrightarrow> scanRule (prune_row (P - {i}) w) = drop_peer i (scanRule w)"
  by (simp add: prune_row_def drop_peer_def kept_without) (simp add: scanRule_def)

lemma length_filter_neq: "length (filter (\<lambda>j. j \<noteq> i) xs) = length xs \<longleftrightarrow> i \<notin> set xs"
proof (induction xs)
  case (Cons x xs)
  have "length (filter (\<lambda>j. j \<noteq> i) xs) \<noteq> Suc (length xs)"
    using length_filter_le [of "\<lambda>j. j \<noteq> i" xs] by linarith
  with Cons show ?case by auto
qed simp

lemma is_pruned_iff:
  assumes "selection_ok P w"
  shows "is_pruned (P - {i}) w \<longleftrightarrow> rr_peer_scope w = ScopeSelected \<and> i \<in> set (rr_peer_ids w)"
proof (cases "rr_peer_scope w = ScopeSelected")
  case True
  have "length (filter (\<lambda>j. j \<noteq> i) (rr_peer_ids w)) = length (rr_peer_ids w) \<longleftrightarrow> i \<notin> set (rr_peer_ids w)"
    by (rule length_filter_neq)
  moreover have "rr_enabled w \<Longrightarrow> rr_peer_ids w \<noteq> []" using assms True by (simp add: selection_ok_def)
  moreover have "filter (\<lambda>j. j \<noteq> i) (rr_peer_ids w) = rr_peer_ids w" if "i \<notin> set (rr_peer_ids w)"
    using that by (intro filter_True) auto
  ultimately show ?thesis using True by (auto simp: is_pruned_def kept_without [OF assms])
qed (simp add: is_pruned_def)

lemma emptied_iff:
  assumes "selection_ok P w" "rr_peer_scope w = ScopeSelected" "i \<in> set (rr_peer_ids w)"
  shows "kept_peers (P - {i}) [] (rr_peer_ids w) = [] \<longleftrightarrow> rr_peer_ids w = [i]"
proof -
  have "distinct (rr_peer_ids w)" using assms by (simp add: selection_ok_def)
  then have "(\<forall>j \<in> set (rr_peer_ids w). j = i) \<longleftrightarrow> rr_peer_ids w = [i]"
    using assms(3) by (cases "rr_peer_ids w"; cases "tl (rr_peer_ids w)") auto
  then show ?thesis unfolding kept_without [OF assms(1,2)] filter_empty_conv by simp
qed

lemma selection_ok_prune: "selection_ok P w \<Longrightarrow> selection_ok (P - {i}) (prune_row (P - {i}) w)"
  by (auto simp: selection_ok_def prune_row_def kept_without)

lemma find_creds_other: "j \<noteq> i \<Longrightarrow> List.find (\<lambda>k. kr_peer_id k = j) (filter (\<lambda>k. kr_peer_id k \<noteq> i) ks)
    = List.find (\<lambda>k. kr_peer_id k = j) ks"
  by (induction ks) auto

lemma delete_peer_reality_inv:
  assumes "reality_inv s"
  shows "reality_inv (delete_peer_row i s)"
proof -
  have "peer_cred_ok (filter (\<lambda>k. kr_peer_id k \<noteq> i) (db_creds s)) w"
    if "w \<in> set (db_peers s)" "pr_id w \<noteq> i" for w
    using assms that find_creds_other [OF that(2), of "db_creds s"]
    by (auto simp: reality_inv_def peer_cred_ok_def cols_ok_def)
  then show ?thesis by (simp add: reality_inv_def delete_peer_row_def)
qed

lemma delete_peer_schema_ok: "schema_ok s \<Longrightarrow> schema_ok (delete_peer_row i s)"
  by (auto simp: schema_ok_def delete_peer_row_def peers_ok_def creds_ok_def distinct_map_filter peer_ids_def)

lemma map_prune_rules_ok: "rules_ok T rows \<Longrightarrow> rules_ok T (map (prune_row P) rows)"
  by (simp add: rules_ok_def comp_def)

lemma delete_peer_tx_ok:
  assumes inv: "store_inv s" and i: "i \<in> peer_ids s" and ok: "delete_peer_tx i s = Inr (eff, s')"
  shows "store_inv s'" "Rules s' = map (drop_peer i) (Rules s)"
    "db_creds s' = filter (\<lambda>k. kr_peer_id k \<noteq> i) (db_creds s)"
    "db_peers s' = filter (\<lambda>w. pr_id w \<noteq> i) (db_peers s)"
    "pd_affected_rule_ids eff = map r_id (filter (\<lambda>r. r_peer_scope r = ScopeSelected \<and> i \<in> set (r_peer_ids r)) (Rules s))"
    "pd_inactivated_rule_ids eff = map r_id (filter (\<lambda>r. r_peer_scope r = ScopeSelected \<and> r_peer_ids r = [i]) (Rules s))"
proof -
  let ?P = "peer_ids s" and ?ws = "sort_key rr_priority (db_rules s)"
  have sel: "selection_ok ?P w" if "w \<in> set (db_rules s)" for w
    using store_invD(3) [OF inv] that by (simp add: selection_inv_def)
  from ok i have s': "s' = (delete_peer_row i s)\<lparr>db_rules := map (prune_row (?P - {i})) (db_rules s)\<rparr>"
    and eff: "eff = \<lparr>pd_affected_rule_ids = map rr_id (filter (is_pruned (?P - {i})) ?ws),
      pd_inactivated_rule_ids = map rr_id (filter (\<lambda>w. is_pruned (?P - {i}) w \<and>
         kept_peers (?P - {i}) [] (rr_peer_ids w) = []) ?ws)\<rparr>"
    unfolding delete_peer_tx_eq [OF store_invD(1) [OF inv]] by simp_all
  show "db_creds s' = filter (\<lambda>k. kr_peer_id k \<noteq> i) (db_creds s)"
    "db_peers s' = filter (\<lambda>w. pr_id w \<noteq> i) (db_peers s)"
    by (simp_all add: s' delete_peer_row_def)
  have "Rules s' = map (\<lambda>w. scanRule (prune_row (?P - {i}) w)) ?ws"
    by (simp add: Rules_def s' sort_key_map comp_def)
  also have "\<dots> = map (\<lambda>w. drop_peer i (scanRule w)) ?ws" using sel scan_prune_row by simp
  finally show "Rules s' = map (drop_peer i) (Rules s)" by (simp add: Rules_def comp_def)
  show "pd_affected_rule_ids eff = map r_id (filter (\<lambda>r. r_peer_scope r = ScopeSelected \<and> i \<in> set (r_peer_ids r)) (Rules s))"
  proof -
    have "filter (is_pruned (?P - {i})) ?ws = filter (\<lambda>w. rr_peer_scope w = ScopeSelected \<and> i \<in> set (rr_peer_ids w)) ?ws"
      using sel by (intro filter_cong) (auto simp: is_pruned_iff)
    then show ?thesis by (simp add: eff Rules_def filter_map comp_def scanRule_def)
  qed
  have "filter (\<lambda>w. is_pruned (?P - {i}) w \<and> kept_peers (?P - {i}) [] (rr_peer_ids w) = []) ?ws
      = filter (\<lambda>w. rr_peer_scope w = ScopeSelected \<and> rr_peer_ids w = [i]) ?ws"
    using sel by (intro filter_cong) (auto simp: is_pruned_iff emptied_iff)
  then show "pd_inactivated_rule_ids eff = map r_id (filter (\<lambda>r. r_peer_scope r = ScopeSelected \<and> r_peer_ids r = [i]) (Rules s))"
    by (simp add: eff Rules_def filter_map comp_def scanRule_def)
  have "schema_ok s'" using delete_peer_schema_ok [OF store_invD(4) [OF inv], of i]
    by (simp add: s' schema_ok_def map_prune_rules_ok)
  moreover have "dense s'" using store_invD(5) [OF inv] by (simp add: s' dense_def image_image)
  moreover have "reality_inv s'" using delete_peer_reality_inv [OF store_invD(2) [OF inv], of i]
    by (simp add: s' reality_inv_def)
  moreover have "selection_inv s'" using sel selection_ok_prune by (simp add: s' selection_inv_def)
  moreover have "[] \<notin> peer_ids s'" using store_invD(6) [OF inv] by (simp add: s')
  ultimately show "store_inv s'" by (simp add: store_inv_def rules_inv_def)
qed

section \<open>The operations keep the invariant\<close>

subsection \<open>Rules\<close>

lemma selection_ok_unranked [simp]: "selection_ok P (unranked r) = selection_ok P r"
  by (simp add: selection_ok_def unranked_def)

lemma store_inv_rules:
  assumes "store_inv s" "rules_inv s'" "s' = s\<lparr>db_rules := rs\<rparr>" "\<forall>r \<in> set rs. selection_ok (peer_ids s) r"
  shows "store_inv s'"
  using assms by (simp add: store_inv_def selection_inv_def reality_inv_def)

lemma selection_ok_unranked_subset:
  assumes "unranked ` set rs \<subseteq> unranked ` set (db_rules s)" "store_inv s"
  shows "\<forall>r \<in> set rs. selection_ok (peer_ids s) r"
proof
  fix r assume "r \<in> set rs"
  with assms(1) obtain q where "q \<in> set (db_rules s)" "unranked r = unranked q" by blast
  moreover from this have "selection_ok (peer_ids s) q"
    using store_invD(3) [OF assms(2)] by (simp add: selection_inv_def)
  ultimately show "selection_ok (peer_ids s) r"
    using selection_ok_unranked [of "peer_ids s" q] selection_ok_unranked [of "peer_ids s" r] by simp
qed

text \<open>A checked rule selects existing peers, and at least one while it is enabled.\<close>

lemma validated_selection_ok:
  assumes "rule_validate r = Inr ()" "r_peer_scope r = ScopeSelected \<Longrightarrow> distinct ids \<and> set ids \<subseteq> P"
    "set ids = set (r_peer_ids r)" "rr_peer_scope w = r_peer_scope r" "rr_peer_ids w = ids" "rr_enabled w = r_enabled r"
  shows "selection_ok P w"
proof -
  have "ids = [] \<longleftrightarrow> r_peer_ids r = []" using assms(3) by (metis set_empty)
  then show ?thesis using assms(2,4-6) rule_validate_ok(5) [OF assms(1)] by (simp add: selection_ok_def)
qed

lemma create_rule_store_inv:
  assumes inv: "store_inv s" and ok: "CreateRule (nid, r) s = (Inr r', s')"
  shows "store_inv s'"
proof -
  let ?r = "if r_id r = [] then r\<lparr>r_id := nid\<rparr> else r"
  from ok have val: "rule_validate r = Inr ()" and tx: "create_rule_tx ?r s = Inr (r', s')"
    by (simp_all add: CreateRule_Inr)
  note t = create_rule_tx_ok [OF store_invD(1) [OF inv] tx]
  have same: "r_peer_scope ?r = r_peer_scope r" "r_peer_ids ?r = r_peer_ids r" by simp_all
  have "rr_enabled (unranked (ruleArgs r')) = rr_enabled (unranked (ruleArgs (?r\<lparr>r_peer_ids := r_peer_ids r'\<rparr>)))"
    by (subst t(8)) (rule refl)
  then have en: "r_enabled r' = r_enabled r" by (simp add: unranked_def ruleArgs_def split: if_splits)
  have "selection_ok (peer_ids s) (ruleArgs r')"
    using t(5-7) en unfolding same
    by (intro validated_selection_ok [OF val]) (simp_all add: ruleArgs_def)
  moreover have "\<forall>w \<in> set (db_rules s). selection_ok (peer_ids s) w"
    using store_invD(3) [OF inv] by (simp add: selection_inv_def)
  ultimately show ?thesis by (intro store_inv_rules [OF inv t(2,3)]) simp
qed

lemma update_rule_store_inv:
  assumes inv: "store_inv s" and ok: "UpdateRule r s = (Inr u, s')"
  shows "store_inv s'"
proof -
  from ok have val: "rule_validate r = Inr ()" and tx: "update_rule_tx r s = Inr (u, s')"
    by (simp_all add: UpdateRule_Inr)
  from update_rule_tx_ok [OF store_invD(1) [OF inv] tx] obtain r' where v: "validateRulePeers r s = Inr r'"
    and s': "s' = s\<lparr>db_rules := upd_where (\<lambda>w. rr_id w = r_id r) (overwrite_row (ruleArgs r')) (db_rules s)\<rparr>"
    and inv': "rules_inv s'" by blast
  note p = validateRulePeers_ok [OF v]
  have sc: "r_peer_scope r' = r_peer_scope r" "r_enabled r' = r_enabled r"
    by (subst p(1), simp)+
  have "selection_ok (peer_ids s) (overwrite_row (ruleArgs r') w)" for w
    using p(2,3) sc by (intro validated_selection_ok [OF val]) (simp_all add: ruleArgs_def overwrite_row_def)
  then show ?thesis
    using store_invD(3) [OF inv]
    by (intro store_inv_rules [OF inv inv' s']) (auto simp: set_upd_where selection_inv_def)
qed

lemma rules_only_dead: "s' = s\<lparr>db_rules := rs\<rparr> \<Longrightarrow> dead c n s \<Longrightarrow> dead c n s'"
  by (simp add: dead_def)

interpretation create_rule_adm: admission_op CreateRule store_inv "\<lambda>_. True" "\<lambda>_. {}"
proof unfold_locales
  fix x :: "string \<times> rule" and s s' a c n
  assume "store_inv s" "CreateRule x s = (Inr a, s')"
  then show "store_inv s'" by (cases x) (auto intro: create_rule_store_inv)
  assume d: "dead c n s"
  obtain nid r where x: "x = (nid, r)" by (cases x)
  from \<open>CreateRule x s = (Inr a, s')\<close> create_rule_tx_ok(3) [OF store_invD(1) [OF \<open>store_inv s\<close>]]
  obtain rs where "s' = s\<lparr>db_rules := rs\<rparr>" unfolding x CreateRule_Inr by blast
  then show "dead c n s'" using d by (rule rules_only_dead)
qed (rule create_rule.rollback)

interpretation update_rule_adm: admission_op UpdateRule store_inv "\<lambda>_. True" "\<lambda>_. {}"
proof unfold_locales
  fix x s s' a c n
  assume inv: "store_inv s" and ok: "UpdateRule x s = (Inr a, s')"
  then show "store_inv s'" by (rule update_rule_store_inv)
  assume d: "dead c n s"
  from ok have "update_rule_tx x s = Inr (a, s')" by (simp add: UpdateRule_Inr)
  from update_rule_tx_ok [OF store_invD(1) [OF inv] this] obtain rs where "s' = s\<lparr>db_rules := rs\<rparr>" by blast
  then show "dead c n s'" using d by (rule rules_only_dead)
qed (rule update_rule.rollback)

lemma reordered_store_inv:
  assumes inv: "store_inv s" and "rules_inv s'" "s' = s\<lparr>db_rules := db_rules s'\<rparr>"
    "unranked ` set (db_rules s') \<subseteq> unranked ` set (db_rules s)"
  shows "store_inv s'"
  using store_inv_rules [OF inv assms(2,3)] selection_ok_unranked_subset [OF assms(4) inv] by blast

interpretation delete_rule_adm: admission_op DeleteRule store_inv "\<lambda>_. True" "\<lambda>_. {}"
proof unfold_locales
  fix x s s' a c n
  assume inv: "store_inv s" and ok: "DeleteRule x s = (Inr a, s')"
  then have "delete_rule_tx x s = Inr (a, s')" by (simp add: DeleteRule_def tx_Inr)
  note t = delete_rule_tx_ok [OF store_invD(1) [OF inv] this]
  show "store_inv s'" using reordered_store_inv [OF inv t(1,2)] t(5) by simp
  assume "dead c n s"
  with t(2) show "dead c n s'" by (rule rules_only_dead)
qed (rule delete_rule.rollback)

interpretation reorder_rules_adm: admission_op ReorderRules store_inv "\<lambda>_. True" "\<lambda>_. {}"
proof unfold_locales
  fix x s s' a c n
  assume inv: "store_inv s" and ok: "ReorderRules x s = (Inr a, s')"
  then have "reorder_rules_tx x s = Inr (a, s')" by (simp add: ReorderRules_def tx_Inr)
  note t = reorder_rules_tx_ok(2) [OF store_invD(1) [OF inv] this]
  from t have r: "rules_inv s'" by (elim conjE)
  from t have f: "s' = s\<lparr>db_rules := db_rules s'\<rparr>" by (elim conjE)
  from t have m: "map unranked (db_rules s') = map unranked (db_rules s)" by (elim conjE)
  have "unranked ` set (db_rules s') \<subseteq> unranked ` set (db_rules s)"
    using arg_cong [OF m, of set] by simp
  with inv r f show "store_inv s'" by (rule reordered_store_inv)
  assume "dead c n s"
  with f show "dead c n s'" by (rule rules_only_dead)
qed (rule reorder_rules.rollback)

subsection \<open>Peers\<close>

text \<open>What is relied on about drawn identifiers: \<open>uuid.NewString\<close> never returns the empty string.\<close>

definition create_peer_args_ok :: "draws \<times> peer \<Rightarrow> bool" where
  "create_peer_args_ok x \<longleftrightarrow> dr_id (fst x) \<noteq> [] \<and> dr_credential (fst x) \<noteq> []"

definition patch_peer_args_ok :: "draws \<times> (nat \<Rightarrow> string) \<times> string \<times> peer_patch \<Rightarrow> bool" where
  "patch_peer_args_ok x \<longleftrightarrow> dr_credential (fst x) \<noteq> []"

text \<open>The peer as \<open>CreatePeer\<close> writes it.\<close>

definition new_peer :: "draws \<Rightarrow> peer \<Rightarrow> peer" where
  "new_peer d p = p\<lparr>p_reality_credential_id := [], p_reality_revision := 0,
     p_id := (if p_id p = [] then dr_id d else p_id p),
     p_created_at := (if p_created_at p = time_zero then dr_now d else p_created_at p)\<rparr>"

lemma CreatePeer_Inr:
  "CreatePeer (d, p) s = (Inr p', s') \<longleftrightarrow> peer_validate p = Inr () \<and>
     create_peer_tx (dr_credential d) (dr_uuid d) (new_peer d p) s = Inr (p', s')"
proof -
  have "(let p = p\<lparr>p_reality_credential_id := [], p_reality_revision := 0\<rparr>;
            p = (if p_id p = [] then p\<lparr>p_id := dr_id d\<rparr> else p);
            p = (if p_created_at p = time_zero then p\<lparr>p_created_at := dr_now d\<rparr> else p)
        in p) = new_peer d p"
    by (simp add: Let_def new_peer_def)
  then show ?thesis
    by (cases "peer_validate p") (auto simp: CreatePeer_def tx_Inr Let_def)
qed

interpretation create_peer: admission_op CreatePeer store_inv create_peer_args_ok "\<lambda>x. {dr_credential (fst x)}"
proof unfold_locales
  fix x :: "draws \<times> peer" and s s' e
  assume "CreatePeer x s = (Inl e, s')"
  then show "s' = s" by (cases x) (auto simp: CreatePeer_def tx_Inl Let_def split: sum.splits)
next
  fix x :: "draws \<times> peer" and s s' a c n
  obtain d p where x: "x = (d, p)" by (cases x)
  assume inv: "store_inv s" and ok: "create_peer_args_ok x" and run: "CreatePeer x s = (Inr a, s')"
  have new: "dr_credential d \<noteq> []" "p_id (new_peer d p) \<noteq> []"
    "p_reality_credential_id (new_peer d p) = []" "p_reality_revision (new_peer d p) = 0"
    using ok by (simp_all add: x create_peer_args_ok_def new_peer_def)
  from run have "create_peer_tx (dr_credential d) (dr_uuid d) (new_peer d p) s = Inr (a, s')"
    by (simp add: x CreatePeer_Inr)
  note t = create_peer_tx_ok [OF inv new this]
  show "store_inv s'" by (fact t(1))
  assume "dead c n s" "c \<notin> {dr_credential (fst x)}"
  then show "dead c n s'" using t(4) by (simp add: x)
qed

interpretation update_peer: admission_op UpdatePeer store_inv "\<lambda>_. True" "\<lambda>_. {}"
proof unfold_locales
  fix x s s' e
  assume "UpdatePeer x s = (Inl e, s')"
  then show "s' = s" by (auto simp: UpdatePeer_def tx_Inl split: sum.splits if_splits)
next
  fix x s s' a c n
  assume inv: "store_inv s" and "UpdatePeer x s = (Inr a, s')"
  then have "update_peer_tx x s = Inr (a, s')"
    by (cases "peer_validate x") (auto simp: UpdatePeer_def tx_Inr split: if_splits)
  note t = update_peer_tx_ok [OF inv this]
  show "store_inv s'" by (fact t(1))
  assume "dead c n s"
  then show "dead c n s'" by (simp add: dead_frame [OF t(2)])
qed

interpretation patch_peer: admission_op PatchPeer store_inv patch_peer_args_ok "\<lambda>x. {dr_credential (fst x)}"
proof unfold_locales
  fix x :: "draws \<times> (nat \<Rightarrow> string) \<times> string \<times> peer_patch" and s s' e
  assume "PatchPeer x s = (Inl e, s')"
  then show "s' = s" by (cases x) (auto simp: PatchPeer_def tx_Inl)
next
  fix x :: "draws \<times> (nat \<Rightarrow> string) \<times> string \<times> peer_patch" and s s' a c n
  obtain d us i q where x: "x = (d, us, i, q)" by (cases x) auto
  assume inv: "store_inv s" and ok: "patch_peer_args_ok x" and run: "PatchPeer x s = (Inr a, s')"
  have cid: "dr_credential d \<noteq> []" using ok by (simp add: x patch_peer_args_ok_def)
  from run have tx: "patch_peer_tx d us i q s = Inr (a, s')" by (simp add: x PatchPeer_def tx_Inr)
  show "store_inv s'" by (rule patch_peer_tx_ok [OF inv cid tx])
  assume dn: "dead c n s" "c \<notin> {dr_credential (fst x)}"
  show "dead c n s'" by (rule patch_peer_tx_ok [OF inv cid tx]) (use dn in \<open>simp add: x\<close>)
qed

lemma delete_peer_absent: "rules_inv s \<Longrightarrow> i \<notin> peer_ids s \<Longrightarrow> delete_peer_tx i s = Inl ErrNotFound"
  by (simp add: delete_peer_tx_eq)

interpretation delete_peer: admission_op DeletePeerWithEffects store_inv "\<lambda>_. True" "\<lambda>_. {}"
proof unfold_locales
  fix x s s' e
  assume "DeletePeerWithEffects x s = (Inl e, s')"
  then show "s' = s" by (simp add: DeletePeerWithEffects_def tx_Inl)
next
  fix x s s' a c n
  assume inv: "store_inv s" and "DeletePeerWithEffects x s = (Inr a, s')"
  then have tx: "delete_peer_tx x s = Inr (a, s')" by (simp add: DeletePeerWithEffects_def tx_Inr)
  then have "x \<in> peer_ids s" using delete_peer_absent [OF store_invD(1) [OF inv]] by fastforce
  note t = delete_peer_tx_ok [OF inv this tx]
  show "store_inv s'" by (fact t(1))
  assume "dead c n s"
  then show "dead c n s'" by (auto simp: dead_def t(3))
qed

section \<open>Properties\<close>

text \<open>Whether a rule acts on the traffic of a peer.\<close>

definition applies_to :: "rule \<Rightarrow> string \<Rightarrow> bool" where
  "applies_to r j \<longleftrightarrow> r_enabled r \<and> (r_peer_scope r = ScopeSelected \<longrightarrow> j \<in> set (r_peer_ids r))"

lemma drop_peer_applies: "j \<noteq> i \<Longrightarrow> applies_to (drop_peer i r) j = applies_to r j"
  by (auto simp: applies_to_def drop_peer_def filter_empty_conv)

lemma drop_peer_gone: "r_peer_scope r = ScopeSelected \<Longrightarrow> \<not> applies_to (drop_peer i r) i"
  by (simp add: applies_to_def drop_peer_def)

text \<open>A state with two peers and a rule for the first one only.\<close>

definition demo_peer :: "string \<Rightarrow> peer" where
  "demo_peer n = \<lparr>p_wireguard_disabled = False, p_reality_enabled = False, p_reality_credential_id = [],
     p_reality_revision = 0, p_egress_tunnel_id = None, p_id = n, p_name = n, p_public_key = n,
     p_private_key = ''k'', p_preshared_key = ''k'', p_address = n, p_enabled = True, p_created_at = 5000000000\<rparr>"

definition demo_draws :: draws where
  "demo_draws = \<lparr>dr_id = ''d1'', dr_credential = ''c1'', dr_uuid = ''u1'', dr_now = 7000000000\<rparr>"

definition demo_peers_db :: db where
  "demo_peers_db = snd (CreateRule ([], (demo_rule ''r'')\<lparr>r_peer_scope := ScopeSelected, r_peer_ids := [''p'']\<rparr>)
     (snd (CreatePeer (demo_draws, demo_peer ''q'') (snd (CreatePeer (demo_draws, (demo_peer ''p'')\<lparr>p_reality_enabled := True\<rparr>) empty_db)))))"

lemma demo_args_ok: "create_peer_args_ok (demo_draws, p)"
  by (simp add: create_peer_args_ok_def demo_draws_def)

lemma demo_peers_inv: "store_inv demo_peers_db"
  unfolding demo_peers_db_def
  by (intro create_rule_adm.step_inv create_peer.step_inv store_inv_empty demo_args_ok TrueI)

lemma demo_peers_rows:
  "db_rules demo_peers_db = [ruleArgs ((demo_rule ''r'')\<lparr>r_peer_scope := ScopeSelected, r_peer_ids := [''p''], r_priority := 0\<rparr>)]"
  "db_peers demo_peers_db = [(peerArgs (demo_peer ''p''))\<lparr>pr_reality_enabled := True, pr_reality_credential_id := ''c1'', pr_reality_revision := 1\<rparr>,
     peerArgs (demo_peer ''q'')]"
  "db_creds demo_peers_db = [\<lparr>kr_peer_id = ''p'', kr_credential_id = ''c1'', kr_revision = 1, kr_uuid = ''u1''\<rparr>]"
  by code_simp+

text \<open>C34: deleting a peer removes it and its credential, takes it out of every rule that selected it,
  switches off the rules it was the only peer of, and reports exactly those rules; an unknown peer
  is refused and nothing changes.\<close>

theorem DeletePeer_effects:
  assumes "store_inv s"
  shows "if i \<in> set (map p_id (Peers s))
    then \<exists>eff s'. DeletePeerWithEffects i s = (Inr eff, s')
      \<and> Peers s' = filter (\<lambda>p. p_id p \<noteq> i) (Peers s)
      \<and> db_creds s' = filter (\<lambda>k. kr_peer_id k \<noteq> i) (db_creds s)
      \<and> Rules s' = map (drop_peer i) (Rules s)
      \<and> pd_affected_rule_ids eff = map r_id (filter (\<lambda>r. r_peer_scope r = ScopeSelected \<and> i \<in> set (r_peer_ids r)) (Rules s))
      \<and> pd_inactivated_rule_ids eff = map r_id (filter (\<lambda>r. r_peer_scope r = ScopeSelected \<and> r_peer_ids r = [i]) (Rules s))
    else DeletePeerWithEffects i s = (Inl ErrNotFound, s)"
proof -
  have mem: "i \<in> set (map p_id (Peers s)) \<longleftrightarrow> i \<in> peer_ids s"
    by (simp add: Peers_def peer_ids_def image_image)
  show ?thesis
  proof (cases "i \<in> peer_ids s")
    case True
    then obtain eff s' where tx: "delete_peer_tx i s = Inr (eff, s')"
      by (simp add: delete_peer_tx_eq [OF store_invD(1) [OF assms]])
    note t = delete_peer_tx_ok [OF assms True tx]
    have "Peers s' = filter (\<lambda>p. p_id p \<noteq> i) (Peers s)"
      by (simp add: Peers_def t(4) filter_sort filter_map comp_def)
    then show ?thesis
      using t(2,3,5,6) tx True unfolding mem
      by (simp add: DeletePeerWithEffects_def tx_def)
  next
    case False
    then show ?thesis
      using delete_peer_absent [OF store_invD(1) [OF assms] False] unfolding mem
      by (simp add: DeletePeerWithEffects_def tx_def)
  qed
qed

lemma demo_peers_lists:
  "map p_id (Peers demo_peers_db) = [''p'', ''q'']" "map r_id (Rules demo_peers_db) = [''r'']"
  "Rules demo_peers_db = [(demo_rule ''r'')\<lparr>r_peer_scope := ScopeSelected, r_peer_ids := [''p''], r_priority := 0\<rparr>]"
  by (simp_all add: Peers_def Rules_def demo_peers_rows peerArgs_def demo_peer_def scanRule_ruleArgs demo_rule_def
      Char_ord.less_eq_char_simp)

theorem DeletePeer_effects_witness:
  "\<exists>eff s'. DeletePeerWithEffects ''p'' demo_peers_db = (Inr eff, s') \<and>
     pd_inactivated_rule_ids eff = [''r''] \<and> map p_id (Peers s') = [''q''] \<and> map r_enabled (Rules s') = [False]"
proof -
  have "''p'' \<in> set (map p_id (Peers demo_peers_db))" by (simp add: demo_peers_lists(1))
  then obtain eff s' where d: "DeletePeerWithEffects ''p'' demo_peers_db = (Inr eff, s')"
    and p: "Peers s' = filter (\<lambda>p. p_id p \<noteq> ''p'') (Peers demo_peers_db)"
    and r: "Rules s' = map (drop_peer ''p'') (Rules demo_peers_db)"
    and i: "pd_inactivated_rule_ids eff = map r_id (filter (\<lambda>r. r_peer_scope r = ScopeSelected \<and> r_peer_ids r = [''p'']) (Rules demo_peers_db))"
    using DeletePeer_effects [OF demo_peers_inv, of "''p''"] by metis
  have "map p_id (Peers s') = filter (\<lambda>j. j \<noteq> ''p'') (map p_id (Peers demo_peers_db))"
    unfolding p by (simp add: filter_map comp_def)
  then have "map p_id (Peers s') = [''q'']" by (simp add: demo_peers_lists(1))
  moreover have "pd_inactivated_rule_ids eff = [''r'']" "map r_enabled (Rules s') = [False]"
    unfolding i r by (simp_all add: demo_peers_lists(3) drop_peer_def demo_rule_def)
  ultimately show ?thesis using d by (intro exI conjI)
qed

text \<open>C35: deleting a peer never broadens a policy: afterwards every rule stands at the same place and acts
  on every other peer exactly as before, and no rule for selected peers acts on the deleted one.\<close>

theorem DeletePeer_never_broadens:
  assumes "store_inv s" "DeletePeer i s = (Inr (), s')"
  shows "list_all2 (\<lambda>r r'. r_id r' = r_id r \<and> (\<forall>j. j \<noteq> i \<longrightarrow> applies_to r' j = applies_to r j)
      \<and> (r_peer_scope r = ScopeSelected \<longrightarrow> \<not> applies_to r' i)) (Rules s) (Rules s') \<and> store_inv s'"
proof -
  from assms(2) obtain eff where e: "DeletePeerWithEffects i s = (Inr eff, s')"
    by (auto simp: DeletePeer_def split: prod.splits sum.splits)
  then have tx: "delete_peer_tx i s = Inr (eff, s')" by (simp add: DeletePeerWithEffects_def tx_Inr)
  then have "i \<in> peer_ids s" using delete_peer_absent [OF store_invD(1) [OF assms(1)]] by fastforce
  note t = delete_peer_tx_ok [OF assms(1) this tx]
  have "r_id (drop_peer i r) = r_id r" for r by (simp add: drop_peer_def)
  then have "list_all2 (\<lambda>r r'. r_id r' = r_id r \<and> (\<forall>j. j \<noteq> i \<longrightarrow> applies_to r' j = applies_to r j)
      \<and> (r_peer_scope r = ScopeSelected \<longrightarrow> \<not> applies_to r' i)) rs (map (drop_peer i) rs)" for rs
    by (induction rs) (simp_all add: drop_peer_applies drop_peer_gone)
  with t(1,2) show ?thesis by simp
qed

theorem DeletePeer_never_broadens_witness:
  "DeletePeer ''p'' demo_peers_db = (Inr (), snd (DeletePeer ''p'' demo_peers_db)) \<and>
   list_all2 (\<lambda>r r'. r_id r' = r_id r) (Rules demo_peers_db) (Rules (snd (DeletePeer ''p'' demo_peers_db)))"
proof -
  have "''p'' \<in> peer_ids demo_peers_db" by (simp add: peer_ids_def demo_peers_rows peerArgs_def demo_peer_def)
  then have "is_ok (fst (DeletePeer ''p'' demo_peers_db))"
    by (simp add: DeletePeer_def DeletePeerWithEffects_def tx_def delete_peer_tx_eq [OF store_invD(1) [OF demo_peers_inv]])
  then have d: "DeletePeer ''p'' demo_peers_db = (Inr (), snd (DeletePeer ''p'' demo_peers_db))"
    by (cases "DeletePeer ''p'' demo_peers_db") (auto simp: is_ok_iff)
  from DeletePeer_never_broadens [OF demo_peers_inv this] d show ?thesis
    by (auto elim!: list_all2_mono)
qed

text \<open>PatchPeer changes the supplied fields of the named peer and nothing else: what it returns is what a
  later read returns, every other peer and every other table is as before, and the fields the patch
  does not mention keep their values (name, keys, address, exit, switches).\<close>

lemma PatchPeer_only_supplied:
  assumes "store_inv s" "patch_peer_args_ok (d, uuids, i, c)" "PatchPeer (d, uuids, i, c) s = (Inr p', s')"
  shows "\<exists>p. Peer s i = Inr p \<and> peer_validate (patch_apply c p) = Inr () \<and> same_peer (patch_apply c p) p' \<and>
    Peer s' i = Inr p' \<and> (\<forall>j. j \<noteq> i \<longrightarrow> Peer s' j = Peer s j) \<and> creds_peers_only s s'"
proof -
  have cid: "dr_credential d \<noteq> []" using assms(2) by (simp add: patch_peer_args_ok_def)
  from assms(3) have tx: "patch_peer_tx d uuids i c s = Inr (p', s')" by (simp add: PatchPeer_def tx_Inr)
  obtain w where w: "find_peer s i = Some w" and val: "peer_validate (patch_apply c (scanPeer w)) = Inr ()"
    and only: "creds_peers_only s s'"
    by (rule patch_peer_tx_ok [OF assms(1) cid tx]) blast
  note r = patch_peer_tx_reads [OF assms(1) cid tx w]
  from r(1) have "Peer s' i = Inr p'" "same_peer (patch_apply c (scanPeer w)) p'" by (auto simp: Peer_def)
  moreover have "Peer s' j = Peer s j" if "j \<noteq> i" for j using r(2) [OF that] by (simp add: Peer_def)
  moreover have "Peer s i = Inr (scanPeer w)" using w by (simp add: Peer_def)
  ultimately show ?thesis using val only by blast
qed

definition demo_patch :: peer_patch where
  "demo_patch = \<lparr>pp_wireguard_enabled = None, pp_reality_enabled = Some False, pp_name = Some '' phone '',
     pp_enabled = None, pp_set_egress_tunnel = False, pp_egress_tunnel_id = None\<rparr>"

lemma demo_patch_ok: "PatchPeer (demo_draws, (\<lambda>n. ''u2''), ''p'', demo_patch) demo_peers_db =
    (Inr ((demo_peer ''p'')\<lparr>p_name := ''phone'', p_reality_credential_id := ''c1'', p_reality_revision := 2\<rparr>),
     snd (PatchPeer (demo_draws, (\<lambda>n. ''u2''), ''p'', demo_patch) demo_peers_db))"
  by code_simp

lemma demo_patch_args: "patch_peer_args_ok (demo_draws, u, i, c)"
  by (simp add: patch_peer_args_ok_def demo_draws_def)

text \<open>Taking access away from an active peer (switching the peer or its public access off) kills the
  credential revision it was admitted with, in the same transaction.\<close>

lemma PatchPeer_revokes:
  assumes "store_inv s" "patch_peer_args_ok (d, uuids, i, c)" "PatchPeer (d, uuids, i, c) s = (Inr p', s')"
    "Peer s i = Inr p" "p_enabled p" "p_reality_enabled p" "\<not> (p_enabled p' \<and> p_reality_enabled p')"
  shows "dead (p_reality_credential_id p) (p_reality_revision p) s' \<and> p_reality_revision p' = p_reality_revision p + 1"
proof -
  have cid: "dr_credential d \<noteq> []" using assms(2) by (simp add: patch_peer_args_ok_def)
  from assms(3) have tx: "patch_peer_tx d uuids i c s = Inr (p', s')" by (simp add: PatchPeer_def tx_Inr)
  from assms(4) obtain w where w: "find_peer s i = Some w" and p: "p = scanPeer w"
    by (auto simp: Peer_def split: option.splits)
  have same: "same_peer (patch_apply c (scanPeer w)) p'" using patch_peer_tx_reads(1) [OF assms(1) cid tx w] by blast
  have off: "\<not> (p_enabled (patch_apply c (scanPeer w)) \<and> p_reality_enabled (patch_apply c (scanPeer w)))"
    using assms(7) by (simp add: same_peer_sel [OF same])
  have "dead (pr_reality_credential_id w) (pr_reality_revision w) s'"
    by (rule patch_peer_tx_ok [OF assms(1) cid tx]) (use w off assms(5,6) p in auto)
  moreover have "peer_cred_ok (db_creds s) w"
    using store_invD(2) [OF assms(1)] find_peer_Some [OF w] by (simp add: reality_inv_def)
  then have "pr_reality_credential_id w \<noteq> [] \<and> 0 < pr_reality_revision w"
    using assms(6) p by (auto simp: peer_cred_ok_def cols_ok_def find_key_None split: option.splits)
  then have "p_reality_revision p' = pr_reality_revision w + 1"
    using tx w off assms(5,6) p
    by (auto simp: patch_peer_tx_def ensurePeerReality_def bindR_Inr_iff Apply_def Let_def split: if_splits)
  ultimately show ?thesis by (simp add: p)
qed

end
