(* ===== verification/Store_Tunnels.thy ===== *)
theory Store_Tunnels
  imports Store_Peers
begin

text \<open>
  \<open>internal/store/tunnels.go\<close>, \<open>tunnels_warp.go\<close> and \<open>tunnel_checks.go\<close>: tunnels, the built-in pool of
  free keys, registrations of WARP devices and the observations of checks.  A tunnel that a rule (by
  either link) or a peer refers to cannot be deleted; the check and the registration of a deleted
  tunnel go with it.
\<close>

section \<open>Rows and tunnels\<close>

definition unixOrZero :: "time \<Rightarrow> int" where
  "unixOrZero t = (if t = time_zero then 0 else Unix t)"

definition tunnelArgs :: "tunnel \<Rightarrow> tunnel_row" where
  "tunnelArgs t = \<lparr>tr_id = t_id t, tr_name = t_name t, tr_type = t_type t, tr_source = t_source t,
     tr_raw = t_raw t, tr_parsed = t_parsed t, tr_enabled = t_enabled t,
     tr_created_at = Unix (t_created_at t), tr_pool = t_pool t,
     tr_pool_updated_at = unixOrZero (t_pool_updated_at t), tr_builtin = t_builtin t,
     tr_country = t_country t\<rparr>"

definition scanTunnel :: "tunnel_row \<Rightarrow> tunnel" where
  "scanTunnel w = \<lparr>t_id = tr_id w, t_name = tr_name w, t_type = tr_type w, t_source = tr_source w,
     t_raw = tr_raw w, t_parsed = tr_parsed w, t_enabled = tr_enabled w,
     t_created_at = time_Unix (tr_created_at w), t_pool = tr_pool w,
     t_pool_updated_at = (if tr_pool_updated_at w \<noteq> 0 then time_Unix (tr_pool_updated_at w) else time_zero),
     t_builtin = tr_builtin w, t_country = tr_country w\<rparr>"

definition find_tunnel :: "db \<Rightarrow> string \<Rightarrow> tunnel_row option" where
  "find_tunnel s i = List.find (\<lambda>w. tr_id w = i) (db_tunnels s)"

definition Tunnel :: "db \<Rightarrow> string \<Rightarrow> err + tunnel" where
  "Tunnel s i = (case find_tunnel s i of None \<Rightarrow> Inl ErrNotFound | Some w \<Rightarrow> Inr (scanTunnel w))"

definition tunnel_order :: "tunnel_row \<Rightarrow> int \<times> string" where
  "tunnel_order w = (tr_created_at w, tr_id w)"

definition Tunnels :: "db \<Rightarrow> tunnel list" where
  "Tunnels s = map scanTunnel (sort_key tunnel_order (db_tunnels s))"

section \<open>Creating and updating\<close>

definition insert_tunnel :: "tunnel_row \<Rightarrow> db \<Rightarrow> sql_err + db" where
  "insert_tunnel w s =
    (if tr_id w \<in> tunnel_ids s \<or> tr_name w \<in> tr_name ` set (db_tunnels s) then Inl UNIQUE_failed
     else Inr (s\<lparr>db_tunnels := db_tunnels s @ [w]\<rparr>))"

text \<open>\<open>isUniqueViolation\<close>: a taken name is the caller's mistake, anything else the driver's.\<close>

definition uniqueErr :: "sql_err \<Rightarrow> err" where
  "uniqueErr e = (case e of UNIQUE_failed \<Rightarrow> ErrInvalid | FOREIGN_KEY_failed \<Rightarrow> ErrOther)"

definition fill_tunnel :: "string \<Rightarrow> time \<Rightarrow> tunnel \<Rightarrow> tunnel" where
  "fill_tunnel nid now t =
    (let t = (if t_id t = [] then t\<lparr>t_id := nid\<rparr> else t)
     in if t_created_at t = time_zero then t\<lparr>t_created_at := now\<rparr> else t)"

definition create_tunnel_tx :: "tunnel \<Rightarrow> db \<Rightarrow> err + tunnel \<times> db" where
  "create_tunnel_tx t s = bindR (mapErr uniqueErr (insert_tunnel (tunnelArgs t) s)) (\<lambda>s. Inr (t, s))"

definition CreateTunnel :: "string \<times> time \<times> tunnel \<Rightarrow> db \<Rightarrow> (err + tunnel) \<times> db" where
  "CreateTunnel = (\<lambda>(nid, now, t) s. case tunnel_validate t of
      Inl e \<Rightarrow> (Inl e, s)
    | Inr _ \<Rightarrow> tx (create_tunnel_tx (fill_tunnel nid now t)) s)"

text \<open>The columns that \<open>UpdateTunnel\<close> sets: \<open>created_at\<close>, \<open>builtin\<close> and \<open>country\<close> are not among them.\<close>

definition overwrite_tunnel :: "tunnel \<Rightarrow> tunnel_row \<Rightarrow> tunnel_row" where
  "overwrite_tunnel t w = w\<lparr>tr_name := t_name t, tr_type := t_type t, tr_source := t_source t,
     tr_raw := t_raw t, tr_parsed := t_parsed t, tr_enabled := t_enabled t, tr_pool := t_pool t,
     tr_pool_updated_at := unixOrZero (t_pool_updated_at t)\<rparr>"

definition update_tunnel_row :: "tunnel \<Rightarrow> db \<Rightarrow> sql_err + nat \<times> db" where
  "update_tunnel_row t s =
    (let n = length (filter (\<lambda>w. tr_id w = t_id t) (db_tunnels s)) in
     if 0 < n \<and> (\<exists>q \<in> set (db_tunnels s). tr_id q \<noteq> t_id t \<and> tr_name q = t_name t) then Inl UNIQUE_failed
     else Inr (n, s\<lparr>db_tunnels := upd_where (\<lambda>w. tr_id w = t_id t) (overwrite_tunnel t) (db_tunnels s)\<rparr>))"

definition update_tunnel_tx :: "tunnel \<Rightarrow> db \<Rightarrow> err + unit \<times> db" where
  "update_tunnel_tx t s =
    bindR (mapErr uniqueErr (update_tunnel_row t s)) (\<lambda>(n, s').
    bindR (checkAffected n) (\<lambda>_. Inr ((), s')))"

definition UpdateTunnel :: "tunnel \<Rightarrow> db \<Rightarrow> (err + unit) \<times> db" where
  "UpdateTunnel t s = (case tunnel_validate t of
      Inl e \<Rightarrow> (Inl e, s)
    | Inr _ \<Rightarrow> if t_id t = [] then (Inl ErrInvalid, s) else tx (update_tunnel_tx t) s)"

text \<open>\<open>UpdateTunnelPool\<close>: the servers of a pool, and only of a pool.\<close>

definition update_pool_tx :: "string \<Rightarrow> pool_server list \<Rightarrow> time \<Rightarrow> db \<Rightarrow> err + unit \<times> db" where
  "update_pool_tx i servers at s =
    (let p = (\<lambda>w. tr_id w = i \<and> tr_source w = SourcePool) in
     bindR (checkAffected (length (filter p (db_tunnels s)))) (\<lambda>_.
       Inr ((), s\<lparr>db_tunnels := upd_where p
         (\<lambda>w. w\<lparr>tr_pool := servers, tr_pool_updated_at := unixOrZero at\<rparr>) (db_tunnels s)\<rparr>)))"

definition UpdateTunnelPool :: "string \<times> pool_server list \<times> time \<Rightarrow> db \<Rightarrow> (err + unit) \<times> db" where
  "UpdateTunnelPool = (\<lambda>(i, servers, at). tx (update_pool_tx i servers at))"

section \<open>Deleting\<close>

definition refers :: "string \<Rightarrow> rule_row \<Rightarrow> bool" where
  "refers i r \<longleftrightarrow> rr_tunnel_id r = Some i \<or> rr_via_tunnel_id r = Some i"

text \<open>\<open>DELETE FROM tunnels WHERE id = ?\<close>: restricted by rules and peers, cascading to the check and the
  registration.\<close>

definition delete_tunnel_row :: "string \<Rightarrow> db \<Rightarrow> sql_err + nat \<times> db" where
  "delete_tunnel_row i s =
    (if i \<in> tunnel_ids s \<and> ((\<exists>r \<in> set (db_rules s). refers i r) \<or>
        (\<exists>p \<in> set (db_peers s). pr_egress_tunnel_id p = Some i)) then Inl FOREIGN_KEY_failed
     else Inr (length (filter (\<lambda>w. tr_id w = i) (db_tunnels s)),
       s\<lparr>db_tunnels := filter (\<lambda>w. tr_id w \<noteq> i) (db_tunnels s),
         db_checks := filter (\<lambda>c. cr_tunnel_id c \<noteq> i) (db_checks s),
         db_warp := filter (\<lambda>w. wr_tunnel_id w \<noteq> i) (db_warp s)\<rparr>))"

text \<open>\<open>ruleNamesByTunnel\<close>.\<close>

definition ruleNamesByTunnel :: "db \<Rightarrow> string \<Rightarrow> string list" where
  "ruleNamesByTunnel s i = map rr_name (sort_key rr_priority (filter (refers i) (db_rules s)))"

definition delete_tunnel_tx :: "string \<Rightarrow> db \<Rightarrow> err + unit \<times> db" where
  "delete_tunnel_tx i s = (case find_tunnel s i of
     None \<Rightarrow> Inl ErrNotFound
   | Some w \<Rightarrow>
       if tr_builtin w then Inl ErrInUse
       else if filter (\<lambda>p. p_egress_tunnel_id p = Some i) (Peers s) \<noteq> [] then Inl ErrInUse
       else if ruleNamesByTunnel s i \<noteq> [] then Inl ErrInUse
       else bindR (mapErr (\<lambda>_. ErrOther) (delete_tunnel_row i s)) (\<lambda>(n, s').
         bindR (checkAffected n) (\<lambda>_. Inr ((), s'))))"

definition DeleteTunnel :: "string \<Rightarrow> db \<Rightarrow> (err + unit) \<times> db" where
  "DeleteTunnel i = tx (delete_tunnel_tx i)"

section \<open>The built-in pool\<close>

text \<open>The name of the pool in the source, a Cyrillic text, as its UTF-8 bytes.\<close>

definition builtinPoolName :: string where
  "builtinPoolName = map char_of [0xD0, 0x9E, 0xD0, 0xB1, 0xD1, 0x89, 0xD0, 0xB8, 0xD0, 0xB9, 0x20,
     0xD0, 0xBF, 0xD1, 0x83, 0xD0, 0xBB :: nat]"

record detached_rule =
  dt_name :: string
  dt_disabled :: bool

record builtin_pool_result =
  bp_created :: bool
  bp_removed_extra :: "string list"
  bp_detached_rules :: "detached_rule list"

definition no_pool_result :: builtin_pool_result where
  "no_pool_result = \<lparr>bp_created = False, bp_removed_extra = [], bp_detached_rules = []\<rparr>"

definition builtinPools :: "db \<Rightarrow> tunnel list" where
  "builtinPools s = filter (\<lambda>t. t_builtin t \<and> t_source t = SourcePool) (Tunnels s)"

record rule_ref =
  rf_id :: string
  rf_name :: string
  rf_primary :: bool

definition ruleRefsForTunnel :: "db \<Rightarrow> string \<Rightarrow> rule_ref list" where
  "ruleRefsForTunnel s i = map (\<lambda>r. \<lparr>rf_id = rr_id r, rf_name = rr_name r, rf_primary = (rr_tunnel_id r = Some i)\<rparr>)
     (sort_key rr_priority (filter (refers i) (db_rules s)))"

fun detach_refs :: "string \<Rightarrow> rule_ref list \<Rightarrow> builtin_pool_result \<times> db \<Rightarrow> builtin_pool_result \<times> db" where
  "detach_refs i [] acc = acc"
| "detach_refs i (r # rs) (out, s) =
    (if rf_primary r
     then detach_refs i rs
       (out\<lparr>bp_detached_rules := bp_detached_rules out @ [\<lparr>dt_name = rf_name r, dt_disabled = True\<rparr>]\<rparr>,
        s\<lparr>db_rules := upd_where (\<lambda>w. rr_id w = rf_id r)
          (\<lambda>w. w\<lparr>rr_tunnel_id := None, rr_enabled := False,
             rr_via_tunnel_id := (if rr_via_tunnel_id w = Some i then None else rr_via_tunnel_id w)\<rparr>) (db_rules s)\<rparr>)
     else detach_refs i rs
       (out\<lparr>bp_detached_rules := bp_detached_rules out @ [\<lparr>dt_name = rf_name r, dt_disabled = False\<rparr>]\<rparr>,
        s\<lparr>db_rules := upd_where (\<lambda>w. rr_id w = rf_id r) (\<lambda>w. w\<lparr>rr_via_tunnel_id := None\<rparr>) (db_rules s)\<rparr>))"

definition detachRulesFromTunnel :: "string \<Rightarrow> builtin_pool_result \<times> db \<Rightarrow> builtin_pool_result \<times> db" where
  "detachRulesFromTunnel i = (\<lambda>(out, s). detach_refs i (ruleRefsForTunnel s i) (out, s))"

fun collapse_extra :: "tunnel list \<Rightarrow> builtin_pool_result \<times> db \<Rightarrow> err + builtin_pool_result \<times> db" where
  "collapse_extra [] acc = Inr acc"
| "collapse_extra (t # ts) acc =
    (let (out, s) = detachRulesFromTunnel (t_id t) acc in
     bindR (mapErr (\<lambda>_. ErrOther) (delete_tunnel_row (t_id t) s)) (\<lambda>(_, s).
       collapse_extra ts (out\<lparr>bp_removed_extra := bp_removed_extra out @ [t_name t]\<rparr>, s)))"

text \<open>\<open>UPDATE tunnels SET name = ? WHERE id = ?\<close>; a name that is taken leaves the row as it is.\<close>

definition rename_tunnel :: "string \<Rightarrow> string \<Rightarrow> db \<Rightarrow> sql_err + db" where
  "rename_tunnel i name s =
    (if i \<in> tunnel_ids s \<and> (\<exists>q \<in> set (db_tunnels s). tr_id q \<noteq> i \<and> tr_name q = name) then Inl UNIQUE_failed
     else Inr (s\<lparr>db_tunnels := upd_where (\<lambda>w. tr_id w = i) (\<lambda>w. w\<lparr>tr_name := name\<rparr>) (db_tunnels s)\<rparr>))"

definition collapseBuiltinPools :: "tunnel list \<Rightarrow> builtin_pool_result \<times> db \<Rightarrow> err + builtin_pool_result \<times> db" where
  "collapseBuiltinPools pools acc =
    (let survivor = hd pools in
     bindR (collapse_extra (tl pools) acc) (\<lambda>(out, s).
     let s = (if t_country survivor \<noteq> []
              then s\<lparr>db_tunnels := upd_where (\<lambda>w. tr_id w = t_id survivor) (\<lambda>w. w\<lparr>tr_country := []\<rparr>) (db_tunnels s)\<rparr>
              else s) in
     if bp_removed_extra out \<noteq> [] \<and> t_name survivor \<noteq> builtinPoolName
     then case rename_tunnel (t_id survivor) builtinPoolName s of
         Inl UNIQUE_failed \<Rightarrow> Inr (out, s)
       | Inl _ \<Rightarrow> Inl ErrOther
       | Inr s \<Rightarrow> Inr (out, s)
     else Inr (out, s)))"

definition new_builtin_pool :: "string \<Rightarrow> time \<Rightarrow> string \<Rightarrow> string \<Rightarrow> tunnel" where
  "new_builtin_pool nid now url typ = \<lparr>t_id = nid, t_name = builtinPoolName, t_type = typ, t_source = SourcePool,
     t_raw = url, t_parsed = [], t_enabled = False, t_created_at = now, t_pool = [],
     t_pool_updated_at = time_zero, t_builtin = True, t_country = []\<rparr>"

definition ensure_pool_tx :: "string \<Rightarrow> time \<Rightarrow> string \<Rightarrow> string \<Rightarrow> db \<Rightarrow> err + builtin_pool_result \<times> db" where
  "ensure_pool_tx nid now url typ s =
    (let pools = builtinPools s in
     if pools = [] then
       let t = new_builtin_pool nid now url typ in
       bindR (tunnel_validate t) (\<lambda>_.
       bindR (mapErr uniqueErr (insert_tunnel (tunnelArgs t) s)) (\<lambda>s.
         Inr (no_pool_result\<lparr>bp_created := True\<rparr>, s)))
     else collapseBuiltinPools pools (no_pool_result, s))"

definition EnsureBuiltinPool :: "string \<times> time \<times> string \<times> string \<Rightarrow> db \<Rightarrow> (err + builtin_pool_result) \<times> db" where
  "EnsureBuiltinPool = (\<lambda>(nid, now, url, typ) s.
     if url = [] then (Inl ErrInvalid, s) else tx (ensure_pool_tx nid now url typ) s)"

section \<open>WARP registrations\<close>

record warp_registration =
  wg_device_id :: string
  wg_access_token :: string
  wg_created_at :: time

definition insert_warp :: "warp_row \<Rightarrow> db \<Rightarrow> sql_err + db" where
  "insert_warp w s =
    (if wr_tunnel_id w \<in> wr_tunnel_id ` set (db_warp s) then Inl UNIQUE_failed
     else if wr_tunnel_id w \<notin> tunnel_ids s then Inl FOREIGN_KEY_failed
     else Inr (s\<lparr>db_warp := db_warp s @ [w]\<rparr>))"

definition create_warp_tx :: "tunnel \<Rightarrow> warp_registration \<Rightarrow> db \<Rightarrow> err + tunnel \<times> db" where
  "create_warp_tx t reg s =
    bindR (mapErr uniqueErr (insert_tunnel ((tunnelArgs t)\<lparr>tr_pool := []\<rparr>) s)) (\<lambda>s.
    bindR (mapErr (\<lambda>_. ErrOther) (insert_warp \<lparr>wr_tunnel_id = t_id t, wr_device_id = wg_device_id reg,
        wr_access_token = wg_access_token reg, wr_created_at = Unix (wg_created_at reg)\<rparr> s)) (\<lambda>s. Inr (t, s)))"

definition CreateWARPTunnel :: "string \<times> time \<times> tunnel \<times> warp_registration \<Rightarrow> db \<Rightarrow> (err + tunnel) \<times> db" where
  "CreateWARPTunnel = (\<lambda>(nid, now, t, reg) s.
     if t_source t \<noteq> SourceWARP then (Inl ErrInvalid, s)
     else if wg_device_id reg = [] \<or> wg_access_token reg = [] then (Inl ErrInvalid, s)
     else case tunnel_validate t of
        Inl e \<Rightarrow> (Inl e, s)
      | Inr _ \<Rightarrow>
          let t = fill_tunnel nid now t;
              reg = (if wg_created_at reg = time_zero then reg\<lparr>wg_created_at := t_created_at t\<rparr> else reg)
          in tx (create_warp_tx t reg) s)"

definition WARPRegistration :: "db \<Rightarrow> string \<Rightarrow> warp_registration option" where
  "WARPRegistration s i = map_option
     (\<lambda>w. \<lparr>wg_device_id = wr_device_id w, wg_access_token = wr_access_token w, wg_created_at = time_Unix (wr_created_at w)\<rparr>)
     (List.find (\<lambda>w. wr_tunnel_id w = i) (db_warp s))"

section \<open>Checks\<close>

record tunnel_check =
  tc_status :: string
  tc_checked_at :: time
  tc_ok_at :: time
  tc_notified :: string

text \<open>\<open>INSERT ... ON CONFLICT(tunnel_id) DO UPDATE\<close>: the time of the last success is kept when the new
  observation has none, and what was notified is never touched.\<close>

definition upsert_check :: "check_row \<Rightarrow> db \<Rightarrow> sql_err + db" where
  "upsert_check c s =
    (if cr_tunnel_id c \<in> cr_tunnel_id ` set (db_checks s) then
       Inr (s\<lparr>db_checks := upd_where (\<lambda>o'. cr_tunnel_id o' = cr_tunnel_id c)
         (\<lambda>o'. o'\<lparr>cr_status := cr_status c, cr_checked_at := cr_checked_at c,
            cr_ok_at := (if cr_ok_at c > 0 then cr_ok_at c else cr_ok_at o')\<rparr>) (db_checks s)\<rparr>)
     else if cr_tunnel_id c \<notin> tunnel_ids s then Inl FOREIGN_KEY_failed
     else Inr (s\<lparr>db_checks := db_checks s @ [c]\<rparr>))"

definition save_check_tx :: "string \<Rightarrow> string \<Rightarrow> time \<Rightarrow> time \<Rightarrow> db \<Rightarrow> err + unit \<times> db" where
  "save_check_tx i status at okAt s =
    (if i = [] \<or> status = [] then Inl ErrInvalid
     else bindR (mapErr (\<lambda>_. ErrOther) (upsert_check \<lparr>cr_tunnel_id = i, cr_status = status,
         cr_checked_at = Unix at, cr_notified_status = [], cr_ok_at = unixOrZero okAt\<rparr> s)) (\<lambda>s. Inr ((), s)))"

definition SaveTunnelCheck :: "string \<times> string \<times> time \<times> time \<Rightarrow> db \<Rightarrow> (err + unit) \<times> db" where
  "SaveTunnelCheck = (\<lambda>(i, status, at, okAt). tx (save_check_tx i status at okAt))"

definition scan_check :: "check_row \<Rightarrow> tunnel_check" where
  "scan_check c = \<lparr>tc_status = cr_status c, tc_checked_at = time_Unix (cr_checked_at c),
     tc_ok_at = (if cr_ok_at c > 0 then time_Unix (cr_ok_at c) else time_zero), tc_notified = cr_notified_status c\<rparr>"

text \<open>The map \<open>TunnelChecks\<close> returns, by tunnel identifier.\<close>

definition TunnelChecks :: "db \<Rightarrow> string \<Rightarrow> tunnel_check option" where
  "TunnelChecks s i = map_option scan_check (List.find (\<lambda>c. cr_tunnel_id c = i) (db_checks s))"

definition set_notified_tx :: "string \<Rightarrow> string \<Rightarrow> db \<Rightarrow> err + unit \<times> db" where
  "set_notified_tx i status s =
    bindR (checkAffected (length (filter (\<lambda>c. cr_tunnel_id c = i) (db_checks s)))) (\<lambda>_.
      Inr ((), s\<lparr>db_checks := upd_where (\<lambda>c. cr_tunnel_id c = i) (\<lambda>c. c\<lparr>cr_notified_status := status\<rparr>) (db_checks s)\<rparr>))"

definition SetNotifiedStatus :: "string \<times> string \<Rightarrow> db \<Rightarrow> (err + unit) \<times> db" where
  "SetNotifiedStatus = (\<lambda>(i, status). tx (set_notified_tx i status))"

section \<open>Frames\<close>

lemma scanTunnel_sel [simp]:
  "t_id (scanTunnel w) = tr_id w" "t_name (scanTunnel w) = tr_name w" "t_builtin (scanTunnel w) = tr_builtin w"
  "t_source (scanTunnel w) = tr_source w" "t_country (scanTunnel w) = tr_country w"
  by (simp_all add: scanTunnel_def)

lemma find_tunnel_Some: "find_tunnel s i = Some w \<Longrightarrow> w \<in> set (db_tunnels s) \<and> tr_id w = i"
  unfolding find_tunnel_def by (rule find_key_Some)

lemma find_tunnel_None: "find_tunnel s i = None \<longleftrightarrow> i \<notin> tunnel_ids s"
  by (simp add: find_tunnel_def find_key_None tunnel_ids_def)

interpretation overwrite_tunnel_upd: row_update tr_id "overwrite_tunnel t"
  by unfold_locales (simp add: overwrite_tunnel_def)

text \<open>Statements on tunnels, checks and registrations leave peers and credentials alone.\<close>

lemma store_inv_frame:
  assumes "store_inv s" "schema_ok s'" "db_rules s' = db_rules s" "db_peers s' = db_peers s" "db_creds s' = db_creds s"
  shows "store_inv s'"
proof (rule store_inv_peers [OF assms(1,2) _ assms(3)])
  show "reality_inv s'" using store_invD(2) [OF assms(1)] by (simp add: reality_inv_def assms(4,5))
  show "peer_ids s' = peer_ids s" by (simp add: peer_ids_def assms(4))
qed

lemma insert_tunnel_ok:
  assumes "schema_ok s" "insert_tunnel w s = Inr s'"
  shows "schema_ok s'" "s' = s\<lparr>db_tunnels := db_tunnels s @ [w]\<rparr>" "tr_id w \<notin> tunnel_ids s"
proof -
  from assms(2) show s': "s' = s\<lparr>db_tunnels := db_tunnels s @ [w]\<rparr>" and new: "tr_id w \<notin> tunnel_ids s"
    by (auto simp: insert_tunnel_def split: if_splits)
  have ids: "tunnel_ids s' = insert (tr_id w) (tunnel_ids s)" by (auto simp: s' tunnel_ids_def)
  have name: "tr_name w \<notin> tr_name ` set (db_tunnels s)"
    using assms(2) by (auto simp: insert_tunnel_def split: if_splits)
  show "schema_ok s'"
    using assms(1) new name unfolding schema_ok_def ids
    by (auto simp: s' tunnels_ok_def rules_ok_def peers_ok_def checks_ok_def warp_ok_def tunnel_ids_def
        intro: ref_ok_mono)
qed

lemma upd_tunnels_schema_ok:
  assumes "schema_ok s" "distinct (map tr_name (upd_where p f (db_tunnels s)))" "\<And>w. tr_id (f w) = tr_id w"
  shows "schema_ok (s\<lparr>db_tunnels := upd_where p f (db_tunnels s)\<rparr>)"
proof -
  have ids: "map tr_id (upd_where p f (db_tunnels s)) = map tr_id (db_tunnels s)"
    by (simp add: map_upd_where assms(3))
  have "tr_id ` set (upd_where p f (db_tunnels s)) = tunnel_ids s"
    using arg_cong [OF ids, of set] by (simp add: tunnel_ids_def)
  then show ?thesis
    using assms(1,2) by (simp add: schema_ok_def tunnels_ok_def ids)
qed

lemma update_tunnel_tx_ok:
  assumes "schema_ok s" "update_tunnel_tx t s = Inr (u, s')"
  shows "schema_ok s'" "t_id t \<in> tunnel_ids s"
    "s' = s\<lparr>db_tunnels := upd_where (\<lambda>w. tr_id w = t_id t) (overwrite_tunnel t) (db_tunnels s)\<rparr>"
proof -
  from assms(2) show s': "s' = s\<lparr>db_tunnels := upd_where (\<lambda>w. tr_id w = t_id t) (overwrite_tunnel t) (db_tunnels s)\<rparr>"
    and mem: "t_id t \<in> tunnel_ids s"
    by (auto simp: update_tunnel_tx_def update_tunnel_row_def Let_def bindR_Inr_iff filter_key_Nil tunnel_ids_def
        split: if_splits)
  have free: "\<forall>q \<in> set (db_tunnels s). tr_id q \<noteq> t_id t \<longrightarrow> tr_name q \<noteq> t_name t"
    using assms(2) by (auto simp: update_tunnel_tx_def update_tunnel_row_def Let_def bindR_Inr_iff split: if_splits)
  have "distinct (map tr_name (upd_where (\<lambda>w. tr_id w = t_id t) (overwrite_tunnel t) (db_tunnels s)))"
    using assms(1) free
    by (intro distinct_upd_column [where v = "t_name t"]) (simp_all add: schema_ok_def tunnels_ok_def overwrite_tunnel_def)
  then show "schema_ok s'" unfolding s'
    by (rule upd_tunnels_schema_ok [OF assms(1)]) (simp add: overwrite_tunnel_def)
qed

lemma delete_tunnel_row_ok:
  assumes "schema_ok s" "delete_tunnel_row i s = Inr (n, s')" "i \<in> tunnel_ids s"
  shows "schema_ok s'"
    "s' = s\<lparr>db_tunnels := filter (\<lambda>w. tr_id w \<noteq> i) (db_tunnels s),
         db_checks := filter (\<lambda>c. cr_tunnel_id c \<noteq> i) (db_checks s),
         db_warp := filter (\<lambda>w. wr_tunnel_id w \<noteq> i) (db_warp s)\<rparr>"
    "\<forall>r \<in> set (db_rules s). \<not> refers i r" "\<forall>p \<in> set (db_peers s). pr_egress_tunnel_id p \<noteq> Some i"
proof -
  from assms(2,3) show s': "s' = s\<lparr>db_tunnels := filter (\<lambda>w. tr_id w \<noteq> i) (db_tunnels s),
         db_checks := filter (\<lambda>c. cr_tunnel_id c \<noteq> i) (db_checks s),
         db_warp := filter (\<lambda>w. wr_tunnel_id w \<noteq> i) (db_warp s)\<rparr>"
    and nr: "\<forall>r \<in> set (db_rules s). \<not> refers i r" and np: "\<forall>p \<in> set (db_peers s). pr_egress_tunnel_id p \<noteq> Some i"
    by (auto simp: delete_tunnel_row_def split: if_splits)
  have ids: "tunnel_ids s' = tunnel_ids s - {i}" by (auto simp: s' tunnel_ids_def)
  have "rules_ok (tunnel_ids s - {i}) (db_rules s)"
    using assms(1) nr by (auto simp: schema_ok_def rules_ok_def refers_def intro: ref_ok_remove)
  moreover have "peers_ok (tunnel_ids s - {i}) (db_peers s)"
    using assms(1) np by (auto simp: schema_ok_def peers_ok_def intro: ref_ok_remove)
  moreover have "checks_ok (tunnel_ids s - {i}) (db_checks s')" "warp_ok (tunnel_ids s - {i}) (db_warp s')"
    "tunnels_ok (db_tunnels s')"
    using assms(1) by (auto simp: s' schema_ok_def checks_ok_def warp_ok_def tunnels_ok_def distinct_map_filter)
  ultimately show "schema_ok s'"
    using assms(1) unfolding schema_ok_def ids by (simp add: s')
qed

section \<open>Detaching rules\<close>

text \<open>What the collapse does to a rule that referred to a removed pool.\<close>

definition detach_row :: "string \<Rightarrow> rule_row \<Rightarrow> rule_row" where
  "detach_row i w =
    (if rr_tunnel_id w = Some i then w\<lparr>rr_tunnel_id := None, rr_enabled := False,
       rr_via_tunnel_id := (if rr_via_tunnel_id w = Some i then None else rr_via_tunnel_id w)\<rparr>
     else if rr_via_tunnel_id w = Some i then w\<lparr>rr_via_tunnel_id := None\<rparr> else w)"

lemma detach_row_keeps [simp]:
  "rr_id (detach_row i w) = rr_id w" "rr_priority (detach_row i w) = rr_priority w"
  "rr_peer_scope (detach_row i w) = rr_peer_scope w" "rr_peer_ids (detach_row i w) = rr_peer_ids w"
  "rr_name (detach_row i w) = rr_name w"
  by (simp_all add: detach_row_def)

lemma not_refers_detach [simp]: "\<not> refers i (detach_row i w)"
  by (simp add: refers_def detach_row_def)

lemma detach_row_refs: "ref_ok T (rr_tunnel_id w) \<Longrightarrow> ref_ok T (rr_tunnel_id (detach_row i w))"
  "ref_ok T (rr_via_tunnel_id w) \<Longrightarrow> ref_ok T (rr_via_tunnel_id (detach_row i w))"
  by (simp_all add: detach_row_def ref_ok_def)

lemma detach_row_id: "\<not> refers i w \<Longrightarrow> detach_row i w = w"
  by (simp add: refers_def detach_row_def)

lemma selection_ok_detach: "selection_ok P w \<Longrightarrow> selection_ok P (detach_row i w)"
  by (simp add: selection_ok_def) (simp add: detach_row_def)

definition detach_as :: "bool \<Rightarrow> string \<Rightarrow> rule_row \<Rightarrow> rule_row" where
  "detach_as primary i v =
    (if primary then v\<lparr>rr_tunnel_id := None, rr_enabled := False,
       rr_via_tunnel_id := (if rr_via_tunnel_id v = Some i then None else rr_via_tunnel_id v)\<rparr>
     else v\<lparr>rr_via_tunnel_id := None\<rparr>)"

lemma detach_as_eqs:
  "detach_as True i = (\<lambda>v. v\<lparr>rr_tunnel_id := None, rr_enabled := False,
       rr_via_tunnel_id := (if rr_via_tunnel_id v = Some i then None else rr_via_tunnel_id v)\<rparr>)"
  "detach_as False i = (\<lambda>v. v\<lparr>rr_via_tunnel_id := None\<rparr>)"
  by (simp_all add: detach_as_def fun_eq_iff)

lemma detach_refs_fold:
  "detach_refs i (map (\<lambda>r. \<lparr>rf_id = rr_id r, rf_name = rr_name r, rf_primary = (rr_tunnel_id r = Some i)\<rparr>) ws) (out, s) =
    (out\<lparr>bp_detached_rules := bp_detached_rules out @
        map (\<lambda>r. \<lparr>dt_name = rr_name r, dt_disabled = (rr_tunnel_id r = Some i)\<rparr>) ws\<rparr>,
     s\<lparr>db_rules := fold (\<lambda>w. upd_where (\<lambda>v. rr_id v = rr_id w) (detach_as (rr_tunnel_id w = Some i) i)) ws (db_rules s)\<rparr>)"
  by (induction ws arbitrary: out s) (simp_all add: detach_as_eqs)

lemma detachRulesFromTunnel_eq:
  assumes "distinct (map rr_id (db_rules s))"
  shows "detachRulesFromTunnel i (out, s) =
    (out\<lparr>bp_detached_rules := bp_detached_rules out @
        map (\<lambda>r. \<lparr>dt_name = rr_name r, dt_disabled = (rr_tunnel_id r = Some i)\<rparr>)
          (sort_key rr_priority (filter (refers i) (db_rules s)))\<rparr>,
     s\<lparr>db_rules := map (detach_row i) (db_rules s)\<rparr>)"
proof -
  let ?ws = "sort_key rr_priority (filter (refers i) (db_rules s))"
  have "distinct (map rr_id (filter (refers i) (db_rules s)))" using assms by (simp add: distinct_map_filter)
  then have "distinct (map rr_id ?ws)" by (simp add: distinct_map)
  then have "fold (\<lambda>w. upd_where (\<lambda>v. rr_id v = rr_id w) (detach_as (rr_tunnel_id w = Some i) i)) ?ws (db_rules s)
      = map (\<lambda>v. if rr_id v \<in> rr_id ` set ?ws then detach_row i v else v) (db_rules s)"
    using assms by (intro fold_upd_rows) (auto simp: detach_row_def detach_as_def refers_def)
  also have "\<dots> = map (detach_row i) (db_rules s)"
  proof (intro map_cong refl)
    fix v assume "v \<in> set (db_rules s)"
    then show "(if rr_id v \<in> rr_id ` set ?ws then detach_row i v else v) = detach_row i v"
      using detach_row_id [of i v] by (cases "refers i v") auto
  qed
  finally show ?thesis by (simp add: detachRulesFromTunnel_def ruleRefsForTunnel_def detach_refs_fold)
qed

lemma detach_store_inv:
  assumes inv: "store_inv s"
  shows "store_inv (s\<lparr>db_rules := map (detach_row i) (db_rules s)\<rparr>)"
proof (rule store_inv_rules [OF inv _ refl])
  have "rules_ok (tunnel_ids s) (map (detach_row i) (db_rules s))"
    using store_invD(4) [OF inv] by (auto simp: schema_ok_def rules_ok_def comp_def detach_row_refs)
  moreover have "dense (s\<lparr>db_rules := map (detach_row i) (db_rules s)\<rparr>)"
    using store_invD(5) [OF inv] by (simp add: dense_def image_image)
  ultimately show "rules_inv (s\<lparr>db_rules := map (detach_row i) (db_rules s)\<rparr>)"
    using store_invD(4) [OF inv] by (simp add: rules_inv_def schema_ok_rules)
  show "\<forall>r \<in> set (map (detach_row i) (db_rules s)). selection_ok (peer_ids s) r"
    using store_invD(3) [OF inv] by (auto simp: selection_inv_def selection_ok_detach)
qed

section \<open>Collapsing extra pools\<close>

definition pool_row :: "tunnel_row \<Rightarrow> bool" where
  "pool_row w \<longleftrightarrow> tr_builtin w \<and> tr_source w = SourcePool"

lemma builtinPools_rows: "builtinPools s = map scanTunnel (filter pool_row (sort_key tunnel_order (db_tunnels s)))"
  by (simp add: builtinPools_def Tunnels_def filter_map comp_def pool_row_def [abs_def])

lemma builtinPools_ids:
  assumes "schema_ok s"
  shows "distinct (map t_id (builtinPools s))" "t_id ` set (builtinPools s) \<subseteq> tunnel_ids s"
proof -
  have d: "distinct (map tr_id (sort_key tunnel_order (db_tunnels s)))"
    using assms by (simp add: schema_ok_def tunnels_ok_def distinct_map)
  have "map t_id (builtinPools s) = map tr_id (filter pool_row (sort_key tunnel_order (db_tunnels s)))"
    by (simp add: builtinPools_rows)
  then show "distinct (map t_id (builtinPools s))" using d by (simp only: distinct_map_filter)
  show "t_id ` set (builtinPools s) \<subseteq> tunnel_ids s" by (auto simp: builtinPools_rows tunnel_ids_def)
qed

lemma store_inv_delete_tunnel:
  assumes inv: "store_inv s" and del: "delete_tunnel_row i s = Inr (n, s')" and i: "i \<in> tunnel_ids s"
  shows "store_inv s'"
  using delete_tunnel_row_ok(1,2) [OF store_invD(4) [OF inv] del i]
  by (intro store_inv_frame [OF inv]) simp_all

text \<open>One round of the loop: the rules are detached, so only peers can still hold the pool.\<close>

lemma collapse_step:
  assumes inv: "store_inv s" and i: "t_id t \<in> tunnel_ids s"
  obtains (held) p where "p \<in> set (db_peers s)" "pr_egress_tunnel_id p = Some (t_id t)"
      "collapse_extra (t # ts) (out, s) = Inl ErrOther"
  | (gone) out1 s1 where "\<forall>p \<in> set (db_peers s). pr_egress_tunnel_id p \<noteq> Some (t_id t)"
      "collapse_extra (t # ts) (out, s) = collapse_extra ts (out1, s1)" "store_inv s1"
      "db_tunnels s1 = filter (\<lambda>w. tr_id w \<noteq> t_id t) (db_tunnels s)"
      "db_rules s1 = map (detach_row (t_id t)) (db_rules s)"
      "db_peers s1 = db_peers s" "db_creds s1 = db_creds s"
      "bp_removed_extra out1 = bp_removed_extra out @ [t_name t]" "bp_created out1 = bp_created out"
proof -
  let ?i = "t_id t" and ?s = "s\<lparr>db_rules := map (detach_row (t_id t)) (db_rules s)\<rparr>"
  have d: "distinct (map rr_id (db_rules s))" using rules_inv_distinct(1) [OF store_invD(1) [OF inv]] .
  have ids: "tunnel_ids ?s = tunnel_ids s" by simp
  have inv1: "store_inv ?s" by (rule detach_store_inv [OF inv])
  show ?thesis
  proof (cases "\<exists>p \<in> set (db_peers s). pr_egress_tunnel_id p = Some ?i")
    case True
    then have "delete_tunnel_row ?i ?s = Inl FOREIGN_KEY_failed" using i by (auto simp: delete_tunnel_row_def)
    then show ?thesis using True held by (auto simp: detachRulesFromTunnel_eq [OF d])
  next
    case False
    then have "\<exists>n s1. delete_tunnel_row ?i ?s = Inr (n, s1)" by (auto simp: delete_tunnel_row_def)
    then obtain n s1 where del: "delete_tunnel_row ?i ?s = Inr (n, s1)" by blast
    note o = delete_tunnel_row_ok [OF store_invD(4) [OF inv1] del i [folded ids]]
    show ?thesis
    proof (rule gone)
      show "collapse_extra (t # ts) (out, s) = collapse_extra ts
          (out\<lparr>bp_detached_rules := bp_detached_rules out @
              map (\<lambda>r. \<lparr>dt_name = rr_name r, dt_disabled = (rr_tunnel_id r = Some ?i)\<rparr>)
                (sort_key rr_priority (filter (refers ?i) (db_rules s))),
            bp_removed_extra := bp_removed_extra out @ [t_name t]\<rparr>, s1)"
        using del by (simp add: detachRulesFromTunnel_eq [OF d])
      show "store_inv s1" by (rule store_inv_delete_tunnel [OF inv1 del i [folded ids]])
    qed (use False o(2) in simp_all)
  qed
qed

lemma collapse_extra_ok:
  assumes "store_inv s" "distinct (map t_id ts)" "t_id ` set ts \<subseteq> tunnel_ids s"
    "collapse_extra ts (out, s) = Inr (out', s')"
  shows "store_inv s' \<and> db_tunnels s' = filter (\<lambda>w. tr_id w \<notin> t_id ` set ts) (db_tunnels s) \<and>
    db_rules s' = map (fold detach_row (map t_id ts)) (db_rules s) \<and> db_peers s' = db_peers s \<and>
    db_creds s' = db_creds s \<and> bp_removed_extra out' = bp_removed_extra out @ map t_name ts \<and>
    bp_created out' = bp_created out"
  using assms
proof (induction ts arbitrary: s out)
  case (Cons t ts)
  have i: "t_id t \<in> tunnel_ids s" using Cons.prems(3) by simp
  from Cons.prems(1) i show ?case
  proof (cases rule: collapse_step [of s t ts out])
    case held
    then show ?thesis using Cons.prems(4) by simp
  next
    case (gone out1 s1)
    have "tunnel_ids s1 = tunnel_ids s - {t_id t}" by (auto simp: tunnel_ids_def gone(4))
    then have "t_id ` set ts \<subseteq> tunnel_ids s1" using Cons.prems(2,3) by (auto simp: image_iff)
    then have "store_inv s' \<and> db_tunnels s' = filter (\<lambda>w. tr_id w \<notin> t_id ` set ts) (db_tunnels s1) \<and>
      db_rules s' = map (fold detach_row (map t_id ts)) (db_rules s1) \<and> db_peers s' = db_peers s1 \<and>
      db_creds s' = db_creds s1 \<and> bp_removed_extra out' = bp_removed_extra out1 @ map t_name ts \<and>
      bp_created out' = bp_created out1"
      using Cons.prems(2,4) gone(2) by (intro Cons.IH [OF gone(3)]) simp_all
    then show ?thesis using gone(4-9) by (auto intro: filter_cong)
  qed
qed simp

lemma collapse_extra_total:
  assumes "store_inv s" "distinct (map t_id ts)" "t_id ` set ts \<subseteq> tunnel_ids s"
  shows "(\<exists>out' s'. collapse_extra ts (out, s) = Inr (out', s')) \<longleftrightarrow>
    (\<forall>p \<in> set (db_peers s). \<forall>t \<in> set ts. pr_egress_tunnel_id p \<noteq> Some (t_id t))"
  using assms
proof (induction ts arbitrary: s out)
  case (Cons t ts)
  have i: "t_id t \<in> tunnel_ids s" using Cons.prems(3) by simp
  from Cons.prems(1) i show ?case
  proof (cases rule: collapse_step [of s t ts out])
    case held
    then show ?thesis by auto
  next
    case (gone out1 s1)
    have "tunnel_ids s1 = tunnel_ids s - {t_id t}" by (auto simp: tunnel_ids_def gone(4))
    then have "t_id ` set ts \<subseteq> tunnel_ids s1" using Cons.prems(2,3) by (auto simp: image_iff)
    then have "(\<exists>out' s'. collapse_extra ts (out1, s1) = Inr (out', s')) \<longleftrightarrow>
        (\<forall>p \<in> set (db_peers s1). \<forall>t \<in> set ts. pr_egress_tunnel_id p \<noteq> Some (t_id t))"
      using Cons.prems(2) by (intro Cons.IH [OF gone(3)]) simp_all
    then show ?thesis using gone(1,2,6) by auto
  qed
qed simp

text \<open>The survivor is rewritten in place: its country is cleared and its name may change.\<close>

definition polish :: "string \<Rightarrow> bool \<Rightarrow> bool \<Rightarrow> tunnel_row \<Rightarrow> tunnel_row" where
  "polish i country name w = (if tr_id w = i then w\<lparr>tr_country := (if country then [] else tr_country w),
     tr_name := (if name then builtinPoolName else tr_name w)\<rparr> else w)"

lemma polish_keeps [simp]:
  "tr_id (polish i c n w) = tr_id w" "tr_builtin (polish i c n w) = tr_builtin w"
  "tr_source (polish i c n w) = tr_source w" "tunnel_order (polish i c n w) = tunnel_order w"
  "pool_row (polish i c n w) = pool_row w"
  by (simp_all add: polish_def tunnel_order_def pool_row_def)

lemma upd_where_polish: "upd_where (\<lambda>w. tr_id w = i) (\<lambda>w. w\<lparr>tr_country := []\<rparr>) ws = map (polish i True False) ws"
  "upd_where (\<lambda>w. tr_id w = i) (\<lambda>w. w\<lparr>tr_name := builtinPoolName\<rparr>) ws = map (polish i False True) ws"
  by (simp_all add: upd_where_def polish_def)

lemma polish_polish: "polish i a b (polish i c d w) = polish i (a \<or> c) (b \<or> d) w"
  by (simp add: polish_def)

lemma polish_schema_ok:
  assumes "schema_ok s" "n \<Longrightarrow> \<forall>q \<in> set (db_tunnels s). tr_id q \<noteq> i \<longrightarrow> tr_name q \<noteq> builtinPoolName"
  shows "schema_ok (s\<lparr>db_tunnels := map (polish i c n) (db_tunnels s)\<rparr>)"
proof -
  let ?f = "\<lambda>w. w\<lparr>tr_country := (if c then [] else tr_country w), tr_name := (if n then builtinPoolName else tr_name w)\<rparr>"
  have eq: "map (polish i c n) (db_tunnels s) = upd_where (\<lambda>w. tr_id w = i) ?f (db_tunnels s)"
    by (simp add: upd_where_def polish_def [abs_def])
  have "distinct (map tr_name (upd_where (\<lambda>w. tr_id w = i) ?f (db_tunnels s)))"
  proof (cases n)
    case True
    with assms show ?thesis
      by (intro distinct_upd_column [where v = builtinPoolName]) (simp_all add: schema_ok_def tunnels_ok_def)
  next
    case False
    then have "map tr_name (upd_where (\<lambda>w. tr_id w = i) ?f (db_tunnels s)) = map tr_name (db_tunnels s)"
      by (simp add: map_upd_where)
    with assms(1) show ?thesis by (simp add: schema_ok_def tunnels_ok_def)
  qed
  then show ?thesis unfolding eq by (rule upd_tunnels_schema_ok [OF assms(1)]) simp
qed

lemma collapseBuiltinPools_ok:
  assumes inv: "store_inv s" and ids: "distinct (map t_id pools)" "t_id ` set pools \<subseteq> tunnel_ids s"
    and ne: "pools \<noteq> []" and ok: "collapseBuiltinPools pools (no_pool_result, s) = Inr (out, s')"
  shows "store_inv s'" "\<exists>c n. db_tunnels s' =
      map (polish (t_id (hd pools)) c n) (filter (\<lambda>w. tr_id w \<notin> t_id ` set (tl pools)) (db_tunnels s))"
    "db_rules s' = map (fold detach_row (map t_id (tl pools))) (db_rules s)" "db_peers s' = db_peers s"
    "db_creds s' = db_creds s" "bp_removed_extra out = map t_name (tl pools)" "\<not> bp_created out"
proof -
  let ?i = "t_id (hd pools)"
  from ok obtain out1 s1 where ex: "collapse_extra (tl pools) (no_pool_result, s) = Inr (out1, s1)"
    by (auto simp: collapseBuiltinPools_def bindR_Inr_iff Let_def)
  have "distinct (map t_id (tl pools))" "t_id ` set (tl pools) \<subseteq> tunnel_ids s"
    using ids ne by (cases pools; simp)+
  note e = collapse_extra_ok [OF inv this ex]
  let ?c = "t_country (hd pools) \<noteq> []"
  let ?s2 = "s1\<lparr>db_tunnels := map (polish ?i ?c False) (db_tunnels s1)\<rparr>"
  have idp: "map (polish ?i False False) ws = ws" for ws by (simp add: polish_def map_idI)
  have s2: "(if ?c then s1\<lparr>db_tunnels := upd_where (\<lambda>w. tr_id w = ?i) (\<lambda>w. w\<lparr>tr_country := []\<rparr>) (db_tunnels s1)\<rparr> else s1) = ?s2"
    by (simp add: upd_where_polish idp)
  have sch2: "schema_ok ?s2" using e store_invD(4) by (intro polish_schema_ok) auto
  have "s' = ?s2 \<and> out = out1 \<or> out = out1 \<and> rename_tunnel ?i builtinPoolName ?s2 = Inr s'"
    using ok ex unfolding collapseBuiltinPools_def Let_def s2
    by (auto simp: bindR_Inr_iff upd_where_polish idp split: if_splits sum.splits sql_err.splits)
  then have fin: "out = out1 \<and> schema_ok s' \<and> (\<exists>n. s' = s1\<lparr>db_tunnels := map (polish ?i ?c n) (db_tunnels s1)\<rparr>)"
  proof
    assume r: "out = out1 \<and> rename_tunnel ?i builtinPoolName ?s2 = Inr s'"
    then have s': "s' = ?s2\<lparr>db_tunnels := map (polish ?i False True) (db_tunnels ?s2)\<rparr>"
      and free: "?i \<in> tunnel_ids ?s2 \<longrightarrow> (\<forall>q \<in> set (db_tunnels ?s2). tr_id q \<noteq> ?i \<longrightarrow> tr_name q \<noteq> builtinPoolName)"
      by (auto simp: rename_tunnel_def upd_where_polish split: if_splits)
    have "?i \<in> tunnel_ids ?s2"
    proof -
      have "?i \<in> tunnel_ids s" using ids(2) ne by (cases pools) auto
      moreover have "?i \<notin> t_id ` set (tl pools)" using ids(1) ne by (cases pools) auto
      ultimately have "?i \<in> tr_id ` set (db_tunnels s1)" using e by (auto simp: tunnel_ids_def)
      then show ?thesis by (simp add: image_image)
    qed
    with free have "schema_ok s'" unfolding s' by (intro polish_schema_ok [OF sch2]) blast
    moreover have "s' = s1\<lparr>db_tunnels := map (polish ?i ?c True) (db_tunnels s1)\<rparr>"
      by (simp add: s' polish_polish comp_def)
    ultimately show ?thesis using r by blast
  qed (use sch2 in blast)
  from fin have out: "out = out1" by (elim conjE)
  from fin have sch': "schema_ok s'" by (elim conjE)
  from fin obtain n where s': "s' = s1\<lparr>db_tunnels := map (polish ?i ?c n) (db_tunnels s1)\<rparr>"
    by (elim conjE exE)
  from e have inv1: "store_inv s1" by (elim conjE)
  show "store_inv s'" by (rule store_inv_frame [OF inv1 sch']) (simp_all add: s')
  show "\<exists>c n. db_tunnels s' =
      map (polish ?i c n) (filter (\<lambda>w. tr_id w \<notin> t_id ` set (tl pools)) (db_tunnels s))"
    using e by (auto simp: s')
  show "db_rules s' = map (fold detach_row (map t_id (tl pools))) (db_rules s)" "db_peers s' = db_peers s"
    "db_creds s' = db_creds s" "bp_removed_extra out = map t_name (tl pools)" "\<not> bp_created out"
    using e by (simp_all add: s' out no_pool_result_def)
qed

text \<open>The pools left: the first one, at its place.\<close>

lemma builtinPools_collapsed:
  assumes "schema_ok s" "builtinPools s = t # ts"
    "db_tunnels s' = map (polish (t_id t) c n) (filter (\<lambda>w. tr_id w \<notin> t_id ` set ts) (db_tunnels s))"
  shows "map t_id (builtinPools s') = [t_id t]"
proof -
  let ?ws = "filter pool_row (sort_key tunnel_order (db_tunnels s))"
  have pools: "map scanTunnel ?ws = t # ts" using assms(2) by (simp add: builtinPools_rows)
  then obtain w ws where ws: "?ws = w # ws" and t: "t = scanTunnel w" and ts: "ts = map scanTunnel ws" by auto
  have d: "distinct (map tr_id (w # ws))"
    using builtinPools_ids(1) [OF assms(1)] by (simp add: assms(2) t ts comp_def)
  have "map t_id (builtinPools s') = map tr_id (filter (\<lambda>w. tr_id w \<notin> t_id ` set ts) ?ws)"
    unfolding builtinPools_rows assms(3)
    by (simp add: sort_key_map filter_map comp_def filter_sort [symmetric] conj_commute)
  also have "filter (\<lambda>w. tr_id w \<notin> t_id ` set ts) ?ws = [w]"
    unfolding ws using d by (auto simp: ts filter_empty_conv image_image)
  finally show ?thesis by (simp add: t)
qed

section \<open>The operations keep the invariant\<close>

lemma tunnels_dead: "db_creds s' = db_creds s \<Longrightarrow> dead c n s \<Longrightarrow> dead c n s'"
  by (simp add: dead_def)

lemma CreateTunnel_Inr:
  "CreateTunnel (nid, now, t) s = (Inr t', s') \<longleftrightarrow> tunnel_validate t = Inr () \<and> t' = fill_tunnel nid now t \<and>
     insert_tunnel (tunnelArgs t') s = Inr s'"
  by (cases "tunnel_validate t") (auto simp: CreateTunnel_def tx_Inr create_tunnel_tx_def bindR_Inr_iff)

interpretation create_tunnel: admission_op CreateTunnel store_inv "\<lambda>_. True" "\<lambda>_. {}"
proof unfold_locales
  fix x :: "string \<times> time \<times> tunnel" and s s' e
  assume "CreateTunnel x s = (Inl e, s')"
  then show "s' = s" by (cases x) (auto simp: CreateTunnel_def tx_Inl split: sum.splits)
next
  fix x :: "string \<times> time \<times> tunnel" and s s' a c n
  assume inv: "store_inv s" and "CreateTunnel x s = (Inr a, s')"
  then have "insert_tunnel (tunnelArgs a) s = Inr s'" by (cases x) (auto simp: CreateTunnel_Inr)
  note i = insert_tunnel_ok [OF store_invD(4) [OF inv] this]
  show "store_inv s'" using i(1) by (intro store_inv_frame [OF inv]) (simp_all add: i(2))
  assume "dead c n s"
  then show "dead c n s'" by (rule tunnels_dead [rotated]) (simp add: i(2))
qed

lemma UpdateTunnel_Inr:
  "UpdateTunnel t s = (Inr u, s') \<longleftrightarrow> tunnel_validate t = Inr () \<and> t_id t \<noteq> [] \<and> update_tunnel_tx t s = Inr (u, s')"
  by (cases "tunnel_validate t") (auto simp: UpdateTunnel_def tx_Inr)

interpretation update_tunnel: admission_op UpdateTunnel store_inv "\<lambda>_. True" "\<lambda>_. {}"
proof unfold_locales
  fix x s s' e
  assume "UpdateTunnel x s = (Inl e, s')"
  then show "s' = s" by (auto simp: UpdateTunnel_def tx_Inl split: sum.splits if_splits)
next
  fix x s s' a c n
  assume inv: "store_inv s" and "UpdateTunnel x s = (Inr a, s')"
  then have "update_tunnel_tx x s = Inr (a, s')" by (simp add: UpdateTunnel_Inr)
  note i = update_tunnel_tx_ok [OF store_invD(4) [OF inv] this]
  show "store_inv s'" using i(1) by (intro store_inv_frame [OF inv]) (simp_all add: i(3))
  assume "dead c n s"
  then show "dead c n s'" by (rule tunnels_dead [rotated]) (simp add: i(3))
qed

interpretation update_pool: admission_op UpdateTunnelPool store_inv "\<lambda>_. True" "\<lambda>_. {}"
proof unfold_locales
  fix x :: "string \<times> pool_server list \<times> time" and s s' e
  assume "UpdateTunnelPool x s = (Inl e, s')"
  then show "s' = s" by (cases x) (simp add: UpdateTunnelPool_def tx_Inl)
next
  fix x :: "string \<times> pool_server list \<times> time" and s s' a c n
  assume inv: "store_inv s" and run: "UpdateTunnelPool x s = (Inr a, s')"
  obtain i servers at where x: "x = (i, servers, at)" by (cases x)
  from run have s': "s' = s\<lparr>db_tunnels := upd_where (\<lambda>w. tr_id w = i \<and> tr_source w = SourcePool)
         (\<lambda>w. w\<lparr>tr_pool := servers, tr_pool_updated_at := unixOrZero at\<rparr>) (db_tunnels s)\<rparr>"
    by (auto simp: x UpdateTunnelPool_def tx_Inr update_pool_tx_def bindR_Inr_iff Let_def)
  have "schema_ok s'" unfolding s'
    using store_invD(4) [OF inv]
    by (intro upd_tunnels_schema_ok) (simp_all add: schema_ok_def tunnels_ok_def map_upd_where)
  then show "store_inv s'" by (intro store_inv_frame [OF inv]) (simp_all add: s')
  assume "dead c n s"
  then show "dead c n s'" by (rule tunnels_dead [rotated]) (simp add: s')
qed

text \<open>\<open>DeleteTunnel\<close> by cases; the schema's own restriction is never the one that fires.\<close>

lemma selected_by_peer: "filter (\<lambda>p. p_egress_tunnel_id p = Some i) (Peers s) = [] \<longleftrightarrow>
    (\<forall>p \<in> set (db_peers s). pr_egress_tunnel_id p \<noteq> Some i)"
  by (auto simp: Peers_def filter_empty_conv scanPeer_def)

lemma ruleNamesByTunnel_Nil: "ruleNamesByTunnel s i = [] \<longleftrightarrow> (\<forall>r \<in> set (db_rules s). \<not> refers i r)"
proof -
  have "ruleNamesByTunnel s i = [] \<longleftrightarrow> length (sort_key rr_priority (filter (refers i) (db_rules s))) = 0"
    by (simp only: ruleNamesByTunnel_def map_is_Nil_conv length_0_conv)
  then show ?thesis by (simp add: filter_empty_conv)
qed

lemma delete_tunnel_tx_Inr:
  "delete_tunnel_tx i s = Inr (u, s') \<longleftrightarrow>
     (\<exists>w. find_tunnel s i = Some w \<and> \<not> tr_builtin w) \<and> (\<forall>p \<in> set (db_peers s). pr_egress_tunnel_id p \<noteq> Some i) \<and>
     (\<forall>r \<in> set (db_rules s). \<not> refers i r) \<and> (\<exists>n. delete_tunnel_row i s = Inr (n, s'))"
proof -
  have "\<exists>n. delete_tunnel_row i s = Inr (Suc n, s')"
    if "find_tunnel s i = Some w" "delete_tunnel_row i s = Inr (n, s')" for w n
  proof -
    have "filter (\<lambda>w. tr_id w = i) (db_tunnels s) \<noteq> []"
      using find_tunnel_Some [OF that(1)] by (auto simp: filter_empty_conv)
    then show ?thesis using that(2) by (cases n) (auto simp: delete_tunnel_row_def split: if_splits)
  qed
  then show ?thesis
    by (auto simp: delete_tunnel_tx_def selected_by_peer ruleNamesByTunnel_Nil bindR_Inr_iff split: option.splits if_splits)
qed

interpretation delete_tunnel: admission_op DeleteTunnel store_inv "\<lambda>_. True" "\<lambda>_. {}"
proof unfold_locales
  fix x s s' e
  assume "DeleteTunnel x s = (Inl e, s')"
  then show "s' = s" by (simp add: DeleteTunnel_def tx_Inl)
next
  fix x s s' a c n
  assume inv: "store_inv s" and "DeleteTunnel x s = (Inr a, s')"
  then obtain m where del: "delete_tunnel_row x s = Inr (m, s')" and x: "x \<in> tunnel_ids s"
    using find_tunnel_None [of s x] by (auto simp: DeleteTunnel_def tx_Inr delete_tunnel_tx_Inr)
  show "store_inv s'" by (rule store_inv_delete_tunnel [OF inv del x])
  assume "dead c n s"
  then show "dead c n s'"
    by (rule tunnels_dead [rotated]) (simp add: delete_tunnel_row_ok(2) [OF store_invD(4) [OF inv] del x])
qed

lemma ensure_pool_tx_ok:
  assumes inv: "store_inv s" and ok: "ensure_pool_tx nid now url typ s = Inr (out, s')"
  shows "store_inv s' \<and> db_creds s' = db_creds s"
proof (cases "builtinPools s = []")
  case True
  with ok have ins: "insert_tunnel (tunnelArgs (new_builtin_pool nid now url typ)) s = Inr s'"
    by (auto simp: ensure_pool_tx_def bindR_Inr_iff Let_def)
  note i = insert_tunnel_ok [OF store_invD(4) [OF inv] ins]
  show ?thesis using store_inv_frame [OF inv i(1)] by (simp add: i(2))
next
  case False
  with ok have c: "collapseBuiltinPools (builtinPools s) (no_pool_result, s) = Inr (out, s')"
    by (simp add: ensure_pool_tx_def)
  from collapseBuiltinPools_ok [OF inv builtinPools_ids [OF store_invD(4) [OF inv]] False c] show ?thesis by simp
qed

interpretation ensure_pool: admission_op EnsureBuiltinPool store_inv "\<lambda>_. True" "\<lambda>_. {}"
proof unfold_locales
  fix x :: "string \<times> time \<times> string \<times> string" and s s' e
  assume "EnsureBuiltinPool x s = (Inl e, s')"
  then show "s' = s" by (cases x) (auto simp: EnsureBuiltinPool_def tx_Inl split: if_splits)
next
  fix x :: "string \<times> time \<times> string \<times> string" and s s' a c n
  obtain nid now url ty where x: "x = (nid, now, url, ty)" by (cases x)
  assume inv: "store_inv s" and "EnsureBuiltinPool x s = (Inr a, s')"
  then have "ensure_pool_tx nid now url ty s = Inr (a, s')"
    by (auto simp: x EnsureBuiltinPool_def tx_Inr split: if_splits)
  note t = ensure_pool_tx_ok [OF inv this]
  then show "store_inv s'" by blast
  assume "dead c n s"
  with t show "dead c n s'" by (auto intro: tunnels_dead)
qed

interpretation create_warp: admission_op CreateWARPTunnel store_inv "\<lambda>_. True" "\<lambda>_. {}"
proof unfold_locales
  fix x :: "string \<times> time \<times> tunnel \<times> warp_registration" and s s' e
  assume "CreateWARPTunnel x s = (Inl e, s')"
  then show "s' = s" by (cases x) (auto simp: CreateWARPTunnel_def tx_Inl Let_def split: sum.splits if_splits)
next
  fix x :: "string \<times> time \<times> tunnel \<times> warp_registration" and s s' a c n
  assume inv: "store_inv s" and "CreateWARPTunnel x s = (Inr a, s')"
  moreover obtain nid now t r where x: "x = (nid, now, t, r)" by (cases x)
  ultimately have "\<exists>t r. create_warp_tx t r s = Inr (a, s')"
    by (auto simp: CreateWARPTunnel_def tx_Inr Let_def split: sum.splits if_splits)
  then obtain reg where "create_warp_tx a reg s = Inr (a, s')"
    by (auto simp: create_warp_tx_def bindR_Inr_iff)
  then obtain w s1 where ins: "insert_tunnel ((tunnelArgs a)\<lparr>tr_pool := []\<rparr>) s = Inr s1"
    and warp: "insert_warp w s1 = Inr s'"
    by (auto simp: create_warp_tx_def bindR_Inr_iff)
  note i = insert_tunnel_ok [OF store_invD(4) [OF inv] ins]
  from warp have s': "s' = s1\<lparr>db_warp := db_warp s1 @ [w]\<rparr>" and "wr_tunnel_id w \<in> tunnel_ids s1"
    and "wr_tunnel_id w \<notin> wr_tunnel_id ` set (db_warp s1)"
    by (auto simp: insert_warp_def split: if_splits)
  then have "schema_ok s'" using i(1) by (simp add: schema_ok_def warp_ok_def)
  then show "store_inv s'" by (intro store_inv_frame [OF inv]) (simp_all add: s' i(2))
  assume "dead c n s"
  then show "dead c n s'" by (rule tunnels_dead [rotated]) (simp add: s' i(2))
qed

interpretation save_check: admission_op SaveTunnelCheck store_inv "\<lambda>_. True" "\<lambda>_. {}"
proof unfold_locales
  fix x :: "string \<times> string \<times> time \<times> time" and s s' e
  assume "SaveTunnelCheck x s = (Inl e, s')"
  then show "s' = s" by (cases x) (simp add: SaveTunnelCheck_def tx_Inl)
next
  fix x :: "string \<times> string \<times> time \<times> time" and s s' a c n
  assume inv: "store_inv s" and "SaveTunnelCheck x s = (Inr a, s')"
  then obtain k where up: "upsert_check k s = Inr s'"
    by (cases x) (auto simp: SaveTunnelCheck_def tx_Inr save_check_tx_def bindR_Inr_iff split: if_splits)
  then obtain cs where s': "s' = s\<lparr>db_checks := cs\<rparr>" and cs: "checks_ok (tunnel_ids s) cs"
  proof (cases "cr_tunnel_id k \<in> cr_tunnel_id ` set (db_checks s)")
    case True
    let ?cs = "upd_where (\<lambda>o'. cr_tunnel_id o' = cr_tunnel_id k)
         (\<lambda>o'. o'\<lparr>cr_status := cr_status k, cr_checked_at := cr_checked_at k,
            cr_ok_at := (if cr_ok_at k > 0 then cr_ok_at k else cr_ok_at o')\<rparr>) (db_checks s)"
    have "map cr_tunnel_id ?cs = map cr_tunnel_id (db_checks s)" by (simp add: map_upd_where)
    then have "checks_ok (tunnel_ids s) ?cs"
      using store_invD(4) [OF inv] unfolding schema_ok_def checks_ok_def by (metis list.set_map)
    with up True show ?thesis by (intro that) (simp_all add: upsert_check_def)
  next
    case False
    with up have s': "s' = s\<lparr>db_checks := db_checks s @ [k]\<rparr>" and "cr_tunnel_id k \<in> tunnel_ids s"
      by (auto simp: upsert_check_def split: if_splits)
    with False have "checks_ok (tunnel_ids s) (db_checks s @ [k])"
      using store_invD(4) [OF inv] by (simp add: schema_ok_def checks_ok_def)
    with s' show ?thesis by (rule that)
  qed
  have "schema_ok s'" using store_invD(4) [OF inv] cs by (simp add: s' schema_ok_def)
  then show "store_inv s'" by (intro store_inv_frame [OF inv]) (simp_all add: s')
  assume "dead c n s"
  then show "dead c n s'" by (rule tunnels_dead [rotated]) (simp add: s')
qed

interpretation set_notified: admission_op SetNotifiedStatus store_inv "\<lambda>_. True" "\<lambda>_. {}"
proof unfold_locales
  fix x :: "string \<times> string" and s s' e
  assume "SetNotifiedStatus x s = (Inl e, s')"
  then show "s' = s" by (cases x) (simp add: SetNotifiedStatus_def tx_Inl)
next
  fix x :: "string \<times> string" and s s' a c n
  assume inv: "store_inv s" and "SetNotifiedStatus x s = (Inr a, s')"
  then obtain p st where s': "s' = s\<lparr>db_checks := upd_where p (\<lambda>c. c\<lparr>cr_notified_status := st\<rparr>) (db_checks s)\<rparr>"
    by (cases x) (auto simp: SetNotifiedStatus_def tx_Inr set_notified_tx_def bindR_Inr_iff)
  have "map cr_tunnel_id (db_checks s') = map cr_tunnel_id (db_checks s)" by (simp add: s' map_upd_where)
  then have "checks_ok (tunnel_ids s) (db_checks s')"
    using store_invD(4) [OF inv] unfolding schema_ok_def checks_ok_def by (metis list.set_map)
  then have "schema_ok s'" using store_invD(4) [OF inv] by (simp add: s' schema_ok_def)
  then show "store_inv s'" by (intro store_inv_frame [OF inv]) (simp_all add: s')
  assume "dead c n s"
  then show "dead c n s'" by (rule tunnels_dead [rotated]) (simp add: s')
qed

section \<open>Properties\<close>

text \<open>Two tunnels, one of them held by a rule.\<close>

definition demo_tunnel :: "string \<Rightarrow> tunnel" where
  "demo_tunnel n = \<lparr>t_id = n, t_name = n, t_type = TunnelVLESS, t_source = SourceURL, t_raw = ''vless://x'',
     t_parsed = [], t_enabled = True, t_created_at = 5000000000, t_pool = [],
     t_pool_updated_at = time_zero, t_builtin = False, t_country = []\<rparr>"

definition demo_tunnels_db :: db where
  "demo_tunnels_db = snd (CreateRule ([], (demo_rule ''r'')\<lparr>r_action := ActionTunnel, r_tunnel_id := ''t''\<rparr>)
     (snd (CreateTunnel ([], 0, demo_tunnel ''u'') (snd (CreateTunnel ([], 0, demo_tunnel ''t'') empty_db)))))"

lemma demo_tunnels_inv: "store_inv demo_tunnels_db"
  unfolding demo_tunnels_db_def
  by (intro create_rule_adm.step_inv create_tunnel.step_inv store_inv_empty TrueI)



text \<open>After EnsureBuiltinPool there is exactly one built-in pool.  Either none existed and a disabled
  one was created, or the first one stays and every other is removed; rules that went through a
  removed pool are detached and, when it was their first link, switched off; every other tunnel
  stays as it was.\<close>

lemma EnsureBuiltinPool_one:
  assumes "store_inv s" "EnsureBuiltinPool (nid, now, url, ty) s = (Inr out, s')"
  shows "(case builtinPools s of
      [] \<Rightarrow> bp_created out \<and> map t_id (builtinPools s') = [nid] \<and>
        db_tunnels s' = db_tunnels s @ [tunnelArgs (new_builtin_pool nid now url ty)] \<and> Rules s' = Rules s
    | t # ts \<Rightarrow> \<not> bp_created out \<and> map t_id (builtinPools s') = [t_id t] \<and> bp_removed_extra out = map t_name ts \<and>
        filter (\<lambda>w. \<not> pool_row w) (db_tunnels s') = filter (\<lambda>w. \<not> pool_row w) (db_tunnels s) \<and>
        db_rules s' = map (fold detach_row (map t_id ts)) (db_rules s))"
proof (cases "builtinPools s")
  case Nil
  let ?w = "tunnelArgs (new_builtin_pool nid now url ty)"
  from assms(2) Nil have ins: "insert_tunnel ?w s = Inr s'" and cr: "bp_created out"
    by (auto simp: EnsureBuiltinPool_def tx_Inr ensure_pool_tx_def bindR_Inr_iff Let_def split: if_splits)
  note s' = insert_tunnel_ok(2) [OF store_invD(4) [OF assms(1)] ins]
  from Nil have "filter pool_row (db_tunnels s) = []"
    by (simp add: builtinPools_rows filter_empty_conv)
  then have "map t_id (builtinPools s') = [nid]"
    by (simp add: builtinPools_rows s' filter_sort) (simp add: pool_row_def tunnelArgs_def new_builtin_pool_def)
  then show ?thesis using Nil cr by (simp add: s' Rules_def)
next
  case (Cons t ts)
  from assms(2) Cons have c: "collapseBuiltinPools (builtinPools s) (no_pool_result, s) = Inr (out, s')"
    by (auto simp: EnsureBuiltinPool_def tx_Inr ensure_pool_tx_def split: if_splits)
  note sch = store_invD(4) [OF assms(1)]
  have ne: "builtinPools s \<noteq> []" using Cons by simp
  note k = collapseBuiltinPools_ok [OF assms(1) builtinPools_ids [OF sch] ne c]
  from k(2) obtain co na where tun: "db_tunnels s' =
      map (polish (t_id t) co na) (filter (\<lambda>w. tr_id w \<notin> t_id ` set ts) (db_tunnels s))"
    using Cons by auto
  have pool: "pool_row w" if "w \<in> set (db_tunnels s)" "tr_id w \<in> t_id ` set (builtinPools s)" for w
  proof -
    from that(2) obtain v where "v \<in> set (db_tunnels s)" "pool_row v" "tr_id v = tr_id w"
      by (auto simp: builtinPools_rows)
    then show ?thesis
      using distinct_key_inj [of tr_id "db_tunnels s" v w] sch that(1) by (simp add: schema_ok_def tunnels_ok_def)
  qed
  have "filter (\<lambda>w. \<not> pool_row w) (db_tunnels s') = filter (\<lambda>w. \<not> pool_row w) (db_tunnels s)"
  proof -
    have "filter (\<lambda>w. \<not> pool_row w) (filter (\<lambda>w. tr_id w \<notin> t_id ` set ts) (db_tunnels s))
        = filter (\<lambda>w. \<not> pool_row w) (db_tunnels s)"
      using pool Cons by (auto intro!: filter_cong)
    moreover
    have "polish (t_id t) co na w = w" if "w \<in> set (db_tunnels s)" "\<not> pool_row w" for w
      using pool [OF that(1)] that(2) Cons by (auto simp: polish_def)
    then have "map (polish (t_id t) co na) (filter (\<lambda>w. \<not> pool_row w) (db_tunnels s)) = filter (\<lambda>w. \<not> pool_row w) (db_tunnels s)"
      by (intro map_idI) simp
    ultimately show ?thesis by (simp add: tun filter_map comp_def del: filter_filter)
  qed
  then show ?thesis
    using k(3,6,7) builtinPools_collapsed [OF sch Cons tun] Cons by simp
qed

text \<open>Two built-in pools left by an older version, and a rule through the second.\<close>

definition demo_pool :: "string \<Rightarrow> tunnel" where
  "demo_pool n = (demo_tunnel n)\<lparr>t_source := SourcePool, t_raw := ''https://c'', t_builtin := True, t_country := ''NL''\<rparr>"

definition demo_pools_db :: db where
  "demo_pools_db = snd (CreateRule ([], (demo_rule ''r'')\<lparr>r_action := ActionTunnel, r_tunnel_id := ''b''\<rparr>)
     (snd (CreateTunnel ([], 0, demo_pool ''b'') (snd (CreateTunnel ([], 0, demo_pool ''a'') empty_db)))))"

lemma demo_pools_inv: "store_inv demo_pools_db"
  unfolding demo_pools_db_def
  by (intro create_rule_adm.step_inv create_tunnel.step_inv store_inv_empty TrueI)

definition demo_collapse :: "(err + builtin_pool_result) \<times> db" where
  "demo_collapse = EnsureBuiltinPool (''n'', 0, ''https://c'', TunnelVLESS) demo_pools_db"

lemma demo_collapse_ok: "demo_collapse = (Inr \<lparr>bp_created = False, bp_removed_extra = [''b''],
     bp_detached_rules = [\<lparr>dt_name = ''r'', dt_disabled = True\<rparr>]\<rparr>, snd demo_collapse)"
  by code_simp



text \<open>UpdateTunnel rewrites the named tunnel in place and never its creation time, its built-in mark
  or its country; all other tunnels stay.\<close>

lemma UpdateTunnel_in_place:
  assumes "store_inv s" "UpdateTunnel t s = (Inr (), s')"
  shows "Tunnels s' = map (\<lambda>q. if t_id q = t_id t
      then (scanTunnel (tunnelArgs t))\<lparr>t_created_at := t_created_at q, t_builtin := t_builtin q, t_country := t_country q\<rparr>
      else q) (Tunnels s)"
proof -
  from assms(2) have "update_tunnel_tx t s = Inr ((), s')" by (simp add: UpdateTunnel_Inr)
  note s' = update_tunnel_tx_ok(3) [OF store_invD(4) [OF assms(1)] this]
  let ?f = "\<lambda>w. if tr_id w = t_id t then overwrite_tunnel t w else w"
  have "sort_key tunnel_order (map ?f (db_tunnels s)) = map ?f (sort_key tunnel_order (db_tunnels s))"
    by (rule sort_key_map) (simp add: overwrite_tunnel_def tunnel_order_def)
  then have "Tunnels s' = map (\<lambda>w. scanTunnel (?f w)) (sort_key tunnel_order (db_tunnels s))"
    by (simp add: Tunnels_def s' upd_where_def comp_def)
  moreover have "scanTunnel (?f w) = (if t_id (scanTunnel w) = t_id t
      then (scanTunnel (tunnelArgs t))\<lparr>t_created_at := t_created_at (scanTunnel w), t_builtin := t_builtin (scanTunnel w),
        t_country := t_country (scanTunnel w)\<rparr> else scanTunnel w)" for w
    by (simp add: scanTunnel_def overwrite_tunnel_def tunnelArgs_def)
  ultimately show ?thesis by (simp add: Tunnels_def comp_def)
qed

text \<open>SaveTunnelCheck records the new status and time for the tunnel, keeps the time of the last
  success when the new observation has none, never touches what was notified, and leaves the checks
  of other tunnels alone; a check of a tunnel that no longer exists is refused.\<close>

lemma SaveTunnelCheck_merges:
  assumes "store_inv s" "i \<noteq> []" "st \<noteq> []"
  shows "if i \<in> tunnel_ids s then \<exists>s'. SaveTunnelCheck (i, st, at, okAt) s = (Inr (), s') \<and>
      (\<forall>j. j \<noteq> i \<longrightarrow> TunnelChecks s' j = TunnelChecks s j) \<and>
      (\<exists>c. TunnelChecks s' i = Some c \<and> tc_status c = st \<and> tc_checked_at c = time_Unix (Unix at) \<and>
         tc_notified c = (case TunnelChecks s i of None \<Rightarrow> [] | Some o' \<Rightarrow> tc_notified o') \<and>
         tc_ok_at c = (if unixOrZero okAt > 0 then time_Unix (Unix okAt)
           else case TunnelChecks s i of None \<Rightarrow> time_zero | Some o' \<Rightarrow> tc_ok_at o'))
    else SaveTunnelCheck (i, st, at, okAt) s = (Inl ErrOther, s)"
proof -
  let ?k = "\<lparr>cr_tunnel_id = i, cr_status = st, cr_checked_at = Unix at, cr_notified_status = [], cr_ok_at = unixOrZero okAt\<rparr>"
  let ?f = "\<lambda>o'. o'\<lparr>cr_status := st, cr_checked_at := Unix at,
     cr_ok_at := (if unixOrZero okAt > 0 then unixOrZero okAt else cr_ok_at o')\<rparr>"
  have pos: "unixOrZero okAt > 0 \<Longrightarrow> unixOrZero okAt = Unix okAt" by (simp add: unixOrZero_def split: if_splits)
  show ?thesis
  proof (cases "i \<in> cr_tunnel_id ` set (db_checks s)")
    case True
    then have mem: "i \<in> tunnel_ids s"
      using store_invD(4) [OF assms(1)] by (auto simp: schema_ok_def checks_ok_def)
    have run: "SaveTunnelCheck (i, st, at, okAt) s =
        (Inr (), s\<lparr>db_checks := upd_where (\<lambda>o'. cr_tunnel_id o' = i) ?f (db_checks s)\<rparr>)"
      using True assms(2,3) by (simp add: SaveTunnelCheck_def tx_def save_check_tx_def upsert_check_def cong: if_cong)
    obtain o' where o': "List.find (\<lambda>c. cr_tunnel_id c = i) (db_checks s) = Some o'"
      using True find_key_None [of cr_tunnel_id i] by (cases "List.find (\<lambda>c. cr_tunnel_id c = i) (db_checks s)") auto
    have hit: "List.find (\<lambda>c. cr_tunnel_id c = i) (upd_where (\<lambda>o'. cr_tunnel_id o' = i) ?f rows)
        = map_option ?f (List.find (\<lambda>c. cr_tunnel_id c = i) rows)" for rows
      by (induction rows) auto
    have miss: "j \<noteq> i \<Longrightarrow> List.find (\<lambda>c. cr_tunnel_id c = j) (upd_where (\<lambda>o'. cr_tunnel_id o' = i) ?f rows)
        = List.find (\<lambda>c. cr_tunnel_id c = j) rows" for j rows
      by (induction rows) auto
    from mem show ?thesis
      unfolding run using pos by (simp add: TunnelChecks_def miss hit o' scan_check_def)
  next
    case False
    have "List.find (\<lambda>c. cr_tunnel_id c = i) (db_checks s) = None" using False by (simp only: find_key_None not_False_eq_True)
    then show ?thesis
      using False assms(2,3) pos
      by (auto simp: SaveTunnelCheck_def tx_def save_check_tx_def upsert_check_def TunnelChecks_def find_append
          scan_check_def split: option.split)
  qed
qed

text \<open>A WARP tunnel and the registration of its device are written together or not at all: after a
  successful call both can be read back, after a failed one nothing changed.\<close>

lemma CreateWARPTunnel_atomic:
  assumes "store_inv s" "CreateWARPTunnel (nid, now, t, reg) s = (r, s')"
  shows "case r of Inl _ \<Rightarrow> s' = s
    | Inr t' \<Rightarrow> t' = fill_tunnel nid now t \<and> t_source t' = SourceWARP \<and> t_type t' = TunnelWireGuard \<and>
        Tunnel s (t_id t') = Inl ErrNotFound \<and> Tunnel s' (t_id t') = Inr (scanTunnel (tunnelArgs t')) \<and>
        (\<exists>w. WARPRegistration s' (t_id t') = Some w \<and> wg_device_id w = wg_device_id reg \<and>
           wg_access_token w = wg_access_token reg)"
proof (cases r)
  case (Inl e)
  then show ?thesis using assms(2) create_warp.rollback by auto
next
  case (Inr t')
  let ?t = "fill_tunnel nid now t"
  let ?reg = "if wg_created_at reg = time_zero then reg\<lparr>wg_created_at := t_created_at ?t\<rparr> else reg"
  from assms(2) Inr have src: "t_source t = SourceWARP" and val: "tunnel_validate t = Inr ()"
    and run: "create_warp_tx ?t ?reg s = Inr (t', s')"
    by (auto simp: CreateWARPTunnel_def tx_Inr Let_def split: if_splits sum.splits)
  from run obtain s1 where t': "t' = ?t" and ins: "insert_tunnel ((tunnelArgs ?t)\<lparr>tr_pool := []\<rparr>) s = Inr s1"
    and warp: "insert_warp \<lparr>wr_tunnel_id = t_id ?t, wr_device_id = wg_device_id ?reg,
        wr_access_token = wg_access_token ?reg, wr_created_at = Unix (wg_created_at ?reg)\<rparr> s1 = Inr s'"
    by (auto simp: create_warp_tx_def bindR_Inr_iff)
  note i = insert_tunnel_ok [OF store_invD(4) [OF assms(1)] ins]
  have new: "t_id ?t \<notin> tunnel_ids s" using i(3) by (simp add: tunnelArgs_def)
  have keep: "t_source ?t = t_source t" "t_type ?t = t_type t" "t_pool ?t = t_pool t" by (simp_all add: fill_tunnel_def Let_def)
  have ty: "t_type t = TunnelWireGuard" using tunnel_validate_ok(6) [OF val src] .
  have "t_pool t = []" using tunnel_validate_ok(4) [OF val] src by auto
  then have pool: "(tunnelArgs ?t)\<lparr>tr_pool := []\<rparr> = tunnelArgs ?t" using keep by (simp add: tunnelArgs_def)
  from warp have s': "s' = s1\<lparr>db_warp := db_warp s1 @ [\<lparr>wr_tunnel_id = t_id ?t, wr_device_id = wg_device_id ?reg,
        wr_access_token = wg_access_token ?reg, wr_created_at = Unix (wg_created_at ?reg)\<rparr>]\<rparr>"
    and free: "t_id ?t \<notin> wr_tunnel_id ` set (db_warp s1)"
    by (auto simp: insert_warp_def split: if_splits)
  have none: "find_tunnel s (t_id ?t) = None" using new by (simp add: find_tunnel_None)
  then have "find_tunnel s' (t_id ?t) = Some (tunnelArgs ?t)"
    by (simp add: s' i(2) find_tunnel_def find_append pool) (simp add: tunnelArgs_def)
  moreover have "WARPRegistration s' (t_id ?t) = Some \<lparr>wg_device_id = wg_device_id ?reg,
      wg_access_token = wg_access_token ?reg, wg_created_at = time_Unix (Unix (wg_created_at ?reg))\<rparr>"
    using free find_key_None [of wr_tunnel_id "t_id ?t" "db_warp s1"]
    by (simp add: WARPRegistration_def s' find_append)
  ultimately show ?thesis
    using Inr none src ty keep by (simp add: t' Tunnel_def)
qed

end
