(* ===== verification/Store_Settings.thy ===== *)
theory Store_Settings
  imports Store_Tunnels
begin

text \<open>
  \<open>internal/store/settings.go\<close> with the checks of \<open>reality.go\<close>: the one record of settings, kept as a
  key/value table.  A missing key reads as its default and an unknown key is ignored.  Fields of Go
  types \<open>int\<close> and \<open>time.Duration\<close> are integers; \<open>settings_typed\<close> says they are in the range of the type.
  \<open>strings.ToUpper\<close> of text that is not ASCII is the parameter \<open>uni\<close>.
\<close>

section \<open>The record\<close>

record settings =
  se_reality_enabled :: bool
  se_reality_listen_port :: int
  se_reality_server_name :: string
  se_reality_handshake_server :: string
  se_reality_handshake_port :: int
  se_wg_listen_port :: int
  se_wg_pool :: string
  se_wg_server_address :: string
  se_endpoint_host :: string
  se_client_mtu :: int
  se_dns_upstream :: string
  se_dns_type :: string
  se_wan_interface :: string
  se_list_update_interval :: duration
  se_pool_update_interval :: duration
  se_pool_country_blocklist :: "string list"
  se_tunnel_check_interval :: duration
  se_log_level :: string

definition MinClientMTU :: int where "MinClientMTU = 1280"
definition MaxClientMTU :: int where "MaxClientMTU = 1420"
definition MinPoolUpdateInterval :: duration where "MinPoolUpdateInterval = 30 * 60 * Second"

definition DefaultPoolCountryBlocklist :: "string list" where
  "DefaultPoolCountryBlocklist = [''RU'', ''BY'']"

definition DefaultSettings :: settings where
  "DefaultSettings = \<lparr>se_reality_enabled = False, se_reality_listen_port = 8443, se_reality_server_name = [],
     se_reality_handshake_server = [], se_reality_handshake_port = 443, se_wg_listen_port = 51820,
     se_wg_pool = ''10.8.0.0/24'', se_wg_server_address = ''10.8.0.1'', se_endpoint_host = [],
     se_client_mtu = 1280, se_dns_upstream = ''1.1.1.1'', se_dns_type = ''udp'', se_wan_interface = [],
     se_list_update_interval = 24 * 3600 * Second, se_pool_update_interval = 3600 * Second,
     se_pool_country_blocklist = DefaultPoolCountryBlocklist, se_tunnel_check_interval = 120 * Second,
     se_log_level = ''warn''\<rparr>"

section \<open>Keys and values\<close>

definition parseCountryList :: "(string \<Rightarrow> string) \<Rightarrow> string \<Rightarrow> string list" where
  "parseCountryList uni value =
    filter (\<lambda>code. code \<noteq> []) (map (\<lambda>part. ToUpper uni (TrimSpace part)) (Split CHR '','' value))"

definition setting_values :: "settings \<Rightarrow> (string \<times> string) list" where
  "setting_values v =
    [(''reality_enabled'', FormatBool (se_reality_enabled v)),
     (''reality_listen_port'', Itoa (se_reality_listen_port v)),
     (''reality_server_name'', se_reality_server_name v),
     (''reality_handshake_server'', se_reality_handshake_server v),
     (''reality_handshake_port'', Itoa (se_reality_handshake_port v)),
     (''wg_listen_port'', Itoa (se_wg_listen_port v)),
     (''wg_pool'', se_wg_pool v),
     (''wg_server_address'', se_wg_server_address v),
     (''endpoint_host'', se_endpoint_host v),
     (''client_mtu'', Itoa (se_client_mtu v)),
     (''dns_upstream'', se_dns_upstream v),
     (''dns_type'', se_dns_type v),
     (''wan_interface'', se_wan_interface v),
     (''list_update_interval'', Itoa (quo (se_list_update_interval v) Second)),
     (''pool_update_interval'', Itoa (quo (se_pool_update_interval v) Second)),
     (''pool_country_blocklist'', Join CHR '','' (se_pool_country_blocklist v)),
     (''tunnel_check_interval'', Itoa (quo (se_tunnel_check_interval v) Second)),
     (''log_level'', se_log_level v)]"

text \<open>The local function \<open>number\<close> of \<open>set\<close>, and a number of seconds as a duration.\<close>

definition number :: "string \<Rightarrow> (int \<Rightarrow> settings) \<Rightarrow> err + settings" where
  "number value f = (case Atoi value of None \<Rightarrow> Inl ErrInvalid | Some n \<Rightarrow> Inr (f n))"

definition seconds :: "int \<Rightarrow> duration" where
  "seconds n = wrap64 (n * Second)"

definition set_setting :: "(string \<Rightarrow> string) \<Rightarrow> string \<Rightarrow> string \<Rightarrow> settings \<Rightarrow> err + settings" where
  "set_setting uni key value v =
    (if key = ''reality_enabled'' then
       (case ParseBool value of None \<Rightarrow> Inl ErrInvalid | Some b \<Rightarrow> Inr (v\<lparr>se_reality_enabled := b\<rparr>))
     else if key = ''reality_listen_port'' then number value (\<lambda>n. v\<lparr>se_reality_listen_port := n\<rparr>)
     else if key = ''reality_server_name'' then Inr (v\<lparr>se_reality_server_name := value\<rparr>)
     else if key = ''reality_handshake_server'' then Inr (v\<lparr>se_reality_handshake_server := value\<rparr>)
     else if key = ''reality_handshake_port'' then number value (\<lambda>n. v\<lparr>se_reality_handshake_port := n\<rparr>)
     else if key = ''wg_listen_port'' then number value (\<lambda>n. v\<lparr>se_wg_listen_port := n\<rparr>)
     else if key = ''client_mtu'' then number value (\<lambda>n. v\<lparr>se_client_mtu := n\<rparr>)
     else if key = ''list_update_interval'' then number value (\<lambda>n. v\<lparr>se_list_update_interval := seconds n\<rparr>)
     else if key = ''pool_update_interval'' then number value (\<lambda>n. v\<lparr>se_pool_update_interval := seconds n\<rparr>)
     else if key = ''tunnel_check_interval'' then number value (\<lambda>n. v\<lparr>se_tunnel_check_interval := seconds n\<rparr>)
     else if key = ''pool_country_blocklist'' then Inr (v\<lparr>se_pool_country_blocklist := parseCountryList uni value\<rparr>)
     else if key = ''wg_pool'' then Inr (v\<lparr>se_wg_pool := value\<rparr>)
     else if key = ''wg_server_address'' then Inr (v\<lparr>se_wg_server_address := value\<rparr>)
     else if key = ''endpoint_host'' then Inr (v\<lparr>se_endpoint_host := value\<rparr>)
     else if key = ''dns_upstream'' then Inr (v\<lparr>se_dns_upstream := value\<rparr>)
     else if key = ''dns_type'' then Inr (v\<lparr>se_dns_type := value\<rparr>)
     else if key = ''wan_interface'' then Inr (v\<lparr>se_wan_interface := value\<rparr>)
     else if key = ''log_level'' then Inr (v\<lparr>se_log_level := value\<rparr>)
     else Inr v)"

fun read_settings :: "(string \<Rightarrow> string) \<Rightarrow> (string \<times> string) list \<Rightarrow> settings \<Rightarrow> err + settings" where
  "read_settings uni [] v = Inr v"
| "read_settings uni ((k, x) # rows) v = bindR (set_setting uni k x v) (read_settings uni rows)"

definition Settings :: "(string \<Rightarrow> string) \<Rightarrow> db \<Rightarrow> err + settings" where
  "Settings uni s = read_settings uni (db_settings s) DefaultSettings"

section \<open>Checks\<close>

definition isCountryCode :: "string \<Rightarrow> bool" where
  "isCountryCode code \<longleftrightarrow> length code = 2 \<and> list_all (\<lambda>c. CHR ''A'' \<le> c \<and> c \<le> CHR ''Z'') code"

definition host_chars :: string where
  "host_chars = ''abcdefghijklmnopqrstuvwxyzABCDEFGHIJKLMNOPQRSTUVWXYZ0123456789.-''"

definition valid_host :: "string \<Rightarrow> bool" where
  "valid_host value \<longleftrightarrow> value \<noteq> [] \<and> \<not> list_ex (\<lambda>c. c \<in> set ('' /?#@'' @ [CHR 0x5C, CHR 0x09, CHR 0x0D, CHR 0x0A])) value \<and>
     (ParseIP_ok value \<or> list_all (\<lambda>c. c \<in> set host_chars) value)"

definition validateReality :: "settings \<Rightarrow> err + unit" where
  "validateReality v =
    (if \<not> se_reality_enabled v then Inr ()
     else if se_reality_listen_port v < 1 \<or> se_reality_listen_port v > 65535 then Inl ErrInvalid
     else if se_reality_listen_port v \<in> set [22, 53, 80, 443, 1602, 8080, 9090] then Inl ErrInvalid
     else if se_reality_handshake_port v < 1 \<or> se_reality_handshake_port v > 65535 then Inl ErrInvalid
     else if \<not> valid_host (se_reality_server_name v) \<or> \<not> valid_host (se_reality_handshake_server v) then Inl ErrInvalid
     else Inr ())"

definition validate_network :: "settings \<Rightarrow> err + unit" where
  "validate_network v = (case ParsePrefix4 (se_wg_pool v) of
     None \<Rightarrow> Inl ErrInvalid
   | Some pool \<Rightarrow> (case ParseAddr4 (se_wg_server_address v) of
       None \<Rightarrow> Inl ErrInvalid
     | Some addr \<Rightarrow> if \<not> prefix_contains pool addr then Inl ErrInvalid else Inr ()))"

definition settings_validate :: "settings \<Rightarrow> err + unit" where
  "settings_validate v =
    bindR (validateReality v) (\<lambda>_.
    if se_wg_listen_port v < 1 \<or> se_wg_listen_port v > 65535 then Inl ErrInvalid
    else if se_client_mtu v < MinClientMTU \<or> se_client_mtu v > MaxClientMTU then Inl ErrInvalid
    else if se_wg_pool v = [] \<or> se_wg_server_address v = [] then Inl ErrInvalid
    else bindR (validate_network v) (\<lambda>_.
      if se_dns_upstream v = [] then Inl ErrInvalid
      else if se_dns_type v \<notin> set [''udp'', ''dot'', ''doh''] then Inl ErrInvalid
      else if se_log_level v \<notin> set [''debug'', ''info'', ''warn'', ''error''] then Inl ErrInvalid
      else if se_list_update_interval v \<le> 0 then Inl ErrInvalid
      else if se_pool_update_interval v < MinPoolUpdateInterval then Inl ErrInvalid
      else if \<not> list_all isCountryCode (se_pool_country_blocklist v) then Inl ErrInvalid
      else if se_tunnel_check_interval v < 30 * Second then Inl ErrInvalid
      else Inr ()))"

definition ValidateRealityDelivery :: "settings \<Rightarrow> err + unit" where
  "ValidateRealityDelivery v =
    bindR (validateReality v) (\<lambda>_.
    if se_endpoint_host v = [] then Inl ErrInvalid
    else if \<not> ParseIP_ok (se_endpoint_host v) \<and> \<not> list_all (\<lambda>c. c \<in> set host_chars) (se_endpoint_host v) then Inl ErrInvalid
    else Inr ())"

section \<open>Saving\<close>

text \<open>\<open>INSERT ... ON CONFLICT(key) DO UPDATE\<close>.\<close>

definition upsert_setting :: "string \<times> string \<Rightarrow> db \<Rightarrow> db" where
  "upsert_setting kx s =
    (if fst kx \<in> fst ` set (db_settings s)
     then s\<lparr>db_settings := upd_where (\<lambda>r. fst r = fst kx) (\<lambda>_. kx) (db_settings s)\<rparr>
     else s\<lparr>db_settings := db_settings s @ [kx]\<rparr>)"

text \<open>What a call draws: case mapping, fresh identifiers, a fresh server identity.\<close>

record save_env =
  sv_uni :: "string \<Rightarrow> string"
  sv_uuids :: "nat \<Rightarrow> string"
  sv_identity :: identity_row

text \<open>The loop over \<open>values\<close> and the identity; the map's iteration order does not matter because its keys are
  distinct.\<close>

definition write_settings :: "save_env \<Rightarrow> settings \<Rightarrow> db \<Rightarrow> err + db" where
  "write_settings env v s =
    (let s = fold upsert_setting (setting_values v) s
     in Inr (if se_reality_enabled v then ensureRealityIdentity (sv_identity env) s else s))"

definition saveSettings :: "save_env \<Rightarrow> settings \<Rightarrow> db \<Rightarrow> err + db" where
  "saveSettings env v s =
    bindR (Settings (sv_uni env) s) (\<lambda>old.
    bindR (if se_reality_enabled old \<and> \<not> se_reality_enabled v then invalidateReality (sv_uuids env) [] s else Inr s)
      (write_settings env v))"

definition SaveSettings :: "save_env \<times> settings \<Rightarrow> db \<Rightarrow> (err + unit) \<times> db" where
  "SaveSettings = (\<lambda>(env, v) s. case settings_validate v of
      Inl e \<Rightarrow> (Inl e, s)
    | Inr _ \<Rightarrow> tx (\<lambda>s. bindR (saveSettings env v s) (\<lambda>s'. Inr ((), s'))) s)"

definition update_settings_tx :: "save_env \<Rightarrow> (settings \<Rightarrow> settings) \<Rightarrow> db \<Rightarrow> err + (settings \<times> settings) \<times> db" where
  "update_settings_tx env merge s =
    bindR (Settings (sv_uni env) s) (\<lambda>before.
    bindR (settings_validate (merge before)) (\<lambda>_.
    bindR (saveSettings env (merge before) s) (\<lambda>s'. Inr ((before, merge before), s'))))"

definition UpdateSettings :: "save_env \<times> (settings \<Rightarrow> settings) \<Rightarrow> db \<Rightarrow> (err + settings \<times> settings) \<times> db" where
  "UpdateSettings = (\<lambda>(env, merge). tx (update_settings_tx env merge))"

section \<open>Reading one field\<close>

text \<open>A field of the record is written by one key only, so what is read depends on the row of that key
  alone, whatever the order of the rows.\<close>

locale setting_field =
  fixes uni :: "string \<Rightarrow> string" and fld :: "settings \<Rightarrow> 'a" and K :: string and g :: "string \<Rightarrow> 'a"
  assumes hit: "set_setting uni K x v = Inr v' \<Longrightarrow> fld v' = g x"
    and miss: "k \<noteq> K \<Longrightarrow> set_setting uni k x v = Inr v' \<Longrightarrow> fld v' = fld v"
begin

lemma read_field:
  assumes "distinct (map fst rows)" "read_settings uni rows v = Inr v'"
  shows "fld v' = (case map_of rows K of None \<Rightarrow> fld v | Some x \<Rightarrow> g x)"
  using assms
proof (induction rows arbitrary: v)
  case (Cons r rows)
  obtain k x where r: "r = (k, x)" by (cases r)
  from Cons.prems(2) obtain v1 where v1: "set_setting uni k x v = Inr v1" and rest: "read_settings uni rows v1 = Inr v'"
    by (auto simp: r bindR_Inr_iff)
  have "fld v' = (case map_of rows K of None \<Rightarrow> fld v1 | Some x \<Rightarrow> g x)"
    using Cons.IH [OF _ rest] Cons.prems(1) by (simp add: r)
  moreover have "k = K \<Longrightarrow> map_of rows K = None"
    using Cons.prems(1) by (auto simp: r map_of_eq_None_iff)
  ultimately show ?case
    using hit [of x v v1] miss [of k x v v1] v1 by (cases "k = K") (auto simp: r split: option.splits)
qed simp

end

lemmas set_setting_splits = set_setting_def number_def

interpretation sf1: setting_field uni se_reality_enabled "''reality_enabled''" "\<lambda>x. the (ParseBool x)" for uni
  by unfold_locales (auto simp: set_setting_splits split: if_splits option.splits)
interpretation sf2: setting_field uni se_reality_listen_port "''reality_listen_port''" "\<lambda>x. the (Atoi x)" for uni
  by unfold_locales (auto simp: set_setting_splits split: if_splits option.splits)
interpretation sf3: setting_field uni se_reality_server_name "''reality_server_name''" "\<lambda>x. x" for uni
  by unfold_locales (auto simp: set_setting_splits split: if_splits option.splits)
interpretation sf4: setting_field uni se_reality_handshake_server "''reality_handshake_server''" "\<lambda>x. x" for uni
  by unfold_locales (auto simp: set_setting_splits split: if_splits option.splits)
interpretation sf5: setting_field uni se_reality_handshake_port "''reality_handshake_port''" "\<lambda>x. the (Atoi x)" for uni
  by unfold_locales (auto simp: set_setting_splits split: if_splits option.splits)
interpretation sf6: setting_field uni se_wg_listen_port "''wg_listen_port''" "\<lambda>x. the (Atoi x)" for uni
  by unfold_locales (auto simp: set_setting_splits split: if_splits option.splits)
interpretation sf7: setting_field uni se_wg_pool "''wg_pool''" "\<lambda>x. x" for uni
  by unfold_locales (auto simp: set_setting_splits split: if_splits option.splits)
interpretation sf8: setting_field uni se_wg_server_address "''wg_server_address''" "\<lambda>x. x" for uni
  by unfold_locales (auto simp: set_setting_splits split: if_splits option.splits)
interpretation sf9: setting_field uni se_endpoint_host "''endpoint_host''" "\<lambda>x. x" for uni
  by unfold_locales (auto simp: set_setting_splits split: if_splits option.splits)
interpretation sf10: setting_field uni se_client_mtu "''client_mtu''" "\<lambda>x. the (Atoi x)" for uni
  by unfold_locales (auto simp: set_setting_splits split: if_splits option.splits)
interpretation sf11: setting_field uni se_dns_upstream "''dns_upstream''" "\<lambda>x. x" for uni
  by unfold_locales (auto simp: set_setting_splits split: if_splits option.splits)
interpretation sf12: setting_field uni se_dns_type "''dns_type''" "\<lambda>x. x" for uni
  by unfold_locales (auto simp: set_setting_splits split: if_splits option.splits)
interpretation sf13: setting_field uni se_wan_interface "''wan_interface''" "\<lambda>x. x" for uni
  by unfold_locales (auto simp: set_setting_splits split: if_splits option.splits)
interpretation sf14: setting_field uni se_list_update_interval "''list_update_interval''" "\<lambda>x. seconds (the (Atoi x))" for uni
  by unfold_locales (auto simp: set_setting_splits split: if_splits option.splits)
interpretation sf15: setting_field uni se_pool_update_interval "''pool_update_interval''" "\<lambda>x. seconds (the (Atoi x))" for uni
  by unfold_locales (auto simp: set_setting_splits split: if_splits option.splits)
interpretation sf16: setting_field uni se_pool_country_blocklist "''pool_country_blocklist''" "parseCountryList uni" for uni
  by unfold_locales (auto simp: set_setting_splits split: if_splits option.splits)
interpretation sf17: setting_field uni se_tunnel_check_interval "''tunnel_check_interval''" "\<lambda>x. seconds (the (Atoi x))" for uni
  by unfold_locales (auto simp: set_setting_splits split: if_splits option.splits)
interpretation sf18: setting_field uni se_log_level "''log_level''" "\<lambda>x. x" for uni
  by unfold_locales (auto simp: set_setting_splits split: if_splits option.splits)

lemmas read_fields = sf1.read_field sf2.read_field sf3.read_field sf4.read_field sf5.read_field sf6.read_field
  sf7.read_field sf8.read_field sf9.read_field sf10.read_field sf11.read_field sf12.read_field sf13.read_field
  sf14.read_field sf15.read_field sf16.read_field sf17.read_field sf18.read_field

text \<open>Whether a row can be read depends on the row only.\<close>

definition value_ok :: "string \<Rightarrow> string \<Rightarrow> bool" where
  "value_ok k x \<longleftrightarrow> (k = ''reality_enabled'' \<longrightarrow> ParseBool x \<noteq> None) \<and>
     (k \<in> {''reality_listen_port'', ''reality_handshake_port'', ''wg_listen_port'', ''client_mtu'', ''list_update_interval'',
        ''pool_update_interval'', ''tunnel_check_interval''} \<longrightarrow> Atoi x \<noteq> None)"

lemma set_setting_ok: "(\<exists>v'. set_setting uni k x v = Inr v') \<longleftrightarrow> value_ok k x"
  by (auto simp: set_setting_splits value_ok_def split: option.splits)

lemma read_settings_ok: "(\<exists>v'. read_settings uni rows v = Inr v') \<longleftrightarrow> (\<forall>(k, x) \<in> set rows. value_ok k x)"
proof (induction rows arbitrary: v)
  case (Cons r rows)
  obtain k x where r: "r = (k, x)" by (cases r)
  have "(\<exists>v'. read_settings uni (r # rows) v = Inr v') \<longleftrightarrow>
      (\<exists>v1. set_setting uni k x v = Inr v1 \<and> (\<exists>v'. read_settings uni rows v1 = Inr v'))"
    by (auto simp: r bindR_Inr_iff)
  also have "\<dots> \<longleftrightarrow> (\<exists>v1. set_setting uni k x v = Inr v1) \<and> (\<forall>(k, x) \<in> set rows. value_ok k x)"
    by (simp add: Cons.IH)
  finally show ?case by (simp add: set_setting_ok r)
qed simp

section \<open>Writing all keys\<close>

definition upsert_row :: "string \<times> string \<Rightarrow> (string \<times> string) list \<Rightarrow> (string \<times> string) list" where
  "upsert_row kx rows = (if fst kx \<in> fst ` set rows then upd_where (\<lambda>r. fst r = fst kx) (\<lambda>_. kx) rows else rows @ [kx])"

lemma upsert_setting_row: "upsert_setting kx s = s\<lparr>db_settings := upsert_row kx (db_settings s)\<rparr>"
  by (simp add: upsert_setting_def upsert_row_def)

lemma fold_upsert_setting: "fold upsert_setting kxs s = s\<lparr>db_settings := fold upsert_row kxs (db_settings s)\<rparr>"
  by (induction kxs arbitrary: s) (simp_all add: upsert_setting_row)

lemma map_of_upd_where: "map_of (upd_where (\<lambda>r. fst r = k) (\<lambda>_. (k, x)) rows) j
    = (if j = k \<and> k \<in> fst ` set rows then Some x else map_of rows j)"
proof (induction rows)
  case (Cons r rows)
  then show ?case by (cases "j = k"; cases "fst r = k"; cases "k \<in> fst ` set rows") simp_all
qed simp

lemma upsert_row_ok:
  assumes "distinct (map fst rows)"
  shows "distinct (map fst (upsert_row kx rows))"
    "map_of (upsert_row kx rows) j = (if j = fst kx then Some (snd kx) else map_of rows j)"
    "fst ` set (upsert_row kx rows) = insert (fst kx) (fst ` set rows)"
proof -
  obtain k x where kx: "kx = (k, x)" by (cases kx)
  have keys: "map fst (upd_where (\<lambda>r. fst r = k) (\<lambda>_. (k, x)) rows) = map fst rows"
    by (simp add: map_upd_where)
  show "distinct (map fst (upsert_row kx rows))" using assms by (simp add: upsert_row_def kx keys)
  show "map_of (upsert_row kx rows) j = (if j = fst kx then Some (snd kx) else map_of rows j)"
    using map_of_eq_None_iff [of rows k]
    by (auto simp: upsert_row_def kx map_of_upd_where map_add_def split: option.split)
  show "fst ` set (upsert_row kx rows) = insert (fst kx) (fst ` set rows)"
    using arg_cong [OF keys, of set] by (auto simp: upsert_row_def kx)
qed

lemma fold_upsert_ok:
  assumes "distinct (map fst rows)" "distinct (map fst kxs)"
  shows "distinct (map fst (fold upsert_row kxs rows)) \<and>
    (\<forall>j. map_of (fold upsert_row kxs rows) j = (case map_of kxs j of Some x \<Rightarrow> Some x | None \<Rightarrow> map_of rows j))"
  using assms
proof (induction kxs arbitrary: rows)
  case (Cons kx kxs)
  have "distinct (map fst (fold upsert_row kxs (upsert_row kx rows))) \<and>
    (\<forall>j. map_of (fold upsert_row kxs (upsert_row kx rows)) j
       = (case map_of kxs j of Some x \<Rightarrow> Some x | None \<Rightarrow> map_of (upsert_row kx rows) j))"
    using Cons.prems upsert_row_ok(1) by (intro Cons.IH) simp_all
  moreover have "map_of kxs (fst kx) = None" using Cons.prems(2) by (simp add: map_of_eq_None_iff)
  ultimately show ?case
    using upsert_row_ok(2) [OF Cons.prems(1)] by (auto split: option.splits)
qed simp

lemma distinct_setting_keys: "distinct (map fst (setting_values v))"
  by (simp add: setting_values_def)

section \<open>Round trip\<close>

text \<open>A value of Go type \<open>Settings\<close>: the numeric fields fit their types.\<close>

definition settings_typed :: "settings \<Rightarrow> bool" where
  "settings_typed v \<longleftrightarrow> int64_ok (se_reality_listen_port v) \<and> int64_ok (se_reality_handshake_port v) \<and>
     int64_ok (se_list_update_interval v) \<and> int64_ok (se_pool_update_interval v) \<and> int64_ok (se_tunnel_check_interval v)"

text \<open>What the table keeps of the settings: durations in whole seconds.\<close>

definition whole_seconds :: "settings \<Rightarrow> settings" where
  "whole_seconds v = v\<lparr>se_list_update_interval := se_list_update_interval v div Second * Second,
     se_pool_update_interval := se_pool_update_interval v div Second * Second,
     se_tunnel_check_interval := se_tunnel_check_interval v div Second * Second\<rparr>"

lemma seconds_quo:
  assumes "int64_ok d" "0 \<le> d"
  shows "int64_ok (quo d Second)" "seconds (quo d Second) = d div Second * Second"
proof -
  have q: "quo d Second = d div Second" using assms(2) by (simp add: quo_pos Second_def)
  have "0 \<le> d div Second * Second" "d div Second * Second \<le> d" "0 \<le> d div Second" "d div Second \<le> d"
    using assms(2) by (simp_all add: Second_def)
  then show "int64_ok (quo d Second)" "seconds (quo d Second) = d div Second * Second"
    using assms(1) unfolding q seconds_def by (auto intro!: wrap64_id simp: int64_ok_def)
qed

lemma country_code_chars:
  assumes "isCountryCode code" "c \<in> set code"
  shows "65 \<le> (of_char c :: nat)" "(of_char c :: nat) \<le> 90"
  using assms by (auto simp: isCountryCode_def list_all_iff less_eq_char_def)

lemma country_code_upper:
  assumes "isCountryCode code"
  shows "ToUpper uni (TrimSpace code) = code" "CHR '','' \<notin> set code" "code \<noteq> []"
proof -
  note ch = country_code_chars [OF assms]
  show ne: "code \<noteq> []" using assms by (auto simp: isCountryCode_def)
  have pl: "plain_char c" if "c \<in> set code" for c using ch [OF that] by (simp add: plain_char_def)
  have "TrimSpace code = code" using ne pl by (intro TrimSpace_plain) simp
  moreover have "is_ascii code" using ch by (fastforce simp: is_ascii_def list_all_iff)
  moreover have "map ascii_upper code = code" using ch by (intro map_idI ascii_upper_id) auto
  ultimately show "ToUpper uni (TrimSpace code) = code" by (simp add: ToUpper_def)
  show "CHR '','' \<notin> set code" using ch(1) [of "CHR '',''"] by auto
qed

lemma parseCountryList_Join:
  assumes "list_all isCountryCode codes"
  shows "parseCountryList uni (Join CHR '','' codes) = codes"
proof (cases "codes = []")
  case True
  then show ?thesis by (simp add: parseCountryList_def TrimSpace_plain ToUpper_def is_ascii_def)
next
  case False
  have c: "\<forall>code \<in> set codes. isCountryCode code" using assms by (simp add: list_all_iff)
  then have "Split CHR '','' (Join CHR '','' codes) = codes"
    using False country_code_upper(2) by (intro Split_Join) auto
  moreover have "map (\<lambda>part. ToUpper uni (TrimSpace part)) codes = codes"
    using c country_code_upper(1) by (intro map_idI) auto
  moreover have "filter (\<lambda>code. code \<noteq> []) codes = codes"
    using c country_code_upper(3) by (intro filter_True) auto
  ultimately show ?thesis by (simp add: parseCountryList_def)
qed

lemma settings_validate_iff:
  "settings_validate v = Inr () \<longleftrightarrow> validateReality v = Inr () \<and>
     \<not> (se_wg_listen_port v < 1 \<or> se_wg_listen_port v > 65535) \<and>
     \<not> (se_client_mtu v < MinClientMTU \<or> se_client_mtu v > MaxClientMTU) \<and>
     \<not> (se_wg_pool v = [] \<or> se_wg_server_address v = []) \<and> validate_network v = Inr () \<and> se_dns_upstream v \<noteq> [] \<and>
     se_dns_type v \<in> set [''udp'', ''dot'', ''doh''] \<and> se_log_level v \<in> set [''debug'', ''info'', ''warn'', ''error''] \<and>
     \<not> se_list_update_interval v \<le> 0 \<and> \<not> se_pool_update_interval v < MinPoolUpdateInterval \<and>
     list_all isCountryCode (se_pool_country_blocklist v) \<and> \<not> se_tunnel_check_interval v < 30 * Second"
  by (simp only: settings_validate_def bindR_Inr_iff if_Inl_Inr_iff not_not) auto

lemma settings_validate_ok:
  assumes "settings_validate v = Inr ()"
  shows "0 < se_list_update_interval v" "MinPoolUpdateInterval \<le> se_pool_update_interval v"
    "30 * Second \<le> se_tunnel_check_interval v" "list_all isCountryCode (se_pool_country_blocklist v)"
    "int64_ok (se_wg_listen_port v)" "int64_ok (se_client_mtu v)"
  using assms
  by (auto simp: settings_validate_iff int64_ok_def MinClientMTU_def MaxClientMTU_def)

lemma read_rows_complete:
  assumes d: "distinct (map fst rows)" and look: "\<And>k x. map_of (setting_values v) k = Some x \<Longrightarrow> map_of rows k = Some x"
    and v': "read_settings uni rows w = Inr v'"
  shows "se_reality_enabled v' = se_reality_enabled v" "se_reality_listen_port v' = the (Atoi (Itoa (se_reality_listen_port v)))"
    "se_reality_server_name v' = se_reality_server_name v" "se_reality_handshake_server v' = se_reality_handshake_server v"
    "se_reality_handshake_port v' = the (Atoi (Itoa (se_reality_handshake_port v)))"
    "se_wg_listen_port v' = the (Atoi (Itoa (se_wg_listen_port v)))" "se_wg_pool v' = se_wg_pool v"
    "se_wg_server_address v' = se_wg_server_address v" "se_endpoint_host v' = se_endpoint_host v"
    "se_client_mtu v' = the (Atoi (Itoa (se_client_mtu v)))" "se_dns_upstream v' = se_dns_upstream v"
    "se_dns_type v' = se_dns_type v" "se_wan_interface v' = se_wan_interface v"
    "se_list_update_interval v' = seconds (the (Atoi (Itoa (quo (se_list_update_interval v) Second))))"
    "se_pool_update_interval v' = seconds (the (Atoi (Itoa (quo (se_pool_update_interval v) Second))))"
    "se_pool_country_blocklist v' = parseCountryList uni (Join CHR '','' (se_pool_country_blocklist v))"
    "se_tunnel_check_interval v' = seconds (the (Atoi (Itoa (quo (se_tunnel_check_interval v) Second))))"
    "se_log_level v' = se_log_level v"
proof -
  have look': "map_of rows k = map_of (setting_values v) k" if "k \<in> fst ` set (setting_values v)" for k
    using look that by (cases "map_of (setting_values v) k") (simp_all add: map_of_eq_None_iff)
  note keys = look' [unfolded setting_values_def]
  show "se_reality_enabled v' = se_reality_enabled v" by (simp add: sf1.read_field [OF d v'] keys)
  show "se_reality_listen_port v' = the (Atoi (Itoa (se_reality_listen_port v)))" by (simp add: sf2.read_field [OF d v'] keys)
  show "se_reality_server_name v' = se_reality_server_name v" by (simp add: sf3.read_field [OF d v'] keys)
  show "se_reality_handshake_server v' = se_reality_handshake_server v" by (simp add: sf4.read_field [OF d v'] keys)
  show "se_reality_handshake_port v' = the (Atoi (Itoa (se_reality_handshake_port v)))" by (simp add: sf5.read_field [OF d v'] keys)
  show "se_wg_listen_port v' = the (Atoi (Itoa (se_wg_listen_port v)))" by (simp add: sf6.read_field [OF d v'] keys)
  show "se_wg_pool v' = se_wg_pool v" by (simp add: sf7.read_field [OF d v'] keys)
  show "se_wg_server_address v' = se_wg_server_address v" by (simp add: sf8.read_field [OF d v'] keys)
  show "se_endpoint_host v' = se_endpoint_host v" by (simp add: sf9.read_field [OF d v'] keys)
  show "se_client_mtu v' = the (Atoi (Itoa (se_client_mtu v)))" by (simp add: sf10.read_field [OF d v'] keys)
  show "se_dns_upstream v' = se_dns_upstream v" by (simp add: sf11.read_field [OF d v'] keys)
  show "se_dns_type v' = se_dns_type v" by (simp add: sf12.read_field [OF d v'] keys)
  show "se_wan_interface v' = se_wan_interface v" by (simp add: sf13.read_field [OF d v'] keys)
  show "se_list_update_interval v' = seconds (the (Atoi (Itoa (quo (se_list_update_interval v) Second))))" by (simp add: sf14.read_field [OF d v'] keys)
  show "se_pool_update_interval v' = seconds (the (Atoi (Itoa (quo (se_pool_update_interval v) Second))))" by (simp add: sf15.read_field [OF d v'] keys)
  show "se_pool_country_blocklist v' = parseCountryList uni (Join CHR '','' (se_pool_country_blocklist v))" by (simp add: sf16.read_field [OF d v'] keys)
  show "se_tunnel_check_interval v' = seconds (the (Atoi (Itoa (quo (se_tunnel_check_interval v) Second))))" by (simp add: sf17.read_field [OF d v'] keys)
  show "se_log_level v' = se_log_level v" by (simp add: sf18.read_field [OF d v'] keys)
qed

lemma read_saved:
  assumes val: "settings_validate v = Inr ()" and typed: "settings_typed v" and d: "distinct (map fst rows)"
    and others: "\<forall>(k, x) \<in> set rows. k \<notin> fst ` set (setting_values v) \<longrightarrow> value_ok k x"
  shows "read_settings uni (fold upsert_row (setting_values v) rows) DefaultSettings = Inr (whole_seconds v)"
proof -
  let ?rows = "fold upsert_row (setting_values v) rows"
  note f = fold_upsert_ok [OF d distinct_setting_keys [of v]]
  then have d': "distinct (map fst ?rows)" and m: "\<And>j. map_of ?rows j = (case map_of (setting_values v) j of Some x \<Rightarrow> Some x | None \<Rightarrow> map_of rows j)"
    by blast+
  note vo = settings_validate_ok [OF val]
  have ty: "int64_ok (se_reality_listen_port v)" "int64_ok (se_reality_handshake_port v)"
    "int64_ok (se_list_update_interval v)" "int64_ok (se_pool_update_interval v)" "int64_ok (se_tunnel_check_interval v)"
    using typed by (simp_all add: settings_typed_def)
  have nn: "0 \<le> se_list_update_interval v" "0 \<le> se_pool_update_interval v" "0 \<le> se_tunnel_check_interval v"
    using vo by (simp_all add: MinPoolUpdateInterval_def Second_def)
  note sq = seconds_quo [OF ty(3) nn(1)] seconds_quo [OF ty(4) nn(2)] seconds_quo [OF ty(5) nn(3)]
  have own: "value_ok k x" if "(k, x) \<in> set (setting_values v)" for k x
    using that ty(1,2) vo(5,6) sq by (auto simp: setting_values_def value_ok_def Atoi_Itoa)
  have "value_ok k x" if "(k, x) \<in> set ?rows" for k x
  proof -
    have kx: "map_of ?rows k = Some x" using that d' by simp
    show ?thesis
    proof (cases "map_of (setting_values v) k")
      case None
      then have "(k, x) \<in> set rows" "k \<notin> fst ` set (setting_values v)"
        using kx [unfolded m] None map_of_SomeD [of rows k x] by (simp_all add: map_of_eq_None_iff)
      then show ?thesis using others by blast
    next
      case (Some y)
      then show ?thesis using kx m own map_of_SomeD by fastforce
    qed
  qed
  then obtain v' where v': "read_settings uni ?rows DefaultSettings = Inr v'"
    using read_settings_ok [of uni ?rows DefaultSettings] by blast
  have look: "map_of ?rows k = Some x" if "map_of (setting_values v) k = Some x" for k x using m that by simp
  have "v' = whole_seconds v"
    by (intro settings.equality)
      (simp_all add: read_rows_complete [OF d' look v'] ty vo(4-6) sq whole_seconds_def Atoi_Itoa parseCountryList_Join)
  with v' show ?thesis by simp
qed

section \<open>The operations keep the invariant\<close>

lemma settings_schema_ok:
  assumes "schema_ok s"
  shows "schema_ok (s\<lparr>db_settings := fold upsert_row (setting_values v) (db_settings s)\<rparr>)"
  using assms fold_upsert_ok [OF _ distinct_setting_keys [of v], of "db_settings s"] by (simp add: schema_ok_def)

lemma store_inv_settings:
  assumes inv: "store_inv s" and s': "s' = s\<lparr>db_settings := rows, db_identity := idn\<rparr>" and d: "distinct (map fst rows)"
  shows "store_inv s'"
proof (rule store_inv_frame [OF inv])
  show "schema_ok s'" using store_invD(4) [OF inv] d by (simp add: schema_ok_def s')
qed (simp_all add: s')

text \<open>\<open>saveSettings\<close> as two steps: a revocation that may happen, then the rows and the identity.\<close>

lemma saveSettings_steps:
  assumes inv: "store_inv s" and ok: "saveSettings env v s = Inr s'"
  obtains old s1 idn where "Settings (sv_uni env) s = Inr old" "store_inv s1" "creds_peers_only s s1"
    "(if se_reality_enabled old \<and> \<not> se_reality_enabled v then invalidateReality (sv_uuids env) [] s else Inr s) = Inr s1"
    "s' = s1\<lparr>db_settings := fold upsert_row (setting_values v) (db_settings s1), db_identity := idn\<rparr>"
    "store_inv s'" "db_settings s1 = db_settings s"
proof -
  from ok obtain old s1 where old: "Settings (sv_uni env) s = Inr old"
    and inval: "(if se_reality_enabled old \<and> \<not> se_reality_enabled v then invalidateReality (sv_uuids env) [] s else Inr s) = Inr s1"
    and fin: "s' = (if se_reality_enabled v then ensureRealityIdentity (sv_identity env) (fold upsert_setting (setting_values v) s1)
       else fold upsert_setting (setting_values v) s1)"
    by (auto simp: saveSettings_def write_settings_def bindR_Inr_iff Let_def)
  have st: "store_inv s1 \<and> creds_peers_only s s1"
    using inval inv invalidateReality_store_inv(1) [OF inv] invalidateReality_ok(5) [OF store_invD(4) [OF inv]]
    by (auto simp: creds_peers_only_upd split: if_splits)
  then have inv1: "store_inv s1" and only: "creds_peers_only s s1" by blast+
  let ?rows = "fold upsert_row (setting_values v) (db_settings s1)"
  have d: "distinct (map fst ?rows)"
    using fold_upsert_ok [OF _ distinct_setting_keys] store_invD(4) [OF inv1] by (simp add: schema_ok_def)
  obtain idn where s': "s' = s1\<lparr>db_settings := ?rows, db_identity := idn\<rparr>"
  proof (cases "se_reality_enabled v \<and> db_identity s1 = None")
    case True
    then show ?thesis using fin by (intro that [of "Some (sv_identity env)"]) (simp add: fold_upsert_setting ensureRealityIdentity_def)
  next
    case False
    then show ?thesis using fin by (intro that [of "db_identity s1"]) (auto simp: fold_upsert_setting ensureRealityIdentity_def)
  qed
  show ?thesis
    using that [OF old inv1 only inval s' store_inv_settings [OF inv1 s' d] creds_peers_only_sel(3) [OF only]] .
qed

lemma saveSettings_dead:
  assumes "store_inv s" "saveSettings env v s = Inr s'" "dead c n s"
  shows "dead c n s'"
proof (rule saveSettings_steps [OF assms(1,2)], goal_cases)
  case (1 old s1 idn)
  have "dead c n s1"
    using 1(4) assms(3) invalidateReality_dead [OF store_invD(4) [OF assms(1)]] by (auto split: if_splits)
  then show ?case by (simp add: 1(5) dead_def)
qed

lemma SaveSettings_Inr:
  "SaveSettings (env, v) s = (Inr u, s') \<longleftrightarrow> settings_validate v = Inr () \<and> saveSettings env v s = Inr s'"
  by (cases "settings_validate v") (auto simp: SaveSettings_def tx_Inr bindR_Inr_iff)

interpretation save_settings: admission_op SaveSettings store_inv "\<lambda>_. True" "\<lambda>_. {}"
proof unfold_locales
  fix x :: "save_env \<times> settings" and s s' e
  assume "SaveSettings x s = (Inl e, s')"
  then show "s' = s" by (cases x) (auto simp: SaveSettings_def tx_Inl split: sum.splits)
next
  fix x :: "save_env \<times> settings" and s s' a c n
  assume inv: "store_inv s" and "SaveSettings x s = (Inr a, s')"
  then have sv: "saveSettings (fst x) (snd x) s = Inr s'" by (cases x) (simp add: SaveSettings_Inr)
  show "store_inv s'" by (rule saveSettings_steps [OF inv sv])
  assume "dead c n s"
  then show "dead c n s'" by (rule saveSettings_dead [OF inv sv])
qed

lemma UpdateSettings_Inr:
  "UpdateSettings (env, merge) s = (Inr (a, b), s') \<longleftrightarrow> Settings (sv_uni env) s = Inr a \<and> b = merge a \<and>
     settings_validate b = Inr () \<and> saveSettings env b s = Inr s'"
  by (auto simp: UpdateSettings_def tx_Inr update_settings_tx_def bindR_Inr_iff)

interpretation update_settings: admission_op UpdateSettings store_inv "\<lambda>_. True" "\<lambda>_. {}"
proof unfold_locales
  fix x :: "save_env \<times> (settings \<Rightarrow> settings)" and s s' e
  assume "UpdateSettings x s = (Inl e, s')"
  then show "s' = s" by (cases x) (simp add: UpdateSettings_def tx_Inl)
next
  fix x :: "save_env \<times> (settings \<Rightarrow> settings)" and s s' and a :: "settings \<times> settings" and c n
  assume inv: "store_inv s" and "UpdateSettings x s = (Inr a, s')"
  then have sv: "saveSettings (fst x) (snd a) s = Inr s'" by (cases x; cases a) (simp add: UpdateSettings_Inr)
  show "store_inv s'" by (rule saveSettings_steps [OF inv sv])
  assume "dead c n s"
  then show "dead c n s'" by (rule saveSettings_dead [OF inv sv])
qed


section \<open>Properties\<close>

definition demo_env :: save_env where
  "demo_env = \<lparr>sv_uni = id, sv_uuids = (\<lambda>n. ''u9''),
     sv_identity = \<lparr>ir_identity_id = ''i'', ir_private_key = ''k'', ir_short_id = ''s''\<rparr>\<rparr>"

definition demo_settings :: settings where
  "demo_settings = DefaultSettings\<lparr>se_client_mtu := 1400, se_pool_country_blocklist := [''NL'', ''DE'']\<rparr>"

lemma run_pair: "fst x = r \<Longrightarrow> x = (r, snd x)"
  by (cases x) simp

lemma demo_save: "SaveSettings (demo_env, demo_settings) empty_db = (Inr (), snd (SaveSettings (demo_env, demo_settings) empty_db))"
  by (rule run_pair) code_simp

text \<open>C38: saved settings read back as they were given, whatever the table held before, except that durations
  are cut to whole seconds; country codes and numbers survive the text form unchanged.\<close>

theorem SaveSettings_roundtrip:
  assumes "store_inv s" "settings_typed v" "SaveSettings (env, v) s = (Inr (), s')"
  shows "Settings uni s' = Inr (whole_seconds v)"
proof -
  from assms(3) have val: "settings_validate v = Inr ()" and sv: "saveSettings env v s = Inr s'"
    by (simp_all add: SaveSettings_Inr)
  show ?thesis
  proof (rule saveSettings_steps [OF assms(1) sv], goal_cases)
    case (1 old s1 idn)
    have "\<forall>(k, x) \<in> set (db_settings s). value_ok k x"
      using 1(1) read_settings_ok [of "sv_uni env" "db_settings s"] unfolding Settings_def by blast
    moreover have "distinct (map fst (db_settings s))" using store_invD(4) [OF assms(1)] by (simp add: schema_ok_def)
    ultimately show ?case
      using read_saved [OF val assms(2), of "db_settings s" uni] by (auto simp: Settings_def 1(5,7))
  qed
qed

theorem SaveSettings_roundtrip_witness:
  "Settings id (snd (SaveSettings (demo_env, demo_settings) empty_db)) = Inr demo_settings"
proof -
  have "settings_typed demo_settings" "whole_seconds demo_settings = demo_settings" by code_simp+
  with SaveSettings_roundtrip [OF store_inv_empty _ demo_save, of id] show ?thesis by simp
qed

text \<open>What is read back passes the checks again exactly when the list interval is at least a second:
  a shorter positive interval is accepted, stored as 0 and refused by the same checks from then on.\<close>

lemma saved_settings_valid_again:
  assumes "settings_validate v = Inr ()"
  shows "settings_validate (whole_seconds v) = Inr () \<longleftrightarrow> Second \<le> se_list_update_interval v"
proof -
  note o = settings_validate_ok [OF assms]
  have p: "MinPoolUpdateInterval \<le> se_pool_update_interval v div Second * Second"
    using o(2) by (simp add: MinPoolUpdateInterval_def Second_def)
  have t: "30 * Second \<le> se_tunnel_check_interval v div Second * Second"
    using o(3) by (simp add: Second_def)
  have l: "0 < se_list_update_interval v div Second * Second \<longleftrightarrow> Second \<le> se_list_update_interval v"
    by (simp add: Second_def pos_imp_zdiv_pos_iff)
  have r: "validateReality (whole_seconds v) = validateReality v" "validate_network (whole_seconds v) = validate_network v"
    by (simp_all add: validateReality_def validate_network_def whole_seconds_def split: option.split)
  have f: "se_wg_listen_port (whole_seconds v) = se_wg_listen_port v" "se_client_mtu (whole_seconds v) = se_client_mtu v"
    "se_wg_pool (whole_seconds v) = se_wg_pool v" "se_wg_server_address (whole_seconds v) = se_wg_server_address v"
    "se_dns_upstream (whole_seconds v) = se_dns_upstream v" "se_dns_type (whole_seconds v) = se_dns_type v"
    "se_log_level (whole_seconds v) = se_log_level v" "se_pool_country_blocklist (whole_seconds v) = se_pool_country_blocklist v"
    "se_list_update_interval (whole_seconds v) = se_list_update_interval v div Second * Second"
    "se_pool_update_interval (whole_seconds v) = se_pool_update_interval v div Second * Second"
    "se_tunnel_check_interval (whole_seconds v) = se_tunnel_check_interval v div Second * Second"
    by (simp_all add: whole_seconds_def)
  from assms p t l show ?thesis unfolding settings_validate_iff f r by (simp add: not_le)
qed

text \<open>C39: switching public access off in the settings kills every credential revision that existed.\<close>

theorem SaveSettings_off_revokes:
  assumes "store_inv s" "Settings (sv_uni env) s = Inr old" "se_reality_enabled old" "\<not> se_reality_enabled v"
    "SaveSettings (env, v) s = (Inr (), s')" "k \<in> set (db_creds s)"
  shows "dead (kr_credential_id k) (kr_revision k) s'"
proof -
  from assms(5) have sv: "saveSettings env v s = Inr s'" by (simp add: SaveSettings_Inr)
  show ?thesis
  proof (rule saveSettings_steps [OF assms(1) sv], goal_cases)
    case (1 old' s1 idn)
    have "old' = old" using 1(1) assms(2) by simp
    then have inval: "invalidateReality (sv_uuids env) [] s = Inr s1" using 1(4) assms(3,4) by simp
    from invalidateReality_kills [OF store_invD(4) [OF assms(1)] inval assms(6)] show ?case
      by (simp add: 1(5) dead_def)
  qed
qed

definition demo_reality :: settings where
  "demo_reality = DefaultSettings\<lparr>se_reality_enabled := True, se_reality_server_name := ''example.org'',
     se_reality_handshake_server := ''example.org''\<rparr>"

definition demo_on :: db where
  "demo_on = snd (SaveSettings (demo_env, demo_reality) demo_peers_db)"

lemma demo_on_inv: "store_inv demo_on"
  unfolding demo_on_def by (intro save_settings.step_inv demo_peers_inv TrueI)

theorem SaveSettings_off_revokes_witness:
  "dead ''c1'' 1 (snd (SaveSettings (demo_env, demo_settings) demo_on))"
proof -
  let ?k = "\<lparr>kr_peer_id = ''p'', kr_credential_id = ''c1'', kr_revision = 1, kr_uuid = ''u1''\<rparr>"
  have rd: "Settings (sv_uni demo_env) demo_on = Inr demo_reality" by code_simp
  have on: "se_reality_enabled demo_reality" and off: "\<not> se_reality_enabled demo_settings" by code_simp+
  have run: "SaveSettings (demo_env, demo_settings) demo_on = (Inr (), snd (SaveSettings (demo_env, demo_settings) demo_on))"
    by (rule run_pair) code_simp
  have "db_creds demo_on = [?k]" by code_simp
  then have "?k \<in> set (db_creds demo_on)" by simp
  from SaveSettings_off_revokes [OF demo_on_inv rd on off run this] show ?thesis by simp
qed

end
