(* ===== verification/Store_Admission.thy ===== *)
theory Store_Admission
  imports Store_Settings
begin

text \<open>
  Admission to the public ingress: \<open>snapshot.go\<close>, the admission part of \<open>reality.go\<close>,
  \<open>route_explain.go\<close> and \<open>reality_inventory.go\<close>.  A snapshot is the state a routing generation was
  built from and may be arbitrarily old; \<open>RealityRuntime\<close> intersects it with the live credentials.
  \<open>derive\<close> stands for decoding a stored private key and computing its X25519 public key.
\<close>

section \<open>Snapshots\<close>

record reality_admission =
  ad_peer_id :: string
  ad_credential_id :: string
  ad_revision :: int

record snapshot =
  sn_settings :: settings
  sn_tunnels :: "tunnel list"
  sn_rules :: "rule list"
  sn_peers :: "peer list"
  sn_reality_identity_id :: string
  sn_reality_admissions :: "reality_admission list"

definition admissions_of :: "peer list \<Rightarrow> reality_admission list" where
  "admissions_of ps = map (\<lambda>p. \<lparr>ad_peer_id = p_id p, ad_credential_id = p_reality_credential_id p, ad_revision = p_reality_revision p\<rparr>)
     (filter (\<lambda>p. p_reality_enabled p \<and> p_reality_credential_id p \<noteq> []) ps)"

definition Snapshot :: "(string \<Rightarrow> string) \<Rightarrow> db \<Rightarrow> err + snapshot" where
  "Snapshot uni s = bindR (Settings uni s) (\<lambda>v. Inr \<lparr>sn_settings = v, sn_tunnels = Tunnels s, sn_rules = Rules s,
     sn_peers = Peers s, sn_reality_identity_id = (case db_identity s of None \<Rightarrow> [] | Some r \<Rightarrow> ir_identity_id r),
     sn_reality_admissions = admissions_of (Peers s)\<rparr>)"

section \<open>The server identity\<close>

record reality_identity =
  id_id :: string
  id_private_key :: string
  id_public_key :: string
  id_short_id :: string

definition realityIdentity :: "(string \<Rightarrow> string option) \<Rightarrow> db \<Rightarrow> err + reality_identity option" where
  "realityIdentity derive s = (case db_identity s of
     None \<Rightarrow> Inr None
   | Some r \<Rightarrow> (case derive (ir_private_key r) of
       None \<Rightarrow> Inl ErrOther
     | Some pub \<Rightarrow> Inr (Some \<lparr>id_id = ir_identity_id r, id_private_key = ir_private_key r,
         id_public_key = pub, id_short_id = ir_short_id r\<rparr>)))"

section \<open>The runtime\<close>

record reality_user =
  us_peer_id :: string
  us_name :: string
  us_uuid :: string

record reality_runtime =
  rt_identity :: "reality_identity option"
  rt_users :: "reality_user list"

definition RealityUserName :: "string \<Rightarrow> string" where
  "RealityUserName i = ''client-'' @ i"

text \<open>The map of admitted credentials by peer; a malformed or repeated entry refuses the snapshot.\<close>

fun admitted_map :: "reality_admission list \<Rightarrow> (string \<times> reality_admission) list \<Rightarrow> err + (string \<times> reality_admission) list" where
  "admitted_map [] m = Inr m"
| "admitted_map (a # as) m =
    (if ad_peer_id a = [] \<or> ad_credential_id a = [] \<or> ad_revision a < 1 then Inl ErrOther
     else if ad_peer_id a \<in> fst ` set m then Inl ErrOther
     else admitted_map as ((ad_peer_id a, a) # m))"

text \<open>\<open>policyPeers\<close>: the last peer of the snapshot with the identifier; a missing one is the zero peer,
  which is not enabled.\<close>

definition policy_allows :: "snapshot \<Rightarrow> string \<Rightarrow> bool" where
  "policy_allows snap i = (case List.find (\<lambda>p. p_id p = i) (rev (sn_peers snap)) of
     None \<Rightarrow> False | Some p \<Rightarrow> p_enabled p \<and> p_reality_enabled p)"

text \<open>The join of credentials with peers that are enabled and may use the ingress.\<close>

definition live_creds :: "db \<Rightarrow> cred_row list" where
  "live_creds s = filter (\<lambda>k. \<exists>w \<in> set (db_peers s). pr_id w = kr_peer_id k \<and> pr_enabled w \<and> pr_reality_enabled w) (db_creds s)"

definition admitted_users :: "snapshot \<Rightarrow> (string \<times> reality_admission) list \<Rightarrow> cred_row list \<Rightarrow> reality_user list" where
  "admitted_users snap m ks = map (\<lambda>k. \<lparr>us_peer_id = kr_peer_id k, us_name = RealityUserName (kr_peer_id k), us_uuid = kr_uuid k\<rparr>)
     (filter (\<lambda>k. case map_of m (kr_peer_id k) of
        None \<Rightarrow> False
      | Some a \<Rightarrow> policy_allows snap (kr_peer_id k) \<and> ad_credential_id a = kr_credential_id k \<and> ad_revision a = kr_revision k) ks)"

definition RealityRuntime :: "(string \<Rightarrow> string) \<Rightarrow> (string \<Rightarrow> string option) \<Rightarrow> snapshot \<Rightarrow> db \<Rightarrow> err + reality_runtime" where
  "RealityRuntime uni derive snap s =
    bindR (Settings uni s) (\<lambda>current.
    if \<not> se_reality_enabled (sn_settings snap) \<or> \<not> se_reality_enabled current
    then Inr \<lparr>rt_identity = None, rt_users = []\<rparr>
    else bindR (realityIdentity derive s) (\<lambda>identity. case identity of
      None \<Rightarrow> Inl ErrOther
    | Some idn \<Rightarrow> if id_id idn \<noteq> sn_reality_identity_id snap then Inl ErrOther
        else bindR (admitted_map (sn_reality_admissions snap) []) (\<lambda>m.
          Inr \<lparr>rt_identity = Some idn, rt_users = admitted_users snap m (live_creds s)\<rparr>)))"

section \<open>Rotation and reset\<close>

text \<open>\<open>UPDATE reality_credentials SET revision = ?, uuid = ? WHERE peer_id = ? AND credential_id = ?\<close>.\<close>

definition rotate_cred :: "string \<Rightarrow> string \<Rightarrow> int \<Rightarrow> string \<Rightarrow> db \<Rightarrow> sql_err + db" where
  "rotate_cred i cid rev' uuid s =
    (let p = (\<lambda>k. kr_peer_id k = i \<and> kr_credential_id k = cid) in
     if (\<exists>k \<in> set (db_creds s). p k) \<and> (\<exists>q \<in> set (db_creds s). \<not> p q \<and> kr_uuid q = uuid) then Inl UNIQUE_failed
     else Inr (s\<lparr>db_creds := upd_where p (\<lambda>k. k\<lparr>kr_revision := rev', kr_uuid := uuid\<rparr>) (db_creds s)\<rparr>))"

definition rotate_tx :: "string \<Rightarrow> string \<Rightarrow> int \<Rightarrow> db \<Rightarrow> err + peer \<times> db" where
  "rotate_tx uuid i expected s = (case find_peer s i of
     None \<Rightarrow> Inl ErrNotFound
   | Some w \<Rightarrow>
       if \<not> pr_reality_enabled w \<or> pr_reality_revision w \<noteq> expected \<or> expected < 1 then Inl ErrConflict
       else
         let p = (scanPeer w)\<lparr>p_reality_revision := pr_reality_revision w + 1\<rparr> in
         bindR (mapErr (\<lambda>_. ErrOther) (rotate_cred i (p_reality_credential_id p) (p_reality_revision p) uuid s)) (\<lambda>s.
           Inr (p, s\<lparr>db_peers := upd_where (\<lambda>w. pr_id w = i) (\<lambda>w. w\<lparr>pr_reality_revision := p_reality_revision p\<rparr>) (db_peers s)\<rparr>)))"

definition RotateReality :: "string \<times> string \<times> int \<Rightarrow> db \<Rightarrow> (err + peer) \<times> db" where
  "RotateReality = (\<lambda>(uuid, i, expected). tx (rotate_tx uuid i expected))"

definition reset_peer :: "peer_row \<Rightarrow> peer_row" where
  "reset_peer w = w\<lparr>pr_enabled := (if pr_wireguard_disabled w then False else pr_enabled w), pr_reality_enabled := False,
     pr_reality_credential_id := [], pr_reality_revision := 0\<rparr>"

definition reset_tx :: "db \<Rightarrow> err + unit \<times> db" where
  "reset_tx s = Inr ((), upsert_setting (''reality_enabled'', ''false'')
     (s\<lparr>db_creds := [], db_identity := None, db_peers := map reset_peer (db_peers s)\<rparr>))"

definition ResetRealityAfterRestore :: "unit \<Rightarrow> db \<Rightarrow> (err + unit) \<times> db" where
  "ResetRealityAfterRestore = (\<lambda>_. tx reset_tx)"

section \<open>Reads for delivery and explanation\<close>

record delivery =
  dv_settings :: settings
  dv_peer :: peer
  dv_identity_id :: string
  dv_public_key :: string
  dv_short_id :: string
  dv_uuid :: string

definition RealityDelivery :: "(string \<Rightarrow> string) \<Rightarrow> (string \<Rightarrow> string option) \<Rightarrow> string \<Rightarrow> db \<Rightarrow> err + delivery" where
  "RealityDelivery uni derive i s = (case find_peer s i of
     None \<Rightarrow> Inl ErrNotFound
   | Some w \<Rightarrow> bindR (Settings uni s) (\<lambda>v.
       if \<not> pr_enabled w \<or> \<not> pr_reality_enabled w then Inl ErrInvalid
       else if \<not> se_reality_enabled v then Inl ErrInvalid
       else bindR (realityIdentity derive s) (\<lambda>identity. case identity of
         None \<Rightarrow> Inl ErrInvalid
       | Some idn \<Rightarrow> (case List.find (\<lambda>k. kr_peer_id k = i \<and> kr_credential_id k = pr_reality_credential_id w \<and>
             kr_revision k = pr_reality_revision w) (db_creds s) of
           None \<Rightarrow> Inl ErrInvalid
         | Some k \<Rightarrow>
             if kr_uuid k = [] \<or> pr_reality_revision w < 1 \<or> pr_reality_credential_id w = [] then Inl ErrInvalid
             else Inr \<lparr>dv_settings = v, dv_peer = scanPeer w, dv_identity_id = id_id idn, dv_public_key = id_public_key idn,
               dv_short_id = id_short_id idn, dv_uuid = kr_uuid k\<rparr>))))"

record route_eligibility =
  re_settings :: settings
  re_peer :: peer
  re_identity_id :: string
  re_credential :: reality_admission
  re_has_credential :: bool

definition no_admission :: reality_admission where
  "no_admission = \<lparr>ad_peer_id = [], ad_credential_id = [], ad_revision = 0\<rparr>"

definition admission_of_cred :: "cred_row \<Rightarrow> reality_admission" where
  "admission_of_cred k = \<lparr>ad_peer_id = kr_peer_id k, ad_credential_id = kr_credential_id k, ad_revision = kr_revision k\<rparr>"

text \<open>Only public columns of the peer are read; the others stay at their zero values.\<close>

definition public_peer :: "peer_row \<Rightarrow> peer" where
  "public_peer w = \<lparr>p_wireguard_disabled = pr_wireguard_disabled w, p_reality_enabled = pr_reality_enabled w,
     p_reality_credential_id = pr_reality_credential_id w, p_reality_revision = pr_reality_revision w,
     p_egress_tunnel_id = None, p_id = pr_id w, p_name = [], p_public_key = pr_public_key w, p_private_key = [],
     p_preshared_key = [], p_address = pr_address w, p_enabled = pr_enabled w, p_created_at = time_zero\<rparr>"

definition RouteEligibility :: "(string \<Rightarrow> string) \<Rightarrow> string \<Rightarrow> db \<Rightarrow> err + route_eligibility" where
  "RouteEligibility uni i s = bindR (Settings uni s) (\<lambda>v. case find_peer s i of
     None \<Rightarrow> Inl ErrNotFound
   | Some w \<Rightarrow>
       let idn = (case db_identity s of None \<Rightarrow> [] | Some r \<Rightarrow> ir_identity_id r);
           c = List.find (\<lambda>k. kr_peer_id k = i \<and> kr_uuid k \<noteq> []) (db_creds s)
       in Inr \<lparr>re_settings = v, re_peer = public_peer w, re_identity_id = idn,
            re_credential = (case c of None \<Rightarrow> no_admission | Some k \<Rightarrow> admission_of_cred k),
            re_has_credential = (c \<noteq> None)\<rparr>)"

record inventory =
  iv_settings :: settings
  iv_peers :: "peer list"
  iv_identity :: "reality_identity option"
  iv_credentials :: "(string \<times> reality_admission) list"

definition readRealityInventory :: "(string \<Rightarrow> string) \<Rightarrow> (string \<Rightarrow> string option) \<Rightarrow> db \<Rightarrow> err + inventory" where
  "readRealityInventory uni derive s =
    bindR (Settings uni s) (\<lambda>v.
    bindR (realityIdentity derive s) (\<lambda>identity.
      Inr \<lparr>iv_settings = v, iv_peers = Peers s, iv_identity = identity,
        iv_credentials = map (\<lambda>k. (kr_peer_id k, admission_of_cred k)) (filter (\<lambda>k. kr_uuid k \<noteq> []) (db_creds s))\<rparr>))"

section \<open>Rotation\<close>

text \<open>Under the invariant the credential of an enabled peer is the row its columns name.\<close>

lemma enabled_cred:
  assumes "store_inv s" "w \<in> set (db_peers s)" "pr_reality_enabled w"
  obtains k where "k \<in> set (db_creds s)" "kr_peer_id k = pr_id w" "kr_credential_id k = pr_reality_credential_id w"
    "kr_revision k = pr_reality_revision w" "kr_credential_id k \<noteq> []" "1 \<le> kr_revision k"
    "List.find (\<lambda>k. kr_peer_id k = pr_id w) (db_creds s) = Some k"
    "\<forall>q \<in> set (db_creds s). kr_peer_id q = pr_id w \<longrightarrow> q = k"
proof -
  have "peer_cred_ok (db_creds s) w" using store_invD(2) [OF assms(1)] assms(2) by (simp add: reality_inv_def)
  with assms(3) obtain k where k: "List.find (\<lambda>k. kr_peer_id k = pr_id w) (db_creds s) = Some k"
    "kr_credential_id k = pr_reality_credential_id w" "kr_revision k = pr_reality_revision w"
    "kr_credential_id k \<noteq> []" "1 \<le> kr_revision k"
    by (auto simp: peer_cred_ok_def cols_ok_def find_key_None split: option.splits)
  have kk: "k \<in> set (db_creds s)" "kr_peer_id k = pr_id w" using find_key_Some [OF k(1)] by auto
  have "distinct (map kr_peer_id (db_creds s))" using store_invD(4) [OF assms(1)] by (simp add: schema_ok_def creds_ok_def)
  then have uq: "\<forall>q \<in> set (db_creds s). kr_peer_id q = pr_id w \<longrightarrow> q = k"
    using kk distinct_key_inj [of kr_peer_id "db_creds s"] by metis
  show ?thesis by (rule that [OF kk k(2-5) k(1) uq])
qed

lemma distinct_singleton: "distinct xs \<Longrightarrow> set xs = {x} \<Longrightarrow> xs = [x]"
  by (cases xs; cases "tl xs") auto

text \<open>Rotating is invalidating one peer, guarded by the expected revision.\<close>

lemma rotate_is_invalidate:
  assumes inv: "store_inv s" and ok: "rotate_tx uuid i expected s = Inr (p, s')"
  obtains w where "find_peer s i = Some w" "pr_reality_enabled w" "pr_reality_revision w = expected"
    "p = (scanPeer w)\<lparr>p_reality_revision := expected + 1\<rparr>" "invalidateReality (\<lambda>_. uuid) i s = Inr s'"
proof -
  from ok obtain w s1 where w: "find_peer s i = Some w" and en: "pr_reality_enabled w"
    and e: "pr_reality_revision w = expected" and p: "p = (scanPeer w)\<lparr>p_reality_revision := expected + 1\<rparr>"
    and rc: "rotate_cred i (pr_reality_credential_id w) (expected + 1) uuid s = Inr s1"
    and s': "s' = s1\<lparr>db_peers := upd_where (\<lambda>w. pr_id w = i) (\<lambda>w. w\<lparr>pr_reality_revision := expected + 1\<rparr>) (db_peers s1)\<rparr>"
    by (auto simp: rotate_tx_def bindR_Inr_iff Let_def split: option.splits if_splits)
  note wi = find_peer_Some [OF w]
  obtain k where k: "k \<in> set (db_creds s)" "kr_peer_id k = i" "kr_credential_id k = pr_reality_credential_id w"
    "kr_revision k = expected" "kr_credential_id k \<noteq> []" "1 \<le> kr_revision k"
    "List.find (\<lambda>k. kr_peer_id k = i) (db_creds s) = Some k"
    and uniq: "\<forall>q \<in> set (db_creds s). kr_peer_id q = i \<longrightarrow> q = k"
    by (rule enabled_cred [OF inv conjunct1 [OF wi] en, unfolded conjunct2 [OF wi] e])
  let ?p = "\<lambda>k. kr_peer_id k = i \<and> kr_credential_id k = pr_reality_credential_id w"
  have pe: "?p q \<longleftrightarrow> kr_peer_id q = i" if "q \<in> set (db_creds s)" for q
  proof
    assume "kr_peer_id q = i"
    with uniq that have "q = k" by blast
    then show "?p q" using k(2,3) by simp
  qed simp
  have rows: "upd_where ?p (\<lambda>k. k\<lparr>kr_revision := expected + 1, kr_uuid := uuid\<rparr>) (db_creds s)
      = upd_where (\<lambda>k. kr_peer_id k = i) (bump_cred uuid) (db_creds s)"
    unfolding upd_where_def
  proof (intro map_cong refl)
    fix q assume q: "q \<in> set (db_creds s)"
    show "(if ?p q then q\<lparr>kr_revision := expected + 1, kr_uuid := uuid\<rparr> else q) = (if kr_peer_id q = i then bump_cred uuid q else q)"
    proof (cases "kr_peer_id q = i")
      case True
      then have "q = k" using uniq q by blast
      then show ?thesis using k(2-4) by (simp add: bump_cred_def)
    qed simp
  qed
  from rc have s1: "s1 = s\<lparr>db_creds := upd_where (\<lambda>k. kr_peer_id k = i) (bump_cred uuid) (db_creds s)\<rparr>"
    and free: "\<forall>q \<in> set (db_creds s). kr_peer_id q \<noteq> i \<longrightarrow> kr_uuid q \<noteq> uuid"
    unfolding rotate_cred_def Let_def rows using k(1-3) by (auto split: if_splits)
  have bump: "bump_creds uuid i s = Inr s1" using free s1 by (auto simp: bump_creds_def)
  have ids: "map kr_peer_id (filter (\<lambda>k. kr_peer_id k = i) (db_creds s)) = [i]"
  proof -
    have "distinct (map kr_peer_id (filter (\<lambda>k. kr_peer_id k = i) (db_creds s)))"
      using store_invD(4) [OF inv] by (simp add: schema_ok_def creds_ok_def distinct_map_filter)
    moreover have "set (map kr_peer_id (filter (\<lambda>k. kr_peer_id k = i) (db_creds s))) = {i}" using k(1,2) by auto
    ultimately show ?thesis by (rule distinct_singleton)
  qed
  have i0: "i \<noteq> []" using store_invD(6) [OF inv] wi by (auto simp: peer_ids_def image_iff)
  have "List.find (\<lambda>k. kr_peer_id k = i) (upd_where (\<lambda>k. kr_peer_id k = i) (bump_cred uuid) ks)
      = map_option (bump_cred uuid) (List.find (\<lambda>k. kr_peer_id k = i) ks)" for ks
    by (induction ks) (auto simp: bump_cred_def)
  then have live: "live_revision s1 i = expected + 1"
    using k(4,7) by (simp add: live_revision_def s1 bump_cred_def)
  have "upd_where (\<lambda>w. pr_id w = i) (\<lambda>w. w\<lparr>pr_reality_revision := expected + 1\<rparr>) (db_peers s1)
      = upd_where (\<lambda>w. pr_id w = i) (sync_revision s1) (db_peers s1)"
    unfolding upd_where_def by (intro map_cong refl) (simp add: sync_revision_def live)
  then have "invalidateReality (\<lambda>_. uuid) i s = Inr s'"
    using i0 bump by (simp add: invalidateReality_def ids s')
  with w en e p show ?thesis by (rule that)
qed

interpretation rotate: admission_op RotateReality store_inv "\<lambda>_. True" "\<lambda>_. {}"
proof unfold_locales
  fix x :: "string \<times> string \<times> int" and s s' e
  assume "RotateReality x s = (Inl e, s')"
  then show "s' = s" by (cases x) (simp add: RotateReality_def tx_Inl)
next
  fix x :: "string \<times> string \<times> int" and s s' a c n
  obtain u i r where x: "x = (u, i, r)" by (cases x)
  assume inv: "store_inv s" and "RotateReality x s = (Inr a, s')"
  then have tx: "rotate_tx u i r s = Inr (a, s')" by (simp add: x RotateReality_def tx_Inr)
  then obtain w where iv: "invalidateReality (\<lambda>_. u) i s = Inr s'" by (rule rotate_is_invalidate [OF inv])
  show "store_inv s'" by (rule invalidateReality_store_inv(1) [OF inv iv])
  assume "dead c n s"
  then show "dead c n s'" by (rule invalidateReality_dead [OF store_invD(4) [OF inv] iv])
qed

section \<open>Reset after a restore\<close>

lemma reset_peer_keeps [simp]:
  "pr_id (reset_peer w) = pr_id w" "pr_public_key (reset_peer w) = pr_public_key w"
  "pr_address (reset_peer w) = pr_address w" "pr_egress_tunnel_id (reset_peer w) = pr_egress_tunnel_id w"
  "pr_reality_enabled (reset_peer w) = False" "pr_created_at (reset_peer w) = pr_created_at w"
  by (simp_all add: reset_peer_def)

definition reset_state :: "db \<Rightarrow> db" where
  "reset_state s = s\<lparr>db_creds := [], db_identity := None, db_peers := map reset_peer (db_peers s),
     db_settings := upsert_row (''reality_enabled'', ''false'') (db_settings s)\<rparr>"

lemma reset_tx_eq: "reset_tx s = Inr ((), reset_state s)"
  by (simp add: reset_tx_def reset_state_def upsert_setting_row)

lemma reset_state_inv:
  assumes inv: "store_inv s"
  shows "store_inv (reset_state s)"
proof (rule store_inv_peers [OF inv])
  have ids: "peer_ids (reset_state s) = peer_ids s" by (simp add: peer_ids_def reset_state_def image_image)
  then show "peer_ids (reset_state s) = peer_ids s" .
  have "peers_ok (tunnel_ids s) (map reset_peer (db_peers s))"
    using store_invD(4) [OF inv] by (simp add: schema_ok_def peers_ok_def comp_def)
  moreover have "distinct (map fst (upsert_row (''reality_enabled'', ''false'') (db_settings s)))"
    using store_invD(4) [OF inv] by (intro upsert_row_ok(1)) (simp add: schema_ok_def)
  ultimately show "schema_ok (reset_state s)"
    using store_invD(4) [OF inv] ids by (simp add: schema_ok_def reset_state_def creds_ok_def tunnel_ids_def)
  show "reality_inv (reset_state s)"
    by (simp add: reality_inv_def reset_state_def peer_cred_ok_def cols_ok_def) (simp add: reset_peer_def)
  show "db_rules (reset_state s) = db_rules s" by (simp add: reset_state_def)
qed

interpretation reset: admission_op ResetRealityAfterRestore store_inv "\<lambda>_. True" "\<lambda>_. {}"
proof unfold_locales
  fix x s s' e
  assume "ResetRealityAfterRestore x s = (Inl e, s')"
  then show "s' = s" by (simp add: ResetRealityAfterRestore_def tx_Inl)
next
  fix x s s' a c n
  assume inv: "store_inv s" and "ResetRealityAfterRestore x s = (Inr a, s')"
  then have s': "s' = reset_state s" by (simp add: ResetRealityAfterRestore_def tx_Inr reset_tx_eq)
  show "store_inv s'" unfolding s' by (rule reset_state_inv [OF inv])
  show "dead c n s'" by (simp add: s' dead_def reset_state_def)
qed

section \<open>Admitted users\<close>

lemma admitted_map_ok:
  assumes "admitted_map as m = Inr m'" "distinct (map fst m)"
  shows "set m' = set m \<union> (\<lambda>a. (ad_peer_id a, a)) ` set as \<and> distinct (map fst m')"
  using assms by (induction as m rule: admitted_map.induct) (auto split: if_splits)

lemma admitted_map_total:
  assumes "\<forall>a \<in> set as. ad_peer_id a \<noteq> [] \<and> ad_credential_id a \<noteq> [] \<and> 1 \<le> ad_revision a"
    "distinct (map ad_peer_id as)" "fst ` set m \<inter> ad_peer_id ` set as = {}"
  shows "\<exists>m'. admitted_map as m = Inr m'"
  using assms by (induction as m rule: admitted_map.induct) auto

lemma admitted_users_iff:
  "u \<in> set (admitted_users snap m ks) \<longleftrightarrow> (\<exists>k a. k \<in> set ks \<and> map_of m (kr_peer_id k) = Some a \<and>
     policy_allows snap (kr_peer_id k) \<and> ad_credential_id a = kr_credential_id k \<and> ad_revision a = kr_revision k \<and>
     u = \<lparr>us_peer_id = kr_peer_id k, us_name = RealityUserName (kr_peer_id k), us_uuid = kr_uuid k\<rparr>)"
  by (auto simp: admitted_users_def split: option.splits)

lemma RealityRuntime_users:
  assumes "RealityRuntime uni derive snap s = Inr rt" "u \<in> set (rt_users rt)"
  obtains v k a w where "Settings uni s = Inr v" "se_reality_enabled v" "se_reality_enabled (sn_settings snap)"
    "k \<in> set (db_creds s)" "kr_peer_id k = us_peer_id u" "kr_uuid k = us_uuid u"
    "w \<in> set (db_peers s)" "pr_id w = us_peer_id u" "pr_enabled w" "pr_reality_enabled w"
    "a \<in> set (sn_reality_admissions snap)" "ad_peer_id a = us_peer_id u" "ad_credential_id a = kr_credential_id k"
    "ad_revision a = kr_revision k" "policy_allows snap (us_peer_id u)"
proof -
  from assms obtain v idn m where v: "Settings uni s = Inr v" "se_reality_enabled v" "se_reality_enabled (sn_settings snap)"
    and m: "admitted_map (sn_reality_admissions snap) [] = Inr m" and u: "u \<in> set (admitted_users snap m (live_creds s))"
    by (auto simp: RealityRuntime_def bindR_Inr_iff split: if_splits option.splits)
  from u obtain k a where k: "k \<in> set (live_creds s)" "map_of m (kr_peer_id k) = Some a"
    "policy_allows snap (kr_peer_id k)" "ad_credential_id a = kr_credential_id k" "ad_revision a = kr_revision k"
    "u = \<lparr>us_peer_id = kr_peer_id k, us_name = RealityUserName (kr_peer_id k), us_uuid = kr_uuid k\<rparr>"
    unfolding admitted_users_iff by blast
  from k(1) obtain w where w: "w \<in> set (db_peers s)" "pr_id w = kr_peer_id k" "pr_enabled w" "pr_reality_enabled w"
    by (auto simp: live_creds_def)
  have "(kr_peer_id k, a) \<in> set m" using k(2) by (rule map_of_SomeD)
  then have a: "a \<in> set (sn_reality_admissions snap)" "ad_peer_id a = kr_peer_id k"
    using admitted_map_ok [OF m] by auto
  have kc: "k \<in> set (db_creds s)" using k(1) by (simp add: live_creds_def)
  show ?thesis
    by (rule that [OF v kc _ _ w(1) _ w(3,4) a(1) _ k(4,5)]) (simp_all add: k(3,6) w(2) a(2))
qed

lemma dead_not_admitted:
  assumes "dead c n s" "RealityRuntime uni derive snap s = Inr rt" "u \<in> set (rt_users rt)"
  obtains k where "k \<in> set (db_creds s)" "kr_peer_id k = us_peer_id u" "kr_uuid k = us_uuid u"
    "\<not> (kr_credential_id k = c \<and> kr_revision k \<le> n)"
proof (rule RealityRuntime_users [OF assms(2,3)], goal_cases)
  case (1 v k a w)
  then show ?case using assms(1) by (intro that [of k]) (auto simp: dead_def)
qed

section \<open>Properties\<close>

text \<open>RotateReality replaces the credential of a client under an expected revision: the old revision is
  dead, the returned peer is what is stored, no other client changes, and a second call that still
  expects the old revision is refused as a conflict.\<close>

lemma RotateReality_replaces:
  assumes "store_inv s" "RotateReality (u, i, r) s = (Inr p, s')"
  shows "p_reality_revision p = r + 1 \<and> Peer s' i = Inr p \<and> dead (p_reality_credential_id p) r s' \<and>
    (\<forall>j. j \<noteq> i \<longrightarrow> Peer s' j = Peer s j) \<and> (\<forall>u'. RotateReality (u', i, r) s' = (Inl ErrConflict, s'))"
proof -
  from assms(2) have tx: "rotate_tx u i r s = Inr (p, s')" by (simp add: RotateReality_def tx_Inr)
  then obtain w where w: "find_peer s i = Some w" and en: "pr_reality_enabled w" and rev: "pr_reality_revision w = r"
    and p: "p = (scanPeer w)\<lparr>p_reality_revision := r + 1\<rparr>" and iv: "invalidateReality (\<lambda>_. u) i s = Inr s'"
    by (rule rotate_is_invalidate [OF assms(1)])
  note wi = find_peer_Some [OF w] and sch = store_invD(4) [OF assms(1)]
  have i0: "i \<noteq> []" using store_invD(6) [OF assms(1)] wi by (auto simp: peer_ids_def image_iff)
  obtain k where k: "k \<in> set (db_creds s)" "kr_peer_id k = i" "kr_credential_id k = pr_reality_credential_id w"
    "kr_revision k = r" "kr_credential_id k \<noteq> []" "1 \<le> kr_revision k"
    "List.find (\<lambda>k. kr_peer_id k = i) (db_creds s) = Some k"
    "\<forall>q \<in> set (db_creds s). kr_peer_id q = i \<longrightarrow> q = k"
    by (rule enabled_cred [OF assms(1) conjunct1 [OF wi] en, unfolded conjunct2 [OF wi] rev])
  have "cols_ok (db_creds s) w"
    using store_invD(2) [OF assms(1)] wi by (simp add: reality_inv_def peer_cred_ok_def)
  from live_revision_bumped [OF sch iv this conjunct2 [OF wi]] k(3,5) rev have live: "live_revision s' i = r + 1" by simp
  have f: "find_peer s' j = (if j = i then Some (sync_revision s' w) else find_peer s j)" for j
    using find_invalidateReality [OF sch iv i0, of j] w by simp
  have scan: "scanPeer (sync_revision s' w) = p" using wi by (simp add: sync_revision_def live p scanPeer_def)
  have "dead (kr_credential_id k) (kr_revision k) s'"
    by (rule invalidateReality_kills [OF sch iv k(1)]) (simp add: k(2))
  then have "dead (p_reality_credential_id p) r s'" using k(3,4) by (simp add: p)
  moreover have "RotateReality (u', i, r) s' = (Inl ErrConflict, s')" for u'
    using wi by (simp add: RotateReality_def tx_def rotate_tx_def f sync_revision_def live)
  ultimately show ?thesis using f scan by (simp add: Peer_def p)
qed

lemma demo_rotate: "RotateReality (''u7'', ''p'', 1) demo_peers_db =
    (Inr ((demo_peer ''p'')\<lparr>p_reality_enabled := True, p_reality_credential_id := ''c1'', p_reality_revision := 2\<rparr>),
     snd (RotateReality (''u7'', ''p'', 1) demo_peers_db))"
  by (rule run_pair) code_simp

text \<open>C40: whatever snapshot it is given, however stale, the runtime admits a client only by a credential that
  is in the database now, for a peer that is enabled now, with access switched on now, and only if
  the snapshot admitted exactly that revision.\<close>

theorem RealityRuntime_only_live:
  assumes "RealityRuntime uni derive snap s = Inr rt" "u \<in> set (rt_users rt)"
  shows "\<exists>k w a v. k \<in> set (db_creds s) \<and> kr_peer_id k = us_peer_id u \<and> kr_uuid k = us_uuid u \<and>
    w \<in> set (db_peers s) \<and> pr_id w = us_peer_id u \<and> pr_enabled w \<and> pr_reality_enabled w \<and>
    a \<in> set (sn_reality_admissions snap) \<and> ad_peer_id a = us_peer_id u \<and> ad_credential_id a = kr_credential_id k \<and>
    ad_revision a = kr_revision k \<and> Settings uni s = Inr v \<and> se_reality_enabled v"
proof (rule RealityRuntime_users [OF assms], goal_cases)
  case (1 v k a w)
  then show ?case by (intro exI conjI)
qed

definition demo_derive :: "string \<Rightarrow> string option" where
  "demo_derive k = Some (''pub'' @ k)"

definition demo_snap :: snapshot where
  "demo_snap = projr (Snapshot id demo_on)"

lemma demo_runtime: "RealityRuntime id demo_derive demo_snap demo_on = Inr
    \<lparr>rt_identity = Some \<lparr>id_id = ''i'', id_private_key = ''k'', id_public_key = ''pubk'', id_short_id = ''s''\<rparr>,
     rt_users = [\<lparr>us_peer_id = ''p'', us_name = ''client-p'', us_uuid = ''u1''\<rparr>]\<rparr>"
  by code_simp

theorem RealityRuntime_only_live_witness:
  "\<exists>k. k \<in> set (db_creds demo_on) \<and> kr_peer_id k = ''p'' \<and> kr_uuid k = ''u1''"
  using RealityRuntime_only_live [OF demo_runtime, of "\<lparr>us_peer_id = ''p'', us_name = ''client-p'', us_uuid = ''u1''\<rparr>"]
  by auto

text \<open>A restored backup cannot bring a public identity back: after ResetRealityAfterRestore there is no
  identity and no credential, no client has access, no snapshot yields a user, a client without
  WireGuard is switched off, and names, keys and addresses are untouched.\<close>

lemma ResetRealityAfterRestore_clears:
  assumes "store_inv s" "ResetRealityAfterRestore () s = (r, s')"
  shows "r = Inr () \<and> db_identity s' = None \<and> db_creds s' = [] \<and>
    Peers s' = map (\<lambda>p. p\<lparr>p_enabled := (p_enabled p \<and> \<not> p_wireguard_disabled p), p_reality_enabled := False,
      p_reality_credential_id := [], p_reality_revision := 0\<rparr>) (Peers s) \<and>
    (\<forall>uni derive snap rt. RealityRuntime uni derive snap s' = Inr rt \<longrightarrow> rt_users rt = [])"
proof -
  from assms(2) have r: "r = Inr ()" "s' = reset_state s"
    by (simp_all add: ResetRealityAfterRestore_def tx_def reset_tx_eq)
  have "sort_key (\<lambda>w. (pr_created_at w, pr_id w)) (map reset_peer (db_peers s))
      = map reset_peer (sort_key (\<lambda>w. (pr_created_at w, pr_id w)) (db_peers s))"
    by (rule sort_key_map) simp
  then have "Peers s' = map (\<lambda>p. p\<lparr>p_enabled := (p_enabled p \<and> \<not> p_wireguard_disabled p), p_reality_enabled := False,
      p_reality_credential_id := [], p_reality_revision := 0\<rparr>) (Peers s)"
    by (simp add: Peers_def r(2) reset_state_def comp_def) (auto simp: scanPeer_def reset_peer_def)
  moreover have "rt_users rt = []" if "RealityRuntime uni derive snap s' = Inr rt" for uni derive snap rt
  proof (rule ccontr)
    assume "rt_users rt \<noteq> []"
    then obtain u where "u \<in> set (rt_users rt)" by (cases "rt_users rt") auto
    from RealityRuntime_users [OF that this] show False by (simp add: r(2) reset_state_def)
  qed
  ultimately show ?thesis using r by (simp add: reset_state_def)
qed

lemma Peers_distinct: "schema_ok s \<Longrightarrow> distinct (map p_id (Peers s))"
  by (simp add: Peers_def schema_ok_def peers_ok_def distinct_map comp_def inj_on_def)

lemma set_Peers: "set (Peers s) = scanPeer ` set (db_peers s)"
  by (simp add: Peers_def)

lemma fresh_admissions:
  assumes "store_inv s"
  shows "\<forall>a \<in> set (admissions_of (Peers s)). ad_peer_id a \<noteq> [] \<and> ad_credential_id a \<noteq> [] \<and> 1 \<le> ad_revision a"
    "distinct (map ad_peer_id (admissions_of (Peers s)))"
proof -
  show "\<forall>a \<in> set (admissions_of (Peers s)). ad_peer_id a \<noteq> [] \<and> ad_credential_id a \<noteq> [] \<and> 1 \<le> ad_revision a"
  proof
    fix a assume "a \<in> set (admissions_of (Peers s))"
    then obtain w where w: "w \<in> set (db_peers s)" "pr_reality_enabled w"
      and a: "a = \<lparr>ad_peer_id = pr_id w, ad_credential_id = pr_reality_credential_id w, ad_revision = pr_reality_revision w\<rparr>"
      by (auto simp: admissions_of_def set_Peers)
    have "pr_id w \<noteq> []" using store_invD(6) [OF assms] w(1) by (auto simp: peer_ids_def image_iff)
    then show "ad_peer_id a \<noteq> [] \<and> ad_credential_id a \<noteq> [] \<and> 1 \<le> ad_revision a"
      using enabled_cred [OF assms w] by (metis a reality_admission.select_convs)
  qed
  show "distinct (map ad_peer_id (admissions_of (Peers s)))"
    using Peers_distinct [OF store_invD(4) [OF assms]] by (simp add: admissions_of_def comp_def distinct_map_filter)
qed

lemma fresh_policy:
  assumes "schema_ok s" "w \<in> set (db_peers s)" "sn_peers snap = Peers s"
  shows "policy_allows snap (pr_id w) \<longleftrightarrow> pr_enabled w \<and> pr_reality_enabled w"
proof -
  have "distinct (map p_id (rev (Peers s)))" using Peers_distinct [OF assms(1)] by (simp add: rev_map [symmetric])
  moreover have "scanPeer w \<in> set (rev (Peers s))" using assms(2) by (simp add: set_Peers)
  ultimately have "List.find (\<lambda>p. p_id p = p_id (scanPeer w)) (rev (Peers s)) = Some (scanPeer w)" by (rule find_key_distinct)
  then show ?thesis by (simp add: policy_allows_def assms(3))
qed

text \<open>A runtime built from a fresh snapshot leaves nobody out: with access switched on and a usable
  identity it succeeds, and its users are exactly the enabled clients that have access.\<close>

lemma RealityRuntime_fresh_complete:
  assumes "store_inv s" "Snapshot uni s = Inr snap" "se_reality_enabled (sn_settings snap)"
    "db_identity s = Some r" "derive (ir_private_key r) = Some pub"
  shows "\<exists>rt. RealityRuntime uni derive snap s = Inr rt \<and>
    us_peer_id ` set (rt_users rt) = p_id ` {p \<in> set (Peers s). p_enabled p \<and> p_reality_enabled p}"
proof -
  from assms(2,4) obtain v where v: "Settings uni s = Inr v" and sv: "sn_settings snap = v" and ps: "sn_peers snap = Peers s"
    and ad: "sn_reality_admissions snap = admissions_of (Peers s)" and sid: "sn_reality_identity_id snap = ir_identity_id r"
    by (auto simp: Snapshot_def bindR_Inr_iff)
  note fa = fresh_admissions [OF assms(1)]
  obtain m where m: "admitted_map (admissions_of (Peers s)) [] = Inr m" using admitted_map_total [OF fa, of "[]"] by auto
  have mo: "set m = (\<lambda>a. (ad_peer_id a, a)) ` set (admissions_of (Peers s))" "distinct (map fst m)"
    using admitted_map_ok [OF m] by simp_all
  let ?idn = "\<lparr>id_id = ir_identity_id r, id_private_key = ir_private_key r, id_public_key = pub, id_short_id = ir_short_id r\<rparr>"
  have run: "RealityRuntime uni derive snap s = Inr \<lparr>rt_identity = Some ?idn, rt_users = admitted_users snap m (live_creds s)\<rparr>"
    using v sv assms(3-5) sid ad m by (simp add: RealityRuntime_def realityIdentity_def)
  have sound: "us_peer_id u \<in> p_id ` {p \<in> set (Peers s). p_enabled p \<and> p_reality_enabled p}"
    if "u \<in> set (admitted_users snap m (live_creds s))" for u
  proof (rule RealityRuntime_users [OF run, where u = u], goal_cases)
    case (2 v k a w)
    then show ?case by (auto simp: set_Peers image_iff intro!: bexI [of _ w])
  qed (use that in simp)
  have forth: "pr_id w \<in> us_peer_id ` set (admitted_users snap m (live_creds s))"
    if w: "w \<in> set (db_peers s)" "pr_enabled w" "pr_reality_enabled w" for w
  proof (rule enabled_cred [OF assms(1) w(1,3)], goal_cases)
    case (1 k)
    let ?a = "\<lparr>ad_peer_id = pr_id w, ad_credential_id = pr_reality_credential_id w, ad_revision = pr_reality_revision w\<rparr>"
    have "?a \<in> set (admissions_of (Peers s))"
      using w 1(3,5) unfolding admissions_of_def set_Peers set_map set_filter by (intro image_eqI [of _ _ "scanPeer w"]) simp_all
    then have "(ad_peer_id ?a, ?a) \<in> set m" using mo by blast
    then have "(pr_id w, ?a) \<in> set m" by simp
    then have mk: "map_of m (pr_id w) = Some ?a" using mo by simp
    have "k \<in> set (live_creds s)" using 1(1,2) w by (auto simp: live_creds_def)
    then have "\<lparr>us_peer_id = kr_peer_id k, us_name = RealityUserName (kr_peer_id k), us_uuid = kr_uuid k\<rparr>
        \<in> set (admitted_users snap m (live_creds s))"
      unfolding admitted_users_iff
      using mk 1(2-4) fresh_policy [OF store_invD(4) [OF assms(1)] w(1) ps] w(2,3) by (intro exI [of _ k] exI [of _ ?a]) simp
    then show ?case using 1(2) by (metis (lifting) imageI reality_user.select_convs(1))
  qed
  have "us_peer_id ` set (admitted_users snap m (live_creds s)) = p_id ` {p \<in> set (Peers s). p_enabled p \<and> p_reality_enabled p}"
    using sound forth by (auto simp: set_Peers)
  with run show ?thesis by simp
qed

text \<open>A profile is delivered exactly when the client is enabled with access, access is switched on and
  the identity is usable; the invariant guarantees that the stored credential is then found.\<close>

lemma RealityDelivery_outcome:
  assumes "store_inv s" "find_peer s i = Some w" "Settings uni s = Inr v" "db_identity s = Some r"
    "derive (ir_private_key r) = Some pub" "\<forall>k \<in> set (db_creds s). kr_uuid k \<noteq> []"
  shows "if pr_enabled w \<and> pr_reality_enabled w \<and> se_reality_enabled v
    then \<exists>dv k. RealityDelivery uni derive i s = Inr dv \<and> k \<in> set (db_creds s) \<and> kr_peer_id k = i \<and> dv_uuid dv = kr_uuid k \<and>
      dv_peer dv = scanPeer w \<and> dv_public_key dv = pub
    else RealityDelivery uni derive i s = Inl ErrInvalid"
proof (cases "pr_enabled w \<and> pr_reality_enabled w \<and> se_reality_enabled v")
  case True
  note wi = find_peer_Some [OF assms(2)]
  from True have en: "pr_reality_enabled w" by simp
  show ?thesis
  proof (rule enabled_cred [OF assms(1) conjunct1 [OF wi] en], goal_cases)
    case (1 k)
    have "List.find (\<lambda>k. kr_peer_id k = i \<and> kr_credential_id k = pr_reality_credential_id w \<and> kr_revision k = pr_reality_revision w)
        (db_creds s) \<noteq> None"
      using 1(1-4) wi by (auto simp: find_None_iff)
    then obtain q where q: "List.find (\<lambda>k. kr_peer_id k = i \<and> kr_credential_id k = pr_reality_credential_id w \<and> kr_revision k = pr_reality_revision w)
        (db_creds s) = Some q" by blast
    then have "q \<in> set (db_creds s)" "kr_peer_id q = i" by (auto simp: find_Some_iff)
    then have "\<exists>k. k \<in> set (db_creds s) \<and> kr_peer_id k = i \<and> kr_uuid q = kr_uuid k" by blast
    then show ?case
      using True assms(2-6) q 1(3-6) \<open>q \<in> set (db_creds s)\<close> by (simp add: RealityDelivery_def realityIdentity_def)
  qed
next
  case False
  then show ?thesis using assms(2-5) by (auto simp: RealityDelivery_def)
qed

end
