(* ===== verification/Store_Auth.thy ===== *)
theory Store_Auth
  imports Store_Admission
begin

text \<open>
  The panel's password and sessions (\<open>internal/store/auth.go\<close>, \<open>auth_restore.go\<close>), and the values that share
  the \<open>settings\<close> table with \<open>Settings\<close> but are not part of it: notifications (\<open>notify.go\<close>), installation
  facts (\<open>install.go\<close>) and the server key (\<open>wgkeys.go\<close>).  The hexadecimal text of the 32 random bytes of a
  password generation is an argument of the calls that draw it.
\<close>

section \<open>One value of the settings table\<close>

definition settingValue :: "string \<Rightarrow> db \<Rightarrow> string" where
  "settingValue k s = (case map_of (db_settings s) k of None \<Rightarrow> [] | Some x \<Rightarrow> x)"

definition setSettingValue :: "string \<times> string \<Rightarrow> db \<Rightarrow> (err + unit) \<times> db" where
  "setSettingValue kx = tx (\<lambda>s. Inr ((), upsert_setting kx s))"

section \<open>Password and sessions\<close>

abbreviation keyPasswordHash :: string where "keyPasswordHash \<equiv> ''auth_password_hash''"
abbreviation keyPasswordGeneration :: string where "keyPasswordGeneration \<equiv> ''auth_password_generation''"

record password_state =
  ps_hash :: string
  ps_generation :: string

definition PasswordState :: "db \<Rightarrow> err + password_state" where
  "PasswordState s = (case map_of (db_settings s) keyPasswordHash of
     None \<Rightarrow> Inl ErrNoPassword
   | Some h \<Rightarrow> if h = [] then Inl ErrNoPassword
       else Inr \<lparr>ps_hash = h, ps_generation = settingValue keyPasswordGeneration s\<rparr>)"

definition PasswordHash :: "db \<Rightarrow> err + string" where
  "PasswordHash s = (case map_of (db_settings s) keyPasswordHash of
     None \<Rightarrow> Inl ErrNoPassword
   | Some h \<Rightarrow> if h = [] then Inl ErrNoPassword else Inr h)"

record session =
  ss_token_hash :: string
  ss_created_at :: time
  ss_expires_at :: time

definition session_args :: "session \<Rightarrow> session_row" where
  "session_args ss = \<lparr>sr_token_hash = ss_token_hash ss, sr_created_at = Unix (ss_created_at ss), sr_expires_at = Unix (ss_expires_at ss)\<rparr>"

text \<open>\<open>INSERT INTO sessions\<close>: the token hash is the primary key.\<close>

definition insert_session :: "session_row \<Rightarrow> db \<Rightarrow> sql_err + db" where
  "insert_session w s = (if sr_token_hash w \<in> sr_token_hash ` set (db_sessions s) then Inl UNIQUE_failed
     else Inr (s\<lparr>db_sessions := db_sessions s @ [w]\<rparr>))"

text \<open>The condition of the inserting \<open>SELECT\<close>: comparing with a missing hash is NULL, which selects no row.\<close>

definition password_matches :: "password_state \<Rightarrow> db \<Rightarrow> bool" where
  "password_matches st s \<longleftrightarrow> map_of (db_settings s) keyPasswordHash = Some (ps_hash st) \<and>
     settingValue keyPasswordGeneration s = ps_generation st"

definition verified_session_tx :: "session \<Rightarrow> password_state \<Rightarrow> db \<Rightarrow> err + unit \<times> db" where
  "verified_session_tx ss st s =
    (if password_matches st s
     then bindR (mapErr (\<lambda>_. ErrOther) (insert_session (session_args ss) s)) (\<lambda>s'. Inr ((), s'))
     else Inl ErrPasswordChanged)"

definition CreateVerifiedSession :: "session \<times> password_state \<Rightarrow> db \<Rightarrow> (err + unit) \<times> db" where
  "CreateVerifiedSession = (\<lambda>(ss, st) s.
    if ps_hash st = [] \<or> ss_token_hash ss = [] \<or> \<not> ss_created_at ss < ss_expires_at ss then (Inl ErrInvalid, s)
    else tx (verified_session_tx ss st) s)"

definition set_password_tx :: "string \<Rightarrow> string \<Rightarrow> db \<Rightarrow> err + unit \<times> db" where
  "set_password_tx generation encoded s =
    (let s = upsert_setting (keyPasswordHash, encoded) s;
         s = upsert_setting (keyPasswordGeneration, generation) s
     in Inr ((), s\<lparr>db_sessions := []\<rparr>))"

definition SetPasswordHash :: "string \<times> string \<Rightarrow> db \<Rightarrow> (err + unit) \<times> db" where
  "SetPasswordHash = (\<lambda>(generation, encoded) s.
    if encoded = [] then (Inl ErrInvalid, s) else tx (set_password_tx generation encoded) s)"

definition CreateSession :: "session \<Rightarrow> db \<Rightarrow> (err + unit) \<times> db" where
  "CreateSession ss s =
    (if ss_token_hash ss = [] then (Inl ErrInvalid, s)
     else if \<not> ss_created_at ss < ss_expires_at ss then (Inl ErrInvalid, s)
     else tx (\<lambda>s. bindR (mapErr (\<lambda>_. ErrOther) (insert_session (session_args ss) s)) (\<lambda>s'. Inr ((), s'))) s)"

definition Session :: "string \<Rightarrow> time \<Rightarrow> db \<Rightarrow> err + session" where
  "Session token now s = (case List.find (\<lambda>w. sr_token_hash w = token \<and> Unix now < sr_expires_at w) (db_sessions s) of
     None \<Rightarrow> Inl ErrNotFound
   | Some w \<Rightarrow> Inr \<lparr>ss_token_hash = token, ss_created_at = time_Unix (sr_created_at w), ss_expires_at = time_Unix (sr_expires_at w)\<rparr>)"

definition ExtendSession :: "string \<times> time \<Rightarrow> db \<Rightarrow> (err + unit) \<times> db" where
  "ExtendSession = (\<lambda>(token, expires). tx (\<lambda>s. Inr ((),
     s\<lparr>db_sessions := upd_where (\<lambda>w. sr_token_hash w = token) (\<lambda>w. w\<lparr>sr_expires_at := Unix expires\<rparr>) (db_sessions s)\<rparr>)))"

definition DeleteSession :: "string \<Rightarrow> db \<Rightarrow> (err + unit) \<times> db" where
  "DeleteSession token = tx (\<lambda>s. Inr ((), s\<lparr>db_sessions := filter (\<lambda>w. sr_token_hash w \<noteq> token) (db_sessions s)\<rparr>))"

definition DeleteExpiredSessions :: "time \<Rightarrow> db \<Rightarrow> (err + nat) \<times> db" where
  "DeleteExpiredSessions now = tx (\<lambda>s. Inr (length (filter (\<lambda>w. sr_expires_at w \<le> Unix now) (db_sessions s)),
     s\<lparr>db_sessions := filter (\<lambda>w. \<not> sr_expires_at w \<le> Unix now) (db_sessions s)\<rparr>))"

definition ResetSessionsAfterRestore :: "string \<Rightarrow> db \<Rightarrow> (err + unit) \<times> db" where
  "ResetSessionsAfterRestore generation =
     tx (\<lambda>s. Inr ((), upsert_setting (keyPasswordGeneration, generation) (s\<lparr>db_sessions := []\<rparr>)))"

section \<open>Notifications, installation facts, server key\<close>

record notify_config =
  nc_enabled :: bool
  nc_token :: string
  nc_chat_id :: string

definition Ready :: "notify_config \<Rightarrow> bool" where
  "Ready c \<longleftrightarrow> nc_enabled c \<and> nc_token c \<noteq> [] \<and> nc_chat_id c \<noteq> []"

definition set_notify :: "string \<times> string \<Rightarrow> notify_config \<Rightarrow> notify_config" where
  "set_notify kx c =
    (if fst kx = ''notify_enabled'' then c\<lparr>nc_enabled := snd kx = ''1''\<rparr>
     else if fst kx = ''notify_telegram_token'' then c\<lparr>nc_token := snd kx\<rparr>
     else if fst kx = ''notify_telegram_chat_id'' then c\<lparr>nc_chat_id := snd kx\<rparr>
     else c)"

definition notify_keys :: "string list" where
  "notify_keys = [''notify_enabled'', ''notify_telegram_token'', ''notify_telegram_chat_id'']"

definition NotifyConfig :: "db \<Rightarrow> notify_config" where
  "NotifyConfig s = fold set_notify (filter (\<lambda>kx. fst kx \<in> set notify_keys) (db_settings s))
     \<lparr>nc_enabled = False, nc_token = [], nc_chat_id = []\<rparr>"

definition notify_values :: "notify_config \<Rightarrow> (string \<times> string) list" where
  "notify_values c =
    [(''notify_enabled'', if nc_enabled c then ''1'' else []),
     (''notify_telegram_token'', nc_token c),
     (''notify_telegram_chat_id'', nc_chat_id c)]"

definition SaveNotifyConfig :: "notify_config \<Rightarrow> db \<Rightarrow> (err + unit) \<times> db" where
  "SaveNotifyConfig c s =
    (let c = c\<lparr>nc_token := TrimSpace (nc_token c), nc_chat_id := TrimSpace (nc_chat_id c)\<rparr> in
     if nc_enabled c \<and> (nc_token c = [] \<or> nc_chat_id c = []) then (Inl ErrInvalid, s)
     else tx (\<lambda>s. Inr ((), fold upsert_setting (notify_values c) s)) s)"

text \<open>\<open>PanelPublic\<close> answers with the mode and whether one is saved.\<close>

definition PanelPublic :: "db \<Rightarrow> err + bool \<times> bool" where
  "PanelPublic s = (let value = settingValue ''panel_public'' s in
     if value = [] then Inr (False, False)
     else (case ParseBool value of None \<Rightarrow> Inl ErrInvalid | Some b \<Rightarrow> Inr (b, True)))"

definition SetPanelPublic :: "bool \<Rightarrow> db \<Rightarrow> (err + unit) \<times> db" where
  "SetPanelPublic b = setSettingValue (''panel_public'', FormatBool b)"

definition InstalledVersion :: "db \<Rightarrow> string" where
  "InstalledVersion s = settingValue ''installed_version'' s"

definition SetInstalledVersion :: "string \<Rightarrow> db \<Rightarrow> (err + unit) \<times> db" where
  "SetInstalledVersion v s = (if v = [] then (Inl ErrInvalid, s) else setSettingValue (''installed_version'', v) s)"

definition ServerPrivateKey :: "db \<Rightarrow> string" where
  "ServerPrivateKey s = settingValue ''wg_server_private_key'' s"

definition SetServerPrivateKey :: "string \<Rightarrow> db \<Rightarrow> (err + unit) \<times> db" where
  "SetServerPrivateKey k s = (if k = [] then (Inl ErrInvalid, s)
     else tx (\<lambda>s. Inr ((), upsert_setting (''wg_server_private_key'', k) s)) s)"

section \<open>Frames\<close>

text \<open>The contract of a call that writes some keys of \<open>settings\<close> and possibly sessions, and nothing else.\<close>

definition side_write :: "string set \<Rightarrow> db \<Rightarrow> db \<Rightarrow> bool" where
  "side_write ks s s' \<longleftrightarrow> db_tunnels s' = db_tunnels s \<and> db_rules s' = db_rules s \<and> db_peers s' = db_peers s \<and>
     db_checks s' = db_checks s \<and> db_warp s' = db_warp s \<and> db_identity s' = db_identity s \<and> db_creds s' = db_creds s \<and>
     distinct (map fst (db_settings s')) \<and> distinct (map sr_token_hash (db_sessions s')) \<and>
     (\<forall>k. k \<notin> ks \<longrightarrow> map_of (db_settings s') k = map_of (db_settings s) k) \<and>
     filter (\<lambda>kx. fst kx \<notin> ks) (db_settings s') = filter (\<lambda>kx. fst kx \<notin> ks) (db_settings s)"

lemma upsert_row_others:
  "filter (\<lambda>kx. fst kx \<notin> ks) (upsert_row kx rows) = filter (\<lambda>kx. fst kx \<notin> ks) rows" if "fst kx \<in> ks"
proof -
  have "filter (\<lambda>kx. fst kx \<notin> ks) (upd_where (\<lambda>r. fst r = fst kx) (\<lambda>_. kx) rows) = filter (\<lambda>kx. fst kx \<notin> ks) rows"
    using that by (induction rows) auto
  then show ?thesis using that by (simp add: upsert_row_def)
qed

lemma fold_upsert_others:
  "fst ` set kxs \<subseteq> ks \<Longrightarrow> filter (\<lambda>kx. fst kx \<notin> ks) (fold upsert_row kxs rows) = filter (\<lambda>kx. fst kx \<notin> ks) rows"
  by (induction kxs arbitrary: rows) (simp_all add: upsert_row_others)

lemma side_writeI:
  assumes "schema_ok s" "s' = s\<lparr>db_settings := fold upsert_row kxs (db_settings s), db_sessions := ws\<rparr>"
    "distinct (map fst kxs)" "fst ` set kxs \<subseteq> ks" "distinct (map sr_token_hash ws)"
  shows "side_write ks s s'"
proof -
  have d: "distinct (map fst (db_settings s))" using assms(1) by (simp add: schema_ok_def)
  note f = fold_upsert_ok [OF d assms(3)]
  have "map_of kxs k = None" if "k \<notin> ks" for k using assms(4) that by (auto simp: map_of_eq_None_iff)
  then show ?thesis
    unfolding side_write_def using f fold_upsert_others [OF assms(4), of "db_settings s"] assms(5) by (simp add: assms(2))
qed

lemma side_write_trans: "side_write ks s t \<Longrightarrow> side_write ks t u \<Longrightarrow> side_write ks s u"
  by (simp add: side_write_def)

lemma side_write_inv:
  assumes inv: "store_inv s" and w: "side_write ks s s'"
  shows "store_inv s'" "dead c n s' = dead c n s"
proof -
  show "dead c n s' = dead c n s" using w by (simp add: dead_def side_write_def)
  show "store_inv s'"
  proof (rule store_inv_frame [OF inv])
    show "schema_ok s'" using store_invD(4) [OF inv] w by (simp add: schema_ok_def side_write_def tunnel_ids_def peer_ids_def)
  qed (use w in \<open>simp_all add: side_write_def\<close>)
qed

section \<open>The contract of side calls\<close>

locale side_call =
  fixes run :: "'arg \<Rightarrow> db \<Rightarrow> (err + 'a) \<times> db" and keys :: "'arg \<Rightarrow> string set"
  assumes refused: "run x s = (Inl e, s') \<Longrightarrow> s' = s"
    and writes: "schema_ok s \<Longrightarrow> run x s = (Inr a, s') \<Longrightarrow> side_write (keys x) s s'"
begin

lemma step_writes: "schema_ok s \<Longrightarrow> side_write (keys x) s (snd (run x s))"
proof (cases "run x s"; cases "fst (run x s)")
  fix r s' e assume "schema_ok s" "run x s = (r, s')" "fst (run x s) = Inl e"
  then show ?thesis using refused [of x s e s'] by (simp add: side_write_def schema_ok_def)
next
  fix r s' a assume "schema_ok s" "run x s = (r, s')" "fst (run x s) = Inr a"
  then show ?thesis using writes [of s x a s'] by simp
qed

lemma step_reads: "schema_ok s \<Longrightarrow> k \<notin> keys x \<Longrightarrow> settingValue k (snd (run x s)) = settingValue k s"
  using step_writes [of s x] by (simp add: side_write_def settingValue_def)

end

sublocale side_call \<subseteq> admission_op run store_inv "\<lambda>_. True" "\<lambda>_. {}"
proof unfold_locales
  fix x s e s' assume "run x s = (Inl e, s')" then show "s' = s" by (rule refused)
next
  fix x s a s' c n
  assume inv: "store_inv s" and r: "run x s = (Inr a, s')"
  note w = side_write_inv [OF inv writes [OF store_invD(4) [OF inv] r]]
  show "store_inv s'" by (rule w)
  assume "dead c n s" then show "dead c n s'" by (simp add: w)
qed

text \<open>Writing sessions only, and writing keys only.\<close>

lemma sessions_side_write:
  assumes "schema_ok s" "distinct (map sr_token_hash ws)"
  shows "side_write ks s (s\<lparr>db_sessions := ws\<rparr>)"
  by (rule side_writeI [where kxs = "[]", OF assms(1) _ _ _ assms(2)]) simp_all

lemma rows_side_write:
  assumes "schema_ok s" "distinct (map fst kxs)" "fst ` set kxs \<subseteq> ks"
  shows "side_write ks s (fold upsert_setting kxs s)"
  by (rule side_writeI [OF assms(1) _ assms(2,3), of _ "db_sessions s"])
     (use assms(1) in \<open>simp_all add: fold_upsert_setting schema_ok_def\<close>)

lemma insert_session_ok:
  assumes "schema_ok s" "insert_session w s = Inr s'"
  shows "side_write ks s s'" "s' = s\<lparr>db_sessions := db_sessions s @ [w]\<rparr>"
proof -
  show s': "s' = s\<lparr>db_sessions := db_sessions s @ [w]\<rparr>" using assms(2) by (simp add: insert_session_def split: if_splits)
  have "distinct (map sr_token_hash (db_sessions s @ [w]))"
    using assms by (auto simp: insert_session_def schema_ok_def split: if_splits)
  then show "side_write ks s s'" unfolding s' by (rule sessions_side_write [OF assms(1)])
qed

lemma upsert_side_write: "schema_ok s \<Longrightarrow> fst kx \<in> ks \<Longrightarrow> side_write ks s (upsert_setting kx s)"
  using rows_side_write [of s "[kx]" ks] by simp

interpretation set_value: side_call setSettingValue "\<lambda>kx. {fst kx}"
  by unfold_locales (auto simp: setSettingValue_def tx_Inl tx_Inr intro!: upsert_side_write)

interpretation set_password: side_call SetPasswordHash "\<lambda>_. {keyPasswordHash, keyPasswordGeneration}"
proof unfold_locales
  fix x s e s' assume "SetPasswordHash x s = (Inl e, s')"
  then show "s' = s" by (cases x) (auto simp: SetPasswordHash_def tx_Inl split: if_splits)
next
  fix x s a s' assume sch: "schema_ok s" and r: "SetPasswordHash x s = (Inr a, s')"
  obtain g h where x: "x = (g, h)" by (cases x)
  have s': "s' = (fold upsert_setting [(keyPasswordHash, h), (keyPasswordGeneration, g)] s)\<lparr>db_sessions := []\<rparr>"
    using r by (simp add: x SetPasswordHash_def tx_Inr set_password_tx_def Let_def split: if_splits)
  show "side_write {keyPasswordHash, keyPasswordGeneration} s s'"
    by (rule side_writeI [OF sch s' [unfolded fold_upsert_setting]]) simp_all
qed

interpretation verified_session: side_call CreateVerifiedSession "\<lambda>_. {}"
  by unfold_locales
    (auto simp: CreateVerifiedSession_def verified_session_tx_def tx_Inl tx_Inr bindR_Inr_iff mapErr_Inr_iff split: if_splits
      intro: insert_session_ok(1))

interpretation create_session: side_call CreateSession "\<lambda>_. {}"
  by unfold_locales
    (auto simp: CreateSession_def tx_Inl tx_Inr bindR_Inr_iff mapErr_Inr_iff split: if_splits intro: insert_session_ok(1))

interpretation extend_session: side_call ExtendSession "\<lambda>_. {}"
proof unfold_locales
  fix x s a s' assume sch: "schema_ok s" and r: "ExtendSession x s = (Inr a, s')"
  obtain t e where x: "x = (t, e)" by (cases x)
  let ?ws = "upd_where (\<lambda>w. sr_token_hash w = t) (\<lambda>w. w\<lparr>sr_expires_at := Unix e\<rparr>) (db_sessions s)"
  have s': "s' = s\<lparr>db_sessions := ?ws\<rparr>" using r by (simp add: x ExtendSession_def tx_Inr)
  have "map sr_token_hash ?ws = map sr_token_hash (db_sessions s)" by (simp add: map_upd_where)
  then show "side_write {} s s'" unfolding s' using sch by (intro sessions_side_write) (simp_all add: schema_ok_def)
qed (auto simp: ExtendSession_def tx_Inl)

interpretation delete_session: side_call DeleteSession "\<lambda>_. {}"
  by unfold_locales
    (auto simp: DeleteSession_def tx_Inl tx_Inr schema_ok_def distinct_map_filter intro!: sessions_side_write)

interpretation delete_expired: side_call DeleteExpiredSessions "\<lambda>_. {}"
  by unfold_locales
    (auto simp: DeleteExpiredSessions_def tx_Inl tx_Inr schema_ok_def distinct_map_filter intro!: sessions_side_write)

interpretation reset_sessions: side_call ResetSessionsAfterRestore "\<lambda>_. {keyPasswordGeneration}"
proof unfold_locales
  fix x s a s' assume sch: "schema_ok s" and r: "ResetSessionsAfterRestore x s = (Inr a, s')"
  have s': "s' = s\<lparr>db_settings := fold upsert_row [(keyPasswordGeneration, x)] (db_settings s), db_sessions := []\<rparr>"
    using r by (auto simp: ResetSessionsAfterRestore_def tx_Inr upsert_setting_row)
  show "side_write {keyPasswordGeneration} s s'" by (rule side_writeI [OF sch s']) simp_all
qed (auto simp: ResetSessionsAfterRestore_def tx_Inl)

interpretation save_notify: side_call SaveNotifyConfig "\<lambda>_. set notify_keys"
proof unfold_locales
  fix x s a s' assume sch: "schema_ok s" and r: "SaveNotifyConfig x s = (Inr a, s')"
  let ?c = "x\<lparr>nc_token := TrimSpace (nc_token x), nc_chat_id := TrimSpace (nc_chat_id x)\<rparr>"
  have s': "s' = fold upsert_setting (notify_values ?c) s"
    using r by (simp add: SaveNotifyConfig_def tx_Inr Let_def split: if_splits)
  show "side_write (set notify_keys) s s'"
    unfolding s' by (rule rows_side_write [OF sch]) (simp_all add: notify_values_def notify_keys_def)
qed (auto simp: SaveNotifyConfig_def tx_Inl Let_def split: if_splits)

interpretation set_panel: side_call SetPanelPublic "\<lambda>_. {''panel_public''}"
  by unfold_locales (auto simp: SetPanelPublic_def dest: set_value.refused set_value.writes)

interpretation set_version: side_call SetInstalledVersion "\<lambda>_. {''installed_version''}"
  by unfold_locales (auto simp: SetInstalledVersion_def dest: set_value.refused set_value.writes split: if_splits)

interpretation set_server_key: side_call SetServerPrivateKey "\<lambda>_. {''wg_server_private_key''}"
  by unfold_locales
    (auto simp: SetServerPrivateKey_def tx_Inl tx_Inr split: if_splits intro!: upsert_side_write)


section \<open>Keys do not interfere\<close>

definition setting_keys :: "string list" where
  "setting_keys = map fst (setting_values DefaultSettings)"

lemma setting_values_keys [simp]: "map fst (setting_values v) = setting_keys"
  by (simp add: setting_keys_def setting_values_def)

lemma set_setting_foreign: "k \<notin> set setting_keys \<Longrightarrow> set_setting uni k x v = Inr v"
  by (simp add: set_setting_def setting_keys_def setting_values_def)

lemma read_settings_own:
  "read_settings uni (filter (\<lambda>kx. fst kx \<in> set setting_keys) rows) v = read_settings uni rows v"
proof (induction uni rows v rule: read_settings.induct)
  case (2 uni k x rows v)
  show ?case
  proof (cases "k \<in> set setting_keys")
    case True
    then show ?thesis using 2 by (cases "set_setting uni k x v") simp_all
  next
    case False
    then show ?thesis using 2 [of v] by (simp add: set_setting_foreign)
  qed
qed simp

lemma side_write_own:
  assumes "side_write ks s s'" "ks \<inter> A = {}"
  shows "filter (\<lambda>kx. fst kx \<in> A) (db_settings s') = filter (\<lambda>kx. fst kx \<in> A) (db_settings s)"
proof -
  have split: "filter (\<lambda>kx. fst kx \<in> A) rows = filter (\<lambda>kx. fst kx \<in> A) (filter (\<lambda>kx. fst kx \<notin> ks) rows)" for rows :: "(string \<times> string) list"
    using assms(2) by (auto intro!: filter_cong)
  have "filter (\<lambda>kx. fst kx \<notin> ks) (db_settings s') = filter (\<lambda>kx. fst kx \<notin> ks) (db_settings s)"
    using assms(1) by (simp only: side_write_def)
  then show ?thesis using split [of "db_settings s'"] split [of "db_settings s"] by metis
qed

lemma side_write_Settings: "side_write ks s s' \<Longrightarrow> ks \<inter> set setting_keys = {} \<Longrightarrow> Settings uni s' = Settings uni s"
  unfolding Settings_def using side_write_own read_settings_own by metis

text \<open>What the values outside \<open>Settings\<close> are read from.\<close>

lemma foreign_reads:
  assumes "\<And>k. k \<notin> set setting_keys \<Longrightarrow> map_of (db_settings s') k = map_of (db_settings s) k"
    "filter (\<lambda>kx. fst kx \<in> set notify_keys) (db_settings s') = filter (\<lambda>kx. fst kx \<in> set notify_keys) (db_settings s)"
  shows "PasswordState s' = PasswordState s \<and> NotifyConfig s' = NotifyConfig s \<and> PanelPublic s' = PanelPublic s \<and>
    InstalledVersion s' = InstalledVersion s \<and> ServerPrivateKey s' = ServerPrivateKey s"
proof -
  have v: "settingValue k s' = settingValue k s" if "k \<notin> set setting_keys" for k
    using assms(1) [OF that] by (simp add: settingValue_def)
  have f: "keyPasswordHash \<notin> set setting_keys" "keyPasswordGeneration \<notin> set setting_keys" "''panel_public'' \<notin> set setting_keys"
    "''installed_version'' \<notin> set setting_keys" "''wg_server_private_key'' \<notin> set setting_keys"
    by (simp_all add: setting_keys_def setting_values_def)
  show ?thesis
    unfolding PasswordState_def NotifyConfig_def PanelPublic_def InstalledVersion_def ServerPrivateKey_def
    using assms(1) [OF f(1)] v [OF f(2)] v [OF f(3)] v [OF f(4)] v [OF f(5)] assms(2) by (simp split: option.split)
qed

lemma settings_rows_foreign:
  assumes "distinct (map fst rows)"
  shows "k \<notin> set setting_keys \<Longrightarrow> map_of (fold upsert_row (setting_values v) rows) k = map_of rows k"
    "filter (\<lambda>kx. fst kx \<in> set notify_keys) (fold upsert_row (setting_values v) rows) = filter (\<lambda>kx. fst kx \<in> set notify_keys) rows"
proof -
  have keys: "fst ` set (setting_values v) = set setting_keys" by (metis set_map setting_values_keys)
  show "map_of (fold upsert_row (setting_values v) rows) k = map_of rows k" if "k \<notin> set setting_keys"
  proof -
    have "map_of (setting_values v) k = None" using that keys by (simp add: map_of_eq_None_iff)
    then show ?thesis using fold_upsert_ok [OF assms distinct_setting_keys [of v]] by simp
  qed
  let ?ks = "- set notify_keys"
  have "set setting_keys \<subseteq> ?ks" by (simp add: setting_keys_def setting_values_def notify_keys_def)
  then have "filter (\<lambda>kx. fst kx \<notin> ?ks) (fold upsert_row (setting_values v) rows) = filter (\<lambda>kx. fst kx \<notin> ?ks) rows"
    using keys by (intro fold_upsert_others) simp
  then show "filter (\<lambda>kx. fst kx \<in> set notify_keys) (fold upsert_row (setting_values v) rows) = filter (\<lambda>kx. fst kx \<in> set notify_keys) rows"
    by simp
qed

text \<open>Saving the settings touches none of the values that share their table: the password with its generation,
  the notification secrets, the panel mode, the installed version and the server key read as before.\<close>

lemma SaveSettings_keeps_secrets:
  assumes "store_inv s" "SaveSettings (env, v) s = (Inr (), s')"
  shows "PasswordState s' = PasswordState s \<and> NotifyConfig s' = NotifyConfig s \<and> PanelPublic s' = PanelPublic s \<and>
    InstalledVersion s' = InstalledVersion s \<and> ServerPrivateKey s' = ServerPrivateKey s"
proof -
  from assms(2) have ok: "saveSettings env v s = Inr s'" by (simp add: SaveSettings_Inr)
  have d: "distinct (map fst (db_settings s))" using store_invD(4) [OF assms(1)] by (simp add: schema_ok_def)
  show ?thesis
  proof (rule saveSettings_steps [OF assms(1) ok], goal_cases)
    case (1 old s1 idn)
    then have rows: "db_settings s' = fold upsert_row (setting_values v) (db_settings s)" by simp
    show ?case by (rule foreign_reads) (simp_all add: rows settings_rows_foreign [OF d])
  qed
qed


lemma SetPasswordHash_effect:
  assumes "schema_ok s" "SetPasswordHash (g, h) s = (Inr (), s')"
  shows "Session token now s' = Inl ErrNotFound" "PasswordState s' = Inr \<lparr>ps_hash = h, ps_generation = g\<rparr>"
proof -
  have s': "s' = (fold upsert_setting [(keyPasswordHash, h), (keyPasswordGeneration, g)] s)\<lparr>db_sessions := []\<rparr>" and h: "h \<noteq> []"
    using assms(2) by (auto simp: SetPasswordHash_def tx_Inr set_password_tx_def Let_def split: if_splits)
  show "Session token now s' = Inl ErrNotFound" by (simp add: s' Session_def)
  have d: "distinct (map fst (db_settings s))" using assms(1) by (simp add: schema_ok_def)
  have rows: "db_settings s' = fold upsert_row [(keyPasswordHash, h), (keyPasswordGeneration, g)] (db_settings s)"
    unfolding s' fold_upsert_setting by simp
  have "map_of (db_settings s') keyPasswordHash = Some h" "map_of (db_settings s') keyPasswordGeneration = Some g"
    unfolding rows using upsert_row_ok [OF d] upsert_row_ok(2) [OF upsert_row_ok(1) [OF d]] by simp_all
  then show "PasswordState s' = Inr \<lparr>ps_hash = h, ps_generation = g\<rparr>" using h by (simp add: PasswordState_def settingValue_def)
qed

text \<open>A password change logs everybody out: no token names a session afterwards, and the state a login
  verifies against is the new one.\<close>

lemma SetPasswordHash_logs_out:
  assumes "schema_ok s" "SetPasswordHash (g, h) s = (Inr (), s')"
  shows "(\<forall>token now. Session token now s' = Inl ErrNotFound) \<and> PasswordState s' = Inr \<lparr>ps_hash = h, ps_generation = g\<rparr>"
  using SetPasswordHash_effect [OF assms] by blast

lemma find_unique_session:
  assumes "distinct (map sr_token_hash ws)" "w \<in> set ws"
  shows "List.find (\<lambda>w'. sr_token_hash w' = sr_token_hash w \<and> P w') ws = (if P w then Some w else None)"
  using assms
proof (induction ws)
  case (Cons x ws)
  show ?case
  proof (cases "x = w")
    case True
    then have "sr_token_hash w \<notin> sr_token_hash ` set ws" using Cons.prems(1) by simp
    then have "List.find (\<lambda>w'. sr_token_hash w' = sr_token_hash w \<and> P w') ws = None" by (auto simp: find_None_iff image_iff)
    then show ?thesis using True by simp
  next
    case False
    then have "sr_token_hash x \<noteq> sr_token_hash w" using Cons.prems by auto
    then show ?thesis using Cons False by simp
  qed
qed simp

lemma Session_stored:
  assumes "schema_ok s" "w \<in> set (db_sessions s)"
  shows "Session (sr_token_hash w) now s = (if Unix now < sr_expires_at w
    then Inr \<lparr>ss_token_hash = sr_token_hash w, ss_created_at = time_Unix (sr_created_at w), ss_expires_at = time_Unix (sr_expires_at w)\<rparr>
    else Inl ErrNotFound)"
  using find_unique_session [of "db_sessions s" w "\<lambda>w. Unix now < sr_expires_at w"] assms
  by (simp add: Session_def schema_ok_def)

lemma verified_session_lookups:
  assumes "schema_ok s" "CreateVerifiedSession (ss, st) s = (Inr (), s')" "early \<le> now"
  shows "is_ok (Session (ss_token_hash ss) now (snd (DeleteExpiredSessions early s'))) \<longleftrightarrow> Unix now < Unix (ss_expires_at ss)"
    "is_ok (Session (ss_token_hash ss) now (snd (ExtendSession (ss_token_hash ss, later) s'))) \<longleftrightarrow> Unix now < Unix later"
    "Session (ss_token_hash ss) now (snd (DeleteSession (ss_token_hash ss) s')) = Inl ErrNotFound"
proof -
  let ?w = "session_args ss"
  have ins: "insert_session ?w s = Inr s'"
    using assms(2) by (auto simp: CreateVerifiedSession_def verified_session_tx_def tx_Inr bindR_Inr_iff mapErr_Inr_iff split: if_splits)
  have sch': "schema_ok s'" "db_sessions s' = db_sessions s @ [?w]"
    using insert_session_ok [OF assms(1) ins] assms(1) by (auto simp: side_write_def schema_ok_def)
  have w: "?w \<in> set (db_sessions s')" "sr_token_hash ?w = ss_token_hash ss" by (simp_all add: sch' session_args_def)
  have le: "Unix early \<le> Unix now" using assms(3) by (simp add: Unix_def zdiv_mono1)
  show "is_ok (Session (ss_token_hash ss) now (snd (DeleteExpiredSessions early s'))) \<longleftrightarrow> Unix now < Unix (ss_expires_at ss)"
  proof -
    have "(\<lambda>x. \<not> sr_expires_at x \<le> Unix early \<and> sr_token_hash x = ss_token_hash ss \<and> Unix now < sr_expires_at x)
        = (\<lambda>x. sr_token_hash x = ss_token_hash ss \<and> Unix now < sr_expires_at x)"
      using le by auto
    then have "List.find (\<lambda>x. \<not> sr_expires_at x \<le> Unix early \<and> sr_token_hash x = ss_token_hash ss \<and> Unix now < sr_expires_at x) (db_sessions s')
        = List.find (\<lambda>x. sr_token_hash x = ss_token_hash ss \<and> Unix now < sr_expires_at x) (db_sessions s')"
      by (rule arg_cong)
    then have "Session (ss_token_hash ss) now (snd (DeleteExpiredSessions early s')) = Session (ss_token_hash ss) now s'"
      by (simp add: Session_def DeleteExpiredSessions_def tx_def find_filter)
    then show ?thesis using Session_stored [OF sch'(1) w(1), of now] w(2) by (simp add: session_args_def)
  qed
  show "is_ok (Session (ss_token_hash ss) now (snd (ExtendSession (ss_token_hash ss, later) s'))) \<longleftrightarrow> Unix now < Unix later"
  proof -
    let ?s = "snd (ExtendSession (ss_token_hash ss, later) s')"
    have sch: "schema_ok ?s"
      using extend_session.step_writes [OF sch'(1), of "(ss_token_hash ss, later)"] sch'(1)
      by (simp add: side_write_def schema_ok_def tunnel_ids_def peer_ids_def)
    have "?w\<lparr>sr_expires_at := Unix later\<rparr> \<in> set (db_sessions ?s)"
      using w by (auto simp: ExtendSession_def tx_def set_upd_where image_iff)
    from Session_stored [OF sch this, of now] w(2) show ?thesis by (simp add: session_args_def)
  qed
  show "Session (ss_token_hash ss) now (snd (DeleteSession (ss_token_hash ss) s')) = Inl ErrNotFound"
    by (auto simp: Session_def DeleteSession_def tx_def find_None_iff split: option.split dest: find_Some_iff [THEN iffD1])
qed


text \<open>A verified login is honoured until its deadline and not beyond, whatever cleaning of expired sessions
  runs meanwhile; extending moves the deadline, and logging out ends it at once.\<close>

lemma session_lifetime:
  assumes "schema_ok s" "CreateVerifiedSession (ss, st) s = (Inr (), s')" "early \<le> now"
  shows "(is_ok (Session (ss_token_hash ss) now (snd (DeleteExpiredSessions early s'))) \<longleftrightarrow> Unix now < Unix (ss_expires_at ss)) \<and>
    (is_ok (Session (ss_token_hash ss) now (snd (ExtendSession (ss_token_hash ss, later) s'))) \<longleftrightarrow> Unix now < Unix later) \<and>
    Session (ss_token_hash ss) now (snd (DeleteSession (ss_token_hash ss) s')) = Inl ErrNotFound"
  using verified_session_lookups [OF assms] by blast

definition demo_auth_db :: db where
  "demo_auth_db = snd (SetPasswordHash (''g1'', ''h1'') empty_db)"

definition demo_login :: "session \<times> password_state" where
  "demo_login = (\<lparr>ss_token_hash = ''t'', ss_created_at = 0, ss_expires_at = 10 ^ 10\<rparr>, \<lparr>ps_hash = ''h1'', ps_generation = ''g1''\<rparr>)"

lemma demo_auth_schema: "schema_ok demo_auth_db"
  using set_password.step_writes [OF schema_ok_empty, of "(''g1'', ''h1'')"] schema_ok_empty
  by (simp add: demo_auth_db_def side_write_def schema_ok_def tunnel_ids_def peer_ids_def)

lemma notify_own: "fold set_notify (filter (\<lambda>kx. fst kx \<in> set notify_keys) rows) c = fold set_notify rows c"
  by (induction rows arbitrary: c) (simp_all add: set_notify_def notify_keys_def)

lemma set_notify_fields:
  "nc_enabled (set_notify kx c) = (if fst kx = ''notify_enabled'' then snd kx = ''1'' else nc_enabled c)"
  "nc_token (set_notify kx c) = (if fst kx = ''notify_telegram_token'' then snd kx else nc_token c)"
  "nc_chat_id (set_notify kx c) = (if fst kx = ''notify_telegram_chat_id'' then snd kx else nc_chat_id c)"
  by (simp_all add: set_notify_def)

lemma notify_fields:
  assumes "distinct (map fst rows)"
  shows "nc_enabled (fold set_notify rows c) = (case map_of rows ''notify_enabled'' of None \<Rightarrow> nc_enabled c | Some x \<Rightarrow> x = ''1'')"
    "nc_token (fold set_notify rows c) = (case map_of rows ''notify_telegram_token'' of None \<Rightarrow> nc_token c | Some x \<Rightarrow> x)"
    "nc_chat_id (fold set_notify rows c) = (case map_of rows ''notify_telegram_chat_id'' of None \<Rightarrow> nc_chat_id c | Some x \<Rightarrow> x)"
proof -
  have "nc_enabled (fold set_notify rows c) = (case map_of rows ''notify_enabled'' of None \<Rightarrow> nc_enabled c | Some x \<Rightarrow> x = ''1'') \<and>
    nc_token (fold set_notify rows c) = (case map_of rows ''notify_telegram_token'' of None \<Rightarrow> nc_token c | Some x \<Rightarrow> x) \<and>
    nc_chat_id (fold set_notify rows c) = (case map_of rows ''notify_telegram_chat_id'' of None \<Rightarrow> nc_chat_id c | Some x \<Rightarrow> x)"
    using assms
  proof (induction rows arbitrary: c)
    case (Cons kx rows)
    have none: "map_of rows (fst kx) = None" using Cons.prems by (simp add: map_of_eq_None_iff)
    obtain k x where kx: "kx = (k, x)" by (cases kx)
    show ?case
      using Cons.IH [of "set_notify kx c"] Cons.prems none by (auto simp: set_notify_fields kx split: option.splits)
  qed simp
  then show "nc_enabled (fold set_notify rows c) = (case map_of rows ''notify_enabled'' of None \<Rightarrow> nc_enabled c | Some x \<Rightarrow> x = ''1'')"
    "nc_token (fold set_notify rows c) = (case map_of rows ''notify_telegram_token'' of None \<Rightarrow> nc_token c | Some x \<Rightarrow> x)"
    "nc_chat_id (fold set_notify rows c) = (case map_of rows ''notify_telegram_chat_id'' of None \<Rightarrow> nc_chat_id c | Some x \<Rightarrow> x)"
    by blast+
qed

text \<open>Notification settings read back as they were saved, trimmed; the form that could not send anything
  is refused, so what is stored as enabled is ready to send.\<close>

lemma SaveNotifyConfig_roundtrip:
  assumes "schema_ok s" "SaveNotifyConfig c s = (Inr (), s')"
  shows "NotifyConfig s' = c\<lparr>nc_token := TrimSpace (nc_token c), nc_chat_id := TrimSpace (nc_chat_id c)\<rparr> \<and>
    (nc_enabled (NotifyConfig s') \<longrightarrow> Ready (NotifyConfig s'))"
proof -
  let ?c = "c\<lparr>nc_token := TrimSpace (nc_token c), nc_chat_id := TrimSpace (nc_chat_id c)\<rparr>"
  have s': "s' = fold upsert_setting (notify_values ?c) s" and ok: "\<not> (nc_enabled ?c \<and> (nc_token ?c = [] \<or> nc_chat_id ?c = []))"
    using assms(2) by (auto simp: SaveNotifyConfig_def tx_Inr Let_def split: if_splits)
  have d: "distinct (map fst (db_settings s))" using assms(1) by (simp add: schema_ok_def)
  have "distinct (map fst (notify_values ?c))" by (simp add: notify_values_def)
  note f = fold_upsert_ok [OF d this]
  have rows: "db_settings s' = fold upsert_row (notify_values ?c) (db_settings s)" by (simp add: s' fold_upsert_setting)
  have d': "distinct (map fst (db_settings s'))" and m: "\<And>k. map_of (db_settings s') k = (case map_of (notify_values ?c) k of Some x \<Rightarrow> Some x | None \<Rightarrow> map_of (db_settings s) k)"
    using f by (simp_all add: rows)
  have "NotifyConfig s' = ?c"
    unfolding NotifyConfig_def notify_own
    by (rule notify_config.equality) (simp_all add: notify_fields [OF d'] m notify_values_def)
  then show ?thesis using ok by (simp add: Ready_def)
qed

end
