(* ===== verification/Store_Steps.thy ===== *)
theory Store_Steps
  imports Store_Auth
begin

text \<open>
  Any sequence of calls to the store.  A call is one operation of the earlier theories with its arguments; a
  run is a list of calls, each of which may be refused.  Two things must never come back along a run: a
  credential revision that was revoked, and the password state that a pending login verified before a reset.
\<close>

section \<open>Calls that keep password generations apart\<close>

text \<open>Further contract of an operation: unless it draws the generation \<open>g\<close>, it does not make \<open>g\<close> current.\<close>

locale login_op = store_op run inv ok
  for run :: "'arg \<Rightarrow> db \<Rightarrow> (err + 'a) \<times> db" and inv :: "db \<Rightarrow> bool" and ok :: "'arg \<Rightarrow> bool" +
  fixes gens :: "'arg \<Rightarrow> string set"
  assumes gen_kept: "inv s \<Longrightarrow> ok x \<Longrightarrow> run x s = (Inr a, s') \<Longrightarrow> g \<notin> gens x \<Longrightarrow>
    settingValue keyPasswordGeneration s \<noteq> g \<Longrightarrow> settingValue keyPasswordGeneration s' \<noteq> g"
begin

lemma step_gen: "inv s \<Longrightarrow> ok x \<Longrightarrow> g \<notin> gens x \<Longrightarrow> settingValue keyPasswordGeneration s \<noteq> g \<Longrightarrow>
    settingValue keyPasswordGeneration (snd (run x s)) \<noteq> g"
  by (rule lift_step) (rule gen_kept)

end

text \<open>An operation that leaves the table \<open>settings\<close> alone.\<close>

locale quiet_op = store_op run inv ok
  for run :: "'arg \<Rightarrow> db \<Rightarrow> (err + 'a) \<times> db" and inv :: "db \<Rightarrow> bool" and ok :: "'arg \<Rightarrow> bool" +
  assumes quiet: "inv s \<Longrightarrow> ok x \<Longrightarrow> run x s = (Inr a, s') \<Longrightarrow> db_settings s' = db_settings s"

sublocale quiet_op \<subseteq> login_op run inv ok "\<lambda>_. {}"
proof unfold_locales
  fix s x a s' g
  assume "inv s" "ok x" "run x s = (Inr a, s')" "settingValue keyPasswordGeneration s \<noteq> g"
  then show "settingValue keyPasswordGeneration s' \<noteq> g" using quiet [of s x a s'] by (simp add: settingValue_def)
qed

lemma creds_peers_only_settings: "creds_peers_only s s' \<Longrightarrow> db_settings s' = db_settings s"
  by (erule creds_peers_only_sel)

lemma detach_refs_settings: "db_settings (snd (detach_refs i rs acc)) = db_settings (snd acc)"
  by (induction i rs acc rule: detach_refs.induct) auto

lemma collapse_extra_settings: "collapse_extra ts acc = Inr (out, s') \<Longrightarrow> db_settings s' = db_settings (snd acc)"
proof (induction ts acc rule: collapse_extra.induct)
  case (2 t ts acc)
  obtain o1 s1 where d: "detachRulesFromTunnel (t_id t) acc = (o1, s1)" by (cases "detachRulesFromTunnel (t_id t) acc")
  have s1: "db_settings s1 = db_settings (snd acc)"
    using d detach_refs_settings by (cases acc) (simp add: detachRulesFromTunnel_def, metis snd_conv)
  from 2(2) d obtain n s2 where r: "delete_tunnel_row (t_id t) s1 = Inr (n, s2)"
    and c: "collapse_extra ts (o1\<lparr>bp_removed_extra := bp_removed_extra o1 @ [t_name t]\<rparr>, s2) = Inr (out, s')"
    by (auto simp: bindR_Inr_iff mapErr_Inr_iff)
  have "db_settings s2 = db_settings s1" using r by (auto simp: delete_tunnel_row_def split: if_splits)
  with 2(1) [OF refl d [symmetric] c] s1 show ?case by simp
qed simp

lemma ensure_pool_settings: "ensure_pool_tx nid now url typ s = Inr (out, s') \<Longrightarrow> db_settings s' = db_settings s"
  by (auto simp: ensure_pool_tx_def collapseBuiltinPools_def Let_def insert_tunnel_def rename_tunnel_def bindR_Inr_iff mapErr_Inr_iff
      split: if_splits sum.splits sql_err.splits dest!: collapse_extra_settings)

interpretation create_rule_q: quiet_op CreateRule store_inv "\<lambda>_. True"
proof unfold_locales
  fix s x a s' assume inv: "store_inv s" and r: "CreateRule x s = (Inr a, s')"
  obtain i q where x: "x = (i, q)" by (cases x)
  from r have "create_rule_tx (if r_id q = [] then q\<lparr>r_id := i\<rparr> else q) s = Inr (a, s')" by (simp add: x CreateRule_Inr)
  from create_rule_tx_ok(3) [OF store_invD(1) [OF inv] this] show "db_settings s' = db_settings s" by simp
qed

interpretation update_rule_q: quiet_op UpdateRule store_inv "\<lambda>_. True"
proof unfold_locales
  fix s x a s' assume inv: "store_inv s" and r: "UpdateRule x s = (Inr a, s')"
  then have t: "update_rule_tx x s = Inr (a, s')" by (simp add: UpdateRule_Inr)
  show "db_settings s' = db_settings s" by (rule update_rule_tx_ok [OF store_invD(1) [OF inv] t]) simp
qed

lemma rules_only_settings: "s' = s\<lparr>db_rules := rs\<rparr> \<Longrightarrow> db_settings s' = db_settings s"
  by simp

interpretation delete_rule_q: quiet_op DeleteRule store_inv "\<lambda>_. True"
proof unfold_locales
  fix s x a s' assume inv: "store_inv s" and r: "DeleteRule x s = (Inr a, s')"
  then have t: "delete_rule_tx x s = Inr (a, s')" by (simp add: DeleteRule_def tx_Inr)
  show "db_settings s' = db_settings s" by (rule rules_only_settings [OF delete_rule_tx_ok(2) [OF store_invD(1) [OF inv] t]])
qed

interpretation reorder_rules_q: quiet_op ReorderRules store_inv "\<lambda>_. True"
proof unfold_locales
  fix s x a s' assume inv: "store_inv s" and r: "ReorderRules x s = (Inr a, s')"
  then have t: "reorder_rules_tx x s = Inr (a, s')" by (simp add: ReorderRules_def tx_Inr)
  show "db_settings s' = db_settings s"
    by (rule rules_only_settings) (use reorder_rules_tx_ok(2) [OF store_invD(1) [OF inv] t] in \<open>elim conjE\<close>)
qed

interpretation create_peer_q: quiet_op CreatePeer store_inv create_peer_args_ok
proof unfold_locales
  fix s x a s' assume inv: "store_inv s" and ok: "create_peer_args_ok x" and r: "CreatePeer x s = (Inr a, s')"
  obtain d p where x: "x = (d, p)" by (cases x)
  have new: "dr_credential d \<noteq> []" "p_id (new_peer d p) \<noteq> []"
    "p_reality_credential_id (new_peer d p) = []" "p_reality_revision (new_peer d p) = 0"
    using ok by (simp_all add: x create_peer_args_ok_def new_peer_def)
  from r have t: "create_peer_tx (dr_credential d) (dr_uuid d) (new_peer d p) s = Inr (a, s')" by (simp add: x CreatePeer_Inr)
  show "db_settings s' = db_settings s" by (rule creds_peers_only_sel(3) [OF create_peer_tx_ok(6) [OF inv new t]])
qed

interpretation update_peer_q: quiet_op UpdatePeer store_inv "\<lambda>_. True"
proof unfold_locales
  fix s x a s' assume inv: "store_inv s" and r: "UpdatePeer x s = (Inr a, s')"
  then have t: "update_peer_tx x s = Inr (a, s')" by (auto simp: UpdatePeer_def tx_Inr split: sum.splits if_splits)
  from update_peer_tx_ok(3) [OF inv t] show "db_settings s' = db_settings s" by simp
qed

interpretation patch_peer_q: quiet_op PatchPeer store_inv patch_peer_args_ok
proof unfold_locales
  fix s x a s' assume inv: "store_inv s" and ok: "patch_peer_args_ok x" and r: "PatchPeer x s = (Inr a, s')"
  obtain d us i q where x: "x = (d, us, i, q)" by (cases x) auto
  from r have t: "patch_peer_tx d us i q s = Inr (a, s')" by (simp add: x PatchPeer_def tx_Inr)
  from ok have "dr_credential d \<noteq> []" by (simp add: x patch_peer_args_ok_def)
  from patch_peer_tx_ok [OF inv this t] show "db_settings s' = db_settings s" by (metis creds_peers_only_sel(3))
qed

interpretation delete_peer_q: quiet_op DeletePeerWithEffects store_inv "\<lambda>_. True"
proof unfold_locales
  fix s x a s' assume inv: "store_inv s" and r: "DeletePeerWithEffects x s = (Inr a, s')"
  then show "db_settings s' = db_settings s"
    by (auto simp: DeletePeerWithEffects_def tx_Inr delete_peer_tx_eq [OF store_invD(1) [OF inv]] delete_peer_row_def split: if_splits)
qed

interpretation create_tunnel_q: quiet_op CreateTunnel store_inv "\<lambda>_. True"
  by unfold_locales (auto simp: CreateTunnel_Inr insert_tunnel_def split: if_splits)

interpretation update_tunnel_q: quiet_op UpdateTunnel store_inv "\<lambda>_. True"
proof unfold_locales
  fix s x a s' assume inv: "store_inv s" and r: "UpdateTunnel x s = (Inr a, s')"
  then have t: "update_tunnel_tx x s = Inr (a, s')" by (simp add: UpdateTunnel_Inr)
  from update_tunnel_tx_ok(3) [OF store_invD(4) [OF inv] t] show "db_settings s' = db_settings s" by simp
qed

interpretation update_pool_q: quiet_op UpdateTunnelPool store_inv "\<lambda>_. True"
  by unfold_locales (auto simp: UpdateTunnelPool_def update_pool_tx_def tx_Inr bindR_Inr_iff Let_def)

interpretation delete_tunnel_q: quiet_op DeleteTunnel store_inv "\<lambda>_. True"
  by unfold_locales (auto simp: DeleteTunnel_def tx_Inr delete_tunnel_tx_Inr delete_tunnel_row_def split: if_splits)

interpretation ensure_pool_q: quiet_op EnsureBuiltinPool store_inv "\<lambda>_. True"
  by unfold_locales (auto simp: EnsureBuiltinPool_def tx_Inr split: if_splits dest: ensure_pool_settings)

interpretation create_warp_q: quiet_op CreateWARPTunnel store_inv "\<lambda>_. True"
  by unfold_locales
    (auto simp: CreateWARPTunnel_def create_warp_tx_def insert_tunnel_def insert_warp_def tx_Inr bindR_Inr_iff mapErr_Inr_iff Let_def
      split: if_splits sum.splits)

interpretation save_check_q: quiet_op SaveTunnelCheck store_inv "\<lambda>_. True"
  by unfold_locales (auto simp: SaveTunnelCheck_def save_check_tx_def upsert_check_def tx_Inr bindR_Inr_iff mapErr_Inr_iff split: if_splits)

interpretation set_notified_q: quiet_op SetNotifiedStatus store_inv "\<lambda>_. True"
  by unfold_locales (auto simp: SetNotifiedStatus_def set_notified_tx_def tx_Inr bindR_Inr_iff)

interpretation rotate_q: quiet_op RotateReality store_inv "\<lambda>_. True"
proof unfold_locales
  fix s x a s' assume inv: "store_inv s" and r: "RotateReality x s = (Inr a, s')"
  obtain u i n where x: "x = (u, i, n)" by (cases x) auto
  from r have t: "rotate_tx u i n s = Inr (a, s')" by (simp add: x RotateReality_def tx_Inr)
  show "db_settings s' = db_settings s"
    by (rule rotate_is_invalidate [OF inv t]) (rule creds_peers_only_sel(3) [OF invalidateReality_ok(5) [OF store_invD(4) [OF inv]]])
qed


text \<open>Calls on the side tables keep the generation unless it is one of their keys.\<close>

locale side_login = side_call run keys
  for run :: "'arg \<Rightarrow> db \<Rightarrow> (err + 'a) \<times> db" and keys :: "'arg \<Rightarrow> string set" +
  assumes no_generation: "keyPasswordGeneration \<notin> keys x"

sublocale side_login \<subseteq> login_op run store_inv "\<lambda>_. True" "\<lambda>_. {}"
proof unfold_locales
  fix s x a s' g
  assume "store_inv s" "run x s = (Inr a, s')" "settingValue keyPasswordGeneration s \<noteq> g"
  then show "settingValue keyPasswordGeneration s' \<noteq> g"
    using step_reads [OF store_invD(4) no_generation, of s x] by simp
qed

interpretation verified_session_l: side_login CreateVerifiedSession "\<lambda>_. {}" by unfold_locales simp
interpretation create_session_l: side_login CreateSession "\<lambda>_. {}" by unfold_locales simp
interpretation extend_session_l: side_login ExtendSession "\<lambda>_. {}" by unfold_locales simp
interpretation delete_session_l: side_login DeleteSession "\<lambda>_. {}" by unfold_locales simp
interpretation delete_expired_l: side_login DeleteExpiredSessions "\<lambda>_. {}" by unfold_locales simp
interpretation save_notify_l: side_login SaveNotifyConfig "\<lambda>_. set notify_keys" by unfold_locales (simp add: notify_keys_def)
interpretation set_panel_l: side_login SetPanelPublic "\<lambda>_. {''panel_public''}" by unfold_locales simp
interpretation set_version_l: side_login SetInstalledVersion "\<lambda>_. {''installed_version''}" by unfold_locales simp
interpretation set_server_key_l: side_login SetServerPrivateKey "\<lambda>_. {''wg_server_private_key''}" by unfold_locales simp

lemma saveSettings_generation:
  assumes inv: "store_inv s" and ok: "saveSettings env v s = Inr s'"
  shows "settingValue keyPasswordGeneration s' = settingValue keyPasswordGeneration s"
proof (rule saveSettings_steps [OF inv ok], goal_cases)
  case (1 old s1 idn)
  have d: "distinct (map fst (db_settings s))" using store_invD(4) [OF inv] by (simp add: schema_ok_def)
  from 1(5,7) have "db_settings s' = fold upsert_row (setting_values v) (db_settings s)" by simp
  moreover have "keyPasswordGeneration \<notin> set setting_keys" by (simp add: setting_keys_def setting_values_def)
  ultimately show ?case using settings_rows_foreign(1) [OF d, of keyPasswordGeneration v] by (simp add: settingValue_def)
qed

interpretation save_settings_l: login_op SaveSettings store_inv "\<lambda>_. True" "\<lambda>_. {}"
proof unfold_locales
  fix s x a s' g assume inv: "store_inv s" and r: "SaveSettings x s = (Inr a, s')" and g: "settingValue keyPasswordGeneration s \<noteq> g"
  obtain env v where x: "x = (env, v)" by (cases x)
  from r have "saveSettings env v s = Inr s'" by (simp add: x SaveSettings_Inr)
  from saveSettings_generation [OF inv this] g show "settingValue keyPasswordGeneration s' \<noteq> g" by simp
qed

interpretation update_settings_l: login_op UpdateSettings store_inv "\<lambda>_. True" "\<lambda>_. {}"
proof unfold_locales
  fix s x a s' g assume inv: "store_inv s" and r: "UpdateSettings x s = (Inr a, s')" and g: "settingValue keyPasswordGeneration s \<noteq> g"
  obtain env f where x: "x = (env, f)" by (cases x)
  obtain b c where a: "a = (b, c)" by (cases a)
  from r have "saveSettings env c s = Inr s'" unfolding x a UpdateSettings_Inr by blast
  from saveSettings_generation [OF inv this] g show "settingValue keyPasswordGeneration s' \<noteq> g" by simp
qed

interpretation reset_reality_l: login_op ResetRealityAfterRestore store_inv "\<lambda>_. True" "\<lambda>_. {}"
proof unfold_locales
  fix s x a s' g assume inv: "store_inv s" and r: "ResetRealityAfterRestore x s = (Inr a, s')" and g: "settingValue keyPasswordGeneration s \<noteq> g"
  have d: "distinct (map fst (db_settings s))" using store_invD(4) [OF inv] by (simp add: schema_ok_def)
  from r have "db_settings s' = upsert_row (''reality_enabled'', ''false'') (db_settings s)"
    by (auto simp: ResetRealityAfterRestore_def tx_Inr reset_tx_eq reset_state_def)
  then show "settingValue keyPasswordGeneration s' \<noteq> g" using upsert_row_ok(2) [OF d] g by (simp add: settingValue_def)
qed

interpretation set_password_l: login_op SetPasswordHash store_inv "\<lambda>_. True" "\<lambda>x. {fst x}"
proof unfold_locales
  fix s x a s' g assume inv: "store_inv s" and r: "SetPasswordHash x s = (Inr a, s')" and g: "g \<notin> {fst x}"
  obtain g' h where x: "x = (g', h)" by (cases x)
  from SetPasswordHash_effect(2) [OF store_invD(4) [OF inv] r [unfolded x unit_eq [of a]]]
  show "settingValue keyPasswordGeneration s' \<noteq> g" using g by (auto simp: PasswordState_def x split: option.splits if_splits)
qed

interpretation reset_sessions_l: login_op ResetSessionsAfterRestore store_inv "\<lambda>_. True" "\<lambda>x. {x}"
proof unfold_locales
  fix s x a s' g assume inv: "store_inv s" and r: "ResetSessionsAfterRestore x s = (Inr a, s')" and g: "g \<notin> {x}"
  have d: "distinct (map fst (db_settings s))" using store_invD(4) [OF inv] by (simp add: schema_ok_def)
  from r have "db_settings s' = upsert_row (keyPasswordGeneration, x) (db_settings s)"
    by (auto simp: ResetSessionsAfterRestore_def tx_Inr upsert_setting_row)
  then show "settingValue keyPasswordGeneration s' \<noteq> g" using upsert_row_ok(2) [OF d] g by (simp add: settingValue_def)
qed


section \<open>Runs\<close>

datatype store_call =
  CreateRule_call "string \<times> rule"
| UpdateRule_call "rule"
| DeleteRule_call "string"
| ReorderRules_call "string list"
| CreatePeer_call "draws \<times> peer"
| UpdatePeer_call "peer"
| PatchPeer_call "draws \<times> (nat \<Rightarrow> string) \<times> string \<times> peer_patch"
| DeletePeerWithEffects_call "string"
| CreateTunnel_call "string \<times> time \<times> tunnel"
| UpdateTunnel_call "tunnel"
| UpdateTunnelPool_call "string \<times> pool_server list \<times> time"
| DeleteTunnel_call "string"
| EnsureBuiltinPool_call "string \<times> time \<times> string \<times> string"
| CreateWARPTunnel_call "string \<times> time \<times> tunnel \<times> warp_registration"
| SaveTunnelCheck_call "string \<times> string \<times> time \<times> time"
| SetNotifiedStatus_call "string \<times> string"
| SaveSettings_call "save_env \<times> settings"
| UpdateSettings_call "save_env \<times> (settings \<Rightarrow> settings)"
| RotateReality_call "string \<times> string \<times> int"
| ResetRealityAfterRestore_call "unit"
| SetPasswordHash_call "string \<times> string"
| ResetSessionsAfterRestore_call "string"
| CreateVerifiedSession_call "session \<times> password_state"
| CreateSession_call "session"
| ExtendSession_call "string \<times> time"
| DeleteSession_call "string"
| DeleteExpiredSessions_call "time"
| SaveNotifyConfig_call "notify_config"
| SetPanelPublic_call "bool"
| SetInstalledVersion_call "string"
| SetServerPrivateKey_call "string"

text \<open>The state after a call, refused or not.\<close>

fun call :: "store_call \<Rightarrow> db \<Rightarrow> db" where
  "call (CreateRule_call x) s = snd (CreateRule x s)"
| "call (UpdateRule_call x) s = snd (UpdateRule x s)"
| "call (DeleteRule_call x) s = snd (DeleteRule x s)"
| "call (ReorderRules_call x) s = snd (ReorderRules x s)"
| "call (CreatePeer_call x) s = snd (CreatePeer x s)"
| "call (UpdatePeer_call x) s = snd (UpdatePeer x s)"
| "call (PatchPeer_call x) s = snd (PatchPeer x s)"
| "call (DeletePeerWithEffects_call x) s = snd (DeletePeerWithEffects x s)"
| "call (CreateTunnel_call x) s = snd (CreateTunnel x s)"
| "call (UpdateTunnel_call x) s = snd (UpdateTunnel x s)"
| "call (UpdateTunnelPool_call x) s = snd (UpdateTunnelPool x s)"
| "call (DeleteTunnel_call x) s = snd (DeleteTunnel x s)"
| "call (EnsureBuiltinPool_call x) s = snd (EnsureBuiltinPool x s)"
| "call (CreateWARPTunnel_call x) s = snd (CreateWARPTunnel x s)"
| "call (SaveTunnelCheck_call x) s = snd (SaveTunnelCheck x s)"
| "call (SetNotifiedStatus_call x) s = snd (SetNotifiedStatus x s)"
| "call (SaveSettings_call x) s = snd (SaveSettings x s)"
| "call (UpdateSettings_call x) s = snd (UpdateSettings x s)"
| "call (RotateReality_call x) s = snd (RotateReality x s)"
| "call (ResetRealityAfterRestore_call x) s = snd (ResetRealityAfterRestore x s)"
| "call (SetPasswordHash_call x) s = snd (SetPasswordHash x s)"
| "call (ResetSessionsAfterRestore_call x) s = snd (ResetSessionsAfterRestore x s)"
| "call (CreateVerifiedSession_call x) s = snd (CreateVerifiedSession x s)"
| "call (CreateSession_call x) s = snd (CreateSession x s)"
| "call (ExtendSession_call x) s = snd (ExtendSession x s)"
| "call (DeleteSession_call x) s = snd (DeleteSession x s)"
| "call (DeleteExpiredSessions_call x) s = snd (DeleteExpiredSessions x s)"
| "call (SaveNotifyConfig_call x) s = snd (SaveNotifyConfig x s)"
| "call (SetPanelPublic_call x) s = snd (SetPanelPublic x s)"
| "call (SetInstalledVersion_call x) s = snd (SetInstalledVersion x s)"
| "call (SetServerPrivateKey_call x) s = snd (SetServerPrivateKey x s)"

text \<open>What a call relies on: identifiers it draws are not empty.  And what it draws: credential identifiers,
  password generations.\<close>

fun call_ok :: "store_call \<Rightarrow> bool" where
  "call_ok (CreatePeer_call x) = create_peer_args_ok x"
| "call_ok (PatchPeer_call x) = patch_peer_args_ok x"
| "call_ok _ = True"

fun minted :: "store_call \<Rightarrow> string set" where
  "minted (CreatePeer_call x) = {dr_credential (fst x)}"
| "minted (PatchPeer_call x) = {dr_credential (fst x)}"
| "minted _ = {}"

fun generations :: "store_call \<Rightarrow> string set" where
  "generations (SetPasswordHash_call x) = {fst x}"
| "generations (ResetSessionsAfterRestore_call x) = {x}"
| "generations _ = {}"

inductive store_run :: "store_call list \<Rightarrow> db \<Rightarrow> db \<Rightarrow> bool" where
  idle: "store_run [] s s"
| step: "call_ok c \<Longrightarrow> store_run cs (call c s) s' \<Longrightarrow> store_run (c # cs) s s'"

inductive_cases store_run_ConsE: "store_run (c # cs) s s'"
inductive_simps store_run_simps: "store_run [] s s'" "store_run (c # cs) s s'"

lemmas steps_inv = create_rule_adm.step_inv update_rule_adm.step_inv delete_rule_adm.step_inv reorder_rules_adm.step_inv
  create_peer.step_inv update_peer.step_inv patch_peer.step_inv delete_peer.step_inv create_tunnel.step_inv
  update_tunnel.step_inv update_pool.step_inv delete_tunnel.step_inv ensure_pool.step_inv create_warp.step_inv
  save_check.step_inv set_notified.step_inv save_settings.step_inv update_settings.step_inv rotate.step_inv
  reset.step_inv set_password.step_inv reset_sessions.step_inv verified_session.step_inv create_session.step_inv
  extend_session.step_inv delete_session.step_inv delete_expired.step_inv save_notify.step_inv set_panel.step_inv
  set_version.step_inv set_server_key.step_inv

lemmas steps_dead = create_rule_adm.step_dead update_rule_adm.step_dead delete_rule_adm.step_dead reorder_rules_adm.step_dead
  create_peer.step_dead update_peer.step_dead patch_peer.step_dead delete_peer.step_dead create_tunnel.step_dead
  update_tunnel.step_dead update_pool.step_dead delete_tunnel.step_dead ensure_pool.step_dead create_warp.step_dead
  save_check.step_dead set_notified.step_dead save_settings.step_dead update_settings.step_dead rotate.step_dead
  reset.step_dead set_password.step_dead reset_sessions.step_dead verified_session.step_dead create_session.step_dead
  extend_session.step_dead delete_session.step_dead delete_expired.step_dead save_notify.step_dead set_panel.step_dead
  set_version.step_dead set_server_key.step_dead

lemmas steps_gen = create_rule_q.step_gen update_rule_q.step_gen delete_rule_q.step_gen reorder_rules_q.step_gen create_peer_q.step_gen
  update_peer_q.step_gen patch_peer_q.step_gen delete_peer_q.step_gen create_tunnel_q.step_gen update_tunnel_q.step_gen
  update_pool_q.step_gen delete_tunnel_q.step_gen ensure_pool_q.step_gen create_warp_q.step_gen save_check_q.step_gen
  set_notified_q.step_gen save_settings_l.step_gen update_settings_l.step_gen rotate_q.step_gen reset_reality_l.step_gen
  set_password_l.step_gen reset_sessions_l.step_gen verified_session_l.step_gen create_session_l.step_gen
  extend_session_l.step_gen delete_session_l.step_gen delete_expired_l.step_gen save_notify_l.step_gen
  set_panel_l.step_gen set_version_l.step_gen set_server_key_l.step_gen

lemma call_inv: "store_inv s \<Longrightarrow> call_ok c \<Longrightarrow> store_inv (call c s)"
  by (cases c) (simp_all add: steps_inv)

lemma call_dead: "store_inv s \<Longrightarrow> call_ok c \<Longrightarrow> dead i n s \<Longrightarrow> i \<notin> minted c \<Longrightarrow> dead i n (call c s)"
  by (cases c) (simp_all add: steps_dead)

lemma call_gen: "store_inv s \<Longrightarrow> call_ok c \<Longrightarrow> settingValue keyPasswordGeneration s \<noteq> g \<Longrightarrow> g \<notin> generations c \<Longrightarrow>
    settingValue keyPasswordGeneration (call c s) \<noteq> g"
  by (cases c) (simp_all add: steps_gen)

lemma run_inv: "store_run cs s s' \<Longrightarrow> store_inv s \<Longrightarrow> store_inv s'"
  by (induction rule: store_run.induct) (simp_all add: call_inv)

lemma run_dead:
  "store_run cs s s' \<Longrightarrow> store_inv s \<Longrightarrow> dead i n s \<Longrightarrow> \<forall>c \<in> set cs. i \<notin> minted c \<Longrightarrow> dead i n s'"
  by (induction rule: store_run.induct) (simp_all add: call_inv call_dead)

lemma run_gen:
  "store_run cs s s' \<Longrightarrow> store_inv s \<Longrightarrow> settingValue keyPasswordGeneration s \<noteq> g \<Longrightarrow> \<forall>c \<in> set cs. g \<notin> generations c \<Longrightarrow>
    settingValue keyPasswordGeneration s' \<noteq> g"
  by (induction rule: store_run.induct) (simp_all add: call_inv call_gen)

section \<open>Properties of runs\<close>

lemma filter_key_single: "distinct (map f xs) \<Longrightarrow> x \<in> set xs \<Longrightarrow> filter (\<lambda>y. f y = f x) xs = [x]"
  by (induction xs) (auto simp: filter_empty_conv image_iff)

lemma reachable_facts:
  assumes "store_run cs empty_db s"
  shows "schema_ok s" "map r_priority (Rules s) = map int [0..<length (Rules s)]"
    "\<forall>r \<in> set (Rules s). r_peer_scope r = ScopeSelected \<longrightarrow>
       distinct (r_peer_ids r) \<and> set (r_peer_ids r) \<subseteq> p_id ` set (Peers s) \<and> (r_enabled r \<longrightarrow> r_peer_ids r \<noteq> [])"
    "\<forall>p \<in> set (Peers s). p_reality_enabled p \<longrightarrow> (\<exists>k. filter (\<lambda>k. kr_peer_id k = p_id p) (db_creds s) = [k] \<and>
       kr_credential_id k = p_reality_credential_id p \<and> kr_revision k = p_reality_revision p)"
proof -
  have inv: "store_inv s" using run_inv [OF assms store_inv_empty] .
  show "schema_ok s" using store_invD(4) [OF inv] .
  show "map r_priority (Rules s) = map int [0..<length (Rules s)]" using Rules_priorities [OF store_invD(1) [OF inv]] .
  have pids: "p_id ` set (Peers s) = peer_ids s" by (simp add: set_Peers peer_ids_def image_image)
  show "\<forall>r \<in> set (Rules s). r_peer_scope r = ScopeSelected \<longrightarrow>
       distinct (r_peer_ids r) \<and> set (r_peer_ids r) \<subseteq> p_id ` set (Peers s) \<and> (r_enabled r \<longrightarrow> r_peer_ids r \<noteq> [])"
    unfolding pids using store_invD(3) [OF inv] by (auto simp: Rules_def selection_inv_def selection_ok_def)
  show "\<forall>p \<in> set (Peers s). p_reality_enabled p \<longrightarrow> (\<exists>k. filter (\<lambda>k. kr_peer_id k = p_id p) (db_creds s) = [k] \<and>
       kr_credential_id k = p_reality_credential_id p \<and> kr_revision k = p_reality_revision p)"
  proof (intro ballI impI)
    fix p assume "p \<in> set (Peers s)" and en: "p_reality_enabled p"
    then obtain w where w: "w \<in> set (db_peers s)" and p: "p = scanPeer w" by (auto simp: set_Peers)
    from en have e: "pr_reality_enabled w" by (simp add: p scanPeer_def)
    show "\<exists>k. filter (\<lambda>k. kr_peer_id k = p_id p) (db_creds s) = [k] \<and>
       kr_credential_id k = p_reality_credential_id p \<and> kr_revision k = p_reality_revision p"
    proof (rule enabled_cred [OF inv w e], goal_cases)
      case (1 k)
      have "distinct (map kr_peer_id (db_creds s))" using store_invD(4) [OF inv] by (simp add: schema_ok_def creds_ok_def)
      then have "filter (\<lambda>q. kr_peer_id q = kr_peer_id k) (db_creds s) = [k]" using 1(1) by (rule filter_key_single)
      then show ?case using 1(2-4) by (intro exI [of _ k]) (simp add: p)
    qed
  qed
qed

text \<open>C3: whatever calls are made and in whatever order, starting from a new database: every key and reference
  holds, the rules are numbered densely from zero, a rule for selected clients names existing ones and is never
  enabled with none, and a client with access has exactly one credential, whose identifier and revision it carries.\<close>

theorem reachable_invariant:
  assumes "store_run cs empty_db s"
  shows "schema_ok s \<and> map r_priority (Rules s) = map int [0..<length (Rules s)] \<and>
    (\<forall>r \<in> set (Rules s). r_peer_scope r = ScopeSelected \<longrightarrow>
       distinct (r_peer_ids r) \<and> set (r_peer_ids r) \<subseteq> p_id ` set (Peers s) \<and> (r_enabled r \<longrightarrow> r_peer_ids r \<noteq> [])) \<and>
    (\<forall>p \<in> set (Peers s). p_reality_enabled p \<longrightarrow> (\<exists>k. filter (\<lambda>k. kr_peer_id k = p_id p) (db_creds s) = [k] \<and>
       kr_credential_id k = p_reality_credential_id p \<and> kr_revision k = p_reality_revision p))"
  using reachable_facts [OF assms] by blast

theorem reachable_invariant_witness:
  "map r_priority (Rules (call (CreatePeer_call (demo_draws, demo_peer ''p'')) empty_db)) = []"
proof -
  have "store_run [CreatePeer_call (demo_draws, demo_peer ''p'')] empty_db (call (CreatePeer_call (demo_draws, demo_peer ''p'')) empty_db)"
    using demo_args_ok by (simp add: store_run_simps)
  from reachable_invariant [OF this] have "map r_priority (Rules (call (CreatePeer_call (demo_draws, demo_peer ''p'')) empty_db))
      = map int [0..<length (Rules (call (CreatePeer_call (demo_draws, demo_peer ''p'')) empty_db))]" by blast
  moreover have "length (Rules (call (CreatePeer_call (demo_draws, demo_peer ''p'')) empty_db)) = 0" by code_simp
  ultimately show ?thesis by simp
qed

text \<open>C1: revocation is final.  Once the credential is past a revision, no later call in any order (short of
  drawing the same random identifier again) lets a snapshot that admitted at most that revision of it bring
  its client back into the runtime.\<close>

theorem revoked_never_admitted:
  assumes "store_inv s" "dead c n s" "store_run cs s s'" "\<forall>x \<in> set cs. c \<notin> minted x"
    "\<forall>a \<in> set (sn_reality_admissions snap). ad_peer_id a = i \<longrightarrow> ad_credential_id a = c \<and> ad_revision a \<le> n"
    "RealityRuntime uni derive snap s' = Inr rt"
  shows "i \<notin> us_peer_id ` set (rt_users rt)"
proof
  assume "i \<in> us_peer_id ` set (rt_users rt)"
  then obtain u where u: "u \<in> set (rt_users rt)" "us_peer_id u = i" by blast
  have d: "dead c n s'" using run_dead [OF assms(3,1,2,4)] .
  show False
  proof (rule RealityRuntime_users [OF assms(6) u(1)], goal_cases)
    case (1 v k a w)
    then have "ad_peer_id a = i" using u(2) by simp
    with 1(11) have "ad_credential_id a = c" "ad_revision a \<le> n" using assms(5) by blast+
    then have "kr_credential_id k = c" "kr_revision k \<le> n" using 1(13,14) by simp_all
    then show ?case using 1(4) d by (force simp: dead_def)
  qed
qed

definition demo_revoked :: db where
  "demo_revoked = snd (RotateReality (''u7'', ''p'', 1) demo_on)"

theorem revoked_never_admitted_witness:
  "\<exists>rt. RealityRuntime id demo_derive demo_snap (call (DeleteRule_call ''r'') demo_revoked) = Inr rt \<and> ''p'' \<notin> us_peer_id ` set (rt_users rt)"
proof -
  let ?s = "call (DeleteRule_call ''r'') demo_revoked"
  have inv: "store_inv demo_revoked" unfolding demo_revoked_def by (rule rotate.step_inv [OF demo_on_inv]) simp
  have d: "dead ''c1'' 1 demo_revoked" by code_simp
  have run: "store_run [DeleteRule_call ''r''] demo_revoked ?s" by (simp add: store_run_simps)
  have ad: "sn_reality_admissions demo_snap = [\<lparr>ad_peer_id = ''p'', ad_credential_id = ''c1'', ad_revision = 1\<rparr>]" by code_simp
  have "is_ok (RealityRuntime id demo_derive demo_snap ?s)" by code_simp
  then obtain rt where rt: "RealityRuntime id demo_derive demo_snap ?s = Inr rt" by (auto simp: is_ok_iff)
  have "''p'' \<notin> us_peer_id ` set (rt_users rt)"
    by (rule revoked_never_admitted [OF inv d run _ _ rt]) (simp_all add: ad)
  with rt show ?thesis by blast
qed

text \<open>C2: a login that verified the password before a reset never succeeds after it: whatever runs between the reset
  and the attempt, unless the old generation, 32 random bytes, is drawn again, the session is not created.\<close>

theorem stale_login_rejected:
  assumes "store_inv s" "SetPasswordHash (g, h) s = (Inr (), s1)" "store_run cs s1 s2"
    "ps_generation st \<noteq> g" "\<forall>x \<in> set cs. ps_generation st \<notin> generations x"
    "ps_hash st \<noteq> []" "ss_token_hash ss \<noteq> []" "ss_created_at ss < ss_expires_at ss"
  shows "CreateVerifiedSession (ss, st) s2 = (Inl ErrPasswordChanged, s2)"
proof -
  have inv: "store_inv s1" using set_password.step_inv [OF assms(1), of "(g, h)"] by (simp add: assms(2))
  from SetPasswordHash_effect(2) [OF store_invD(4) [OF assms(1)] assms(2)]
  have "settingValue keyPasswordGeneration s1 = g" by (auto simp: PasswordState_def split: option.splits if_splits)
  then have "settingValue keyPasswordGeneration s1 \<noteq> ps_generation st" using assms(4) by simp
  from run_gen [OF assms(3) inv this assms(5)] have "\<not> password_matches st s2" by (auto simp: password_matches_def)
  then show ?thesis using assms(6-8) by (simp add: CreateVerifiedSession_def verified_session_tx_def tx_def)
qed

theorem stale_login_rejected_witness:
  "CreateVerifiedSession demo_login (call (SetPanelPublic_call True) (snd (SetPasswordHash (''g2'', ''h1'') demo_auth_db)))
     = (Inl ErrPasswordChanged, call (SetPanelPublic_call True) (snd (SetPasswordHash (''g2'', ''h1'') demo_auth_db)))"
proof -
  have inv: "store_inv demo_auth_db" unfolding demo_auth_db_def by (rule set_password.step_inv [OF store_inv_empty]) simp
  have "fst (SetPasswordHash (''g2'', ''h1'') demo_auth_db) = Inr ()" by code_simp
  note r = run_pair [OF this]
  have run: "store_run [SetPanelPublic_call True] (snd (SetPasswordHash (''g2'', ''h1'') demo_auth_db))
      (call (SetPanelPublic_call True) (snd (SetPasswordHash (''g2'', ''h1'') demo_auth_db)))"
    by (simp add: store_run_simps)
  show ?thesis unfolding demo_login_def by (rule stale_login_rejected [OF inv r run]) simp_all
qed

end
