(* ===== verification/Qr_Field.thy ===== *)
theory Qr_Field
  imports Prelude "HOL-Library.Word"
begin

unbundle bit_operations_syntax

text \<open>
  The arithmetic of \<open>internal/qr/qr.go\<close>: the tables of GF(256), multiplication by logarithms, the generator
  polynomial and the Reed-Solomon remainder.  A byte is an \<open>8 word\<close>; polynomials are lists of coefficients,
  highest power first, as the slices of the source.  Multiplication is shown to be that of the field
  (against shift-and-add), and a block with its remainder to be a code word.
\<close>

type_synonym byte = "8 word"

section \<open>Tables\<close>

text \<open>One turn of the table loop: the variable \<open>x\<close> is an \<open>int\<close>.\<close>

definition gf_next :: "int \<Rightarrow> int" where
  "gf_next x = (let x = push_bit 1 x in if x AND 0x100 \<noteq> 0 then x XOR 0x11d else x)"

fun gf_loop :: "nat \<Rightarrow> nat \<Rightarrow> int \<Rightarrow> byte list \<times> byte list \<Rightarrow> byte list \<times> byte list" where
  "gf_loop 0 i x tabs = tabs"
| "gf_loop (Suc n) i x (exp, log) = gf_loop n (Suc i) (gf_next x) (exp[i := word_of_int x], log[nat x := of_nat i])"

text \<open>The second loop: \<open>exp[i] = exp[i-255]\<close> for \<open>i\<close> from 255 to 511.\<close>

definition gf_copy :: "byte list \<Rightarrow> byte list" where
  "gf_copy exp = fold (\<lambda>i e. e[i := e ! (i - 255)]) [255..<512] exp"

definition gf_tables :: "byte list \<times> byte list" where
  "gf_tables = gf_loop 255 0 1 (replicate 512 0, replicate 256 0)"

definition gfExp :: "byte list" where
  "gfExp = gf_copy (fst gf_tables)"

definition gfLog :: "byte list" where
  "gfLog = snd gf_tables"

definition gfMul :: "byte \<Rightarrow> byte \<Rightarrow> byte" where
  "gfMul a b = (if a = 0 \<or> b = 0 then 0 else gfExp ! (unat (gfLog ! unat a) + unat (gfLog ! unat b)))"

section \<open>Polynomials\<close>

text \<open>One turn of \<open>genPoly\<close>: multiply by \<open>x + gfExp[i]\<close>.\<close>

definition gen_turn :: "byte list \<Rightarrow> nat \<Rightarrow> byte list" where
  "gen_turn p i = fold (\<lambda>j r. let r = r[j := (r ! j) XOR (p ! j)] in r[j + 1 := (r ! (j + 1)) XOR gfMul (p ! j) (gfExp ! i)])
     [0..<length p] (replicate (length p + 1) 0)"

definition genPoly :: "nat \<Rightarrow> byte list" where
  "genPoly n = fold (\<lambda>i p. gen_turn p i) [0..<n] [1]"

text \<open>One turn of \<open>rsRemainder\<close>: clear the coefficient at \<open>i\<close>.\<close>

definition rs_turn :: "byte list \<Rightarrow> nat \<Rightarrow> byte list \<Rightarrow> byte list" where
  "rs_turn gen i res = (let c = res ! i in if c = 0 then res
     else fold (\<lambda>j r. r[i + j := (r ! (i + j)) XOR gfMul (gen ! j) c]) [0..<length gen] res)"

definition rsRemainder :: "byte list \<Rightarrow> nat \<Rightarrow> byte list" where
  "rsRemainder data ecLen = (let gen = genPoly ecLen in
     drop (length data) (fold (rs_turn gen) [0..<length data] (data @ replicate ecLen 0)))"

section \<open>The field\<close>

text \<open>Multiplication by the generator, and shift-and-add multiplication as the specification.\<close>

definition xtime :: "byte \<Rightarrow> byte" where
  "xtime a = push_bit 1 a XOR (if bit a 7 then 0x1d else 0)"

definition gf_ref :: "byte \<Rightarrow> byte \<Rightarrow> byte" where
  "gf_ref a b = foldr (\<lambda>i acc. xtime acc XOR (if bit a i then b else 0)) [0..<8] 0"

lemma xtime_xor: "xtime (a XOR b) = xtime a XOR xtime b"
  by (simp add: xtime_def bit_xor_iff push_bit_xor xor.assoc xor.left_commute xor.commute)

lemma xtime_0 [simp]: "xtime 0 = 0"
  by (simp add: xtime_def)

lemma xtime_pow_0 [simp]: "(xtime ^^ n) 0 = 0"
  by (induction n) simp_all

lemma xtime_pow_xor: "(xtime ^^ n) (a XOR b) = (xtime ^^ n) a XOR (xtime ^^ n) b"
  by (induction n) (simp_all add: xtime_xor)

text \<open>Additive functions on bytes that agree on the eight powers of two agree.\<close>

lemma byte_bits:
  "(b :: byte) = (if bit b 0 then 1 else 0) XOR (if bit b 1 then 2 else 0) XOR (if bit b 2 then 4 else 0) XOR (if bit b 3 then 8 else 0) XOR
     (if bit b 4 then 16 else 0) XOR (if bit b 5 then 32 else 0) XOR (if bit b 6 then 64 else 0) XOR (if bit b 7 then 128 else 0)"
proof (rule bit_word_eqI)
  fix n assume "n < LENGTH(8)"
  then have "n \<in> {0, 1, 2, 3, 4, 5, 6, 7}" by auto
  then show "bit b n = bit ((if bit b 0 then 1 else 0 :: byte) XOR (if bit b 1 then 2 else 0) XOR (if bit b 2 then 4 else 0) XOR (if bit b 3 then 8 else 0) XOR
     (if bit b 4 then 16 else 0) XOR (if bit b 5 then 32 else 0) XOR (if bit b 6 then 64 else 0) XOR (if bit b 7 then 128 else 0)) n"
    by (elim insertE) (simp_all add: bit_xor_iff)
qed

lemma byte_linear:
  fixes b :: byte and f g :: "byte \<Rightarrow> byte"
  assumes f: "\<And>a b. f (a XOR b) = f a XOR f b" "f 0 = 0" and g: "\<And>a b. g (a XOR b) = g a XOR g b" "g 0 = 0"
    and basis: "\<forall>x \<in> set [1, 2, 4, 8, 16, 32, 64, 128]. f x = g x"
  shows "f b = g b"
proof -
  have dist: "h (if p then x else 0) = (if p then h x else 0)" if "h 0 = 0" for h :: "byte \<Rightarrow> byte" and p x using that by simp
  obtain p0 p1 p2 p3 p4 p5 p6 p7 where b: "b = (if p0 then 1 else 0) XOR (if p1 then 2 else 0) XOR (if p2 then 4 else 0) XOR
      (if p3 then 8 else 0) XOR (if p4 then 16 else 0) XOR (if p5 then 32 else 0) XOR (if p6 then 64 else 0) XOR (if p7 then 128 else 0)"
    using byte_bits [of b] by blast
  show ?thesis using basis unfolding b f(1) g(1) dist [of f, OF f(2)] dist [of g, OF g(2)] by simp
qed

lemma xtime_pow_small: "(xtime ^^ 8) b = xtime (xtime (xtime (xtime (xtime (xtime (xtime (xtime b)))))))"
  "(xtime ^^ 4) b = xtime (xtime (xtime (xtime b)))" "(xtime ^^ 3) b = xtime (xtime (xtime b))" "(xtime ^^ 2) b = xtime (xtime b)"
  by (simp_all add: eval_nat_numeral)

lemma xtime_8: "(xtime ^^ 8) b = (xtime ^^ 4) b XOR (xtime ^^ 3) b XOR (xtime ^^ 2) b XOR b"
proof (rule byte_linear [where f = "xtime ^^ 8" and g = "\<lambda>b. (xtime ^^ 4) b XOR (xtime ^^ 3) b XOR (xtime ^^ 2) b XOR b"])
  show "\<forall>x \<in> set [1, 2, 4, 8, 16, 32, 64, 128]. (xtime ^^ 8) x = (xtime ^^ 4) x XOR (xtime ^^ 3) x XOR (xtime ^^ 2) x XOR x"
    unfolding xtime_pow_small by (simp add: xtime_def)
qed (simp_all add: xtime_pow_xor xor.assoc xor.left_commute xor.commute)

subsection \<open>The generator has order 255\<close>

lemma xor_eq_0 [simp]: "a XOR b = 0 \<longleftrightarrow> a = b" for a b :: byte
proof
  assume "a XOR b = 0"
  then have "(a XOR b) XOR b = b" by simp
  then show "a = b" by (simp add: xor.assoc)
qed simp

lemma xtime_inj: "xtime a = xtime b \<Longrightarrow> a = b"
proof -
  assume eq: "xtime a = xtime b"
  have "xtime (a XOR b) = 0" using eq by (simp add: xtime_xor)
  then have z: "push_bit 1 (a XOR b) = (if bit (a XOR b) 7 then 0x1d else 0)" by (simp only: xtime_def xor_eq_0)
  have "\<not> bit (a XOR b) 7"
  proof
    assume "bit (a XOR b) 7"
    then have "bit (push_bit 1 (a XOR b)) 0 = bit (0x1d :: byte) 0" using z by simp
    moreover have "\<not> bit (push_bit 1 (a XOR b)) 0" by (subst bit_push_bit_iff) simp
    moreover have "bit (0x1d :: byte) 0" by simp
    ultimately show False by blast
  qed
  then have "push_bit 1 (a XOR b) = 0" using z by simp
  have "a XOR b = 0"
  proof (rule bit_word_eqI)
    fix n assume n: "n < LENGTH(8)"
    show "bit (a XOR b) n = bit 0 n"
    proof (cases "n = 7")
      case True then show ?thesis using \<open>\<not> bit (a XOR b) 7\<close> by simp
    next
      case False
      then have "bit (push_bit 1 (a XOR b)) (Suc n) = bit (a XOR b) n" using n by (subst bit_push_bit_iff) simp
      then show ?thesis using \<open>push_bit 1 (a XOR b) = 0\<close> by simp
    qed
  qed
  then show "a = b" by simp
qed

lemma xtime_pow_inj: "(xtime ^^ n) a = (xtime ^^ n) b \<Longrightarrow> a = b"
  by (induction n) (auto dest: xtime_inj)

lemma xtime_pow_nonzero: "a \<noteq> 0 \<Longrightarrow> (xtime ^^ n) a \<noteq> 0"
  using xtime_pow_inj [of n a 0] by auto

lemma xtime_pow_15: "(xtime ^^ 15) b =
    xtime (xtime (xtime (xtime (xtime (xtime (xtime (xtime (xtime (xtime (xtime (xtime (xtime (xtime (xtime b))))))))))))))"
  by (simp add: eval_nat_numeral)

lemma xtime_chain:
  "(xtime ^^ 15) 1 = 38"
  "(xtime ^^ 15) 38 = 96"
  "(xtime ^^ 15) 96 = 193"
  "(xtime ^^ 15) 193 = 185"
  "(xtime ^^ 15) 185 = 15"
  "(xtime ^^ 15) 15 = 223"
  "(xtime ^^ 15) 223 = 26"
  "(xtime ^^ 15) 26 = 59"
  "(xtime ^^ 15) 59 = 169"
  "(xtime ^^ 15) 169 = 85"
  "(xtime ^^ 15) 85 = 145"
  "(xtime ^^ 15) 145 = 150"
  "(xtime ^^ 15) 150 = 100"
  "(xtime ^^ 15) 100 = 89"
  "(xtime ^^ 15) 89 = 36"
  "(xtime ^^ 15) 36 = 44"
  "(xtime ^^ 15) 44 = 1"
  unfolding xtime_pow_15 by (simp_all add: xtime_def)

lemma chain_17:
  fixes f :: "byte \<Rightarrow> byte"
  assumes "f 1 = 38" "f 38 = 96" "f 96 = 193" "f 193 = 185" "f 185 = 15" "f 15 = 223" "f 223 = 26" "f 26 = 59" "f 59 = 169"
    "f 169 = 85" "f 85 = 145" "f 145 = 150" "f 150 = 100" "f 100 = 89" "f 89 = 36" "f 36 = 44" "f 44 = 1"
  shows "(f ^^ 17) 1 = 1" "(f ^^ 5) 1 = 15" "(f ^^ 3) 1 = 193"
  using assms by (simp_all add: eval_nat_numeral)

lemma xtime_pow_chain: "(xtime ^^ 255) 1 = 1" "(xtime ^^ 75) 1 = 15" "(xtime ^^ 45) 1 = 193"
proof -
  note c = chain_17 [of "xtime ^^ 15", OF xtime_chain]
  show "(xtime ^^ 255) 1 = 1" using c(1) by (simp add: funpow_mult)
  show "(xtime ^^ 75) 1 = 15" using c(2) by (simp add: funpow_mult)
  show "(xtime ^^ 45) 1 = 193" using c(3) by (simp add: funpow_mult)
qed

lemma xtime_pow_6_10: "(xtime ^^ 6) b = xtime (xtime (xtime (xtime (xtime (xtime b)))))"
  "(xtime ^^ 10) b = xtime (xtime (xtime (xtime (xtime (xtime (xtime (xtime (xtime (xtime b)))))))))"
  by (simp_all add: eval_nat_numeral)

lemma xtime_order: "(xtime ^^ 85) 1 \<noteq> 1" "(xtime ^^ 51) 1 \<noteq> 1" "(xtime ^^ 15) 1 \<noteq> 1"
proof -
  have "(xtime ^^ (10 + 75)) 1 = (xtime ^^ 10) 15" by (simp only: funpow_add comp_def xtime_pow_chain)
  also have "\<dots> = 214" unfolding xtime_pow_6_10 by (simp add: xtime_def)
  finally show "(xtime ^^ 85) 1 \<noteq> 1" by simp
  have "(xtime ^^ (6 + 45)) 1 = (xtime ^^ 6) 193" by (simp only: funpow_add comp_def xtime_pow_chain)
  also have "\<dots> = 10" unfolding xtime_pow_6_10 by (simp add: xtime_def)
  finally show "(xtime ^^ 51) 1 \<noteq> 1" by simp
  show "(xtime ^^ 15) 1 \<noteq> 1" by (simp add: xtime_chain)
qed

text \<open>A divisor of 255 that divides none of its maximal proper divisors.\<close>

lemma dvd_255:
  assumes "\<not> g dvd 85" "\<not> g dvd 51" "\<not> g dvd 15" "g dvd (255 :: nat)"
  shows "g = 255"
proof -
  have "g \<le> 255" using assms(4) by (simp add: dvd_imp_le)
  moreover have "list_all (\<lambda>g. g dvd 85 \<or> g dvd 51 \<or> g dvd 15 \<or> \<not> g dvd (255 :: nat)) [0..<255]" by code_simp
  ultimately show ?thesis using assms by (cases "g = 255") (auto simp: list_all_iff)
qed

lemma xtime_pow_commute: "(xtime ^^ m) ((xtime ^^ n) a) = (xtime ^^ n) ((xtime ^^ m) a)"
proof -
  have "(xtime ^^ m) ((xtime ^^ n) a) = (xtime ^^ (m + n)) a" by (simp add: funpow_add)
  also have "m + n = n + m" by simp
  also have "(xtime ^^ (n + m)) a = (xtime ^^ n) ((xtime ^^ m) a)" by (simp add: funpow_add)
  finally show ?thesis .
qed

lemma xtime_period_mult: "(xtime ^^ m) 1 = 1 \<Longrightarrow> (xtime ^^ (m * k)) 1 = 1"
  by (induction k) (simp_all add: funpow_add)

lemma xtime_period_gcd:
  assumes "(xtime ^^ m) 1 = 1" "(xtime ^^ n) 1 = 1"
  shows "(xtime ^^ gcd m n) 1 = 1"
proof (cases "m = 0")
  case False
  from bezout_nat [OF this, of n] obtain x y where xy: "m * x = n * y + gcd m n" by blast
  have "1 = (xtime ^^ (n * y + gcd m n)) 1" using xtime_period_mult [OF assms(1), of x] xy by simp
  also have "\<dots> = (xtime ^^ gcd m n) ((xtime ^^ (n * y)) 1)" by (simp add: funpow_add xtime_pow_commute)
  finally show ?thesis using xtime_period_mult [OF assms(2), of y] by simp
qed (use assms in simp)

lemma xtime_period_255: assumes "(xtime ^^ d) 1 = 1" shows "255 dvd d"
proof -
  let ?g = "gcd d 255"
  have g: "(xtime ^^ ?g) 1 = 1" using xtime_period_gcd [OF assms xtime_pow_chain(1)] .
  have "\<not> ?g dvd 85" "\<not> ?g dvd 51" "\<not> ?g dvd 15"
    using xtime_period_mult [OF g] xtime_order by (auto elim!: dvdE) 
  moreover have "?g dvd 255" by simp
  ultimately have "?g = 255" by (rule dvd_255)
  then show ?thesis by (metis gcd_dvd1)
qed

lemma xtime_powers_distinct: "m < 255 \<Longrightarrow> n < 255 \<Longrightarrow> (xtime ^^ m) 1 = (xtime ^^ n) 1 \<Longrightarrow> m = n"
proof (induction m n rule: linorder_wlog)
  case (le m n)
  have "(xtime ^^ n) 1 = (xtime ^^ (m + (n - m))) 1" using le(1) by simp
  also have "\<dots> = (xtime ^^ m) ((xtime ^^ (n - m)) 1)" by (simp only: funpow_add comp_def)
  finally have "(xtime ^^ n) 1 = (xtime ^^ m) ((xtime ^^ (n - m)) 1)" .
  then have "(xtime ^^ (n - m)) 1 = 1" using le(4) xtime_pow_inj by metis
  then have "255 dvd n - m" by (rule xtime_period_255)
  then show ?case using le by (auto dest: dvd_imp_le)
next
  case (sym m n)
  then show ?case by simp
qed

lemma xtime_powers_cover: assumes "a \<noteq> 0" obtains n where "n < 255" "(xtime ^^ n) 1 = a"
proof -
  let ?P = "(\<lambda>n. (xtime ^^ n) 1) ` {..<255}"
  have "inj_on (\<lambda>n. (xtime ^^ n) 1) {..<255}" using xtime_powers_distinct by (auto intro: inj_onI)
  then have "card ?P = 255" by (simp add: card_image)
  moreover have "?P \<subseteq> UNIV - {0}" using xtime_pow_nonzero [of 1] by auto
  moreover have "card (UNIV - {0 :: byte}) = 255" by (simp add: card_word)
  moreover have "finite (UNIV - {0 :: byte})" by simp
  ultimately have "?P = UNIV - {0}" by (metis card_subset_eq)
  then have "a \<in> ?P" using assms by blast
  then show thesis using that by blast
qed

subsection \<open>The tables\<close>

lemma gf_next_xtime: "gf_next (uint w) = uint (xtime w)" for w :: byte
proof -
  have c: "push_bit 1 (uint w) AND 0x100 \<noteq> 0 \<longleftrightarrow> bit w 7"
  proof -
    have "push_bit 1 (uint w) AND 2 ^ 8 = 0 \<longleftrightarrow> \<not> bit (push_bit 1 (uint w)) 8" by (rule and_exp_eq_0_iff_not_bit)
    then show ?thesis by (simp add: bit_push_bit_iff bit_uint_iff del: push_bit_Suc)
  qed
  note c = c c [unfolded One_nat_def]
  have "bit (gf_next (uint w)) n = bit (uint (xtime w)) n" for n
  proof (cases "n < 9")
    case True
    then have "n \<in> {0, 1, 2, 3, 4, 5, 6, 7, 8}" by auto
    then show ?thesis
      by (elim insertE; cases "bit w 7") (simp_all add: gf_next_def Let_def c xtime_def bit_xor_iff bit_push_bit_iff bit_uint_iff del: push_bit_Suc)
  next
    case False
    have "take_bit 9 (0x11d :: int) = 0x11d" by simp
    then have "\<not> bit (0x11d :: int) n" using False by (metis bit_take_bit_iff)
    then show ?thesis
      using False by (auto simp: gf_next_def Let_def c bit_xor_iff bit_push_bit_iff bit_uint_iff simp del: push_bit_Suc)
  qed
  then show ?thesis by (rule bit_eqI)
qed

lemma byte_less: "unat a < 256" for a :: byte
  using unsigned_less [where 'a = nat, of a] by simp

abbreviation (input) "gpow n \<equiv> (xtime ^^ n) (1 :: byte)"

lemma gf_loop_ok:
  assumes "gf_loop n i (uint (gpow i)) (exp, log) = (exp', log')" "i + n \<le> 255" "length exp = 512" "length log = 256"
  shows "length exp' = 512 \<and> length log' = 256 \<and>
    (\<forall>k < 512. exp' ! k = (if i \<le> k \<and> k < i + n then gpow k else exp ! k)) \<and>
    (\<forall>k < 255. log' ! unat (gpow k) = (if i \<le> k \<and> k < i + n then of_nat k else log ! unat (gpow k)))"
  using assms
proof (induction n arbitrary: i exp log)
  case (Suc n)
  let ?e = "exp[i := gpow i]" and ?l = "log[unat (gpow i) := of_nat i]"
  have step: "gf_loop (Suc n) i (uint (gpow i)) (exp, log) = gf_loop n (Suc i) (uint (gpow (Suc i))) (?e, ?l)"
    by (simp add: gf_next_xtime)
  have ih: "length exp' = 512 \<and> length log' = 256 \<and>
    (\<forall>k < 512. exp' ! k = (if Suc i \<le> k \<and> k < Suc i + n then gpow k else ?e ! k)) \<and>
    (\<forall>k < 255. log' ! unat (gpow k) = (if Suc i \<le> k \<and> k < Suc i + n then of_nat k else ?l ! unat (gpow k)))"
    by (rule Suc.IH) (use Suc.prems step in simp_all)
  have i: "i < 255" using Suc.prems(2) by simp
  have l: "?l ! unat (gpow k) = (if k = i then of_nat i else log ! unat (gpow k))" if "k < 255" for k
  proof (cases "k = i")
    case True then show ?thesis using Suc.prems(4) byte_less [of "gpow k"] by simp
  next
    case False
    then have "gpow k \<noteq> gpow i" using xtime_powers_distinct [OF that i] by blast
    then have "unat (gpow i) \<noteq> unat (gpow k)" by (metis unsigned_word_eqI)
    then show ?thesis using False by (simp add: nth_list_update_neq)
  qed
  have e: "?e ! k = (if k = i then gpow i else exp ! k)" if "k < 512" for k
    using that Suc.prems(3) by (auto simp: nth_list_update)
  show ?case using ih l e by (auto simp del: funpow.simps)
qed auto

lemma fold_copy:
  assumes "m + n \<le> length e" "\<forall>k < m. e ! k = gpow k" "255 \<le> m"
  shows "length (fold (\<lambda>i e. e[i := e ! (i - 255)]) [m..<m + n] e) = length e \<and>
    (\<forall>k < m + n. fold (\<lambda>i e. e[i := e ! (i - 255)]) [m..<m + n] e ! k = gpow k)"
  using assms
proof (induction n)
  case (Suc n)
  let ?f = "fold (\<lambda>i e. e[i := e ! (i - 255)]) [m..<m + n] e"
  have ih: "length ?f = length e" "\<forall>k < m + n. ?f ! k = gpow k" using Suc by simp_all
  have "gpow (m + n) = gpow (m + n - 255)"
  proof -
    have "gpow (m + n) = (xtime ^^ (m + n - 255 + 255)) 1" using Suc.prems(3) by simp
    also have "\<dots> = gpow (m + n - 255)" by (simp only: funpow_add comp_def xtime_pow_chain(1))
    finally show ?thesis .
  qed
  then show ?case using ih Suc.prems by (auto simp: nth_list_update less_Suc_eq)
qed simp

lemma gf_tables_ok:
  shows gfExp_nth: "k < 512 \<Longrightarrow> gfExp ! k = gpow k" and gfLog_nth: "k < 255 \<Longrightarrow> gfLog ! unat (gpow k) = of_nat k"
proof -
  obtain e l where t: "gf_loop 255 0 1 (replicate 512 0, replicate 256 0) = (e, l)" by (cases "gf_loop 255 0 1 (replicate 512 0, replicate 256 0 :: byte list)")
  have r: "length e = 512 \<and> length l = 256 \<and>
    (\<forall>k < 512. e ! k = (if 0 \<le> k \<and> k < 0 + 255 then gpow k else replicate 512 0 ! k)) \<and>
    (\<forall>k < 255. l ! unat (gpow k) = (if 0 \<le> k \<and> k < 0 + 255 then of_nat k else replicate 256 0 ! unat (gpow k)))"
    by (rule gf_loop_ok) (simp_all only: t funpow_0 id_apply uint_1 length_replicate add_0 order_refl funpow.simps(1))
  have e: "length e = 512" "\<forall>k < 255. e ! k = gpow k" using r by (simp_all del: replicate.simps)
  have "(512 :: nat) = 255 + 257" by simp
  then have cp: "gf_copy e = fold (\<lambda>i e. e[i := e ! (i - 255)]) [255..<255 + 257] e" by (simp only: gf_copy_def)
  have len: "255 + 257 \<le> length e" using e by simp
  have "\<forall>k < 255 + 257. gf_copy e ! k = gpow k" unfolding cp by (rule fold_copy [OF len e(2) order_refl, THEN conjunct2])
  then show "k < 512 \<Longrightarrow> gfExp ! k = gpow k" by (simp add: gfExp_def gf_tables_def t)
  show "k < 255 \<Longrightarrow> gfLog ! unat (gpow k) = of_nat k" using r by (simp add: gfLog_def gf_tables_def t)
qed

lemma gfMul_gpow:
  assumes "m < 255" "n < 255"
  shows "gfMul (gpow m) (gpow n) = gpow (m + n)"
proof -
  have "gpow m \<noteq> 0" "gpow n \<noteq> 0" using xtime_pow_nonzero [of 1] by auto
  moreover have "unat (of_nat k :: byte) = k" if "k < 255" for k using that by (simp add: unsigned_of_nat take_bit_nat_eq_self)
  ultimately show ?thesis using assms by (simp add: gfMul_def gfLog_nth gfExp_nth del: funpow.simps)
qed

lemma gfMul_zero [simp]: "gfMul 0 b = 0" "gfMul a 0 = 0"
  by (simp_all add: gfMul_def)

text \<open>Multiplying by \<open>gpow n\<close> is \<open>n\<close> times \<open>xtime\<close>.\<close>

lemma gfMul_xtime: "n < 255 \<Longrightarrow> gfMul (gpow n) b = (xtime ^^ n) b"
proof (cases "b = 0")
  case False
  assume n: "n < 255"
  from False obtain m where "m < 255" "gpow m = b" by (rule xtime_powers_cover)
  then show ?thesis using gfMul_gpow [OF n] by (auto simp: funpow_add)
qed simp

lemma gfMul_power: obtains n where "n < 255" "gfMul a = (xtime ^^ n)" "a = gpow n" | "a = 0"
  by (metis xtime_powers_cover gfMul_xtime ext)

lemma gfMul_one: "gfMul 1 b = b"
  using gfMul_xtime [of 0 b] by simp

lemma gfMul_distrib: "gfMul a (b XOR c) = gfMul a b XOR gfMul a c"
  by (rule gfMul_power [of a]) (simp_all add: xtime_pow_xor)

lemma gfMul_commute: "gfMul a b = gfMul b a"
proof (rule gfMul_power [of a], goal_cases)
  case (1 m)
  then show ?case
  proof (rule_tac gfMul_power [of b], goal_cases)
    case (1 n)
    then show ?case using gfMul_gpow [of m n] gfMul_gpow [of n m] by (simp add: add.commute)
  qed simp
qed simp

lemma gfMul_assoc: "gfMul (gfMul a b) c = gfMul a (gfMul b c)"
proof (rule gfMul_power [of a], goal_cases)
  case (1 m)
  show ?case
  proof (rule gfMul_power [of c], goal_cases)
    case (1 n)
    have "gfMul (gfMul a b) c = (xtime ^^ n) ((xtime ^^ m) b)" using 1 \<open>gfMul a = xtime ^^ m\<close> gfMul_commute [of _ c] by simp
    also have "\<dots> = gfMul a (gfMul c b)" using 1 \<open>gfMul a = xtime ^^ m\<close> xtime_pow_commute [of n m b] by simp
    finally show ?case using gfMul_commute [of b c] by simp
  qed simp
qed simp

text \<open>Shift-and-add is the same product.\<close>

lemma gf_ref_terms: "gf_ref a b = (if bit a 0 then b else 0) XOR (if bit a 1 then xtime b else 0) XOR
   (if bit a 2 then (xtime ^^ 2) b else 0) XOR (if bit a 3 then (xtime ^^ 3) b else 0) XOR (if bit a 4 then (xtime ^^ 4) b else 0) XOR
   (if bit a 5 then (xtime ^^ 5) b else 0) XOR (if bit a 6 then (xtime ^^ 6) b else 0) XOR (if bit a 7 then (xtime ^^ 7) b else 0)"
proof -
  have u: "[0..<8] = [0, 1, 2, 3, 4, 5, 6, 7 :: nat]" by code_simp
  have if_xt: "xtime (if p then c else 0) = (if p then xtime c else 0)" for p c by simp
  have pw: "(xtime ^^ 2) b = xtime (xtime b)" "(xtime ^^ 3) b = xtime (xtime (xtime b))" "(xtime ^^ 4) b = xtime (xtime (xtime (xtime b)))"
    "(xtime ^^ 5) b = xtime (xtime (xtime (xtime (xtime b))))" "(xtime ^^ 6) b = xtime (xtime (xtime (xtime (xtime (xtime b)))))"
    "(xtime ^^ 7) b = xtime (xtime (xtime (xtime (xtime (xtime (xtime b))))))"
    by (simp_all add: eval_nat_numeral)
  show ?thesis unfolding gf_ref_def u pw
    by (simp only: foldr.simps comp_def id_apply xtime_xor if_xt xtime_0 xor.left_neutral xor.right_neutral xor.assoc xor.commute xor.left_commute)
qed

lemma gf_ref_xor: "gf_ref (a XOR a') b = gf_ref a b XOR gf_ref a' b"
proof -
  have split: "(if bit (a XOR a') n then c else 0) = (if bit a n then c else 0) XOR (if bit a' n then c else 0)" for n and c :: byte
    by (simp add: bit_xor_iff)
  show ?thesis unfolding gf_ref_terms split by (simp only: xor.assoc xor.left_commute xor.commute)
qed

lemma gf_ref_xtime: "gf_ref (xtime a) b = xtime (gf_ref a b)"
proof (rule byte_linear [where f = "\<lambda>a. gf_ref (xtime a) b" and g = "\<lambda>a. xtime (gf_ref a b)"])
  show "\<forall>x \<in> set [1, 2, 4, 8, 16, 32, 64, 128]. gf_ref (xtime x) b = xtime (gf_ref x b)"
  proof -
    have f: "xtime ((xtime ^^ n) b) = (xtime ^^ Suc n) b" for n by simp
    have x7: "xtime ((xtime ^^ 7) b) = (xtime ^^ 4) b XOR (xtime ^^ 3) b XOR (xtime ^^ 2) b XOR b"
      using xtime_8 [of b] f [of 7] by (simp del: funpow.simps)
    have "xtime 1 = 2" "xtime 2 = 4" "xtime 4 = 8" "xtime 8 = 16" "xtime 16 = 32" "xtime 32 = 64" "xtime 64 = 128" "xtime 128 = 29"
      by (simp_all add: xtime_def)
    then show ?thesis unfolding gf_ref_terms
      using x7 by (simp add: xor.assoc xor.left_commute xor.commute) (simp add: eval_nat_numeral)
  qed
qed (simp_all add: gf_ref_xor xtime_xor, simp_all add: gf_ref_terms)

lemma gf_ref_gpow: "gf_ref (gpow n) b = (xtime ^^ n) b"
proof (induction n)
  case 0
  show ?case by (simp add: gf_ref_terms)
next
  case (Suc n)
  then show ?case by (simp add: gf_ref_xtime)
qed

text \<open>The table-driven product is multiplication in GF(256) modulo the polynomial 0x11d, as shift-and-add
  computes it, for all 65536 pairs of bytes.\<close>

lemma gfMul_is_field_product: "gfMul a b = gf_ref a b"
proof (rule gfMul_power [of a], goal_cases)
  case (1 n)
  then show ?case by (simp add: gf_ref_gpow)
next
  case 2
  then show ?case by (simp add: gf_ref_terms)
qed

section \<open>Polynomials\<close>

text \<open>What polynomial arithmetic needs of the coefficients: a commutative ring whose addition is \<open>XOR\<close>.\<close>

locale xor_ring =
  fixes mul :: "byte \<Rightarrow> byte \<Rightarrow> byte"
  assumes mul_assoc: "mul (mul a b) c = mul a (mul b c)" and mul_commute: "mul a b = mul b a"
    and mul_one: "mul 1 a = a" and mul_distrib: "mul a (b XOR c) = mul a b XOR mul a c"
begin

lemma mul_zero: "mul a 0 = 0"
  using mul_distrib [of a 0 0] by simp

lemma mul_zero': "mul 0 a = 0"
  using mul_zero [of a] mul_commute [of 0 a] by simp

lemma mul_distrib': "mul (b XOR c) a = mul b a XOR mul c a"
  using mul_distrib [of a b c] mul_commute [of _ a] by simp

text \<open>The value of a polynomial, by Horner's rule.\<close>

definition horner :: "byte \<Rightarrow> byte \<Rightarrow> byte list \<Rightarrow> byte" where
  "horner x = foldl (\<lambda>acc c. mul acc x XOR c)"

definition poly_at :: "byte \<Rightarrow> byte list \<Rightarrow> byte" where
  "poly_at x p = horner x 0 p"

lemma horner_simps: "horner x a [] = a" "horner x a (c # p) = horner x (mul a x XOR c) p"
  by (simp_all add: horner_def)

lemma poly_at_Nil: "poly_at x [] = 0"
  by (simp add: poly_at_def horner_simps)

lemma horner_split: "horner x a p = horner x a (replicate (length p) 0) XOR poly_at x p"
proof (induction p arbitrary: a)
  case (Cons c p)
  have lin: "horner x (a XOR b) (replicate n 0) = horner x a (replicate n 0) XOR horner x b (replicate n 0)" for a b n
    by (induction n arbitrary: a b) (simp_all add: horner_simps mul_distrib')
  show ?case
    using Cons [of "mul a x XOR c"] Cons [of c]
    by (simp add: horner_simps poly_at_def mul_zero' lin xor.assoc)
qed (simp add: horner_simps poly_at_def)

lemma poly_at_append: "poly_at x (p @ q) = horner x (poly_at x p) (replicate (length q) 0) XOR poly_at x q"
  using horner_split [of x "poly_at x p" q] by (simp add: poly_at_def horner_def)

lemma poly_at_Cons: "poly_at x (c # q) = horner x c (replicate (length q) 0) XOR poly_at x q"
  using poly_at_append [of x "[c]" q] by (simp add: poly_at_def horner_simps mul_zero')

lemma horner_mul: "horner x (mul c a) (map (mul c) p) = mul c (horner x a p)"
  by (induction p arbitrary: a) (simp_all add: horner_simps mul_assoc flip: mul_distrib)

lemma poly_at_scale: "poly_at x (map (mul c) p) = mul c (poly_at x p)"
  using horner_mul [of x c 0 p] by (simp add: poly_at_def mul_zero)

lemma horner_xor:
  "length p = length q \<Longrightarrow> horner x (a XOR b) (map2 (XOR) p q) = horner x a p XOR horner x b q"
proof (induction p q arbitrary: a b rule: list_induct2)
  case (Cons c p d q)
  have "mul (a XOR b) x XOR (c XOR d) = (mul a x XOR c) XOR (mul b x XOR d)"
    by (simp add: mul_distrib' xor.assoc xor.left_commute)
  then show ?case using Cons by (simp add: horner_simps)
qed (simp add: horner_simps)

lemma poly_at_xor: "length p = length q \<Longrightarrow> poly_at x (map2 (XOR) p q) = poly_at x p XOR poly_at x q"
  using horner_xor [of p q x 0 0] by (simp add: poly_at_def)

lemma poly_at_zeros: "poly_at x (replicate n 0) = 0"
  unfolding poly_at_def by (induction n) (simp_all add: horner_simps mul_zero')

lemma poly_at_pad: "poly_at x (replicate n 0 @ p) = poly_at x p"
  unfolding poly_at_def by (induction n) (simp_all add: horner_simps mul_zero')

lemma horner_zero_root: "horner x 0 (replicate n 0) = 0"
  by (induction n) (simp_all add: horner_simps mul_zero')

text \<open>Trailing zeros keep roots.\<close>

lemma poly_at_shift_root: "poly_at x p = 0 \<Longrightarrow> poly_at x (p @ replicate n 0) = 0"
  by (simp add: poly_at_append poly_at_zeros horner_zero_root)

end

interpretation gf: xor_ring gfMul
  by unfold_locales (simp_all add: gfMul_assoc gfMul_one gfMul_distrib, rule gfMul_commute)

subsection \<open>The generator polynomial\<close>

lemma gen_turn_prefix:
  assumes "m \<le> length p"
  shows "fold (\<lambda>j r. let r = r[j := (r ! j) XOR (p ! j)] in r[j + 1 := (r ! (j + 1)) XOR gfMul (p ! j) a])
      [0..<m] (replicate (length p + 1) 0)
    = map2 (XOR) (take m p @ replicate (length p + 1 - m) 0) (0 # map (\<lambda>c. gfMul c a) (take m p) @ replicate (length p - m) 0)"
    (is "?f m = ?g m")
  using assms
proof (induction m)
  case 0
  show ?case by (rule nth_equalityI) (auto simp: nth_Cons split: nat.splits)
next
  case (Suc m)
  have ih: "?f m = ?g m" using Suc by simp
  have len: "length (?g n) = length p + 1" if "n \<le> length p" for n using that by simp
  have nth: "?g n ! k = (if k < n then p ! k else 0) XOR (if 0 < k \<and> k \<le> n then gfMul (p ! (k - 1)) a else 0)"
    if "k < length p + 1" "n \<le> length p" for n k
    using that by (auto simp: nth_append nth_Cons split: nat.splits)
  have "?f (Suc m) = (let r = (?g m)[m := (?g m ! m) XOR (p ! m)] in r[m + 1 := (r ! (m + 1)) XOR gfMul (p ! m) a])"
    by (simp only: upt_Suc_append [OF le0] fold_append comp_def fold_simps ih)
  also have "\<dots> = ?g (Suc m)"
  proof -
    define G where "G = ?g m"
    define H where "H = G[m := (G ! m) XOR (p ! m)]"
    have G: "length G = length p + 1" "\<And>k. k < length p + 1 \<Longrightarrow> G ! k = (if k < m then p ! k else 0) XOR (if 0 < k \<and> k \<le> m then gfMul (p ! (k - 1)) a else 0)"
      unfolding G_def using Suc.prems len nth by simp_all
    have H: "length H = length p + 1" "\<And>k. k < length p + 1 \<Longrightarrow> H ! k = (if k \<le> m then p ! k else 0) XOR (if 0 < k \<and> k \<le> m then gfMul (p ! (k - 1)) a else 0)"
      unfolding H_def using Suc.prems G by (auto simp: nth_list_update xor.commute)
    have "H[m + 1 := (H ! (m + 1)) XOR gfMul (p ! m) a] = ?g (Suc m)"
    proof (rule nth_equalityI)
      show "length (H[m + 1 := (H ! (m + 1)) XOR gfMul (p ! m) a]) = length (?g (Suc m))" using H(1) len Suc.prems by simp
      fix k assume "k < length (H[m + 1 := (H ! (m + 1)) XOR gfMul (p ! m) a])"
      then have k: "k < length p + 1" using H(1) by simp
      show "H[m + 1 := (H ! (m + 1)) XOR gfMul (p ! m) a] ! k = ?g (Suc m) ! k"
        unfolding nth [OF k Suc.prems] using H k Suc.prems by (auto simp: nth_list_update less_Suc_eq_le le_Suc_eq)
    qed
    then show ?thesis by (simp only: G_def H_def Let_def)
  qed
  finally show ?case .
qed

lemma gen_turn_eq: "gen_turn p i = map2 (XOR) (p @ [0]) (0 # map (\<lambda>c. gfMul c (gfExp ! i)) p)"
  using gen_turn_prefix [of "length p" p "gfExp ! i"] by (simp add: gen_turn_def)

lemma gen_turn_poly: "gf.poly_at x (gen_turn p i) = gfMul (x XOR gfExp ! i) (gf.poly_at x p)"
proof -
  have "gf.poly_at x (p @ [0]) = gfMul x (gf.poly_at x p)"
    by (simp add: gf.poly_at_def gf.horner_def gfMul_commute [of x])
  moreover have "gf.poly_at x (0 # map (\<lambda>c. gfMul c (gfExp ! i)) p) = gfMul (gfExp ! i) (gf.poly_at x p)"
  proof -
    have "(\<lambda>c. gfMul c (gfExp ! i)) = gfMul (gfExp ! i)" by (rule ext) (rule gfMul_commute)
    then show ?thesis using gf.poly_at_pad [of x 1] gf.poly_at_scale [of x "gfExp ! i" p] by simp
  qed
  ultimately show ?thesis by (simp add: gen_turn_eq gf.poly_at_xor gf.mul_distrib')
qed

lemma genPoly_Suc: "genPoly (Suc n) = gen_turn (genPoly n) n"
  by (simp add: genPoly_def)

lemma genPoly_shape: "length (genPoly n) = n + 1 \<and> hd (genPoly n) = 1"
proof (induction n)
  case (Suc n)
  then obtain q where "genPoly n = 1 # q" by (cases "genPoly n") auto
  then show ?case using Suc by (simp add: genPoly_Suc gen_turn_eq)
qed (simp add: genPoly_def)

lemma genPoly_roots: "k < n \<Longrightarrow> gf.poly_at (gfExp ! k) (genPoly n) = 0"
  by (induction n) (auto simp: genPoly_Suc gen_turn_poly less_Suc_eq)

subsection \<open>The remainder\<close>

lemma rs_fold_nth:
  assumes "m \<le> length gen" "i + length gen \<le> length res"
  shows "length (fold (\<lambda>j r. r[i + j := (r ! (i + j)) XOR gfMul (gen ! j) c]) [0..<m] res) = length res \<and>
    (\<forall>k < length res. fold (\<lambda>j r. r[i + j := (r ! (i + j)) XOR gfMul (gen ! j) c]) [0..<m] res ! k
       = (res ! k) XOR (if i \<le> k \<and> k < i + m then gfMul (gen ! (k - i)) c else 0))"
  using assms
proof (induction m)
  case (Suc m)
  define F where "F = fold (\<lambda>j r. r[i + j := (r ! (i + j)) XOR gfMul (gen ! j) c]) [0..<m] res"
  have F: "length F = length res" "\<And>k. k < length res \<Longrightarrow> F ! k = (res ! k) XOR (if i \<le> k \<and> k < i + m then gfMul (gen ! (k - i)) c else 0)"
    using Suc by (simp_all add: F_def)
  have "fold (\<lambda>j r. r[i + j := (r ! (i + j)) XOR gfMul (gen ! j) c]) [0..<Suc m] res = F[i + m := (F ! (i + m)) XOR gfMul (gen ! m) c]"
    by (simp add: F_def)
  then show ?case using F Suc.prems by (auto simp: nth_list_update less_Suc_eq)
qed auto

lemma rs_turn_nth:
  assumes "i + length gen \<le> length res"
  shows "length (rs_turn gen i res) = length res"
    "k < length res \<Longrightarrow> rs_turn gen i res ! k = (res ! k) XOR (if i \<le> k \<and> k < i + length gen then gfMul (res ! i) (gen ! (k - i)) else 0)"
  using rs_fold_nth [OF order_refl assms, of "res ! i"] by (auto simp: rs_turn_def Let_def gfMul_commute [of "res ! i"])

lemma rs_turn_eq:
  assumes "i + length gen \<le> length res"
  shows "rs_turn gen i res = map2 (XOR) res (replicate i 0 @ map (gfMul (res ! i)) gen @ replicate (length res - i - length gen) 0)"
  by (rule nth_equalityI) (use assms rs_turn_nth [OF assms] in \<open>auto simp: nth_append\<close>)

lemma rs_turn_poly:
  assumes "i + length gen \<le> length res" "gf.poly_at x gen = 0"
  shows "gf.poly_at x (rs_turn gen i res) = gf.poly_at x res"
proof -
  let ?q = "map (gfMul (res ! i)) gen"
  have "gf.poly_at x (?q @ replicate (length res - i - length gen) 0) = 0"
    by (rule gf.poly_at_shift_root) (simp add: gf.poly_at_scale assms(2))
  then show ?thesis
    unfolding rs_turn_eq [OF assms(1)] using assms(1) by (subst gf.poly_at_xor) (simp_all add: gf.poly_at_pad)
qed

lemma rs_loop_ok:
  assumes "gen \<noteq> []" "hd gen = 1" "n + length gen \<le> length res + 1" "gf.poly_at x gen = 0"
  shows "length (fold (rs_turn gen) [0..<n] res) = length res \<and> (\<forall>k < n. fold (rs_turn gen) [0..<n] res ! k = 0) \<and>
    gf.poly_at x (fold (rs_turn gen) [0..<n] res) = gf.poly_at x res"
  using assms
proof (induction n)
  case (Suc n)
  define F where "F = fold (rs_turn gen) [0..<n] res"
  have F: "length F = length res" "\<forall>k < n. F ! k = 0" "gf.poly_at x F = gf.poly_at x res" using Suc by (simp_all add: F_def)
  have fit: "n + length gen \<le> length F" using Suc.prems(3) F(1) by simp
  have g0: "gen ! 0 = 1" using Suc.prems(1,2) by (simp add: hd_conv_nth)
  have "n < length F" using fit Suc.prems(1) by (cases gen) simp_all
  then have "rs_turn gen n F ! k = 0" if "k < Suc n" for k
    using rs_turn_nth(2) [OF fit, of k] that F fit Suc.prems(1) g0 gfMul_commute [of "F ! n" 1] gfMul_one [of "F ! n"]
    by (cases "k = n") auto
  moreover have "fold (rs_turn gen) [0..<Suc n] res = rs_turn gen n F" by (simp add: F_def)
  ultimately show ?case using rs_turn_nth(1) [OF fit] rs_turn_poly [OF fit Suc.prems(4)] F by simp
qed simp

lemma map2_xor_zeros:
  "map2 (XOR) p (replicate (length p) 0) = p" "length q = n \<Longrightarrow> map2 (XOR) (replicate n 0) q = q" for p q :: "byte list"
  by (auto intro!: nth_equalityI)

lemma rsRemainder_length: "length (rsRemainder data ecLen) = ecLen"
proof -
  have "length (fold (rs_turn (genPoly ecLen)) [0..<n] (data @ replicate ecLen 0)) = length data + ecLen" if "n \<le> length data" for n
    using that
  proof (induction n)
    case (Suc n)
    then show ?case using rs_turn_nth(1) [of n "genPoly ecLen"] genPoly_shape [of ecLen] by simp
  qed simp
  then show ?thesis by (simp add: rsRemainder_def Let_def)
qed

text \<open>C33: a block of data followed by its remainder is a Reed-Solomon code word: as a polynomial it vanishes at
  as many first powers of the generator as there are check bytes, which is what a scanner checks and corrects by.\<close>

theorem rsRemainder_codeword:
  assumes "k < ecLen"
  shows "length (rsRemainder data ecLen) = ecLen \<and> gf.poly_at (gfExp ! k) (data @ rsRemainder data ecLen) = 0"
proof -
  let ?x = "gfExp ! k" and ?z = "data @ replicate ecLen 0"
  have g: "genPoly ecLen \<noteq> []" "hd (genPoly ecLen) = 1" "length data + length (genPoly ecLen) \<le> length ?z + 1"
    using genPoly_shape [of ecLen] by auto
  note L = rs_loop_ok [OF g genPoly_roots [OF assms]]
  define F where "F = fold (rs_turn (genPoly ecLen)) [0..<length data] ?z"
  have F: "length F = length data + ecLen" "\<forall>k < length data. F ! k = 0" "gf.poly_at ?x F = gf.poly_at ?x ?z"
    using L by (simp_all add: F_def)
  have r: "rsRemainder data ecLen = drop (length data) F" by (simp add: rsRemainder_def F_def Let_def)
  have "take (length data) F = replicate (length data) 0" using F by (intro nth_equalityI) simp_all
  then have split: "F = replicate (length data) 0 @ rsRemainder data ecLen" by (metis append_take_drop_id r)
  have "data @ rsRemainder data ecLen = map2 (XOR) ?z F"
    by (subst split) (simp add: rsRemainder_length zip_append map2_xor_zeros)
  then have "gf.poly_at ?x (data @ rsRemainder data ecLen) = 0" using F by (simp add: gf.poly_at_xor)
  then show ?thesis by (simp add: rsRemainder_length)
qed

theorem rsRemainder_codeword_witness: "gf.poly_at (gfExp ! 1) ([0x12, 0x34] @ rsRemainder [0x12, 0x34] 2) = 0"
  using rsRemainder_codeword [of 1 2 "[0x12, 0x34]"] by simp


end
