(* ===== verification/Qr_Stream.thy ===== *)
theory Qr_Stream
  imports Qr_Field
begin

text \<open>
  The data side of \<open>internal/qr/qr.go\<close>: the tables of versions, the choice of a version, and \<open>bitStream\<close>, which
  lays a text out as header, bytes, terminator and padding, splits it into blocks, adds the Reed-Solomon
  code words and interleaves.  A bit of the stream, a byte 0 or 1 in the source, is a \<open>bool\<close>.  The stream is
  shown to have exactly the length of its version, and to be readable back by a decoder.
\<close>

section \<open>Versions\<close>

definition total :: "nat list" where
  "total = [26, 44, 70, 100, 134, 172, 196, 242, 292, 346, 404, 466, 532, 581, 655,
    733, 815, 901, 991, 1085, 1156, 1258, 1364, 1474, 1588, 1706, 1828, 1921, 2051, 2185,
    2323, 2465, 2611, 2761, 2876, 3034, 3196, 3362, 3532, 3706]"

definition eccPerBlock :: "nat list" where
  "eccPerBlock = [7, 10, 15, 20, 26, 18, 20, 24, 30, 18, 20, 24, 26, 30, 22, 24, 28, 30, 28,
    28, 28, 28, 30, 30, 26, 28, 30, 30, 30, 30, 30, 30, 30, 30, 30, 30, 30, 30, 30, 30]"

definition blocks :: "nat list" where
  "blocks = [1, 1, 1, 1, 1, 2, 2, 2, 2, 4, 4, 4, 4, 4, 6, 6, 6, 6, 7, 8, 8, 9, 9, 10,
    12, 12, 12, 13, 14, 15, 16, 17, 18, 19, 19, 20, 21, 22, 24, 25]"

definition dataCodewords :: "nat \<Rightarrow> nat" where
  "dataCodewords v = total ! (v - 1) - eccPerBlock ! (v - 1) * blocks ! (v - 1)"

definition countBits :: "nat \<Rightarrow> nat" where
  "countBits v = (if v \<ge> 10 then 16 else 8)"

function pick_from :: "nat \<Rightarrow> nat \<Rightarrow> nat option" where
  "pick_from v n = (if v \<le> 40 then if 4 + countBits v + 8 * n \<le> dataCodewords v * 8 then Some v else pick_from (v + 1) n else None)"
  by pat_completeness auto
termination by (relation "measure (\<lambda>(v, n). 41 - v)") auto

declare pick_from.simps [simp del]

text \<open>\<open>ErrTooLong\<close> is \<open>None\<close>.\<close>

definition pickVersion :: "nat \<Rightarrow> nat option" where
  "pickVersion n = pick_from 1 n"

section \<open>The stream\<close>

text \<open>The local function \<open>push\<close>: the low bits of a value, highest first.\<close>

definition push :: "nat \<Rightarrow> nat \<Rightarrow> bool list" where
  "push value n = map (bit value) (rev [0..<n])"

fun terminator :: "nat \<Rightarrow> nat \<Rightarrow> bool list \<Rightarrow> bool list" where
  "terminator cap 0 bits = bits"
| "terminator cap (Suc i) bits = (if length bits < cap then terminator cap i (bits @ [False]) else bits)"

function align_bits :: "bool list \<Rightarrow> bool list" where
  "align_bits bits = (if length bits mod 8 \<noteq> 0 then align_bits (bits @ [False]) else bits)"
  by pat_completeness auto
termination
proof (relation "measure (\<lambda>bits. (8 - length bits mod 8) mod 8)", goal_cases)
  case (2 bits)
  then have "length bits mod 8 < 8" "length bits mod 8 \<noteq> 0" "(length bits + 1) mod 8 = (length bits mod 8 + 1) mod 8" by (simp_all add: mod_simps)
  then show ?case by (cases "length bits mod 8 = 7") simp_all
qed simp

declare align_bits.simps [simp del]

text \<open>Eight bits make a byte: \<open>v = v<<1 | bit\<close>.\<close>

definition pack_byte :: "bool list \<Rightarrow> byte" where
  "pack_byte bs = fold (\<lambda>b v. push_bit 1 v OR of_bool b) bs 0"

fun pack :: "bool list \<Rightarrow> byte list" where
  "pack (a # b # c # d # e # f # g # h # bits) = pack_byte [a, b, c, d, e, f, g, h] # pack bits"
| "pack _ = []"

fun pad_codewords :: "nat \<Rightarrow> nat \<Rightarrow> byte list \<Rightarrow> byte list" where
  "pad_codewords 0 i cw = cw"
| "pad_codewords (Suc n) i cw = pad_codewords n (i + 1) (cw @ [if i mod 2 = 0 then 0xec else 0x11])"

definition data_codewords :: "byte list \<Rightarrow> nat \<Rightarrow> byte list" where
  "data_codewords text v =
    (let dataCw = dataCodewords v;
         bits = push 4 4 @ push (length text) (countBits v) @ concat (map (\<lambda>b. push (unat b) 8) text);
         cw = pack (align_bits (terminator (dataCw * 8) 4 bits))
     in pad_codewords (dataCw - length cw) 0 cw)"

text \<open>The loop over blocks: the long ones come last.\<close>

fun cut_blocks :: "nat \<Rightarrow> nat \<Rightarrow> nat \<Rightarrow> nat \<Rightarrow> byte list \<Rightarrow> byte list list" where
  "cut_blocks nBlocks shortLen longCount 0 cw = []"
| "cut_blocks nBlocks shortLen longCount (Suc n) cw =
    (let i = nBlocks - Suc n; len = (if i \<ge> nBlocks - longCount then shortLen + 1 else shortLen)
     in take len cw # cut_blocks nBlocks shortLen longCount n (drop len cw))"

definition interleave :: "nat \<Rightarrow> nat \<Rightarrow> byte list list \<Rightarrow> byte list list \<Rightarrow> byte list" where
  "interleave shortLen ecLen ds es =
    concat (map (\<lambda>i. concat (map (\<lambda>d. if i < length d then [d ! i] else []) ds)) [0..<shortLen + 1]) @
    concat (map (\<lambda>i. map (\<lambda>e. e ! i) es) [0..<ecLen])"

definition codewords :: "byte list \<Rightarrow> nat \<Rightarrow> byte list" where
  "codewords text v =
    (let nBlocks = blocks ! (v - 1); ecLen = eccPerBlock ! (v - 1); dataCw = dataCodewords v;
         shortLen = dataCw div nBlocks; longCount = dataCw mod nBlocks;
         dataBlocks = cut_blocks nBlocks shortLen longCount nBlocks (data_codewords text v);
         ecBlocks = map (\<lambda>d. rsRemainder d ecLen) dataBlocks
     in interleave shortLen ecLen dataBlocks ecBlocks)"

definition bitStream :: "byte list \<Rightarrow> nat \<Rightarrow> bool list" where
  "bitStream text v = concat (map (\<lambda>b. push (unat b) 8) (codewords text v))"

section \<open>The choice of a version\<close>

lemma versions_list: "[1..<41] = [1, 2, 3, 4, 5, 6, 7, 8, 9, 10, 11, 12, 13, 14, 15, 16, 17, 18, 19, 20, 21, 22, 23, 24, 25, 26, 27, 28, 29, 30, 31, 32, 33, 34, 35, 36, 37, 38, 39, 40] "
  by code_simp

text \<open>What the tables say of every version.\<close>

lemma version_table:
  "list_all (\<lambda>v. total ! (v - 1) = dataCodewords v + eccPerBlock ! (v - 1) * blocks ! (v - 1) \<and> 0 < blocks ! (v - 1) \<and>
     dataCodewords v \<le> 2956 \<and> (v < 10 \<longrightarrow> dataCodewords v \<le> 232) \<and> blocks ! (v - 1) \<le> dataCodewords v) [1..<41]"
  unfolding versions_list by (simp add: dataCodewords_def total_def eccPerBlock_def blocks_def)

lemma version_facts:
  assumes "1 \<le> v" "v \<le> 40"
  shows "total ! (v - 1) = dataCodewords v + eccPerBlock ! (v - 1) * blocks ! (v - 1)" "0 < blocks ! (v - 1)"
    "dataCodewords v \<le> 2956" "v < 10 \<Longrightarrow> dataCodewords v \<le> 232" "blocks ! (v - 1) \<le> dataCodewords v"
proof -
  have "v \<in> set [1..<41]" using assms by simp
  note f = version_table [unfolded list_all_iff, rule_format, OF this]
  show "total ! (v - 1) = dataCodewords v + eccPerBlock ! (v - 1) * blocks ! (v - 1)" "0 < blocks ! (v - 1)"
    "dataCodewords v \<le> 2956" "v < 10 \<Longrightarrow> dataCodewords v \<le> 232" "blocks ! (v - 1) \<le> dataCodewords v"
    using f by blast+
qed

lemma pick_from_find: "pick_from v n = List.find (\<lambda>v. 4 + countBits v + 8 * n \<le> dataCodewords v * 8) [v..<41]"
proof (induction v n rule: pick_from.induct)
  case (1 v n)
  show ?case
  proof (cases "v \<le> 40")
    case True
    then have "[v..<41] = v # [v + 1..<41]" by (simp add: upt_conv_Cons)
    then show ?thesis using 1 True by (subst pick_from.simps) simp
  qed (subst pick_from.simps, simp)
qed

text \<open>A text is encoded in the smallest version that holds it, and exactly the texts of more than 2953 bytes are
  refused.\<close>

lemma pickVersion_smallest:
  "case pickVersion n of
     Some v \<Rightarrow> 1 \<le> v \<and> v \<le> 40 \<and> 4 + countBits v + 8 * n \<le> 8 * dataCodewords v \<and>
       (\<forall>w. 1 \<le> w \<and> w < v \<longrightarrow> 8 * dataCodewords w < 4 + countBits w + 8 * n) \<and> n \<le> 2953
   | None \<Rightarrow> 2953 < n"
proof -
  have d40: "dataCodewords 40 = 2956" by (simp add: dataCodewords_def total_def eccPerBlock_def blocks_def)
  show ?thesis
  proof (cases "pickVersion n")
    case None
    then have "\<not> 4 + countBits 40 + 8 * n \<le> dataCodewords 40 * 8"
      by (simp add: pickVersion_def pick_from_find find_None_iff)
    then show ?thesis using None by (simp add: d40 countBits_def)
  next
    case (Some v)
    then obtain i where i: "i < length [1..<41]" "v = [1..<41] ! i" "4 + countBits v + 8 * n \<le> dataCodewords v * 8"
      "\<forall>j < i. \<not> 4 + countBits ([1..<41] ! j) + 8 * n \<le> dataCodewords ([1..<41] ! j) * 8"
      unfolding pickVersion_def pick_from_find find_Some_iff by blast
    have v: "v = Suc i" "v \<in> set [1..<41]" using i(1,2) by (auto simp del: upt_Suc)
    have small: "8 * dataCodewords w < 4 + countBits w + 8 * n" if "1 \<le> w" "w < v" for w
    proof -
      have "[1..<41] ! (w - 1) = w" using that v by (auto simp del: upt_Suc)
      moreover have "w - 1 < i" using that v by simp
      ultimately show ?thesis using i(4) by force
    qed
    have "1 \<le> v" "v \<le> 40" using v by simp_all
    then have "n \<le> 2953" using i(3) version_facts(3,4) [of v] by (cases "v < 10") (auto simp: countBits_def)
    then show ?thesis using Some small i(3) v by auto
  qed
qed

section \<open>Bits and bytes\<close>

definition unpush :: "bool list \<Rightarrow> nat" where
  "unpush bs = horner_sum of_bool 2 (rev bs)"

lemma length_push [simp]: "length (push x n) = n"
  by (simp add: push_def)

lemma unpush_push: "x < 2 ^ n \<Longrightarrow> unpush (push x n) = x"
  by (simp add: unpush_def push_def rev_map horner_sum_bit_eq_take_bit take_bit_nat_eq_self)

definition unpack :: "byte list \<Rightarrow> bool list" where
  "unpack bs = concat (map (\<lambda>b. push (unat b) 8) bs)"

lemma upt_8: "rev [0..<8] = [7, 6, 5, 4, 3, 2, 1, 0 :: nat]"
  by code_simp

lemma push_byte: "push (unat b) 8 = [bit b 7, bit b 6, bit b 5, bit b 4, bit b 3, bit b 2, bit b 1, bit b 0]" for b :: byte
  by (simp add: push_def upt_8 bit_unsigned_iff)

lemma bits_of_pack_byte:
  "bit (pack_byte [a, b, c, d, e, f, g, h]) n = (n < 8 \<and> [h, g, f, e, d, c, b, a] ! n)"
proof (cases "n < 8")
  case True
  then have "n \<in> {0, 1, 2, 3, 4, 5, 6, 7}" by auto
  moreover have "bit (of_bool x :: byte) k = (x \<and> k = 0)" for x k by (simp add: bit_1_iff)
  ultimately show ?thesis
    by (elim insertE) (simp_all add: pack_byte_def bit_or_iff bit_push_bit_iff bit_1_iff del: push_bit_Suc)
next
  case False
  have "bit w n \<Longrightarrow> n < 8" for w :: byte using bit_imp_le_length [of w n] by simp
  then show ?thesis using False by blast
qed

lemma pack_byte_push: "pack_byte (push (unat b) 8) = b"
proof (rule bit_word_eqI)
  fix n assume "n < LENGTH(8)"
  then have "n \<in> {0, 1, 2, 3, 4, 5, 6, 7}" by auto
  then show "bit (pack_byte (push (unat b) 8)) n = bit b n"
    unfolding push_byte bits_of_pack_byte by (elim insertE) simp_all
qed

lemma push_pack_byte: "push (unat (pack_byte [a, b, c, d, e, f, g, h])) 8 = [a, b, c, d, e, f, g, h]"
  by (simp add: push_byte bits_of_pack_byte)

lemma unpack_simps [simp]: "unpack [] = []" "unpack (b # bs) = push (unat b) 8 @ unpack bs" "unpack (bs @ cs) = unpack bs @ unpack cs"
  by (simp_all add: unpack_def)

lemma length_unpack [simp]: "length (unpack bs) = 8 * length bs"
  by (induction bs) simp_all

lemma pack_push: "pack (push (unat b) 8 @ bits) = b # pack bits"
  using pack_byte_push [of b] by (simp add: push_byte)

lemma pack_unpack [simp]: "pack (unpack bs) = bs"
  by (induction bs) (simp_all add: pack_push)

lemma unpack_pack: "8 dvd length bits \<Longrightarrow> unpack (pack bits) = bits"
proof (induction bits rule: pack.induct)
  case (1 a b c d e f g h bits)
  then have "8 dvd length bits" using dvd_add_right_iff [of 8 8 "length bits"] by (simp add: eval_nat_numeral(2,3))
  then show ?case using 1 by (simp add: push_pack_byte)
qed (auto dest!: dvd_imp_le)

lemma length_pack: "8 dvd length bits \<Longrightarrow> 8 * length (pack bits) = length bits"
  using arg_cong [OF unpack_pack, of bits length] by simp

section \<open>The data code words\<close>

lemma terminator_ok:
  assumes "length bits \<le> cap"
  shows "\<exists>k. terminator cap n bits = bits @ replicate k False \<and> length bits + k \<le> cap"
  using assms
proof (induction n arbitrary: bits)
  case (Suc n)
  show ?case
  proof (cases "length bits < cap")
    case True
    from Suc.IH [of "bits @ [False]"] True obtain k where "terminator cap n (bits @ [False]) = (bits @ [False]) @ replicate k False"
      "length (bits @ [False]) + k \<le> cap" by auto
    then show ?thesis using True by (intro exI [of _ "Suc k"]) simp
  qed (use Suc.prems in \<open>auto intro!: exI [of _ 0]\<close>)
qed (auto intro!: exI [of _ 0])

lemma align_bits_ok:
  "8 dvd cap \<Longrightarrow> length bits \<le> cap \<Longrightarrow>
    \<exists>k. align_bits bits = bits @ replicate k False \<and> length bits + k \<le> cap \<and> 8 dvd length (align_bits bits)"
proof (induction bits rule: align_bits.induct)
  case (1 bits)
  show ?case
  proof (cases "length bits mod 8 = 0")
    case False
    then have "length bits \<noteq> cap" using 1(2) by (metis mod_0_imp_dvd dvd_imp_mod_0)
    then have "length (bits @ [False]) \<le> cap" using 1(3) by simp
    from 1(1) [OF False 1(2) this] obtain k where k: "align_bits (bits @ [False]) = (bits @ [False]) @ replicate k False"
      "length (bits @ [False]) + k \<le> cap" "8 dvd length (align_bits (bits @ [False]))" by blast
    have "align_bits bits = align_bits (bits @ [False])" using False by (subst align_bits.simps) simp
    then show ?thesis using k by (intro exI [of _ "Suc k"]) simp
  next
    case True
    then have "align_bits bits = bits" by (subst align_bits.simps) simp
    then show ?thesis using True 1(3) by (intro exI [of _ 0]) (simp add: mod_0_imp_dvd)
  qed
qed

lemma pad_codewords_ok: "\<exists>ps. pad_codewords n i cw = cw @ ps \<and> length ps = n"
proof (induction n arbitrary: i cw)
  case (Suc n)
  from Suc [of "i + 1" "cw @ [if i mod 2 = 0 then 0xec else 0x11]"] show ?case by (auto simp: length_Suc_conv)
qed simp

definition header_bits :: "byte list \<Rightarrow> nat \<Rightarrow> bool list" where
  "header_bits text v = push 4 4 @ push (length text) (countBits v) @ unpack text"

lemma data_codewords_ok:
  assumes "4 + countBits v + 8 * length text \<le> 8 * dataCodewords v"
  shows "length (data_codewords text v) = dataCodewords v" "\<exists>rest. unpack (data_codewords text v) = header_bits text v @ rest"
proof -
  let ?cap = "dataCodewords v * 8" and ?b = "header_bits text v"
  have "length ?b \<le> ?cap" using assms by (simp add: header_bits_def)
  from terminator_ok [OF this, of 4] obtain j where j: "terminator ?cap 4 ?b = ?b @ replicate j False" "length ?b + j \<le> ?cap" by blast
  let ?t = "terminator ?cap 4 ?b"
  have "8 dvd ?cap" "length ?t \<le> ?cap" using j by simp_all
  from align_bits_ok [OF this] obtain k where k: "align_bits ?t = ?t @ replicate k False" "length ?t + k \<le> ?cap" "8 dvd length (align_bits ?t)" by blast
  define cw where "cw = pack (align_bits ?t)"
  have up: "unpack cw = ?b @ replicate j False @ replicate k False" using unpack_pack [OF k(3)] j k(1) by (simp add: cw_def)
  have "8 * length cw = length (align_bits ?t)" using length_pack [OF k(3)] by (simp add: cw_def)
  then have le: "length cw \<le> dataCodewords v" using k by simp
  have dc: "data_codewords text v = pad_codewords (dataCodewords v - length cw) 0 cw"
    by (simp add: data_codewords_def Let_def cw_def header_bits_def unpack_def)
  from pad_codewords_ok [of "dataCodewords v - length cw" 0 cw] obtain ps
    where "data_codewords text v = cw @ ps" "length ps = dataCodewords v - length cw" unfolding dc by blast
  then show "length (data_codewords text v) = dataCodewords v" "\<exists>rest. unpack (data_codewords text v) = ?b @ rest"
    using le up by auto
qed

text \<open>How a scanner reads the data code words.\<close>

definition read_text :: "nat \<Rightarrow> byte list \<Rightarrow> byte list option" where
  "read_text v cw = (let bits = unpack cw; n = unpush (take (countBits v) (drop 4 bits)) in
     if take 4 bits \<noteq> push 4 4 then None else Some (pack (take (8 * n) (drop (4 + countBits v) bits))))"

lemma read_data_codewords:
  assumes "4 + countBits v + 8 * length text \<le> 8 * dataCodewords v" "1 \<le> v" "v \<le> 40"
  shows "read_text v (data_codewords text v) = Some text"
proof -
  from data_codewords_ok(2) [OF assms(1)] obtain rest where u: "unpack (data_codewords text v) = header_bits text v @ rest" by blast
  have "length text < 2 ^ countBits v"
    using assms(1) version_facts(3,4) [OF assms(2,3)] by (cases "v < 10") (auto simp: countBits_def)
  then show ?thesis by (simp add: read_text_def Let_def u header_bits_def unpush_push)
qed


section \<open>Blocks\<close>

lemma cut_blocks_ok:
  assumes "length cw = n * shortLen + min n longCount" "n \<le> nBlocks"
  shows "concat (cut_blocks nBlocks shortLen longCount n cw) = cw \<and> length (cut_blocks nBlocks shortLen longCount n cw) = n \<and>
    (\<forall>k < n. length (cut_blocks nBlocks shortLen longCount n cw ! k)
       = (if nBlocks - n + k \<ge> nBlocks - longCount then shortLen + 1 else shortLen))"
  using assms
proof (induction n arbitrary: cw)
  case (Suc n)
  let ?len = "if nBlocks - Suc n \<ge> nBlocks - longCount then shortLen + 1 else shortLen"
  have long: "nBlocks - Suc n \<ge> nBlocks - longCount \<longleftrightarrow> Suc n \<le> longCount" using Suc.prems(2) by auto
  have "length (drop ?len cw) = n * shortLen + min n longCount" using Suc.prems(1) by (auto simp: long)
  note ih = Suc.IH [OF this] and le = Suc.prems(2)
  have tk: "length (take ?len cw) = ?len" using Suc.prems(1) by (auto simp: long)
  have cut: "cut_blocks nBlocks shortLen longCount (Suc n) cw = take ?len cw # cut_blocks nBlocks shortLen longCount n (drop ?len cw)"
    by (simp add: Let_def)
  have "length (cut_blocks nBlocks shortLen longCount (Suc n) cw ! k)
       = (if nBlocks - Suc n + k \<ge> nBlocks - longCount then shortLen + 1 else shortLen)" if "k < Suc n" for k
    unfolding cut using ih that tk le by (cases k) (auto simp: Suc_diff_Suc)
  then show ?case using ih le unfolding cut by simp
qed simp

lemma concat_rows_nth:
  assumes "\<forall>r \<in> set rows. length r = n" "i < length rows" "b < n"
  shows "(concat rows @ ys) ! (i * n + b) = rows ! i ! b"
  using assms
proof (induction rows arbitrary: i)
  case (Cons r rows)
  show ?case
  proof (cases i)
    case (Suc j)
    have "(concat (r # rows) @ ys) ! (i * n + b) = (concat rows @ ys) ! (j * n + b)"
      using Cons.prems Suc by (simp add: nth_append add.assoc)
    then show ?thesis using Cons Suc by simp
  qed (use Cons.prems in \<open>simp add: nth_append\<close>)
qed simp

lemma concat_rows_length: "\<forall>r \<in> set rows. length r = n \<Longrightarrow> length (concat rows) = length rows * n"
  by (induction rows) simp_all

text \<open>Blocks of which the last \<open>longCount\<close> are one longer.\<close>

definition block_shape :: "nat \<Rightarrow> nat \<Rightarrow> byte list list \<Rightarrow> bool" where
  "block_shape shortLen longCount ds \<longleftrightarrow> longCount \<le> length ds \<and>
     (\<forall>k < length ds. length (ds ! k) = (if k \<ge> length ds - longCount then shortLen + 1 else shortLen))"

lemma block_rows:
  assumes "block_shape shortLen longCount ds"
  shows "i < shortLen \<Longrightarrow> concat (map (\<lambda>d. if i < length d then [d ! i] else []) ds) = map (\<lambda>d. d ! i) ds"
    "concat (map (\<lambda>d. if shortLen < length d then [d ! shortLen] else []) ds) = map (\<lambda>d. d ! shortLen) (drop (length ds - longCount) ds)"
proof -
  have len: "d \<in> set ds \<Longrightarrow> shortLen \<le> length d" for d using assms by (auto simp: block_shape_def in_set_conv_nth split: if_splits)
  have "concat (map (\<lambda>d. if i < length d then [d ! i] else []) xs) = map (\<lambda>d. d ! i) xs" if "\<forall>d \<in> set xs. i < length d" for xs :: "byte list list" and i
    using that by (induction xs) simp_all
  note all = this
  show "i < shortLen \<Longrightarrow> concat (map (\<lambda>d. if i < length d then [d ! i] else []) ds) = map (\<lambda>d. d ! i) ds"
    using len by (intro all) force
  have short: "\<forall>d \<in> set (take (length ds - longCount) ds). \<not> shortLen < length d"
    using assms by (auto simp: block_shape_def in_set_conv_nth)
  have long: "\<forall>d \<in> set (drop (length ds - longCount) ds). shortLen < length d"
    using assms by (auto simp: block_shape_def in_set_conv_nth)
  have none: "concat (map (\<lambda>d. if shortLen < length d then [d ! shortLen] else []) xs) = []" if "\<forall>d \<in> set xs. \<not> shortLen < length d" for xs :: "byte list list"
    using that by (induction xs) simp_all
  have "concat (map (\<lambda>d. if shortLen < length d then [d ! shortLen] else []) (take (length ds - longCount) ds @ drop (length ds - longCount) ds))
      = map (\<lambda>d. d ! shortLen) (drop (length ds - longCount) ds)"
    unfolding map_append concat_append none [OF short] all [OF long] by simp
  then show "concat (map (\<lambda>d. if shortLen < length d then [d ! shortLen] else []) ds) = map (\<lambda>d. d ! shortLen) (drop (length ds - longCount) ds)"
    by simp
qed

lemma interleave_eq:
  assumes "block_shape shortLen longCount ds"
  shows "interleave shortLen ecLen ds es = concat (map (\<lambda>i. map (\<lambda>d. d ! i) ds) [0..<shortLen]) @
    map (\<lambda>d. d ! shortLen) (drop (length ds - longCount) ds) @ concat (map (\<lambda>i. map (\<lambda>e. e ! i) es) [0..<ecLen])"
proof -
  have "map (\<lambda>i. concat (map (\<lambda>d. if i < length d then [d ! i] else []) ds)) [0..<shortLen] = map (\<lambda>i. map (\<lambda>d. d ! i) ds) [0..<shortLen]"
    by (rule map_cong) (simp_all add: block_rows(1) [OF assms])
  moreover have "[0..<shortLen + 1] = [0..<shortLen] @ [shortLen]" by simp
  ultimately show ?thesis by (simp only: interleave_def map_append concat_append list.map concat.simps append_Nil2 append_assoc block_rows(2) [OF assms])
qed

text \<open>How a scanner takes block \<open>b\<close> out of the interleaved code words.\<close>

definition take_block :: "nat \<Rightarrow> nat \<Rightarrow> nat \<Rightarrow> byte list \<Rightarrow> nat \<Rightarrow> byte list" where
  "take_block nBlocks shortLen longCount out b =
    map (\<lambda>i. out ! (i * nBlocks + b)) [0..<shortLen] @
    (if b \<ge> nBlocks - longCount then [out ! (shortLen * nBlocks + (b - (nBlocks - longCount)))] else [])"

lemma take_block_interleave:
  assumes sh: "block_shape shortLen longCount ds" and b: "b < length ds"
  shows "take_block (length ds) shortLen longCount (interleave shortLen ecLen ds es) b = ds ! b"
proof -
  let ?n = "length ds" and ?out = "interleave shortLen ecLen ds es"
  let ?rows = "map (\<lambda>i. map (\<lambda>d. d ! i) ds) [0..<shortLen]"
  have rows: "\<forall>r \<in> set ?rows. length r = ?n" by auto
  have short: "?out ! (i * ?n + b) = ds ! b ! i" if "i < shortLen" for i
    unfolding interleave_eq [OF sh] using concat_rows_nth [OF rows _ b, of i] that b by simp
  have long: "?out ! (shortLen * ?n + (b - (?n - longCount))) = ds ! b ! shortLen" if "b \<ge> ?n - longCount"
  proof -
    let ?rest = "map (\<lambda>d. d ! shortLen) (drop (?n - longCount) ds) @ concat (map (\<lambda>i. map (\<lambda>e. e ! i) es) [0..<ecLen])"
    have len: "length (concat ?rows) = shortLen * ?n" using concat_rows_length [OF rows] by simp
    have k: "b - (?n - longCount) < longCount" "longCount \<le> ?n" using b that sh by (auto simp: block_shape_def)
    have "(concat ?rows @ ?rest) ! (shortLen * ?n + (b - (?n - longCount))) = ?rest ! (b - (?n - longCount))"
      unfolding len [symmetric] by (rule nth_append_length_plus)
    also have "\<dots> = ds ! b ! shortLen" using k that b by (simp add: nth_append)
    finally show ?thesis unfolding interleave_eq [OF sh] .
  qed
  have len: "length (ds ! b) = (if b \<ge> ?n - longCount then shortLen + 1 else shortLen)" using sh b by (simp add: block_shape_def)
  have "map (\<lambda>i. ?out ! (i * ?n + b)) [0..<shortLen] = map (\<lambda>i. ds ! b ! i) [0..<shortLen]" using short by simp
  then have "take_block ?n shortLen longCount ?out b = map (\<lambda>i. ds ! b ! i) [0..<shortLen] @ (if b \<ge> ?n - longCount then [ds ! b ! shortLen] else [])"
    using long by (simp only: take_block_def split: if_split) blast
  also have "\<dots> = ds ! b" by (rule nth_equalityI) (auto simp: len nth_append less_Suc_eq)
  finally show ?thesis .
qed


section \<open>The whole stream\<close>

text \<open>The scanner's side: bytes from bits, blocks from code words, text from data.\<close>

definition read_stream :: "nat \<Rightarrow> bool list \<Rightarrow> byte list option" where
  "read_stream v stream =
    (let nBlocks = blocks ! (v - 1); dataCw = dataCodewords v; shortLen = dataCw div nBlocks; longCount = dataCw mod nBlocks
     in read_text v (concat (map (take_block nBlocks shortLen longCount (pack stream)) [0..<nBlocks])))"

lemma codewords_blocks:
  assumes fit: "4 + countBits v + 8 * length text \<le> 8 * dataCodewords v" and v: "1 \<le> v" "v \<le> 40"
  defines "n \<equiv> blocks ! (v - 1)" and "sl \<equiv> dataCodewords v div blocks ! (v - 1)" and "lc \<equiv> dataCodewords v mod blocks ! (v - 1)"
  obtains ds where "block_shape sl lc ds" "length ds = n" "concat ds = data_codewords text v"
    "codewords text v = interleave sl (eccPerBlock ! (v - 1)) ds (map (\<lambda>d. rsRemainder d (eccPerBlock ! (v - 1))) ds)"
proof -
  define ds where "ds = cut_blocks n sl lc n (data_codewords text v)"
  have n0: "0 < n" using version_facts(2) [OF v] by (simp add: n_def)
  have lc: "lc < n" using n0 by (simp add: lc_def n_def)
  have "length (data_codewords text v) = n * sl + min n lc"
    using data_codewords_ok(1) [OF fit] lc by (simp add: sl_def lc_def n_def)
  note c = cut_blocks_ok [OF this order_refl]
  show thesis
  proof (rule that [of ds])
    show "block_shape sl lc ds" using c lc by (auto simp: block_shape_def ds_def)
    show "length ds = n" "concat ds = data_codewords text v" using c by (simp_all add: ds_def)
    show "codewords text v = interleave sl (eccPerBlock ! (v - 1)) ds (map (\<lambda>d. rsRemainder d (eccPerBlock ! (v - 1))) ds)"
      by (simp add: codewords_def Let_def ds_def n_def sl_def lc_def)
  qed
qed

lemma codewords_length:
  assumes fit: "4 + countBits v + 8 * length text \<le> 8 * dataCodewords v" and v: "1 \<le> v" "v \<le> 40"
  shows "length (codewords text v) = total ! (v - 1)"
proof (rule codewords_blocks [OF fit v], goal_cases)
  case (1 ds)
  have "length (concat (map (\<lambda>i. map (\<lambda>d. d ! i) ds) [0..<k])) = k * length ds" for k
    using concat_rows_length [of "map (\<lambda>i. map (\<lambda>d. d ! i) ds) [0..<k]" "length ds"] by auto
  moreover have "length (concat (map (\<lambda>i. map (\<lambda>e. e ! i) (map (\<lambda>d. rsRemainder d (eccPerBlock ! (v - 1))) ds)) [0..<k])) = k * length ds" for k
    using concat_rows_length [of "map (\<lambda>i. map (\<lambda>e. e ! i) (map (\<lambda>d. rsRemainder d (eccPerBlock ! (v - 1))) ds)) [0..<k]" "length ds"] by auto
  ultimately have "length (codewords text v) = dataCodewords v div blocks ! (v - 1) * length ds + dataCodewords v mod blocks ! (v - 1) + eccPerBlock ! (v - 1) * length ds"
    unfolding 1(4) interleave_eq [OF 1(1)] using 1(1,2) by (simp add: block_shape_def)
  then show ?case using 1(2) version_facts(1) [OF v] by (simp add: mult.commute)
qed

lemma stream_reads:
  assumes "pickVersion (length text) = Some v"
  shows "length (bitStream text v) = 8 * total ! (v - 1) \<and> read_stream v (bitStream text v) = Some text"
proof -
  have fit: "4 + countBits v + 8 * length text \<le> 8 * dataCodewords v" and v: "1 \<le> v" "v \<le> 40"
    using pick_from_find [of 1 "length text"] assms unfolding pickVersion_def by (auto simp: find_Some_iff simp del: upt_Suc)
  have st: "bitStream text v = unpack (codewords text v)" by (simp add: bitStream_def unpack_def)
  show ?thesis
  proof (rule codewords_blocks [OF fit v], goal_cases)
    case (1 ds)
    let ?n = "blocks ! (v - 1)"
    have "map (take_block ?n (dataCodewords v div ?n) (dataCodewords v mod ?n) (codewords text v)) [0..<?n] = ds"
      by (rule nth_equalityI) (use 1 take_block_interleave [OF 1(1)] in \<open>auto simp: 1(2) [symmetric]\<close>)
    then have "read_stream v (bitStream text v) = Some text"
      using read_data_codewords [OF fit v] 1(3) by (simp add: read_stream_def Let_def st)
    then show ?case using codewords_length [OF fit v] by (simp add: st)
  qed
qed

text \<open>Whatever text fits a version, its stream has exactly the number of bits of the version and reads back as
  that text: undoing the interleaving, the padding, the terminator and the header recovers every byte.\<close>

lemma bitStream_roundtrip:
  assumes "pickVersion (length text) = Some v"
  shows "length (bitStream text v) = 8 * total ! (v - 1) \<and> read_stream v (bitStream text v) = Some text"
  by (rule stream_reads [OF assms])


end
