(* ===== verification/Qr_Matrix.thy ===== *)
theory Qr_Matrix
  imports Qr_Stream
begin

text \<open>
  The picture side of \<open>internal/qr/qr.go\<close>: the matrix of modules, the fixed patterns, the zigzag that lays the
  stream out under a mask, the format field, the penalty, and \<open>Encode\<close>.  The matrix is the flat slice of the
  source, indexed by \<open>row*size+col\<close>.  The zigzag is shown to visit every module outside the timing column once,
  and a picture to give back the stream it was drawn from and the mask it was drawn with.
\<close>

section \<open>The matrix\<close>

record matrix =
  m_size :: int
  m_dark :: "bool list"

definition outside :: "int \<Rightarrow> int \<Rightarrow> int \<Rightarrow> bool" where
  "outside sz row col \<longleftrightarrow> row < 0 \<or> col < 0 \<or> row \<ge> sz \<or> col \<ge> sz"

definition ix :: "int \<Rightarrow> int \<Rightarrow> int \<Rightarrow> nat" where
  "ix sz row col = nat (row * sz + col)"

definition Dark :: "matrix \<Rightarrow> int \<Rightarrow> int \<Rightarrow> bool" where
  "Dark m row col = (if outside (m_size m) row col then False else m_dark m ! ix (m_size m) row col)"

definition set_module :: "int \<Rightarrow> int \<Rightarrow> bool \<Rightarrow> matrix \<Rightarrow> matrix" where
  "set_module row col v m = (if outside (m_size m) row col then m
     else m\<lparr>m_dark := (m_dark m)[ix (m_size m) row col := v]\<rparr>)"

definition align :: "int list list" where
  "align =
    [[], [6, 18], [6, 22], [6, 26], [6, 30], [6, 34], [6, 22, 38], [6, 24, 42], [6, 26, 46], [6, 28, 50],
     [6, 30, 54], [6, 32, 58], [6, 34, 62], [6, 26, 46, 66], [6, 26, 48, 70], [6, 26, 50, 74], [6, 30, 54, 78],
     [6, 30, 56, 82], [6, 30, 58, 86], [6, 34, 62, 90], [6, 28, 50, 72, 94], [6, 26, 50, 74, 98],
     [6, 30, 54, 78, 102], [6, 28, 54, 80, 106], [6, 32, 58, 84, 110], [6, 30, 58, 86, 114], [6, 34, 62, 90, 118],
     [6, 26, 50, 74, 98, 122], [6, 30, 54, 78, 102, 126], [6, 26, 52, 78, 104, 130], [6, 30, 56, 82, 108, 134],
     [6, 34, 60, 86, 112, 138], [6, 30, 58, 86, 114, 142], [6, 34, 62, 90, 118, 146],
     [6, 30, 54, 78, 102, 126, 150], [6, 24, 50, 76, 102, 128, 154], [6, 28, 54, 80, 106, 132, 158],
     [6, 32, 58, 84, 110, 136, 162], [6, 26, 54, 82, 110, 138, 166], [6, 30, 58, 86, 114, 142, 170]]"

section \<open>Masks and check codes\<close>

text \<open>Rows and columns are not negative, so \<open>/\<close> and \<open>%\<close> of the source are \<open>div\<close> and \<open>mod\<close>.\<close>

definition maskFn :: "nat \<Rightarrow> int \<Rightarrow> int \<Rightarrow> bool" where
  "maskFn mk row col =
    (if mk = 0 then (row + col) mod 2 = 0
     else if mk = 1 then row mod 2 = 0
     else if mk = 2 then col mod 3 = 0
     else if mk = 3 then (row + col) mod 3 = 0
     else if mk = 4 then (row div 2 + col div 3) mod 2 = 0
     else if mk = 5 then (row * col) mod 2 + (row * col) mod 3 = 0
     else if mk = 6 then ((row * col) mod 2 + (row * col) mod 3) mod 2 = 0
     else ((row + col) mod 2 + (row * col) mod 3) mod 2 = 0)"

definition bch_step :: "int \<Rightarrow> nat \<Rightarrow> nat \<Rightarrow> int \<Rightarrow> int" where
  "bch_step gen low i d = (if bit d i then d XOR push_bit (i - low) gen else d)"

definition bchFormat :: "int \<Rightarrow> int" where
  "bchFormat data = ((push_bit 10 data OR fold (bch_step 0x537 10) (rev [10..<15]) (push_bit 10 data)) XOR 0x5412)"

definition bchVersion :: "int \<Rightarrow> int" where
  "bchVersion v = push_bit 12 v OR fold (bch_step 0x1f25 12) (rev [12..<18]) (push_bit 12 v)"

section \<open>The fixed patterns\<close>

text \<open>The modules drawn so far and the marks of the fixed ones.\<close>

type_synonym canvas = "bool list \<times> bool list"

definition put :: "int \<Rightarrow> int \<Rightarrow> int \<Rightarrow> bool \<Rightarrow> canvas \<Rightarrow> canvas" where
  "put sz row col v = (\<lambda>(dark, functional). if outside sz row col then (dark, functional)
     else (dark[ix sz row col := v], functional[ix sz row col := True]))"

definition isFunctional :: "int \<Rightarrow> int \<Rightarrow> int \<Rightarrow> canvas \<Rightarrow> bool" where
  "isFunctional sz row col cv = snd cv ! ix sz row col"

definition finder_dark :: "int \<Rightarrow> int \<Rightarrow> bool" where
  "finder_dark r c \<longleftrightarrow> (r \<ge> 0 \<and> r \<le> 6 \<and> (c = 0 \<or> c = 6)) \<or> (c \<ge> 0 \<and> c \<le> 6 \<and> (r = 0 \<or> r = 6)) \<or>
     (r \<ge> 2 \<and> r \<le> 4 \<and> c \<ge> 2 \<and> c \<le> 4)"

definition finder :: "int \<Rightarrow> int \<Rightarrow> int \<Rightarrow> canvas \<Rightarrow> canvas" where
  "finder sz baseRow baseCol =
     fold (\<lambda>r. fold (\<lambda>c. put sz (baseRow + r) (baseCol + c) (finder_dark r c)) [-1..7]) [-1..7]"

definition alignment :: "int \<Rightarrow> int list \<Rightarrow> canvas \<Rightarrow> canvas" where
  "alignment sz centers = fold (\<lambda>r. fold (\<lambda>c cv.
     if (r \<le> 8 \<and> c \<le> 8) \<or> (r \<le> 8 \<and> c \<ge> sz - 9) \<or> (r \<ge> sz - 9 \<and> c \<le> 8) then cv
     else fold (\<lambda>dr. fold (\<lambda>dc. put sz (r + dr) (c + dc) (max \<bar>dr\<bar> \<bar>dc\<bar> \<noteq> 1)) [-2..2]) [-2..2] cv) centers) centers"

definition timing :: "int \<Rightarrow> canvas \<Rightarrow> canvas" where
  "timing sz = fold (\<lambda>i cv. put sz i 6 (i mod 2 = 0) (put sz 6 i (i mod 2 = 0) cv)) [8..sz - 9]"

text \<open>The format field is reserved where nothing is drawn yet.\<close>

definition reserve :: "int \<Rightarrow> int \<Rightarrow> int \<Rightarrow> canvas \<Rightarrow> canvas" where
  "reserve sz row col cv = (if \<not> isFunctional sz row col cv then put sz row col False cv else cv)"

definition reserve_format :: "int \<Rightarrow> canvas \<Rightarrow> canvas" where
  "reserve_format sz cv =
    fold (\<lambda>i cv. reserve sz i 8 (reserve sz 8 i cv)) [sz - 8..sz - 1]
      (fold (\<lambda>i cv. reserve sz i 8 (reserve sz 8 i cv)) [0..8] cv)"

definition version_field :: "int \<Rightarrow> nat \<Rightarrow> canvas \<Rightarrow> canvas" where
  "version_field sz v cv = (if v \<ge> 7 then
     let bits = bchVersion (int v) in
     fold (\<lambda>i cv. let on = bit bits i; a = int i div 3; b = int i mod 3 + sz - 11 in put sz b a on (put sz a b on cv)) [0..<18] cv
   else cv)"

definition skeleton :: "nat \<Rightarrow> canvas" where
  "skeleton v =
    (let sz = int v * 4 + 17; blank = replicate (nat (sz * sz)) False;
         cv = finder sz (sz - 7) 0 (finder sz 0 (sz - 7) (finder sz 0 0 (blank, blank)));
         cv = alignment sz (align ! (v - 1)) cv;
         cv = timing sz cv;
         cv = put sz (sz - 8) 8 True cv;
         cv = reserve_format sz cv
     in version_field sz v cv)"

section \<open>Laying out the stream\<close>

text \<open>The modules in the order the loops of \<open>place\<close> visit them: pairs of columns from the right, up and down in
  turn.  The direction \<open>dir\<close>, \<open>-1\<close> or \<open>1\<close>, is \<open>up\<close> or not; a run through a pair of columns also gives the row it ends in.\<close>

function zig_column :: "int \<Rightarrow> int \<Rightarrow> int \<Rightarrow> bool \<Rightarrow> (int \<times> int) list \<times> int" where
  "zig_column sz col row up =
    (let next = (if up then row - 1 else row + 1) in
     if next < 0 \<or> next \<ge> sz then ([(row, col), (row, col - 1)], row)
     else let (cs, end_row) = zig_column sz col next up in ((row, col) # (row, col - 1) # cs, end_row))"
  by pat_completeness auto
termination by (relation "measure (\<lambda>(sz, col, row, up). if up then nat (row + 1) else nat (sz - row))") auto

function zig_from :: "int \<Rightarrow> int \<Rightarrow> int \<Rightarrow> bool \<Rightarrow> (int \<times> int) list" where
  "zig_from sz col row up = (if col > 0 then
     let col = (if col = 6 then col - 1 else col); (cs, end_row) = zig_column sz col row up
     in cs @ zig_from sz (col - 2) end_row (\<not> up)
   else [])"
  by pat_completeness auto
termination by (relation "measure (\<lambda>(sz, col, row, up). nat col)") auto

declare zig_column.simps [simp del] zig_from.simps [simp del]

definition zigzag :: "int \<Rightarrow> (int \<times> int) list" where
  "zigzag sz = zig_from sz (sz - 1) (sz - 1) True"

text \<open>The body of the loops.\<close>

definition lay_module :: "int \<Rightarrow> bool list \<Rightarrow> bool list \<Rightarrow> nat \<Rightarrow> int \<times> int \<Rightarrow> nat \<times> bool list \<Rightarrow> nat \<times> bool list" where
  "lay_module sz functional stream mk = (\<lambda>(row, c) (idx, dark).
     if functional ! ix sz row c then (idx, dark)
     else let (b, idx') = (if idx < length stream then (stream ! idx, idx + 1) else (False, idx))
          in (idx', dark[ix sz row c := (b \<noteq> maskFn mk row c)]))"

text \<open>The two places of bit \<open>i\<close> of the format.\<close>

definition format_first :: "int \<Rightarrow> int \<Rightarrow> int \<times> int" where
  "format_first sz i = (if i < 6 then (i, 8) else if i < 8 then (i + 1, 8) else (sz - 15 + i, 8))"

definition format_second :: "int \<Rightarrow> int \<Rightarrow> int \<times> int" where
  "format_second sz i = (if i < 8 then (8, sz - i - 1) else if i < 9 then (8, 15 - i) else (8, 14 - i))"

definition put_format :: "int \<Rightarrow> int \<Rightarrow> nat \<Rightarrow> matrix \<Rightarrow> matrix" where
  "put_format sz format i m = (let on = bit format i; (a, b) = format_first sz (int i); (c, d) = format_second sz (int i)
     in set_module c d on (set_module a b on m))"

definition place :: "nat \<Rightarrow> bool list \<Rightarrow> nat \<Rightarrow> matrix" where
  "place v stream mk =
    (let (dark, functional) = skeleton v; sz = int v * 4 + 17;
         (idx, dark) = fold (lay_module sz functional stream mk) (zigzag sz) (0, dark);
         format = bchFormat (push_bit 3 1 OR int mk);
         m = fold (put_format sz format) [0..<15] \<lparr>m_size = sz, m_dark = dark\<rparr>
     in set_module (sz - 8) 8 True m)"

section \<open>The penalty\<close>

text \<open>Rule 1, one line: the length of the current run and its colour, none before the first module.\<close>

definition run_score :: "int \<Rightarrow> int" where
  "run_score n = (if n \<ge> 5 then 3 + (n - 5) else 0)"

definition run_turn :: "bool \<Rightarrow> int \<times> bool option \<times> int \<Rightarrow> int \<times> bool option \<times> int" where
  "run_turn x = (\<lambda>(n, prev, score). if prev = Some x then (n + 1, prev, score) else (1, Some x, score + run_score n))"

definition line_score :: "bool list \<Rightarrow> int" where
  "line_score xs = (let (n, prev, score) = fold run_turn xs (1, None, 0) in score + run_score n)"

definition rule1 :: "matrix \<Rightarrow> int" where
  "rule1 m = (let line = [0..m_size m - 1] in
     sum_list (map (\<lambda>a. line_score (map (\<lambda>b. Dark m a b) line)) line) + sum_list (map (\<lambda>a. line_score (map (\<lambda>b. Dark m b a) line)) line))"

definition rule2 :: "matrix \<Rightarrow> int" where
  "rule2 m = sum_list (map (\<lambda>r. sum_list (map (\<lambda>c. let x = Dark m r c in
     if x = Dark m r (c + 1) \<and> x = Dark m (r + 1) c \<and> x = Dark m (r + 1) (c + 1) then 3 else 0) [0..m_size m - 2])) [0..m_size m - 2])"

definition pattern :: "bool list" where
  "pattern = [True, False, True, True, True, False, True, False, False, False, False]"

definition matches :: "(int \<Rightarrow> bool) \<Rightarrow> int \<Rightarrow> bool" where
  "matches get start \<longleftrightarrow> map (\<lambda>k. get (start + k)) [0..10] = pattern \<or> map (\<lambda>k. get (start + k)) [0..10] = rev pattern"

definition rule3 :: "matrix \<Rightarrow> int" where
  "rule3 m =
     sum_list (map (\<lambda>r. sum_list (map (\<lambda>c. if matches (Dark m r) c then 40 else 0) [0..m_size m - 11])) [0..m_size m - 1]) +
     sum_list (map (\<lambda>c. sum_list (map (\<lambda>r. if matches (\<lambda>i. Dark m i c) r then 40 else 0) [0..m_size m - 11])) [0..m_size m - 1])"

definition dark_count :: "matrix \<Rightarrow> int" where
  "dark_count m = sum_list (map (\<lambda>r. sum_list (map (\<lambda>c. if Dark m r c then 1 else 0) [0..m_size m - 1])) [0..m_size m - 1])"

definition rule4 :: "matrix \<Rightarrow> int" where
  "rule4 m = (let area = m_size m * m_size m in \<bar>dark_count m * 100 - 50 * area\<bar> div (5 * area) * 10)"

definition penalty :: "matrix \<Rightarrow> int" where
  "penalty m = rule1 m + rule2 m + rule3 m + rule4 m"

section \<open>Encode\<close>

text \<open>The loop over masks, with the best picture and its score so far; the score starts at \<open>-1\<close>.\<close>

definition better :: "matrix \<Rightarrow> matrix \<times> int \<Rightarrow> matrix \<times> int" where
  "better m = (\<lambda>(best, bestScore). let score = penalty m in
     if bestScore < 0 \<or> score < bestScore then (m, score) else (best, bestScore))"

definition Encode :: "byte list \<Rightarrow> matrix option" where
  "Encode text = (case pickVersion (length text) of
     None \<Rightarrow> None
   | Some v \<Rightarrow> let stream = bitStream text v in
       Some (fst (fold (\<lambda>mk. better (place v stream mk)) [0..<8] (\<lparr>m_size = 0, m_dark = []\<rparr>, -1))))"

section \<open>The zigzag\<close>

lemma zig_column_eq:
  assumes "0 \<le> row" "row < sz"
  shows "zig_column sz col row up = (concat (map (\<lambda>r. [(r, col), (r, col - 1)]) (if up then rev [0..row] else [row..sz - 1])), if up then 0 else sz - 1)"
  using assms
proof (induction sz col row up rule: zig_column.induct)
  case (1 sz col row up)
  show ?case
  proof (cases up)
    case True
    show ?thesis
    proof (cases "row = 0")
      case False
      then have "[0..row] = [0..row - 1] @ [row]" using 1(2) by (simp add: upto_rec2)
      then show ?thesis using 1 True False by (subst zig_column.simps) (simp add: Let_def)
    qed (use True in \<open>subst zig_column.simps, simp\<close>)
  next
    case False
    show ?thesis
    proof (cases "row = sz - 1")
      case False
      then have "[row..sz - 1] = row # [row + 1..sz - 1]" using 1(3) by (simp add: upto_rec1)
      then show ?thesis using 1 \<open>\<not> up\<close> False by (subst zig_column.simps) (simp add: Let_def)
    qed (use \<open>\<not> up\<close> 1(2,3) in \<open>subst zig_column.simps, simp\<close>)
  qed
qed

lemma column_pair_ok:
  assumes "distinct rows"
  shows "distinct (concat (map (\<lambda>r. [(r, c), (r, c - 1)]) rows))" "set (concat (map (\<lambda>r. [(r, c), (r, c - 1)]) rows)) = set rows \<times> {c, c - 1 :: int}"
  using assms by (induction rows) auto

text \<open>Columns to the right of the timing column are even when they lead a pair, those to the left odd.\<close>

lemma zig_from_ok:
  assumes "row = (if up then sz - 1 else 0)" "0 < sz" "(6 \<le> col \<and> even col) \<or> (- 1 \<le> col \<and> col < 6 \<and> odd col)"
  shows "distinct (zig_from sz col row up) \<and> set (zig_from sz col row up) = {0..<sz} \<times> ({0..col} - {6})"
  using assms
proof (induction sz col row up rule: zig_from.induct)
  case (1 sz col row up)
  show ?case
  proof (cases "col > 0")
    case True
    define c where "c = (if col = 6 then col - 1 else col)"
    let ?rows = "if up then rev [0..row] else [row..sz - 1]" and ?e = "if up then 0 else sz - 1"
    let ?cs = "concat (map (\<lambda>r. [(r, c), (r, c - 1)]) ?rows)"
    have row: "0 \<le> row" "row < sz" using 1(2,3) by (auto split: if_splits)
    have col: "zig_column sz c row up = (?cs, ?e)" by (rule zig_column_eq [OF row])
    have zf: "zig_from sz col row up = ?cs @ zig_from sz (c - 2) ?e (\<not> up)"
      using True col by (subst zig_from.simps) (simp add: Let_def c_def)
    have rows: "distinct ?rows" "set ?rows = {0..<sz}" using 1(2) by auto
    have par: "(6 \<le> c - 2 \<and> even (c - 2)) \<or> (- 1 \<le> c - 2 \<and> c - 2 < 6 \<and> odd (c - 2))" "c \<noteq> 6" "1 \<le> c"
      using 1(4) True by (auto simp: c_def elim!: evenE)
    have ih: "distinct (zig_from sz (c - 2) ?e (\<not> up)) \<and> set (zig_from sz (c - 2) ?e (\<not> up)) = {0..<sz} \<times> ({0..c - 2} - {6})"
      using 1(1) [OF True c_def col [symmetric] refl] par(1) 1(3) by (cases up) simp_all
    have cols: "{c, c - 1} \<union> ({0..c - 2} - {6}) = {0..col} - {6}"
      using par 1(4) by (auto simp: c_def elim!: evenE oddE) presburger
    have "set (zig_from sz col row up) = {0..<sz} \<times> {c, c - 1} \<union> {0..<sz} \<times> ({0..c - 2} - {6})"
      unfolding zf set_append column_pair_ok(2) [OF rows(1)] rows(2) using ih by simp
    also have "\<dots> = {0..<sz} \<times> ({0..col} - {6})" unfolding cols [symmetric] by blast
    finally have "set (zig_from sz col row up) = {0..<sz} \<times> ({0..col} - {6})" .
    moreover have "distinct (zig_from sz col row up)"
      unfolding zf distinct_append column_pair_ok(2) [OF rows(1)] using column_pair_ok(1) [OF rows(1)] ih by auto
    ultimately show ?thesis by blast
  next
    case False
    then show ?thesis using 1(4) by (subst (1 2) zig_from.simps) (auto elim!: oddE)
  qed
qed

lemma zigzag_ok:
  assumes "sz = int v * 4 + 17"
  shows "distinct (zigzag sz)" "set (zigzag sz) = {0..<sz} \<times> ({0..<sz} - {6})"
proof -
  have "(6 \<le> sz - 1 \<and> even (sz - 1)) \<or> (- 1 \<le> sz - 1 \<and> sz - 1 < 6 \<and> odd (sz - 1))" using assms by simp
  moreover have "0 < sz" using assms by simp
  ultimately have "distinct (zig_from sz (sz - 1) (sz - 1) True) \<and> set (zig_from sz (sz - 1) (sz - 1) True) = {0..<sz} \<times> ({0..sz - 1} - {6})"
    by (intro zig_from_ok) simp_all
  moreover have "{0..sz - 1} = {0..<sz}" by auto
  ultimately show "distinct (zigzag sz)" "set (zigzag sz) = {0..<sz} \<times> ({0..<sz} - {6})" unfolding zigzag_def by simp_all
qed

section \<open>Modules of the slice\<close>

lemma ix_bound: "\<not> outside sz r c \<Longrightarrow> ix sz r c < nat (sz * sz)"
proof -
  assume "\<not> outside sz r c"
  then have rc: "0 \<le> r" "r \<le> sz - 1" "0 \<le> c" "c < sz" by (auto simp: outside_def)
  then have "r * sz \<le> (sz - 1) * sz" by (intro mult_right_mono) auto
  then have "r * sz + c < sz * sz" using rc by (simp add: algebra_simps)
  then show ?thesis using rc by (simp add: ix_def nat_less_eq_zless)
qed

lemma ix_inj: "\<not> outside sz r c \<Longrightarrow> \<not> outside sz r' c' \<Longrightarrow> ix sz r c = ix sz r' c' \<longleftrightarrow> r = r' \<and> c = c'"
proof
  assume o: "\<not> outside sz r c" "\<not> outside sz r' c'" and eq: "ix sz r c = ix sz r' c'"
  then have rc: "0 \<le> r * sz + c" "0 \<le> r' * sz + c'" "0 \<le> c" "c < sz" "0 \<le> c'" "c' < sz" by (auto simp: outside_def)
  with eq have e: "r * sz + c = r' * sz + c'" by (simp add: ix_def)
  have "(r * sz + c) div sz = r" "(r' * sz + c') div sz = r'" using rc by simp_all
  with e have "r = r'" by simp
  with e show "r = r' \<and> c = c'" by simp
qed simp

definition matrix_ok :: "matrix \<Rightarrow> bool" where
  "matrix_ok m \<longleftrightarrow> length (m_dark m) = nat (m_size m * m_size m)"

lemma Dark_set_module:
  assumes "matrix_ok m" "\<not> outside (m_size m) r c"
  shows "Dark (set_module r' c' x m) r c = (if r = r' \<and> c = c' then x else Dark m r c)" "matrix_ok (set_module r' c' x m)"
    "m_size (set_module r' c' x m) = m_size m"
  using assms ix_bound [OF assms(2)] ix_inj [OF assms(2), of r' c']
  by (auto simp: Dark_def set_module_def matrix_ok_def nth_list_update)

text \<open>A sequence of writes at different places.\<close>

definition write_all :: "((int \<times> int) \<times> bool) list \<Rightarrow> matrix \<Rightarrow> matrix" where
  "write_all = fold (\<lambda>((r, c), x). set_module r c x)"

lemma write_all_ok:
  assumes "matrix_ok m" "distinct (map fst ws)" "\<not> outside (m_size m) r c"
  shows "Dark (write_all ws m) r c = (case map_of ws (r, c) of Some x \<Rightarrow> x | None \<Rightarrow> Dark m r c) \<and>
    matrix_ok (write_all ws m) \<and> m_size (write_all ws m) = m_size m"
  using assms
proof (induction ws arbitrary: m)
  case (Cons w ws)
  obtain a b x where w: "w = ((a, b), x)" by (cases w) auto
  note s = Dark_set_module [OF Cons.prems(1,3), of a b x]
  have sz: "m_size (set_module a b x m) = m_size m" by (simp add: set_module_def)
  have ih: "Dark (write_all ws (set_module a b x m)) r c = (case map_of ws (r, c) of Some x \<Rightarrow> x | None \<Rightarrow> Dark (set_module a b x m) r c) \<and>
    matrix_ok (write_all ws (set_module a b x m)) \<and> m_size (write_all ws (set_module a b x m)) = m_size (set_module a b x m)"
    by (rule Cons.IH) (use Cons.prems s sz in simp_all)
  have "map_of ws (a, b) = None" using Cons.prems(2) by (simp add: w map_of_eq_None_iff)
  then show ?case using ih s sz by (cases "map_of ws (r, c)") (auto simp: write_all_def w)
qed (simp add: write_all_def)

section \<open>Fixed modules stay marked\<close>

definition grows :: "canvas \<Rightarrow> canvas \<Rightarrow> bool" where
  "grows cv cv' \<longleftrightarrow> length (fst cv') = length (fst cv) \<and> length (snd cv') = length (snd cv) \<and> (\<forall>k < length (snd cv). snd cv ! k \<longrightarrow> snd cv' ! k)"

named_theorems grow

lemma grows_refl [grow]: "grows cv cv"
  by (simp add: grows_def)

lemma grows_if [grow]: "grows cv a \<Longrightarrow> grows cv b \<Longrightarrow> grows cv (if p then a else b)"
  by simp

lemma grows_trans: "grows a b \<Longrightarrow> grows b c \<Longrightarrow> grows a c"
  by (simp add: grows_def)

lemma grows_fold [grow]: "(\<And>x cv. grows cv (f x cv)) \<Longrightarrow> grows cv (fold f xs cv)"
proof (induction xs arbitrary: cv)
  case (Cons x xs)
  show ?case unfolding fold_simps using Cons.prems by (rule grows_trans) (rule Cons.IH [OF Cons.prems])
qed (simp add: grows_refl)

lemma grows_put [grow]: "grows cv (put sz r c x cv)"
proof -
  have "b ! k \<Longrightarrow> b[j := True] ! k" for b :: "bool list" and j k
    by (cases "j < length b"; cases "j = k") (simp_all add: list_update_beyond)
  then show ?thesis by (cases cv) (simp add: grows_def put_def)
qed

lemma grows_put2 [grow]: "grows cv (put sz r c x (put sz r' c' x' cv))"
  by (rule grows_trans) (rule grows_put)+

lemma grows_reserve [grow]: "grows cv (reserve sz r c cv)"
  by (simp add: reserve_def grow)

lemma grows_finder [grow]: "grows cv (finder sz a b cv)"
  unfolding finder_def by (intro grow)

lemma grows_alignment [grow]: "grows cv (alignment sz cs cv)"
  unfolding alignment_def by (intro grow)

lemma grows_timing [grow]: "grows cv (timing sz cv)"
  unfolding timing_def by (intro grow)

lemma grows_reserve2: "grows cv (reserve sz a b (reserve sz c d cv))"
  by (rule grows_trans) (rule grows_reserve)+

lemma grows_reserve_format [grow]: "grows cv (reserve_format sz cv)"
  unfolding reserve_format_def by (rule grows_trans; rule grows_fold) (rule grows_reserve2)+

lemma grows_version_field [grow]: "grows cv (version_field sz v cv)"
  unfolding version_field_def Let_def by (intro grow)

lemma reserve_marks:
  assumes "length (snd cv) = nat (sz * sz)" "\<not> outside sz r c"
  shows "snd (reserve sz r c cv) ! ix sz r c"
  using assms ix_bound [OF assms(2)] by (cases cv) (auto simp: reserve_def isFunctional_def put_def)

lemma fold_marks:
  assumes g: "\<And>x cv. grows cv (f x cv)" and m: "\<And>cv. length (snd cv) = n \<Longrightarrow> snd (f x cv) ! k" and k: "k < n"
    and x: "x \<in> set xs" and len: "length (snd cv) = n"
  shows "snd (fold f xs cv) ! k"
proof -
  from x obtain ys zs where xs: "xs = ys @ x # zs" by (meson split_list)
  let ?c = "f x (fold f ys cv)"
  have l1: "length (snd (fold f ys cv)) = n" using grows_fold [of f cv ys, OF g] len by (simp add: grows_def)
  have "length (snd ?c) = n" using g [of "fold f ys cv" x] l1 by (simp add: grows_def)
  then show ?thesis using m [OF l1] grows_fold [of f ?c zs, OF g] k by (simp add: xs grows_def)
qed

lemma skeleton_marks:
  assumes sz: "sz = int v * 4 + 17" and i: "i \<in> set [0..8] \<union> set [sz - 8..sz - 1]"
  shows "length (fst (skeleton v)) = nat (sz * sz)" "length (snd (skeleton v)) = nat (sz * sz)"
    "snd (skeleton v) ! ix sz 8 i" "snd (skeleton v) ! ix sz i 8"
proof -
  define blank where "blank = replicate (nat (sz * sz)) False"
  define cv where "cv = put sz (sz - 8) 8 True (timing sz (alignment sz (align ! (v - 1))
      (finder sz (sz - 7) 0 (finder sz 0 (sz - 7) (finder sz 0 0 (blank, blank))))))"
  have sk: "skeleton v = version_field sz v (reserve_format sz cv)" by (simp add: skeleton_def Let_def cv_def blank_def sz)
  have g0: "grows (blank, blank) cv"
    unfolding cv_def by (rule grows_trans [OF _ grows_put], rule grows_trans [OF _ grows_timing], rule grows_trans [OF _ grows_alignment],
      rule grows_trans [OF _ grows_finder], rule grows_trans [OF _ grows_finder], rule grows_finder)
  then have len: "length (fst cv) = nat (sz * sz)" "length (snd cv) = nat (sz * sz)" by (simp_all add: grows_def blank_def)
  let ?f = "\<lambda>i cv. reserve sz i 8 (reserve sz 8 i cv)"
  let ?a = "fold ?f [0..8] cv"
  have la: "length (snd ?a) = nat (sz * sz)" using grows_fold [of ?f cv "[0..8]", OF grows_reserve2] len by (simp add: grows_def)
  have o: "\<not> outside sz 8 i" "\<not> outside sz i 8" using i sz by (auto simp: outside_def)
  have step: "snd (?f i c) ! ix sz 8 i \<and> snd (?f i c) ! ix sz i 8" if "length (snd c) = nat (sz * sz)" for c
  proof -
    have l: "length (snd (reserve sz 8 i c)) = nat (sz * sz)" using grows_reserve [of c sz 8 i] that by (simp add: grows_def)
    show ?thesis
      using reserve_marks [OF that o(1)] reserve_marks [OF l o(2)] grows_reserve [of "reserve sz 8 i c" sz i 8] ix_bound [OF o(1)] l
      by (simp add: grows_def)
  qed
  have marks: "snd (fold ?f xs c) ! ix sz 8 i \<and> snd (fold ?f xs c) ! ix sz i 8" if "i \<in> set xs" "length (snd c) = nat (sz * sz)" for xs c
    using fold_marks [of ?f "nat (sz * sz)" i, OF grows_reserve2 _ ix_bound [OF o(1)] that]
      fold_marks [of ?f "nat (sz * sz)" i, OF grows_reserve2 _ ix_bound [OF o(2)] that] step by blast
  have rf: "snd (reserve_format sz cv) ! ix sz 8 i \<and> snd (reserve_format sz cv) ! ix sz i 8"
  proof (cases "i \<in> set [sz - 8..sz - 1]")
    case True
    then show ?thesis using marks [OF True la] by (simp only: reserve_format_def)
  next
    case False
    then have "i \<in> set [0..8]" using i by blast
    from marks [OF this len(2)] have "snd ?a ! ix sz 8 i \<and> snd ?a ! ix sz i 8" .
    then show ?thesis
      using grows_fold [of ?f ?a "[sz - 8..sz - 1]", OF grows_reserve2] la ix_bound [OF o(1)] ix_bound [OF o(2)]
      by (simp only: reserve_format_def grows_def)
  qed
  have g1: "grows cv (reserve_format sz cv)" by (rule grows_reserve_format)
  have g2: "grows (reserve_format sz cv) (skeleton v)" unfolding sk by (rule grows_version_field)
  have l1: "length (snd (reserve_format sz cv)) = nat (sz * sz)" "length (fst (reserve_format sz cv)) = nat (sz * sz)"
    using g1 len by (simp_all only: grows_def)
  show "length (fst (skeleton v)) = nat (sz * sz)" "length (snd (skeleton v)) = nat (sz * sz)" using g2 l1 by (simp_all only: grows_def)
  show "snd (skeleton v) ! ix sz 8 i" "snd (skeleton v) ! ix sz i 8"
    using g2 l1 rf ix_bound [OF o(1)] ix_bound [OF o(2)] by (simp_all only: grows_def)
qed

section \<open>Reading the picture back\<close>

definition stream_bit :: "bool list \<Rightarrow> nat \<Rightarrow> bool" where
  "stream_bit stream j \<longleftrightarrow> j < length stream \<and> stream ! j"

lemma lay_fold:
  assumes "\<forall>p \<in> set ps. \<not> outside sz (fst p) (snd p)" "distinct ps" "length dark = nat (sz * sz)"
    "fold (lay_module sz functional stream mk) ps (idx, dark) = (idx', dark')" "idx \<le> length stream"
  shows "length dark' = nat (sz * sz) \<and> idx' \<le> length stream \<and>
    map (\<lambda>(r, c). dark' ! ix sz r c \<noteq> maskFn mk r c) (filter (\<lambda>(r, c). \<not> functional ! ix sz r c) ps)
      = map (\<lambda>j. stream_bit stream (idx + j)) [0..<length (filter (\<lambda>(r, c). \<not> functional ! ix sz r c) ps)] \<and>
    (\<forall>r c. \<not> outside sz r c \<longrightarrow> (r, c) \<notin> set ps \<or> functional ! ix sz r c \<longrightarrow> dark' ! ix sz r c = dark ! ix sz r c)"
  using assms
proof (induction ps arbitrary: idx dark)
  case (Cons p ps)
  obtain r c where p: "p = (r, c)" by (cases p)
  have o: "\<not> outside sz r c" using Cons.prems(1) by (simp add: p)
  show ?case
  proof (cases "functional ! ix sz r c")
    case True
    have lm: "lay_module sz functional stream mk p (idx, dark) = (idx, dark)" using True by (simp add: lay_module_def p)
    have "fold (lay_module sz functional stream mk) ps (idx, dark) = (idx', dark')" using Cons.prems(4) by (simp add: lm)
    note ih = Cons.IH [OF _ _ Cons.prems(3) this Cons.prems(5)]
    show ?thesis using ih Cons.prems(1,2) True by (auto simp: p)
  next
    case False
    let ?b = "stream_bit stream idx"
    let ?i = "if idx < length stream then idx + 1 else idx" and ?d = "dark[ix sz r c := (?b \<noteq> maskFn mk r c)]"
    have lm: "lay_module sz functional stream mk p (idx, dark) = (?i, ?d)"
      using False by (auto simp: lay_module_def p stream_bit_def)
    have ih: "length dark' = nat (sz * sz) \<and> idx' \<le> length stream \<and>
      map (\<lambda>(r, c). dark' ! ix sz r c \<noteq> maskFn mk r c) (filter (\<lambda>(r, c). \<not> functional ! ix sz r c) ps)
        = map (\<lambda>j. stream_bit stream (?i + j)) [0..<length (filter (\<lambda>(r, c). \<not> functional ! ix sz r c) ps)] \<and>
      (\<forall>r c. \<not> outside sz r c \<longrightarrow> (r, c) \<notin> set ps \<or> functional ! ix sz r c \<longrightarrow> dark' ! ix sz r c = ?d ! ix sz r c)"
      by (rule Cons.IH) (use Cons.prems lm in \<open>auto split: if_splits\<close>)
    have nb: "stream_bit stream (?i + j) = stream_bit stream (idx + Suc j)" for j
      using Cons.prems(5) by (simp add: stream_bit_def)
    have here: "dark' ! ix sz r c = (?b \<noteq> maskFn mk r c)"
      using ih o Cons.prems(2,3) ix_bound [OF o] by (simp add: p)
    have keep: "?d ! ix sz r' c' = dark ! ix sz r' c'" if "\<not> outside sz r' c'" "(r', c') \<noteq> (r, c) \<or> functional ! ix sz r' c'" for r' c'
      using ix_inj [OF that(1) o] that(2) False by (auto simp: nth_list_update)
    have fil: "filter (\<lambda>(r, c). \<not> functional ! ix sz r c) (p # ps) = p # filter (\<lambda>(r, c). \<not> functional ! ix sz r c) ps"
      using False by (simp add: p)
    have "map (\<lambda>(r, c). dark' ! ix sz r c \<noteq> maskFn mk r c) (p # filter (\<lambda>(r, c). \<not> functional ! ix sz r c) ps)
        = stream_bit stream idx # map (\<lambda>j. stream_bit stream (idx + Suc j)) [0..<length (filter (\<lambda>(r, c). \<not> functional ! ix sz r c) ps)]"
      using ih here by (auto simp: p nb)
    also have "\<dots> = map (\<lambda>j. stream_bit stream (idx + j)) [0..<length (p # filter (\<lambda>(r, c). \<not> functional ! ix sz r c) ps)]"
      unfolding length_Cons map_upt_Suc by simp
    finally have bits: "map (\<lambda>(r, c). dark' ! ix sz r c \<noteq> maskFn mk r c) (filter (\<lambda>(r, c). \<not> functional ! ix sz r c) (p # ps))
        = map (\<lambda>j. stream_bit stream (idx + j)) [0..<length (filter (\<lambda>(r, c). \<not> functional ! ix sz r c) (p # ps))]"
      unfolding fil .
    have "dark' ! ix sz r' c' = dark ! ix sz r' c'" if "\<not> outside sz r' c'" "(r', c') \<notin> set (p # ps) \<or> functional ! ix sz r' c'" for r' c'
      using ih keep [OF that(1)] that by (auto simp: p)
    then show ?thesis using ih bits by blast
  qed
qed simp


text \<open>The writes of the format field and of the dark module.\<close>

definition format_writes :: "int \<Rightarrow> int \<Rightarrow> ((int \<times> int) \<times> bool) list" where
  "format_writes sz format = concat (map (\<lambda>i. [(format_first sz (int i), bit format i), (format_second sz (int i), bit format i)]) [0..<15]) @
     [((sz - 8, 8), True)]"

lemma put_format_writes: "put_format sz format i m = write_all [(format_first sz (int i), bit format i), (format_second sz (int i), bit format i)] m"
  by (simp add: put_format_def write_all_def Let_def split: prod.splits)

lemma write_all_append: "write_all (ws @ ws') m = write_all ws' (write_all ws m)"
  by (simp add: write_all_def)

lemma fold_put_format:
  "set_module (sz - 8) 8 True (fold (put_format sz format) js m) =
   write_all (concat (map (\<lambda>i. [(format_first sz (int i), bit format i), (format_second sz (int i), bit format i)]) js) @ [((sz - 8, 8), True)]) m"
proof (induction js arbitrary: m)
  case (Cons j js)
  have "set_module (sz - 8) 8 True (fold (put_format sz format) (j # js) m) = set_module (sz - 8) 8 True (fold (put_format sz format) js (put_format sz format j m))"
    by simp
  then show ?case unfolding Cons.IH list.map concat.simps append_assoc write_all_append put_format_writes .
qed (simp add: write_all_def)

lemma upt_15: "[0..<15] = [0, 1, 2, 3, 4, 5, 6, 7, 8, 9, 10, 11, 12, 13, 14 :: nat]"
  by code_simp

lemma format_places:
  "map fst (format_writes sz format) =
    [(0, 8), (8, sz - 1), (1, 8), (8, sz - 2), (2, 8), (8, sz - 3), (3, 8), (8, sz - 4), (4, 8), (8, sz - 5), (5, 8), (8, sz - 6),
     (7, 8), (8, sz - 7), (8, 8), (8, sz - 8), (sz - 7, 8), (8, 7), (sz - 6, 8), (8, 5), (sz - 5, 8), (8, 4), (sz - 4, 8), (8, 3),
     (sz - 3, 8), (8, 2), (sz - 2, 8), (8, 1), (sz - 1, 8), (8, 0), (sz - 8, 8)]"
  unfolding format_writes_def upt_15 by (simp add: format_first_def format_second_def)

lemma format_distinct: "21 \<le> sz \<Longrightarrow> distinct (map fst (format_writes sz format))"
  unfolding format_places by simp

lemma format_functional:
  assumes "sz = int v * 4 + 17" "p \<in> fst ` set (format_writes sz format)"
  shows "snd (skeleton v) ! ix sz (fst p) (snd p)" "\<not> outside sz (fst p) (snd p)"
proof -
  have "p \<in> set (map fst (format_writes sz format))" using assms(2) by simp
  then have p: "(\<exists>i \<in> set [0..8] \<union> set [sz - 8..sz - 1]. p = (8, i) \<or> p = (i, 8))"
    unfolding format_places using assms(1) by (simp del: upto_rec_numeral) (elim disjE; simp)
  then show "snd (skeleton v) ! ix sz (fst p) (snd p)" using skeleton_marks(3,4) [OF assms(1)] by fastforce
  show "\<not> outside sz (fst p) (snd p)" using p assms(1) by (auto simp: outside_def)
qed


text \<open>What a scanner sees: the modules of the data in order, unmasked, and the two copies of the format.\<close>

definition data_places :: "nat \<Rightarrow> (int \<times> int) list" where
  "data_places v = (let sz = int v * 4 + 17 in filter (\<lambda>(r, c). \<not> snd (skeleton v) ! ix sz r c) (zigzag sz))"

definition read_data :: "nat \<Rightarrow> nat \<Rightarrow> matrix \<Rightarrow> bool list" where
  "read_data v mk m = map (\<lambda>(r, c). Dark m r c \<noteq> maskFn mk r c) (data_places v)"

definition read_format :: "(int \<Rightarrow> int \<Rightarrow> int \<times> int) \<Rightarrow> matrix \<Rightarrow> bool list" where
  "read_format places m = map (\<lambda>i. case places (m_size m) (int i) of (r, c) \<Rightarrow> Dark m r c) [0..<15]"

lemma place_writes:
  assumes sz: "sz = int v * 4 + 17"
    and lay: "fold (lay_module sz (snd (skeleton v)) stream mk) (zigzag sz) (0, fst (skeleton v)) = (idx, dark)"
  shows "place v stream mk = write_all (format_writes sz (bchFormat (push_bit 3 1 OR int mk))) \<lparr>m_size = sz, m_dark = dark\<rparr>"
  unfolding place_def format_writes_def fold_put_format [symmetric] using lay
  by (cases "skeleton v") (simp add: Let_def sz)

lemma place_facts:
  fixes stream :: "bool list" and mk v :: nat
  assumes v: "1 \<le> v"
  defines "m \<equiv> place v stream mk" and "sz \<equiv> int v * 4 + 17" and "fmt \<equiv> bchFormat (push_bit 3 1 OR int mk)"
  shows "m_size m = sz" "read_data v mk m = map (stream_bit stream) [0..<length (data_places v)]"
    "read_format format_first m = map (bit fmt) [0..<15]" "read_format format_second m = map (bit fmt) [0..<15]"
proof -
  have sz: "sz = int v * 4 + 17" "21 \<le> sz" using v by (simp_all add: sz_def)
  obtain idx dark where lay: "fold (lay_module sz (snd (skeleton v)) stream mk) (zigzag sz) (0, fst (skeleton v)) = (idx, dark)"
    by (cases "fold (lay_module sz (snd (skeleton v)) stream mk) (zigzag sz) (0, fst (skeleton v))")
  define m0 where "m0 = \<lparr>m_size = sz, m_dark = dark\<rparr>"
  have m: "m = write_all (format_writes sz fmt) m0" unfolding m_def fmt_def m0_def by (rule place_writes [OF sz(1) lay])
  have "(0 :: int) \<in> set [0..8] \<union> set [sz - 8..sz - 1]" by simp
  note sk = skeleton_marks(1,2) [OF sz(1) this]
  have ins: "\<forall>p \<in> set (zigzag sz). \<not> outside sz (fst p) (snd p)" using zigzag_ok(2) [OF sz(1)] by (auto simp: outside_def)
  note L = lay_fold [OF ins zigzag_ok(1) [OF sz(1)] sk(1) lay le0]
  have ok: "matrix_ok m0" "m_size m0 = sz" using L by (simp_all add: matrix_ok_def m0_def)
  note W = write_all_ok [OF ok(1) format_distinct [OF sz(2), of fmt], unfolded ok(2)]
  have "\<not> outside sz 0 0" using sz(2) by (simp add: outside_def)
  from W [OF this] show size: "m_size m = sz" by (simp add: m)
  have dp: "data_places v = filter (\<lambda>(r, c). \<not> snd (skeleton v) ! ix sz r c) (zigzag sz)" by (simp add: data_places_def Let_def sz(1))
  have "(case p of (r, c) \<Rightarrow> Dark m r c \<noteq> maskFn mk r c) = (case p of (r, c) \<Rightarrow> dark ! ix sz r c \<noteq> maskFn mk r c)" if p: "p \<in> set (data_places v)" for p
  proof -
    obtain r c where rc: "p = (r, c)" by (cases p)
    have o: "\<not> outside sz r c" and nf: "\<not> snd (skeleton v) ! ix sz r c" using p ins unfolding dp by (auto simp: rc)
    have "(r, c) \<notin> fst ` set (format_writes sz fmt)" using format_functional(1) [OF sz(1), of "(r, c)"] nf by auto
    then have "map_of (format_writes sz fmt) (r, c) = None" by (simp add: map_of_eq_None_iff)
    then have "Dark m r c = Dark m0 r c" using W [OF o] by (simp add: m)
    also have "\<dots> = dark ! ix sz r c" using o by (simp add: Dark_def m0_def)
    finally show ?thesis by (simp add: rc)
  qed
  then have "read_data v mk m = map (\<lambda>(r, c). dark ! ix sz r c \<noteq> maskFn mk r c) (data_places v)" unfolding read_data_def by (intro map_cong) simp_all
  then show "read_data v mk m = map (stream_bit stream) [0..<length (data_places v)]" using L unfolding dp by simp
  have look: "Dark m r c = x" if "((r, c), x) \<in> set (format_writes sz fmt)" for r c x
  proof -
    have o: "\<not> outside sz r c" using format_functional(2) [OF sz(1), of "(r, c)"] that by force
    have "map_of (format_writes sz fmt) (r, c) = Some x" using that format_distinct [OF sz(2)] by simp
    then show ?thesis using W [OF o] by (simp add: m)
  qed
  have w: "(format_first sz (int i), bit fmt i) \<in> set (format_writes sz fmt)" "(format_second sz (int i), bit fmt i) \<in> set (format_writes sz fmt)" if "i < 15" for i
    using that unfolding format_writes_def by (auto intro!: bexI [of _ i])
  have copy: "read_format places m = map (bit fmt) [0..<15]"
    if "\<And>i. i < 15 \<Longrightarrow> (places sz (int i), bit fmt i) \<in> set (format_writes sz fmt)" for places
  proof -
    have "(case places sz (int i) of (r, c) \<Rightarrow> Dark m r c) = bit fmt i" if "i < 15" for i
    proof -
      obtain r c where rc: "places sz (int i) = (r, c)" by (cases "places sz (int i)")
      then show ?thesis using look [of r c "bit fmt i"] \<open>\<And>i. i < 15 \<Longrightarrow> (places sz (int i), bit fmt i) \<in> set (format_writes sz fmt)\<close> [OF that] by simp
    qed
    then show ?thesis unfolding read_format_def size by (intro map_cong) simp_all
  qed
  show "read_format format_first m = map (bit fmt) [0..<15]" by (rule copy) (rule w(1))
  show "read_format format_second m = map (bit fmt) [0..<15]" by (rule copy) (rule w(2))
qed

lemma better_fold:
  assumes "fold (\<lambda>k. better (f k)) [0..<Suc n] (m0, -1) = (best, score)" "\<And>k. 0 \<le> penalty (f k)"
  shows "\<exists>k. k < Suc n \<and> best = f k \<and> score = penalty best \<and> (\<forall>j < Suc n. penalty best \<le> penalty (f j))"
  using assms(1)
proof (induction n arbitrary: best score)
  case 0
  then show ?case by (auto simp: better_def Let_def)
next
  case (Suc n)
  obtain b s where bs: "fold (\<lambda>k. better (f k)) [0..<Suc n] (m0, -1) = (b, s)" by (cases "fold (\<lambda>k. better (f k)) [0..<Suc n] (m0, -1)")
  from Suc.IH [OF bs] obtain k where k: "k < Suc n" "b = f k" "s = penalty b" "\<forall>j < Suc n. penalty b \<le> penalty (f j)" by blast
  have "(best, score) = better (f (Suc n)) (b, s)" using Suc.prems bs by (simp only: upt_Suc_append [OF le0] fold_append fold_simps comp_def)
  then have e: "(best, score) = (if penalty (f (Suc n)) < s then (f (Suc n), penalty (f (Suc n))) else (b, s))"
    using k(3) assms(2) [of k] by (simp add: better_def Let_def k(2))
  show ?case
  proof (cases "penalty (f (Suc n)) < s")
    case True
    then show ?thesis using e k by (intro exI [of _ "Suc n"]) (auto simp: less_Suc_eq intro: order_less_imp_le order_trans)
  next
    case False
    then show ?thesis using e k by (intro exI [of _ k]) (auto simp: less_Suc_eq)
  qed
qed


lemma sum_list_nonneg_map: "(\<And>x. 0 \<le> f x) \<Longrightarrow> 0 \<le> sum_list (map f xs)" for f :: "'a \<Rightarrow> int"
  by (induction xs) simp_all

lemma run_fold_nonneg: "0 \<le> score \<Longrightarrow> 0 \<le> snd (snd (fold run_turn xs (n, prev, score)))"
  by (induction xs arbitrary: n prev score) (auto simp: run_turn_def run_score_def)

lemma line_score_nonneg: "0 \<le> line_score xs"
  using run_fold_nonneg [of 0 xs 1 None]
  by (cases "fold run_turn xs (1, None, 0)") (auto simp: line_score_def run_score_def)

lemma penalty_nonneg: "0 \<le> penalty m"
proof -
  have "0 \<le> rule1 m" unfolding rule1_def Let_def by (intro add_nonneg_nonneg sum_list_nonneg_map line_score_nonneg)
  moreover have "0 \<le> rule2 m" unfolding rule2_def Let_def by (intro sum_list_nonneg_map) simp
  moreover have "0 \<le> rule3 m" unfolding rule3_def by (intro add_nonneg_nonneg sum_list_nonneg_map) simp_all
  moreover have "0 \<le> rule4 m" unfolding rule4_def Let_def by (simp add: pos_imp_zdiv_nonneg_iff div_int_pos_iff)
  ultimately show ?thesis by (simp add: penalty_def)
qed

text \<open>The zigzag visits every module outside the vertical timing column exactly once.\<close>

lemma zigzag_covers: "distinct (zigzag (int v * 4 + 17)) \<and> set (zigzag (int v * 4 + 17)) = {0..<int v * 4 + 17} \<times> ({0..<int v * 4 + 17} - {6})"
  using zigzag_ok [OF refl, of v] by blast



lemma free_modules_1: "length (data_places 1) = 208"
  by code_simp



section \<open>The format field\<close>

text \<open>In how many of the 15 bits two fields differ.\<close>

definition distance :: "int \<Rightarrow> int \<Rightarrow> nat" where
  "distance a b = length (filter (\<lambda>i. bit a i \<noteq> bit b i) [0..<15])"

lemma format_table: "map bchFormat [0..31] =
  [0x5412, 0x5125, 0x5E7C, 0x5B4B, 0x45F9, 0x40CE, 0x4F97, 0x4AA0, 0x77C4, 0x72F3, 0x7DAA, 0x789D, 0x662F, 0x6318, 0x6C41, 0x6976,
   0x1689, 0x13BE, 0x1CE7, 0x19D0, 0x0762, 0x0255, 0x0D0C, 0x083B, 0x355F, 0x3068, 0x3F31, 0x3A06, 0x24B4, 0x2183, 0x2EDA, 0x2BED]"
  by code_simp

text \<open>Any two format fields differ in at least five of their fifteen bits, so a scanner recovers the mask of a picture
  in which up to two bits of the field are misread.\<close>

lemma bchFormat_distance:
  "list_all (\<lambda>a. list_all (\<lambda>b. a = b \<or> 5 \<le> distance (bchFormat a) (bchFormat b)) [0..31]) [0..31]"
proof -
  have "list_all (\<lambda>x. list_all (\<lambda>y. x = y \<or> 5 \<le> distance x y) (map bchFormat [0..31])) (map bchFormat [0..31])"
    unfolding format_table by code_simp
  then have ok: "bchFormat a = bchFormat b \<or> 5 \<le> distance (bchFormat a) (bchFormat b)" if "a \<in> set [0..31]" "b \<in> set [0..31]" for a b
    using that by (simp add: list_all_iff del: upto_rec_numeral)
  have "distinct (map bchFormat [0..31])" unfolding format_table by simp
  then have inj: "inj_on bchFormat (set [0..31])" by (simp add: distinct_map del: upto_rec_numeral)
  have "a = b \<or> 5 \<le> distance (bchFormat a) (bchFormat b)" if "a \<in> set [0..31]" "b \<in> set [0..31]" for a b
    using ok [OF that] inj_onD [OF inj _ that] by blast
  then show ?thesis unfolding list_all_iff by blast
qed


end
