(* ===== verification/Login_Throttle.thy ===== *)
theory Login_Throttle
  imports Go_Std
begin

text \<open>
  The panel's brake on password guessing (\<open>internal/api/throttle.go\<close>): failures counted per client address, a
  growing delay, a block after five failures in a row, and the sweep that forgets idle addresses.  Each method
  holds the mutex from start to end, so it is one step; the clock reading \<open>t.now()\<close> is an argument.  The
  specification keeps the whole history of failures of an address instead of a counter and is never swept; the
  two are shown to answer alike after every sequence of steps.
\<close>

section \<open>Durations\<close>

text \<open>\<open>Time.Sub\<close> saturates at the bounds of a \<open>Duration\<close>; \<open>Time.Add\<close> and \<open>Time.After\<close> are exact.\<close>

definition Sub :: "time \<Rightarrow> time \<Rightarrow> duration" where
  "Sub t u = max (- (2 ^ 63)) (min (2 ^ 63 - 1) (t - u))"

definition Millisecond :: duration where
  "Millisecond = 10 ^ 6"

definition Minute :: duration where
  "Minute = 60 * Second"

text \<open>\<open>x << n\<close> on \<open>int64\<close>: bits above the width are lost; a negative count panics, which is \<open>None\<close>.\<close>

definition shl64 :: "int \<Rightarrow> int \<Rightarrow> int option" where
  "shl64 x n = (if n < 0 then None else Some (wrap64 (x * 2 ^ nat n)))"

section \<open>The counters\<close>

definition maxLoginFails :: int where
  "maxLoginFails = 5"

definition loginBlock :: duration where
  "loginBlock = 15 * Minute"

definition failWindow :: duration where
  "failWindow = 15 * Minute"

definition loginBaseDelay :: duration where
  "loginBaseDelay = 250 * Millisecond"

definition loginMaxDelay :: duration where
  "loginMaxDelay = 4 * Second"

record attempt =
  at_fails :: int
  at_last :: time
  at_blockedUntil :: time

definition no_attempt :: attempt where
  "no_attempt = \<lparr>at_fails = 0, at_last = time_zero, at_blockedUntil = time_zero\<rparr>"

type_synonym throttle = "string \<rightharpoonup> attempt"

definition newThrottle :: throttle where
  "newThrottle = Map.empty"

definition retryAfter :: "string \<Rightarrow> time \<Rightarrow> throttle \<Rightarrow> duration" where
  "retryAfter key now t = (case t key of
     None \<Rightarrow> 0
   | Some e \<Rightarrow> let left = Sub (at_blockedUntil e) now in if left > 0 then left else 0)"

definition fail_entry :: "string \<Rightarrow> time \<Rightarrow> throttle \<Rightarrow> attempt" where
  "fail_entry key now t = (case t key of
     None \<Rightarrow> no_attempt
   | Some e \<Rightarrow> if Sub now (at_last e) > failWindow then no_attempt else e)"

definition count_fail :: "time \<Rightarrow> attempt \<Rightarrow> attempt" where
  "count_fail now e =
    (let e = e\<lparr>at_fails := wrap64 (at_fails e + 1), at_last := now\<rparr>
     in if at_fails e \<ge> maxLoginFails then e\<lparr>at_blockedUntil := now + loginBlock\<rparr> else e)"

definition fail_delay :: "attempt \<Rightarrow> duration option" where
  "fail_delay e = map_option (\<lambda>delay. if delay > loginMaxDelay \<or> delay \<le> 0 then loginMaxDelay else delay)
     (shl64 loginBaseDelay (at_fails e - 1))"

text \<open>\<open>fail\<close> changes the entry before it computes the delay, so a panic would leave the change behind.\<close>

definition fail :: "string \<Rightarrow> time \<Rightarrow> throttle \<Rightarrow> duration option \<times> throttle" where
  "fail key now t =
    (let e = count_fail now (fail_entry key now t) in (fail_delay e, t(key \<mapsto> e)))"

definition success :: "string \<Rightarrow> throttle \<Rightarrow> throttle" where
  "success key t = t(key := None)"

definition sweep :: "time \<Rightarrow> throttle \<Rightarrow> throttle" where
  "sweep now t = (\<lambda>key. case t key of
     None \<Rightarrow> None
   | Some e \<Rightarrow> if now > at_blockedUntil e \<and> Sub now (at_last e) > failWindow then None else Some e)"

section \<open>Steps, histories and the specification\<close>

datatype throttle_step = Fail string time | Success string | Sweep time

primrec throttle_do :: "throttle_step \<Rightarrow> throttle \<Rightarrow> throttle" where
  "throttle_do (Fail key now) t = snd (fail key now t)"
| "throttle_do (Success key) t = success key t"
| "throttle_do (Sweep now) t = sweep now t"

text \<open>The failures of an address since its last success, newest first.\<close>

primrec note_step :: "string \<Rightarrow> throttle_step \<Rightarrow> time list \<Rightarrow> time list" where
  "note_step key (Fail k now) ts = (if k = key then now # ts else ts)"
| "note_step key (Success k) ts = (if k = key then [] else ts)"
| "note_step key (Sweep now) ts = ts"

definition failures :: "string \<Rightarrow> throttle_step list \<Rightarrow> time list" where
  "failures key steps = fold (note_step key) steps []"

text \<open>How many of them form the current streak: no two neighbours further apart than the window.\<close>

fun streak :: "time list \<Rightarrow> nat" where
  "streak [] = 0"
| "streak [t] = 1"
| "streak (t # u # us) = (if t - u > failWindow then 1 else Suc (streak (u # us)))"

definition spec_retryAfter :: "time list \<Rightarrow> time \<Rightarrow> duration" where
  "spec_retryAfter ts now = (if 5 \<le> streak ts then max 0 (hd ts + loginBlock - now) else 0)"

definition spec_delay :: "nat \<Rightarrow> duration" where
  "spec_delay n = min (loginBaseDelay * 2 ^ (n - 1)) loginMaxDelay"

text \<open>The readings of the clock never go back.\<close>

primrec step_times :: "throttle_step \<Rightarrow> time list" where
  "step_times (Fail key now) = [now]"
| "step_times (Success key) = []"
| "step_times (Sweep now) = [now]"

definition clock_ok :: "throttle_step list \<Rightarrow> bool" where
  "clock_ok steps = sorted (concat (map step_times steps))"

definition throttle_run :: "throttle_step list \<Rightarrow> throttle" where
  "throttle_run steps = fold throttle_do steps newThrottle"

lemmas throttle_consts =
  maxLoginFails_def loginBlock_def failWindow_def loginBaseDelay_def loginMaxDelay_def
  Millisecond_def Minute_def Second_def

section \<open>The delay\<close>

text \<open>The shift overflows from the thirty-seventh failure on, but what is left is a multiple of \<open>2 ^ 33\<close>: never a
  positive value within the maximum.\<close>

lemma shl_overflow:
  assumes "33 \<le> n"
  shows "wrap64 (loginBaseDelay * 2 ^ n) > loginMaxDelay \<or> wrap64 (loginBaseDelay * 2 ^ n) \<le> 0"
proof -
  have "(2 ^ 33 :: int) dvd loginBaseDelay * 2 ^ n" using assms by (intro dvd_mult le_imp_power_dvd)
  then have "(2 ^ 33 :: int) dvd wrap64 (loginBaseDelay * 2 ^ n)"
    by (simp add: wrap64_def dvd_mod dvd_diff)
  then obtain q where "wrap64 (loginBaseDelay * 2 ^ n) = 2 ^ 33 * q" by blast
  then show ?thesis by (auto simp: throttle_consts)
qed

lemma capped_shift:
  "(let d = wrap64 (loginBaseDelay * 2 ^ n) in if d > loginMaxDelay \<or> d \<le> 0 then loginMaxDelay else d)
    = min (loginBaseDelay * 2 ^ n) loginMaxDelay"
proof (cases "33 \<le> n")
  case True
  then have "(2 ^ 33 :: int) \<le> 2 ^ n" by (intro power_increasing) auto
  then show ?thesis using shl_overflow [OF True] by (auto simp: throttle_consts Let_def)
next
  case False
  have in_range: "int64_ok (loginBaseDelay * p)" "0 < loginBaseDelay * p" if "p \<le> 2 ^ 32" "0 < p" for p
    using that by (auto simp: int64_ok_def throttle_consts)
  from False have "(2 ^ n :: int) \<le> 2 ^ 32" by (intro power_increasing) auto
  moreover have "(0 :: int) < 2 ^ n" by simp
  ultimately have "int64_ok (loginBaseDelay * 2 ^ n)" "0 < loginBaseDelay * 2 ^ n"
    using in_range by blast+
  then show ?thesis by (simp add: wrap64_id Let_def min_def)
qed

lemma fail_delay_spec:
  assumes "0 < n"
  shows "fail_delay (e\<lparr>at_fails := int n\<rparr>) = Some (spec_delay n)"
proof -
  have "nat (int n - 1) = n - 1" "\<not> int n - 1 < 0" using assms by auto
  then show ?thesis using capped_shift [of "n - 1"]
    by (simp add: fail_delay_def shl64_def spec_delay_def Let_def)
qed

section \<open>Answers agree with the history\<close>

text \<open>What a counter tells of a history: it is the streak, or the streak is over and the entry is swept.\<close>

definition tells :: "time \<Rightarrow> attempt option \<Rightarrow> time list \<Rightarrow> bool" where
  "tells now eo ts = (case eo of
     None \<Rightarrow> ts = [] \<or> now - hd ts > failWindow
   | Some e \<Rightarrow> ts \<noteq> [] \<and> at_last e = hd ts \<and> at_fails e = int (streak ts) \<and>
       (if 5 \<le> streak ts then at_blockedUntil e = hd ts + loginBlock else at_blockedUntil e \<le> hd ts))"

lemma window_block: "failWindow = loginBlock" "0 < loginBlock"
  by (simp_all add: throttle_consts)

lemma Sub_gt_window: "Sub t u > failWindow \<longleftrightarrow> t - u > failWindow" "Sub t u > loginBlock \<longleftrightarrow> t - u > loginBlock"
  by (auto simp: Sub_def throttle_consts)

lemma tells_later: "tells now eo ts \<Longrightarrow> now \<le> now' \<Longrightarrow> tells now' eo ts"
  by (auto simp: tells_def split: option.splits if_splits)

lemma tells_retryAfter:
  assumes "tells now (t key) ts" "ts \<noteq> [] \<Longrightarrow> hd ts \<le> now"
  shows "retryAfter key now t = spec_retryAfter ts now"
  using assms
  by (auto simp: tells_def retryAfter_def spec_retryAfter_def Sub_def throttle_consts Let_def
      split: option.splits if_splits)

lemma streak_Cons:
  "streak (t # ts) = (if ts = [] \<or> t - hd ts > failWindow then 1 else Suc (streak ts))"
  by (cases ts) auto

lemma streak_le: "streak ts \<le> length ts"
  by (induction ts rule: streak.induct) auto

lemma fail_tells:
  assumes "tells now (t key) ts" "ts \<noteq> [] \<Longrightarrow> hd ts \<le> now" "time_zero \<le> now" "int (length ts) < 2 ^ 63 - 1"
  shows "tells now (snd (fail key now t) key) (now # ts)" "fst (fail key now t) = Some (spec_delay (streak (now # ts)))"
proof -
  let ?e = "fail_entry key now t" and ?n = "streak (now # ts)"
  have n: "at_fails ?e + 1 = int ?n" "?n < 5 \<Longrightarrow> at_blockedUntil ?e \<le> now"
    using assms(1-3)
    by (auto simp: fail_entry_def tells_def streak_Cons no_attempt_def Sub_gt_window window_block split: option.splits if_splits)
  have "int64_ok (int ?n)" using streak_le [of "now # ts"] assms(4) by (simp add: int64_ok_def)
  then have w: "wrap64 (at_fails ?e + 1) = int ?n" using n(1) by (simp add: wrap64_id)
  have pos: "0 < ?n" by (simp add: streak_Cons)
  show "tells now (snd (fail key now t) key) (now # ts)"
    using w n by (auto simp: fail_def tells_def count_fail_def Let_def maxLoginFails_def)
  have "\<exists>e'. count_fail now ?e = e'\<lparr>at_fails := int ?n\<rparr>"
    using w by (intro exI [of _ "count_fail now ?e"]) (simp add: count_fail_def Let_def)
  then show "fst (fail key now t) = Some (spec_delay ?n)"
    using fail_delay_spec [OF pos] by (auto simp: fail_def)
qed

text \<open>A step of one address leaves the others alone, and a sweep drops an entry only when the streak is over and no
  block is left.\<close>

lemma other_key: "key \<noteq> k \<Longrightarrow> snd (fail k now t) key = t key" "key \<noteq> k \<Longrightarrow> success k t key = t key"
  by (simp_all add: fail_def success_def Let_def)

lemma sweep_tells: "tells now (t key) ts \<Longrightarrow> tells now (sweep now t key) ts"
  by (auto simp: tells_def sweep_def Sub_gt_window split: option.splits if_splits)

lemma success_tells: "tells now (success key t key) []"
  by (simp add: tells_def success_def)

lemma failures_snoc: "failures key (steps @ [x]) = note_step key x (failures key steps)"
  by (simp add: failures_def)

lemma throttle_run_snoc: "throttle_run (steps @ [x]) = throttle_do x (throttle_run steps)"
  by (simp add: throttle_run_def)

lemma clock_ok_snoc:
  "clock_ok (steps @ [x]) \<longleftrightarrow> clock_ok steps \<and> (\<forall>now \<in> set (step_times x). \<forall>t \<in> set (concat (map step_times steps)). t \<le> now)"
  by (cases x) (auto simp: clock_ok_def sorted_append)

lemma failures_times: "set (failures key steps) \<subseteq> set (concat (map step_times steps))"
proof (induction steps rule: rev_induct)
  case (snoc x steps)
  then show ?case by (cases x) (auto simp: failures_snoc)
qed (simp add: failures_def)

lemma failures_length: "length (failures key steps) \<le> length steps"
proof (induction steps rule: rev_induct)
  case (snoc x steps)
  then show ?case by (cases x) (auto simp: failures_snoc)
qed (simp add: failures_def)

definition readings :: "throttle_step list \<Rightarrow> time set" where
  "readings steps = set (concat (map step_times steps))"

lemma run_tells:
  assumes "clock_ok steps" "readings steps \<subseteq> {time_zero..now}" "int (length steps) < 2 ^ 63"
  shows "tells now (throttle_run steps key) (failures key steps)"
  using assms
proof (induction steps arbitrary: now rule: rev_induct)
  case Nil
  show ?case by (simp add: tells_def throttle_run_def newThrottle_def failures_def)
next
  case (snoc x steps)
  let ?t = "throttle_run steps" and ?ts = "failures key steps"
  have IH: "tells u (?t key) ?ts" if "\<forall>t \<in> readings steps. t \<le> u" for u
  proof -
    have "readings steps \<subseteq> {time_zero..u}" using snoc.prems(2) that by (auto simp: readings_def)
    then show ?thesis using snoc.prems(1,3) by (intro snoc.IH) (simp_all add: clock_ok_snoc)
  qed
  have hd: "hd ?ts \<le> u" if "\<forall>t \<in> readings steps. t \<le> u" "?ts \<noteq> []" for u
    using failures_times [of key steps, folded readings_def] hd_in_set [OF that(2)] that(1) by blast
  have all: "\<forall>t \<in> readings steps. t \<le> u" "time_zero \<le> u" "u \<le> now" if "u \<in> set (step_times x)" for u
    using snoc.prems(1,2) that by (auto simp: clock_ok_snoc readings_def)
  show ?case
  proof (cases x)
    case (Fail k u)
    then have u: "u \<in> set (step_times x)" by simp
    have "int (length ?ts) < 2 ^ 63 - 1" using failures_length [of key steps] snoc.prems(3) by simp
    from fail_tells(1) [where t = ?t and key = key, OF IH [OF all(1) [OF u]] hd [OF all(1) [OF u]] all(2) [OF u] this]
    have "tells u (snd (fail key u ?t) key) (u # ?ts)" by simp
    with IH [OF all(1) [OF u]] all(3) [OF u] show ?thesis
      by (auto simp: Fail throttle_run_snoc failures_snoc other_key elim!: tells_later)
  next
    case (Success k)
    have "tells now (?t key) ?ts" using snoc.prems(2) by (intro IH) (auto simp: readings_def)
    then show ?thesis by (auto simp: Success throttle_run_snoc failures_snoc other_key success_tells)
  next
    case (Sweep u)
    then have u: "u \<in> set (step_times x)" by simp
    from sweep_tells [where t = ?t and key = key, OF IH [OF all(1) [OF u]]] all(3) [OF u] show ?thesis
      by (auto simp: Sweep throttle_run_snoc failures_snoc elim!: tells_later)
  qed
qed

lemma failures_hd:
  assumes "readings steps \<subseteq> {time_zero..now}" "failures key steps \<noteq> []"
  shows "hd (failures key steps) \<le> now"
  using failures_times [of key steps, folded readings_def] hd_in_set [OF assms(2)] assms(1) by auto

lemma throttle_answers:
  assumes "clock_ok steps" "readings steps \<subseteq> {time_zero..now}" "time_zero \<le> now" "int (length steps) < 2 ^ 63 - 1"
  shows "retryAfter key now (throttle_run steps) = spec_retryAfter (failures key steps) now"
    "fst (fail key now (throttle_run steps)) = Some (spec_delay (streak (now # failures key steps)))"
proof -
  have t: "tells now (throttle_run steps key) (failures key steps)" using assms by (intro run_tells) auto
  note hd = failures_hd [OF assms(2), of key]
  show "retryAfter key now (throttle_run steps) = spec_retryAfter (failures key steps) now"
    by (rule tells_retryAfter [where ts = "failures key steps" and t = "throttle_run steps", OF t hd])
  have len: "int (length (failures key steps)) < 2 ^ 63 - 1" using failures_length [of key steps] assms(4) by simp
  show "fst (fail key now (throttle_run steps)) = Some (spec_delay (streak (now # failures key steps)))"
    by (rule fail_tells(2) [where ts = "failures key steps" and t = "throttle_run steps", OF t hd assms(3) len])
qed

text \<open>C28: the counters answer as the full history would.  After any sequence of failures, successes and sweeps of any
  addresses, in the order of the clock, the block of an address is what is left of fifteen minutes after its last
  failure if at least five failures form the current streak and none otherwise; the answer to the next failure is
  delayed by a quarter of a second doubled with each failure of the streak, up to four seconds, the overflow of the
  shift included, and never panics.  Sweeping is invisible.\<close>

theorem throttle_refines_history:
  assumes "clock_ok steps" "readings steps \<subseteq> {time_zero..now}" "time_zero \<le> now" "int (length steps) < 2 ^ 63 - 1"
  shows "retryAfter key now (throttle_run steps) = spec_retryAfter (failures key steps) now \<and>
    fst (fail key now (throttle_run steps)) = Some (spec_delay (streak (now # failures key steps)))"
  using throttle_answers [OF assms] by blast

definition demo_guesses :: "throttle_step list" where
  "demo_guesses = [Fail ''a'' 0, Fail ''a'' Second, Fail ''b'' Second, Fail ''a'' (2 * Second), Sweep (3 * Second),
     Fail ''a'' (3 * Second), Fail ''a'' (4 * Second)]"

lemma demo_guesses_clock: "clock_ok demo_guesses" "readings demo_guesses \<subseteq> {time_zero..5 * Second}"
  by (simp_all add: demo_guesses_def clock_ok_def readings_def Second_def time_zero_def)

theorem throttle_refines_history_witness:
  "retryAfter ''a'' (5 * Second) (throttle_run demo_guesses) = 899 * Second \<and>
   retryAfter ''b'' (5 * Second) (throttle_run demo_guesses) = 0 \<and>
   fst (fail ''a'' (5 * Second) (throttle_run demo_guesses)) = Some (4 * Second) \<and>
   fst (fail ''b'' (5 * Second) (throttle_run demo_guesses)) = Some (500 * Millisecond)"
proof -
  have z: "time_zero \<le> 5 * Second" "int (length demo_guesses) < 2 ^ 63 - 1"
    by (simp_all add: demo_guesses_def Second_def time_zero_def)
  have f: "failures ''a'' demo_guesses = [4 * Second, 3 * Second, 2 * Second, Second, 0]"
    "failures ''b'' demo_guesses = [Second]"
    by (simp_all add: demo_guesses_def failures_def)
  show ?thesis
    using throttle_refines_history [OF demo_guesses_clock z, of "''a''"] throttle_refines_history [OF demo_guesses_clock z, of "''b''"]
    unfolding f by (simp add: spec_retryAfter_def spec_delay_def throttle_consts)
qed

section \<open>The rate of guesses\<close>

text \<open>A sequence of steps in which every failure was let through: at its moment the address was not blocked.\<close>

fun let_through :: "throttle_step \<Rightarrow> throttle \<Rightarrow> bool" where
  "let_through (Fail key now) t = (retryAfter key now t = 0)"
| "let_through _ t = True"

fun gated_from :: "throttle \<Rightarrow> throttle_step list \<Rightarrow> bool" where
  "gated_from t [] = True"
| "gated_from t (x # xs) = (let_through x t \<and> gated_from (throttle_do x t) xs)"

definition gated :: "throttle_step list \<Rightarrow> bool" where
  "gated steps = gated_from newThrottle steps"

lemma gated_from_append: "gated_from t (xs @ ys) \<longleftrightarrow> gated_from t xs \<and> gated_from (fold throttle_do xs t) ys"
  by (induction xs arbitrary: t) auto

lemma gated_snoc: "gated (steps @ [x]) \<longleftrightarrow> gated steps \<and> let_through x (throttle_run steps)"
  by (simp add: gated_def gated_from_append throttle_run_def)

text \<open>The failures since the last success, newest first, are spaced: a failure and the fifth one before it are at least a
  block apart.\<close>

definition spaced :: "time list \<Rightarrow> bool" where
  "spaced ts = (\<forall>i. i + 5 < length ts \<longrightarrow> ts ! i - ts ! (i + 5) \<ge> loginBlock)"

lemma spaced_Cons:
  assumes "spaced ts" "5 \<le> length ts \<Longrightarrow> t - ts ! 4 \<ge> loginBlock"
  shows "spaced (t # ts)"
  unfolding spaced_def
proof (intro allI impI)
  fix i
  assume "i + 5 < length (t # ts)"
  then show "(t # ts) ! i - (t # ts) ! (i + 5) \<ge> loginBlock"
    using assms by (cases i) (auto simp: spaced_def add.commute)
qed

lemma streak_window:
  assumes "sorted (rev ts)" "n < length ts" "hd ts - ts ! n \<le> failWindow"
  shows "n < streak ts"
  using assms
proof (induction ts arbitrary: n rule: streak.induct)
  case (3 t u us)
  show ?case
  proof (cases n)
    case (Suc m)
    have "(u # us) ! m \<in> set (u # us)" using 3(3) Suc by (intro nth_mem) simp
    then have "(u # us) ! m \<le> u" "u \<le> t" using 3(2) by (auto simp: sorted_append)
    then show ?thesis using 3 Suc by (auto simp: sorted_append)
  qed simp
qed auto

lemma failures_sorted: "clock_ok steps \<Longrightarrow> sorted (rev (failures key steps))"
proof (induction steps rule: rev_induct)
  case (snoc x steps)
  then show ?case using failures_times [of key steps] by (cases x) (auto simp: failures_snoc clock_ok_snoc sorted_append)
qed (simp add: failures_def)

lemma let_through_spaced:
  assumes "sorted (rev ts)" "spec_retryAfter ts now = 0" "5 \<le> length ts" "hd ts \<le> now"
  shows "now - ts ! 4 \<ge> loginBlock"
proof (rule ccontr)
  assume n: "\<not> now - ts ! 4 \<ge> loginBlock"
  have "ts ! 4 \<le> hd ts" using assms(1,3) by (cases ts) (auto simp: sorted_append nth_Cons split: nat.splits)
  then have "4 < streak ts" using streak_window [OF assms(1), of 4] assms(3,4) n by (auto simp: window_block)
  then show False using assms(2) n \<open>ts ! 4 \<le> hd ts\<close> by (auto simp: spec_retryAfter_def split: if_splits)
qed

lemma gated_spaced:
  assumes "gated steps" "clock_ok steps" "\<forall>t \<in> readings steps. time_zero \<le> t" "int (length steps) < 2 ^ 63"
  shows "spaced (failures key steps)"
  using assms
proof (induction steps rule: rev_induct)
  case (snoc x steps)
  let ?ts = "failures key steps"
  have IH: "spaced ?ts" using snoc by (auto simp: gated_snoc clock_ok_snoc readings_def)
  show ?case
  proof (cases x)
    case (Fail k u)
    have r: "readings steps \<subseteq> {time_zero..u}" "time_zero \<le> u" "clock_ok steps" "int (length steps) < 2 ^ 63 - 1"
      using snoc.prems Fail by (auto simp: clock_ok_snoc readings_def)
    have "k = key \<Longrightarrow> spec_retryAfter ?ts u = 0"
      using throttle_answers(1) [OF r(3,1,2,4), of key] snoc.prems(1) Fail by (simp add: gated_snoc)
    then have "k = key \<Longrightarrow> spaced (u # ?ts)"
      using let_through_spaced [OF failures_sorted [OF r(3)], of key u] failures_hd [OF r(1), of key]
      by (intro spaced_Cons [OF IH]) fastforce
    then show ?thesis using IH by (simp add: Fail failures_snoc)
  qed (use IH in \<open>auto simp: failures_snoc spaced_def\<close>)
qed (simp add: failures_def spaced_def)

end
