(* ===== verification/Go_Text.thy ===== *)
theory Go_Text
  imports Go_Std
begin

text \<open>
  More of Go's standard library: \<open>unicode/utf8\<close> (decoding), \<open>encoding/base64\<close>, \<open>encoding/hex\<close> and the verbs of
  \<open>fmt.Sscanf\<close> the sources use.  Byte slices are \<^typ>\<open>string\<close>s, as Go strings are.
\<close>

section \<open>Package unicode/utf8\<close>

abbreviation byte :: "char \<Rightarrow> nat" where
  "byte c \<equiv> of_char c"

definition RuneError :: nat where
  "RuneError = 65533"

text \<open>The range of the second byte for each leading byte, as the table \<open>first\<close> and \<open>acceptRanges\<close> have it, and the
  length of the sequence.\<close>

definition lead :: "nat \<Rightarrow> (nat \<times> nat \<times> nat) option" where
  "lead b =
    (if 0xC2 \<le> b \<and> b \<le> 0xDF then Some (2, 0x80, 0xBF)
     else if b = 0xE0 then Some (3, 0xA0, 0xBF)
     else if b = 0xED then Some (3, 0x80, 0x9F)
     else if 0xE1 \<le> b \<and> b \<le> 0xEF then Some (3, 0x80, 0xBF)
     else if b = 0xF0 then Some (4, 0x90, 0xBF)
     else if 0xF1 \<le> b \<and> b \<le> 0xF3 then Some (4, 0x80, 0xBF)
     else if b = 0xF4 then Some (4, 0x80, 0x8F)
     else None)"

definition cont :: "char \<Rightarrow> bool" where
  "cont c = (0x80 \<le> byte c \<and> byte c \<le> 0xBF)"

text \<open>\<open>DecodeRuneInString\<close>: the rune and its width; an invalid byte is \<open>RuneError\<close> of width 1.\<close>

fun DecodeRune :: "string \<Rightarrow> nat \<times> nat" where
  "DecodeRune [] = (RuneError, 0)"
| "DecodeRune (a # s) =
    (if byte a < 0x80 then (byte a, 1)
     else case lead (byte a) of
       None \<Rightarrow> (RuneError, 1)
     | Some (n, lo, hi) \<Rightarrow> (case s of
         [] \<Rightarrow> (RuneError, 1)
       | b # s \<Rightarrow>
          if byte b < lo \<or> hi < byte b then (RuneError, 1)
          else if n = 2 then ((byte a mod 32) * 64 + byte b mod 64, 2)
          else (case s of
            [] \<Rightarrow> (RuneError, 1)
          | c # s \<Rightarrow>
             if \<not> cont c then (RuneError, 1)
             else if n = 3 then ((byte a mod 16) * 4096 + (byte b mod 64) * 64 + byte c mod 64, 3)
             else (case s of
               [] \<Rightarrow> (RuneError, 1)
             | d # s \<Rightarrow>
                if \<not> cont d then (RuneError, 1)
                else ((byte a mod 8) * 262144 + (byte b mod 64) * 4096 + (byte c mod 64) * 64 + byte d mod 64, 4)))))"

lemma DecodeRune_width:
  "s \<noteq> [] \<Longrightarrow> 0 < snd (DecodeRune s)" "snd (DecodeRune s) \<le> length s"
  by (cases s; auto split: option.split list.split)+

text \<open>\<open>[]rune(s)\<close>.\<close>

function runes :: "string \<Rightarrow> nat list" where
  "runes s = (if s = [] then [] else fst (DecodeRune s) # runes (drop (snd (DecodeRune s)) s))"
  by pat_completeness auto
termination using DecodeRune_width(1) by (relation "measure length") auto

declare runes.simps [simp del]

lemma runes_ascii: "is_ascii s \<Longrightarrow> length (runes s) = length s"
proof (induction s)
  case (Cons a s)
  then show ?case by (subst runes.simps) (simp add: is_ascii_def)
qed (simp add: runes.simps)

section \<open>Package encoding/base64\<close>

definition b64_common :: string where
  "b64_common = ''ABCDEFGHIJKLMNOPQRSTUVWXYZabcdefghijklmnopqrstuvwxyz0123456789''"

definition b64_std :: string where
  "b64_std = b64_common @ ''+/''"

definition b64_url :: string where
  "b64_url = b64_common @ ''-_''"

fun index_from :: "nat \<Rightarrow> char \<Rightarrow> string \<Rightarrow> nat option" where
  "index_from i c [] = None"
| "index_from i c (x # xs) = (if x = c then Some i else index_from (Suc i) c xs)"

definition sextet :: "string \<Rightarrow> char \<Rightarrow> nat option" where
  "sextet alphabet c = index_from 0 c alphabet"

definition bytes3 :: "nat \<Rightarrow> nat \<Rightarrow> nat \<Rightarrow> nat \<Rightarrow> string" where
  "bytes3 w x y z = [char_of (w * 4 + x div 16), char_of (x mod 16 * 16 + y div 4), char_of (y mod 4 * 64 + z)]"

text \<open>\<open>EncodeToString\<close> of the encodings without padding.\<close>

fun b64_encode :: "string \<Rightarrow> string \<Rightarrow> string" where
  "b64_encode al [] = []"
| "b64_encode al [a] = [al ! (byte a div 4), al ! (byte a mod 4 * 16)]"
| "b64_encode al [a, b] = [al ! (byte a div 4), al ! (byte a mod 4 * 16 + byte b div 16), al ! (byte b mod 16 * 4)]"
| "b64_encode al (a # b # c # s) =
    al ! (byte a div 4) # al ! (byte a mod 4 * 16 + byte b div 16) # al ! (byte b mod 16 * 4 + byte c div 64)
    # al ! (byte c mod 64) # b64_encode al s"

text \<open>\<open>DecodeString\<close> with \<open>pad\<close> telling whether \<open>=\<close> completes the last quantum.  Line ends are skipped anywhere; the
  bits left over in the last quantum are not checked (the encodings are not strict).\<close>

fun b64_quanta :: "string \<Rightarrow> bool \<Rightarrow> string \<Rightarrow> string option" where
  "b64_quanta al pad [] = Some []"
| "b64_quanta al pad [a] = None"
| "b64_quanta al pad [a, b] = (if pad then None else
     case (sextet al a, sextet al b) of (Some w, Some x) \<Rightarrow> Some (take 1 (bytes3 w x 0 0)) | _ \<Rightarrow> None)"
| "b64_quanta al pad [a, b, c] = (if pad then None else
     case (sextet al a, sextet al b, sextet al c) of (Some w, Some x, Some y) \<Rightarrow> Some (take 2 (bytes3 w x y 0)) | _ \<Rightarrow> None)"
| "b64_quanta al pad (a # b # c # d # s) =
    (case (sextet al a, sextet al b, sextet al c, sextet al d) of
       (Some w, Some x, Some y, Some z) \<Rightarrow> map_option ((@) (bytes3 w x y z)) (b64_quanta al pad s)
     | (Some w, Some x, Some y, None) \<Rightarrow>
         if pad \<and> d = CHR ''='' \<and> s = [] then Some (take 2 (bytes3 w x y 0)) else None
     | (Some w, Some x, None, _) \<Rightarrow>
         if pad \<and> c = CHR ''='' \<and> d = CHR ''='' \<and> s = [] then Some (take 1 (bytes3 w x 0 0)) else None
     | _ \<Rightarrow> None)"

definition b64_decode :: "string \<Rightarrow> bool \<Rightarrow> string \<Rightarrow> string option" where
  "b64_decode al pad s = b64_quanta al pad (filter (\<lambda>c. c \<noteq> CHR 0x0A \<and> c \<noteq> CHR 0x0D) s)"

definition alphabet_ok :: "string \<Rightarrow> bool" where
  "alphabet_ok al = (length al = 64 \<and> distinct al \<and> CHR 0x0A \<notin> set al \<and> CHR 0x0D \<notin> set al)"

lemma alphabets_ok: "alphabet_ok b64_std" "alphabet_ok b64_url"
  by (simp_all add: alphabet_ok_def b64_std_def b64_url_def b64_common_def)

lemma index_from_nth: "distinct xs \<Longrightarrow> n < length xs \<Longrightarrow> index_from i (xs ! n) xs = Some (i + n)"
proof (induction xs arbitrary: i n)
  case (Cons x xs)
  then show ?case by (cases n) auto
qed simp

lemma sextet_nth: "alphabet_ok al \<Longrightarrow> n < 64 \<Longrightarrow> sextet al (al ! n) = Some n"
  using index_from_nth [of al n 0] by (simp add: sextet_def alphabet_ok_def)

lemma bytes3_join:
  "bytes3 (byte a div 4) (byte a mod 4 * 16 + byte b div 16) (byte b mod 16 * 4 + byte c div 64) (byte c mod 64) = [a, b, c]"
  "take 2 (bytes3 (byte a div 4) (byte a mod 4 * 16 + byte b div 16) (byte b mod 16 * 4) 0) = [a, b]"
  "take 1 (bytes3 (byte a div 4) (byte a mod 4 * 16) 0 0) = [a]"
proof -
  have q: "(x * 16 + y) div 16 = x" "(x * 16 + y) mod 16 = y" if "y < 16" for x y :: nat
    using that by simp_all
  have r: "(x * 4 + y) div 4 = x" "(x * 4 + y) mod 4 = y" if "y < 4" for x y :: nat
    using that by simp_all
  have split: "n div 4 * 4 + (n mod 4 * 16 + m div 16) div 16 = n" "(n mod 4 * 16 + m div 16) mod 16 * 16 + (m mod 16 * 4 + k div 64) div 4 = m"
    "(m mod 16 * 4 + k div 64) mod 4 * 64 + k mod 64 = k" if "m < 256" "k < 256" for n m k :: nat
  proof -
    have "m div 16 < 16" "k div 64 < 4" using that by (simp_all add: less_mult_imp_div_less)
    then show "n div 4 * 4 + (n mod 4 * 16 + m div 16) div 16 = n" "(n mod 4 * 16 + m div 16) mod 16 * 16 + (m mod 16 * 4 + k div 64) div 4 = m"
      "(m mod 16 * 4 + k div 64) mod 4 * 64 + k mod 64 = k"
      by (simp_all only: q r div_mult_mod_eq)
  qed
  have short: "n div 4 * 4 + (n mod 4 * 16) div 16 = n" for n :: nat by simp
  note sab = split [OF nat_of_char_less_256 [of b] nat_of_char_less_256 [of c]]
  have z: "(byte a mod 4 * 16 + byte b div 16) mod 16 * 16 + byte b mod 16 * 4 div 4 = byte b"
    using split(2) [of "byte b" 0 "byte a"] by simp
  show "bytes3 (byte a div 4) (byte a mod 4 * 16 + byte b div 16) (byte b mod 16 * 4 + byte c div 64) (byte c mod 64) = [a, b, c]"
    by (simp only: bytes3_def sab char_of_char)
  show "take 2 (bytes3 (byte a div 4) (byte a mod 4 * 16 + byte b div 16) (byte b mod 16 * 4) 0) = [a, b]"
    unfolding bytes3_def sab z by simp
  show "take 1 (bytes3 (byte a div 4) (byte a mod 4 * 16) 0 0) = [a]"
    unfolding bytes3_def short by simp
qed

lemma sextet_bounds:
  "byte a div 4 < 64" "byte a mod 4 * 16 < 64" "byte a mod 4 * 16 + byte b div 16 < 64" "byte a mod 16 * 4 < 64"
  "byte a mod 16 * 4 + byte b div 64 < 64" "byte a mod 64 < 64"
proof -
  have m: "n mod 4 \<le> 3" "n mod 16 \<le> 15" "n mod 64 < 64" for n :: nat
    using mod_less_divisor [of 4 n] mod_less_divisor [of 16 n] by simp_all
  then have "n mod 4 * 16 < 64" "n mod 16 * 4 < 64" "n mod 64 < 64" for n :: nat
    using m(1,2) [of n] by linarith+
  moreover have "n div 4 < 64" "m mod 4 * 16 + n div 16 < 64" "m mod 16 * 4 + n div 64 < 64" if "n < 256" for n m :: nat
  proof -
    have "n div 4 < 64" "n div 16 < 16" "n div 64 < 4" using that by (simp_all add: less_mult_imp_div_less)
    then show "n div 4 < 64" "m mod 4 * 16 + n div 16 < 64" "m mod 16 * 4 + n div 64 < 64"
      using m(1,2) [of m] by linarith+
  qed
  ultimately show "byte a div 4 < 64" "byte a mod 4 * 16 < 64" "byte a mod 4 * 16 + byte b div 16 < 64" "byte a mod 16 * 4 < 64"
    "byte a mod 16 * 4 + byte b div 64 < 64" "byte a mod 64 < 64"
    by simp_all
qed

lemma quanta_encode: "alphabet_ok al \<Longrightarrow> b64_quanta al False (b64_encode al s) = Some s"
proof (induction al s rule: b64_encode.induct)
  case (4 al a b c s)
  then show ?case by (simp add: sextet_nth sextet_bounds bytes3_join)
qed (simp_all add: sextet_nth sextet_bounds bytes3_join bytes3_join(3) [unfolded One_nat_def])

lemma b64_encode_alphabet: "alphabet_ok al \<Longrightarrow> set (b64_encode al s) \<subseteq> set al"
proof (induction al s rule: b64_encode.induct)
  case (4 al a b c s)
  then show ?case using sextet_bounds by (auto simp: alphabet_ok_def intro!: nth_mem)
qed (use sextet_bounds in \<open>auto simp: alphabet_ok_def intro!: nth_mem\<close>)

lemma b64_roundtrip: "alphabet_ok al \<Longrightarrow> b64_decode al False (b64_encode al s) = Some s"
proof -
  assume ok: "alphabet_ok al"
  then have "filter (\<lambda>c. c \<noteq> CHR 0x0A \<and> c \<noteq> CHR 0x0D) (b64_encode al s) = b64_encode al s"
    using b64_encode_alphabet [OF ok, of s] by (intro filter_True) (auto simp: alphabet_ok_def)
  then show ?thesis using quanta_encode [OF ok, of s] by (simp add: b64_decode_def)
qed

section \<open>Package encoding/hex\<close>

definition hex_digits :: string where
  "hex_digits = ''0123456789abcdef''"

definition hex_val :: "char \<Rightarrow> nat" where
  "hex_val c = (if is_digit c then byte c - 48 else if byte c \<ge> 97 then byte c - 87 else byte c - 55)"

definition hexEncode :: "string \<Rightarrow> string" where
  "hexEncode s = concat (map (\<lambda>c. [hex_digits ! (byte c div 16), hex_digits ! (byte c mod 16)]) s)"

lemma hexEncode_empty [simp]: "hexEncode s = [] \<longleftrightarrow> s = []"
  by (cases s) (simp_all add: hexEncode_def)

section \<open>Package fmt: Sscanf\<close>

text \<open>\<open>Sscanf\<close> of a format made of literals and \<open>%d\<close> is a sequence of scanners, each of which consumes a part of the
  input; input after the last verb is ignored.  A verb skips blanks first, and a line end there is an error.\<close>

type_synonym 'a scanner = "string \<Rightarrow> ('a \<times> string) option"

definition scan_lit :: "string \<Rightarrow> unit scanner" where
  "scan_lit lit s = (if take (length lit) s = lit then Some ((), drop (length lit) s) else None)"

function skip_space :: "string \<Rightarrow> string option" where
  "skip_space s = (case List.find (\<lambda>w. w \<noteq> [] \<and> take (length w) s = w) go_spaces of
     None \<Rightarrow> Some s
   | Some w \<Rightarrow> if w = [CHR 0x0A] then None else skip_space (drop (length w) s))"
  by pat_completeness auto
termination
proof (relation "measure length", goal_cases)
  case (2 s w)
  then have "w \<noteq> []" "take (length w) s = w" by (auto simp: find_Some_iff)
  then have "0 < length w" "length w \<le> length s" by (auto, metis length_take min.cobounded1)
  then have "length s - length w < length s" by linarith
  then show ?case by simp
qed simp

declare skip_space.simps [simp del]

text \<open>\<open>%d\<close> into an unsigned variable of the given width, and into an \<open>int\<close>.\<close>

definition scan_uint :: "nat \<Rightarrow> nat scanner" where
  "scan_uint bits s = Option.bind (skip_space s) (\<lambda>s.
     let ds = takeWhile is_digit s in
     if ds = [] \<or> digits_val ds \<ge> 2 ^ bits then None
     else Some (nat (digits_val ds), dropWhile is_digit s))"

definition scan_int :: "int scanner" where
  "scan_int s = Option.bind (skip_space s) (\<lambda>s.
     let neg = (s \<noteq> [] \<and> hd s = CHR ''-'');
         r = (if s \<noteq> [] \<and> hd s \<in> {CHR ''-'', CHR ''+''} then tl s else s);
         ds = takeWhile is_digit r;
         v = (if neg then - digits_val ds else digits_val ds) in
     if ds = [] \<or> \<not> int64_ok v then None else Some (v, dropWhile is_digit r))"

lemma skip_space_plain: "s \<noteq> [] \<Longrightarrow> plain_char (hd s) \<Longrightarrow> skip_space s = Some s"
proof -
  assume "s \<noteq> []" "plain_char (hd s)"
  then obtain c r where s: "s = c # r" "plain_char c" by (cases s) auto
  have "List.find (\<lambda>w. w \<noteq> [] \<and> take (length w) (c # r) = w) go_spaces = None"
    using go_spaces_not_plain(1) s by (auto simp: find_None_iff list_all_iff take_Cons split: nat.splits)
  then show ?thesis unfolding s by (subst skip_space.simps) simp
qed

lemma is_digit_plain: "is_digit c \<Longrightarrow> plain_char c"
  by (auto simp: is_digit_def plain_char_def)

text \<open>What \<open>%d\<close> printed is read back, up to the first byte that is no digit.\<close>

definition no_digit :: "string \<Rightarrow> bool" where
  "no_digit r = (r = [] \<or> \<not> is_digit (hd r))"

lemma digits_then:
  assumes "0 \<le> n" "no_digit r"
  shows "takeWhile is_digit (dec_digits n @ r) = dec_digits n" "dropWhile is_digit (dec_digits n @ r) = r"
    "skip_space (dec_digits n @ r) = Some (dec_digits n @ r)" "is_digit (hd (dec_digits n))"
proof -
  have d: "\<forall>c \<in> set (dec_digits n). is_digit c" using dec_digits_all_digits [OF assms(1)] by (simp add: list_all_iff)
  then show "takeWhile is_digit (dec_digits n @ r) = dec_digits n" "dropWhile is_digit (dec_digits n @ r) = r"
    using assms(2) by (cases r; simp add: no_digit_def)+
  show h: "is_digit (hd (dec_digits n))" using d by simp
  show "skip_space (dec_digits n @ r) = Some (dec_digits n @ r)"
    using is_digit_plain [OF h] by (intro skip_space_plain) (simp_all add: hd_append)
qed

lemma scan_uint_digits: "n < 2 ^ bits \<Longrightarrow> no_digit r \<Longrightarrow> scan_uint bits (dec_digits (int n) @ r) = Some (n, r)"
  using digits_then [of "int n" r] digits_val_dec_digits [of "int n"]
  by (simp add: scan_uint_def Let_def)

lemma scan_int_digits: "0 \<le> n \<Longrightarrow> int64_ok n \<Longrightarrow> no_digit r \<Longrightarrow> scan_int (dec_digits n @ r) = Some (n, r)"
proof -
  assume a: "0 \<le> n" "int64_ok n" "no_digit r"
  note d = digits_then [OF a(1,3)] digits_val_dec_digits [OF a(1)]
  have "hd (dec_digits n) \<noteq> CHR ''-''" "hd (dec_digits n) \<noteq> CHR ''+''" using d(4) by auto
  then show ?thesis using d a(2) by (simp add: scan_int_def Let_def hd_append)
qed

end
