(* ===== verification/Api_Password.thy ===== *)
theory Api_Password
  imports Go_Text Store_Auth
begin

text \<open>
  The panel's password (\<open>internal/api/password.go\<close>): hashing, the PHC text of a hash, and verification.  Argon2 is
  third-party code: \<open>idkey\<close> stands for \<open>argon2.IDKey\<close>, and the one fact used of it is that the key has the length
  asked for.  The random salt is an argument.
\<close>

datatype api_err = ErrWeakPassword | ErrBadHash | ErrStore err

type_synonym idkey = "string \<Rightarrow> string \<Rightarrow> nat \<Rightarrow> nat \<Rightarrow> nat \<Rightarrow> nat \<Rightarrow> string"

definition argonTime :: nat where "argonTime = 3"
definition argonMemory :: nat where "argonMemory = 65536"
definition argonThreads :: nat where "argonThreads = 4"
definition argonKeyLen :: nat where "argonKeyLen = 32"
definition argonSaltLen :: nat where "argonSaltLen = 16"
definition argonVersion :: nat where "argonVersion = 19"
definition MinPasswordLen :: nat where "MinPasswordLen = 12"

lemmas argon_consts = argonTime_def argonMemory_def argonThreads_def argonKeyLen_def argonSaltLen_def argonVersion_def

abbreviation argon_key :: "idkey \<Rightarrow> string \<Rightarrow> string \<Rightarrow> string" where
  "argon_key idkey pw salt \<equiv> idkey pw salt argonTime argonMemory argonThreads argonKeyLen"

record argon_params =
  ap_memory :: nat
  ap_time :: nat
  ap_threads :: nat

definition phc :: "string \<Rightarrow> string \<Rightarrow> string" where
  "phc salt key = ''$argon2id$v='' @ Itoa (int argonVersion) @ ''$m='' @ Itoa (int argonMemory) @ '',t='' @ Itoa (int argonTime)
     @ '',p='' @ Itoa (int argonThreads) @ ''$'' @ b64_encode b64_std salt @ ''$'' @ b64_encode b64_std key"

definition HashPassword :: "idkey \<Rightarrow> string \<Rightarrow> string \<Rightarrow> api_err + string" where
  "HashPassword idkey salt password =
    (if length (runes password) < MinPasswordLen then Inl ErrWeakPassword
     else Inr (phc salt (argon_key idkey password salt)))"

definition scan_version :: "string \<Rightarrow> int option" where
  "scan_version s = Option.bind (scan_lit ''v='' s) (\<lambda>(_, s). map_option fst (scan_int s))"

definition scan_params :: "string \<Rightarrow> argon_params option" where
  "scan_params s =
    Option.bind (scan_lit ''m='' s) (\<lambda>(_, s). Option.bind (scan_uint 32 s) (\<lambda>(mem, s).
    Option.bind (scan_lit '',t='' s) (\<lambda>(_, s). Option.bind (scan_uint 32 s) (\<lambda>(tm, s).
    Option.bind (scan_lit '',p='' s) (\<lambda>(_, s). Option.bind (scan_uint 8 s) (\<lambda>(th, s).
      Some \<lparr>ap_memory = mem, ap_time = tm, ap_threads = th\<rparr>))))))"

definition decodeHash :: "string \<Rightarrow> api_err + (string \<times> string \<times> argon_params)" where
  "decodeHash encoded =
    (case Split CHR ''$'' encoded of
       [p0, p1, p2, p3, p4, p5] \<Rightarrow>
        if p0 \<noteq> [] \<or> p1 \<noteq> ''argon2id'' then Inl ErrBadHash
        else (case scan_version p2 of
          None \<Rightarrow> Inl ErrBadHash
        | Some version \<Rightarrow>
          if version \<noteq> int argonVersion then Inl ErrBadHash
          else (case scan_params p3 of
            None \<Rightarrow> Inl ErrBadHash
          | Some params \<Rightarrow>
            if ap_memory params = 0 \<or> ap_time params = 0 \<or> ap_threads params = 0 then Inl ErrBadHash
            else (case b64_decode b64_std False p4 of
              None \<Rightarrow> Inl ErrBadHash
            | Some salt \<Rightarrow> (case b64_decode b64_std False p5 of
                None \<Rightarrow> Inl ErrBadHash
              | Some key \<Rightarrow>
                if salt = [] \<or> key = [] then Inl ErrBadHash else Inr (salt, key, params)))))
     | _ \<Rightarrow> Inl ErrBadHash)"

text \<open>\<open>subtle.ConstantTimeCompare\<close> answers 1 exactly for equal slices.\<close>

definition VerifyPassword :: "idkey \<Rightarrow> string \<Rightarrow> string \<Rightarrow> api_err + bool" where
  "VerifyPassword idkey encoded password =
    bindR (decodeHash encoded) (\<lambda>(salt, want, params).
      Inr (idkey password salt (ap_time params) (ap_memory params) (ap_threads params) (length want mod 2 ^ 32) = want))"

definition SetPassword :: "idkey \<Rightarrow> string \<times> string \<times> string \<Rightarrow> db \<Rightarrow> (api_err + unit) \<times> db" where
  "SetPassword idkey = (\<lambda>(salt, generation, password) s. case HashPassword idkey salt password of
     Inl e \<Rightarrow> (Inl e, s)
   | Inr encoded \<Rightarrow> (case SetPasswordHash (generation, encoded) s of
       (Inl e, s') \<Rightarrow> (Inl (ErrStore e), s')
     | (Inr u, s') \<Rightarrow> (Inr u, s')))"

section \<open>What is hashed verifies\<close>

lemma Itoa_nat: "Itoa (int n) = dec_digits (int n)"
  by (simp add: Itoa_def)

lemma no_dollar_digits: "0 \<le> n \<Longrightarrow> CHR ''$'' \<notin> set (dec_digits n)"
  using dec_digits_all_digits [of n] by (auto simp: list_all_iff is_digit_def dest!: bspec)

lemma no_dollar_b64: "CHR ''$'' \<notin> set (b64_encode b64_std s)"
  using b64_encode_alphabet [OF alphabets_ok(1), of s] by (auto simp: b64_std_def b64_common_def)

lemma Split_phc:
  "Split CHR ''$'' (phc salt key) = [[], ''argon2id'', ''v='' @ dec_digits (int argonVersion),
     ''m='' @ dec_digits (int argonMemory) @ '',t='' @ dec_digits (int argonTime) @ '',p='' @ dec_digits (int argonThreads),
     b64_encode b64_std salt, b64_encode b64_std key]" (is "_ = ?fs")
proof -
  have "phc salt key = Join CHR ''$'' ?fs" by (simp add: phc_def Itoa_nat)
  moreover have "\<forall>f \<in> set ?fs. CHR ''$'' \<notin> set f" using no_dollar_digits no_dollar_b64 by auto
  ultimately show ?thesis by (metis Split_Join list.distinct(1))
qed

lemma scan_lit_app [simp]: "scan_lit lit (lit @ s) = Some ((), s)"
  by (simp add: scan_lit_def)

lemma scan_phc:
  "scan_version (''v='' @ dec_digits (int argonVersion)) = Some (int argonVersion)"
  "scan_params (''m='' @ dec_digits (int argonMemory) @ '',t='' @ dec_digits (int argonTime) @ '',p='' @ dec_digits (int argonThreads))
    = Some \<lparr>ap_memory = argonMemory, ap_time = argonTime, ap_threads = argonThreads\<rparr>"
proof -
  have sep: "no_digit []" "no_digit ('',t='' @ s)" "no_digit ('',p='' @ s)" for s
    by (simp_all add: no_digit_def is_digit_def)
  have v: "scan_int (dec_digits (int argonVersion)) = Some (int argonVersion, [])"
    using scan_int_digits [of "int argonVersion" "[]"] sep(1) by (simp add: argon_consts int64_ok_def)
  show "scan_version (''v='' @ dec_digits (int argonVersion)) = Some (int argonVersion)"
    unfolding scan_version_def scan_lit_app by (simp add: v)
  have b: "argonMemory < 2 ^ 32" "argonTime < 2 ^ 32" "argonThreads < 2 ^ 8" by (simp_all add: argon_consts)
  note d = scan_uint_digits [OF b(1) sep(2)] scan_uint_digits [OF b(2) sep(3)] scan_uint_digits [OF b(3) sep(1)]
  show "scan_params (''m='' @ dec_digits (int argonMemory) @ '',t='' @ dec_digits (int argonTime) @ '',p='' @ dec_digits (int argonThreads))
    = Some \<lparr>ap_memory = argonMemory, ap_time = argonTime, ap_threads = argonThreads\<rparr>"
    unfolding scan_params_def scan_lit_app d(1) Option.bind.simps prod.case d(2) d(3) [unfolded append_Nil2] by simp
qed

lemma decodeHash_phc:
  assumes "salt \<noteq> []" "key \<noteq> []"
  shows "decodeHash (phc salt key) = Inr (salt, key, \<lparr>ap_memory = argonMemory, ap_time = argonTime, ap_threads = argonThreads\<rparr>)"
  unfolding decodeHash_def Split_phc list.case scan_phc option.case b64_roundtrip [OF alphabets_ok(1)]
  using assms by (simp add: argon_consts)

lemma VerifyPassword_phc:
  assumes "length salt = argonSaltLen" "\<And>pw. length (argon_key idkey pw salt) = argonKeyLen"
  shows "VerifyPassword idkey (phc salt (argon_key idkey password salt)) guess =
    Inr (argon_key idkey guess salt = argon_key idkey password salt)"
proof -
  let ?key = "argon_key idkey password salt"
  have len: "length ?key mod 2 ^ 32 = argonKeyLen" unfolding assms(2) by (simp add: argonKeyLen_def)
  have "salt \<noteq> []" using assms(1) by (auto simp: argonSaltLen_def)
  moreover have "?key \<noteq> []" using assms(2) [of password] by (auto simp: argonKeyLen_def)
  ultimately show ?thesis
    by (simp only: VerifyPassword_def decodeHash_phc bindR_simps prod.case argon_params.simps len not_False_eq_True)
qed

lemma HashPassword_checks:
  assumes "length salt = argonSaltLen" "\<And>pw. length (argon_key idkey pw salt) = argonKeyLen"
    "HashPassword idkey salt password = Inr encoded"
  shows "VerifyPassword idkey encoded guess =
    Inr (argon_key idkey guess salt = argon_key idkey password salt)"
  using VerifyPassword_phc [of salt idkey, OF assms(1,2)] assms(3) by (auto simp: HashPassword_def split: if_splits)

text \<open>C31: a hash that was produced is readable, and checking any password against it compares the two keys: the password
  that was hashed is accepted, and another exactly when Argon2 gives both the same key under that salt.  Only passwords of
  fewer than twelve characters are refused.\<close>

theorem HashPassword_verifies:
  assumes "length salt = argonSaltLen" "\<And>pw. length (argon_key idkey pw salt) = argonKeyLen"
  shows "(case HashPassword idkey salt password of
      Inl e \<Rightarrow> e = ErrWeakPassword \<and> length (runes password) < MinPasswordLen
    | Inr encoded \<Rightarrow> MinPasswordLen \<le> length (runes password) \<and> VerifyPassword idkey encoded guess =
        Inr (argon_key idkey guess salt = argon_key idkey password salt))"
  using VerifyPassword_phc [of salt idkey, OF assms] by (auto simp: HashPassword_def)

definition demo_idkey :: idkey where
  "demo_idkey = (\<lambda>pw salt tm mem th n. take n (pw @ salt @ replicate n CHR ''k''))"

lemma demo_idkey_length: "length (demo_idkey pw salt tm mem th n) = n"
  by (simp add: demo_idkey_def)

theorem HashPassword_verifies_witness:
  "\<exists>encoded. HashPassword demo_idkey ''0123456789abcdef'' ''correct horse'' = Inr encoded \<and>
    VerifyPassword demo_idkey encoded ''correct horse'' = Inr True \<and>
    VerifyPassword demo_idkey encoded ''battery staple'' = Inr False"
proof -
  have a: "length ''0123456789abcdef'' = argonSaltLen" by (simp add: argonSaltLen_def)
  have r: "length (runes ''correct horse'') = 13" by (subst runes_ascii) (simp_all add: is_ascii_def)
  have neq: "argon_key demo_idkey ''battery staple'' s
      \<noteq> argon_key demo_idkey ''correct horse'' s" for s
    by (simp add: demo_idkey_def argonKeyLen_def)
  note v = HashPassword_verifies [where idkey = demo_idkey, OF a demo_idkey_length]
  show ?thesis
    using v [of "''correct horse''" "''correct horse''"] v [of "''correct horse''" "''battery staple''"] r neq
    by (auto simp: MinPasswordLen_def HashPassword_def)
qed

lemma SetPassword_state:
  assumes "schema_ok s" "SetPassword idkey (salt, generation, password) s = (Inr (), s')"
  shows "\<exists>encoded. HashPassword idkey salt password = Inr encoded \<and> SetPasswordHash (generation, encoded) s = (Inr (), s') \<and>
    PasswordState s' = Inr \<lparr>ps_hash = encoded, ps_generation = generation\<rparr>"
  using assms SetPasswordHash_effect(2) [OF assms(1)]
  by (auto simp: SetPassword_def split: sum.splits prod.splits)

end
