(* ===== verification/Go_Netip.thy ===== *)
theory Go_Netip
  imports Go_Text
begin

text \<open>
  What the sources use of \<open>net\<close> and \<open>net/netip\<close> on addresses: parsing and printing of IPv4 and IPv6 addresses, which
  are shown to be inverse, and the split of a host and a port.
\<close>

section \<open>Package netip: addresses\<close>

text \<open>An address without its zone: the zone is dropped right after parsing.  An IPv6 address is its eight groups.\<close>

datatype ip = IP4 "32 word" | IP6 "nat list"

definition hex_group :: "string \<Rightarrow> nat" where
  "hex_group g = fold (\<lambda>c n. n * 16 + hex_val c) g 0"

definition v4_groups :: "32 word \<Rightarrow> nat list" where
  "v4_groups w = [unat w div 65536, unat w mod 65536]"

text \<open>The loop of \<open>parseIPv6\<close>: the groups read so far, the place of the ellipsis, the rest of the text.\<close>

function v6_loop :: "nat list \<Rightarrow> nat option \<Rightarrow> string \<Rightarrow> (nat list \<times> nat option) option" where
  "v6_loop gs ell s =
    (if 8 \<le> length gs then (if s = [] then Some (gs, ell) else None)
     else
       let g = takeWhile is_hex s; r = dropWhile is_hex s; gs' = gs @ [hex_group g] in
       if g = [] \<or> length g > 4 then None
       else if r \<noteq> [] \<and> hd r = CHR ''.'' then
         (if ell = None \<and> length gs \<noteq> 6 then None
          else if length gs + 2 > 8 then None
          else map_option (\<lambda>w. (gs @ v4_groups w, ell)) (ParseAddr4 s))
       else if r = [] then Some (gs', ell)
       else if hd r \<noteq> CHR '':'' then None
       else if tl r = [] then None
       else if hd (tl r) = CHR '':'' then
         (if ell \<noteq> None then None
          else if tl (tl r) = [] then Some (gs', Some (length gs'))
          else v6_loop gs' (Some (length gs')) (tl (tl r)))
       else v6_loop gs' ell (tl r))"
  by pat_completeness auto
termination by (relation "measure (\<lambda>(gs, _, _). 8 - length gs)") auto

declare v6_loop.simps [simp del]

definition expand_ellipsis :: "nat list \<times> nat option \<Rightarrow> nat list option" where
  "expand_ellipsis = (\<lambda>(gs, ell). case ell of
     None \<Rightarrow> if length gs < 8 then None else Some gs
   | Some e \<Rightarrow> if length gs < 8 then Some (take e gs @ replicate (8 - length gs) 0 @ drop e gs) else None)"

text \<open>\<open>ParseAddr\<close> followed by \<open>WithZone("")\<close>: an IPv6 zone must not be empty and is then forgotten.\<close>

definition parseIPv6 :: "string \<Rightarrow> ip option" where
  "parseIPv6 s =
    (let addr = takeWhile (\<lambda>c. c \<noteq> CHR ''%'') s; zone = dropWhile (\<lambda>c. c \<noteq> CHR ''%'') s in
     if zone = ''%'' then None
     else map_option IP6 (Option.bind
       (if take 2 addr = ''::''
        then (if drop 2 addr = [] then Some ([], Some 0) else v6_loop [] (Some 0) (drop 2 addr))
        else v6_loop [] None addr) expand_ellipsis))"

definition ParseAddr :: "string \<Rightarrow> ip option" where
  "ParseAddr s = (case dropWhile (\<lambda>c. c \<notin> {CHR ''.'', CHR '':'', CHR ''%''}) s of
     [] \<Rightarrow> None
   | c # _ \<Rightarrow> if c = CHR ''.'' then map_option IP4 (ParseAddr4 s)
       else if c = CHR '':'' then parseIPv6 s else None)"

definition mapped4 :: "nat list \<Rightarrow> bool" where
  "mapped4 gs = (take 6 gs = [0, 0, 0, 0, 0, 65535])"

definition Unmap :: "ip \<Rightarrow> ip" where
  "Unmap a = (case a of IP4 w \<Rightarrow> IP4 w
   | IP6 gs \<Rightarrow> if mapped4 gs then IP4 (word_of_nat (gs ! 6 * 65536 + gs ! 7)) else IP6 gs)"

definition IsLoopback :: "ip \<Rightarrow> bool" where
  "IsLoopback a = (case a of IP4 w \<Rightarrow> unat w div 16777216 = 127 | IP6 gs \<Rightarrow> gs = [0, 0, 0, 0, 0, 0, 0, 1])"

text \<open>\<open>Addr.String\<close>: dotted decimal, or hexadecimal groups with the first longest run of at least two zero groups
  abbreviated, or a mapped IPv4 address.\<close>

definition zero_run :: "nat list \<Rightarrow> nat \<Rightarrow> nat" where
  "zero_run gs i = length (takeWhile (\<lambda>g. g = 0) (drop i gs))"

definition best_run :: "nat list \<Rightarrow> nat \<times> nat" where
  "best_run gs = fold (\<lambda>i (at, n). if zero_run gs i \<ge> 2 \<and> zero_run gs i > n then (i, zero_run gs i) else (at, n)) [0..<8] (255, 0)"

function hex_text :: "nat \<Rightarrow> string" where
  "hex_text n = (if n < 16 then [hex_digits ! n] else hex_text (n div 16) @ [hex_digits ! (n mod 16)])"
  by pat_completeness auto
termination by (relation "measure id") auto

declare hex_text.simps [simp del]

definition groups_text :: "nat list \<Rightarrow> string" where
  "groups_text gs = Join CHR '':'' (map hex_text gs)"

definition v4_String :: "32 word \<Rightarrow> string" where
  "v4_String w = Join CHR ''.'' (map (\<lambda>n. dec_digits (int (n mod 256)))
     [unat w div 16777216, unat w div 65536, unat w div 256, unat w])"

definition ip_String :: "ip \<Rightarrow> string" where
  "ip_String a = (case a of
     IP4 w \<Rightarrow> v4_String w
   | IP6 gs \<Rightarrow>
     if mapped4 gs then ''::ffff:'' @ v4_String (word_of_nat (gs ! 6 * 65536 + gs ! 7))
     else (let (at, n) = best_run gs in
       if n = 0 then groups_text gs
       else groups_text (take at gs) @ ''::'' @ groups_text (drop (at + n) gs)))"

section \<open>Package net: host and port\<close>

definition SplitHostPort :: "string \<Rightarrow> (string \<times> string) option" where
  "SplitHostPort s =
    (if CHR '':'' \<notin> set s then None
     else
       let port = rev (takeWhile (\<lambda>c. c \<noteq> CHR '':'') (rev s));
           before = take (length s - length port - 1) s in
       if hd s = CHR ''['' then
         (if CHR '']'' \<notin> set s then None
          else
            let host = takeWhile (\<lambda>c. c \<noteq> CHR '']'') (tl s) in
            if length host + 2 \<noteq> length before then None
            else if CHR ''['' \<in> set (tl s) then None
            else if CHR '']'' \<in> set (drop (length host + 2) s) then None
            else Some (host, port))
       else if CHR '':'' \<in> set before then None
       else if CHR ''['' \<in> set s \<or> CHR '']'' \<in> set s then None
       else Some (before, port))"

section \<open>Printed addresses read back\<close>

definition ip_ok :: "ip \<Rightarrow> bool" where
  "ip_ok a = (case a of IP4 w \<Rightarrow> True | IP6 gs \<Rightarrow> length gs = 8 \<and> (\<forall>g \<in> set gs. g < 65536))"

lemma hex_digits_val:
  assumes "d < 16"
  shows "is_hex (hex_digits ! d)" "hex_val (hex_digits ! d) = d"
proof -
  have "\<forall>d \<in> set [0..<16]. is_hex (hex_digits ! d) \<and> hex_val (hex_digits ! d) = d" by code_simp
  then show "is_hex (hex_digits ! d)" "hex_val (hex_digits ! d) = d" using assms by auto
qed

lemma hex_text_props:
  "list_all is_hex (hex_text n)" "hex_text n \<noteq> []" "hex_group (hex_text n) = n"
proof (induction n rule: hex_text.induct)
  case (1 n)
  { case 1 show ?case using "1.IH" by (subst hex_text.simps) (auto simp: hex_digits_val) }
  { case 2 show ?case by (subst hex_text.simps) simp }
  { case 3 show ?case using "1.IH" by (subst hex_text.simps) (auto simp: hex_digits_val hex_group_def) }
qed

lemma hex_text_length: "n < 16 ^ Suc k \<Longrightarrow> length (hex_text n) \<le> Suc k"
proof (induction k arbitrary: n)
  case 0
  then show ?case by (subst hex_text.simps) simp
next
  case (Suc k)
  then have "n div 16 < 16 ^ Suc k" by (simp add: less_mult_imp_div_less mult.commute)
  then show ?case using Suc.IH [of "n div 16"] by (subst hex_text.simps) simp
qed

lemma group_then:
  assumes "r = [] \<or> \<not> is_hex (hd r)"
  shows "takeWhile is_hex (hex_text n @ r) = hex_text n" "dropWhile is_hex (hex_text n @ r) = r"
  using hex_text_props(1) [of n] assms by (cases r; simp add: list_all_iff)+

lemma group_alone: "takeWhile is_hex (hex_text n) = hex_text n" "dropWhile is_hex (hex_text n) = []"
  using group_then [of "[]" n] by simp_all

lemma not_hex [simp]: "\<not> is_hex CHR '':''" "\<not> is_hex CHR ''.''" "\<not> is_hex CHR ''%''"
  by (simp_all add: is_hex_def is_digit_def)

lemma group_ok: "n < 65536 \<Longrightarrow> length (hex_text n) \<le> 4"
  using hex_text_length [of n 3] by simp

text \<open>One group followed by the end of the text, by another group, or by the ellipsis.\<close>

lemma v6_group_end:
  assumes "length gs < 8" "g < 65536"
  shows "v6_loop gs ell (hex_text g) = Some (gs @ [g], ell)"
  using assms hex_text_props(2,3) [of g] group_ok [of g]
  by (subst v6_loop.simps) (simp add: Let_def group_alone)

lemma v6_group_next:
  assumes "length gs < 8" "g < 65536" "s \<noteq> []" "hd s \<noteq> CHR '':''"
  shows "v6_loop gs ell (hex_text g @ CHR '':'' # s) = v6_loop (gs @ [g]) ell s"
  using assms group_then [of "CHR '':'' # s" g] hex_text_props(2,3) [of g] group_ok [of g]
  by (subst v6_loop.simps) (simp add: Let_def)

lemma v6_group_ellipsis:
  assumes "length gs < 8" "g < 65536"
  shows "v6_loop gs None (hex_text g @ ''::'' @ s) =
    (if s = [] then Some (gs @ [g], Some (Suc (length gs))) else v6_loop (gs @ [g]) (Some (Suc (length gs))) s)"
  using assms group_then [of "''::'' @ s" g] hex_text_props(2,3) [of g] group_ok [of g]
  by (subst v6_loop.simps) (simp add: Let_def)

lemma groups_text_hd: "hs \<noteq> [] \<Longrightarrow> groups_text hs \<noteq> [] \<and> is_hex (hd (groups_text hs))"
proof -
  assume "hs \<noteq> []"
  then obtain h t where hs: "hs = h # t" by (cases hs) auto
  have "hex_text h \<noteq> []" "is_hex (hd (hex_text h))" using hex_text_props(1,2) [of h] by (cases "hex_text h"; simp)+
  then show ?thesis by (cases t) (auto simp: hs groups_text_def)
qed

lemma v6_groups:
  assumes "hs \<noteq> []" "length gs + length hs \<le> 8" "\<forall>g \<in> set hs. g < 65536"
  shows "v6_loop gs ell (groups_text hs) = Some (gs @ hs, ell)"
  using assms
proof (induction hs arbitrary: gs)
  case (Cons h t)
  show ?case
  proof (cases t)
    case Nil
    then show ?thesis using Cons.prems by (simp add: groups_text_def v6_group_end)
  next
    case (Cons h' t')
    with groups_text_hd [of t] have "groups_text t \<noteq> []" "hd (groups_text t) \<noteq> CHR '':''" by (auto dest: not_hex [THEN notE])
    then have "v6_loop gs ell (hex_text h @ CHR '':'' # groups_text t) = v6_loop (gs @ [h]) ell (groups_text t)"
      using Cons.prems by (intro v6_group_next) auto
    moreover have "groups_text (h # t) = hex_text h @ CHR '':'' # groups_text t" by (simp add: groups_text_def Cons)
    ultimately show ?thesis using Cons.IH [of "gs @ [h]"] Cons.prems Cons by simp
  qed
qed simp

lemma groups_text_Nil [simp]: "groups_text [] = []" "groups_text hs = [] \<longleftrightarrow> hs = []"
  using groups_text_hd [of hs] by (auto simp: groups_text_def)

lemma groups_text_Cons: "t \<noteq> [] \<Longrightarrow> groups_text (h # t) = hex_text h @ CHR '':'' # groups_text t"
  by (cases t) (simp_all add: groups_text_def)

lemma v6_groups_ellipsis:
  assumes "hs \<noteq> []" "length gs + length hs + length ks \<le> 8" "\<forall>g \<in> set (hs @ ks). g < 65536"
  shows "v6_loop gs None (groups_text hs @ ''::'' @ groups_text ks) = Some (gs @ hs @ ks, Some (length gs + length hs))"
  using assms
proof (induction hs arbitrary: gs)
  case (Cons h t)
  show ?case
  proof (cases "t = []")
    case True
    have "groups_text ks \<noteq> [] \<Longrightarrow> v6_loop (gs @ [h]) (Some (Suc (length gs))) (groups_text ks) = Some ((gs @ [h]) @ ks, Some (Suc (length gs)))"
      using Cons.prems by (intro v6_groups) auto
    moreover have "groups_text [h] = hex_text h" by (simp add: groups_text_def)
    ultimately show ?thesis using True Cons.prems v6_group_ellipsis [of gs h "groups_text ks"] by auto
  next
    case False
    with groups_text_hd [of t] have "groups_text t \<noteq> []" "hd (groups_text t) \<noteq> CHR '':''" by (auto dest: not_hex [THEN notE])
    then have "v6_loop gs None (hex_text h @ CHR '':'' # groups_text t @ ''::'' @ groups_text ks)
        = v6_loop (gs @ [h]) None (groups_text t @ ''::'' @ groups_text ks)"
      using Cons.prems by (intro v6_group_next) auto
    then show ?thesis using Cons.IH [of "gs @ [h]"] Cons.prems False by (simp add: groups_text_Cons)
  qed
qed simp

lemma best_run_zeros:
  assumes "best_run gs = (at, n)"
  shows "n = 0 \<or> (2 \<le> n \<and> n = zero_run gs at)"
proof -
  let ?P = "\<lambda>(at, n). n = 0 \<or> (2 \<le> n \<and> n = zero_run gs at)"
  have "?P (best_run gs)"
    unfolding best_run_def by (rule fold_invariant [where Q = "\<lambda>_. True"]) (auto split: prod.splits)
  then show ?thesis using assms by simp
qed

lemma zero_run_split: "gs = take at gs @ replicate (zero_run gs at) 0 @ drop (at + zero_run gs at) gs"
proof -
  let ?d = "drop at gs"
  have "takeWhile (\<lambda>g. g = 0) ?d = replicate (zero_run gs at) 0"
    unfolding zero_run_def by (rule replicate_length_same [symmetric]) (auto dest: set_takeWhileD)
  moreover have "dropWhile (\<lambda>g. g = 0) ?d = drop (zero_run gs at) ?d"
    by (simp add: zero_run_def dropWhile_eq_drop)
  ultimately have "?d = replicate (zero_run gs at) 0 @ drop (at + zero_run gs at) gs"
    by (metis takeWhile_dropWhile_id drop_drop add.commute)
  then show ?thesis by (metis append_take_drop_id)
qed

definition v6_text :: "string \<Rightarrow> bool" where
  "v6_text t = (list_all (\<lambda>c. is_hex c \<or> c = CHR '':'') t \<and> CHR '':'' \<in> set t)"

lemma groups_text_chars: "list_all (\<lambda>c. is_hex c \<or> c = CHR '':'') (groups_text hs)"
proof (induction hs)
  case (Cons h t)
  then show ?case using hex_text_props(1) [of h]
    by (cases "t = []") (auto simp: groups_text_Cons list_all_iff groups_text_def [of "[h]"])
qed simp

lemma hd_dropWhile_in: "dropWhile P t \<noteq> [] \<Longrightarrow> \<not> P (hd (dropWhile P t)) \<and> hd (dropWhile P t) \<in> set t"
  by (metis hd_dropWhile hd_in_set set_dropWhileD)

lemma ParseAddr_v6_text:
  assumes "v6_text t"
  shows "ParseAddr t = map_option IP6 (Option.bind
       (if take 2 t = ''::'' then (if drop 2 t = [] then Some ([], Some 0) else v6_loop [] (Some 0) (drop 2 t))
        else v6_loop [] None t) expand_ellipsis)"
proof -
  have no: "\<forall>c \<in> set t. c \<noteq> CHR ''.'' \<and> c \<noteq> CHR ''%''"
    using assms by (auto simp: v6_text_def list_all_iff)
  have nonempty: "dropWhile (\<lambda>c. c \<notin> {CHR ''.'', CHR '':'', CHR ''%''}) t \<noteq> []"
    using assms by (auto simp: v6_text_def)
  note d = hd_dropWhile_in [OF nonempty]
  then have "hd (dropWhile (\<lambda>c. c \<notin> {CHR ''.'', CHR '':'', CHR ''%''}) t) = CHR '':''"
    using bspec [OF no conjunct2 [OF d]] by simp
  with d obtain r where "dropWhile (\<lambda>c. c \<notin> {CHR ''.'', CHR '':'', CHR ''%''}) t = CHR '':'' # r"
    by (cases "dropWhile (\<lambda>c. c \<notin> {CHR ''.'', CHR '':'', CHR ''%''}) t") (use nonempty in auto)
  then have "ParseAddr t = parseIPv6 t" by (simp add: ParseAddr_def)
  moreover have zone: "takeWhile (\<lambda>c. c \<noteq> CHR ''%'') t = t" "dropWhile (\<lambda>c. c \<noteq> CHR ''%'') t = []" using no by auto
  ultimately show ?thesis unfolding parseIPv6_def zone by simp
qed

lemma expand_ellipsis_gap:
  "length (hs @ ks) < 8 \<Longrightarrow> expand_ellipsis (hs @ ks, Some (length hs)) = Some (hs @ replicate (8 - length (hs @ ks)) 0 @ ks)"
  by (simp add: expand_ellipsis_def)

lemma hex_not_ellipsis: "t \<noteq> [] \<Longrightarrow> is_hex (hd t) \<Longrightarrow> take 2 t \<noteq> ''::''"
  by (cases t) (auto dest: not_hex [THEN notE])

lemma ParseAddr_ellipsis:
  assumes "length (hs @ ks) < 8" "\<forall>g \<in> set (hs @ ks). g < 65536"
  shows "ParseAddr (groups_text hs @ ''::'' @ groups_text ks) = Some (IP6 (hs @ replicate (8 - length (hs @ ks)) 0 @ ks))"
proof -
  let ?t = "groups_text hs @ ''::'' @ groups_text ks"
  have t: "v6_text ?t" using groups_text_chars by (simp add: v6_text_def)
  have "Option.bind (if take 2 ?t = ''::'' then (if drop 2 ?t = [] then Some ([], Some 0) else v6_loop [] (Some 0) (drop 2 ?t))
        else v6_loop [] None ?t) expand_ellipsis = expand_ellipsis (hs @ ks, Some (length hs))"
  proof (cases "hs = []")
    case True
    have "ks \<noteq> [] \<Longrightarrow> v6_loop [] (Some 0) (groups_text ks) = Some ([] @ ks, Some 0)"
      using assms by (intro v6_groups) auto
    then show ?thesis using True by simp
  next
    case False
    then have "take 2 ?t \<noteq> ''::''" using groups_text_hd [OF False] by (intro hex_not_ellipsis) auto
    moreover have "v6_loop [] None ?t = Some ([] @ hs @ ks, Some (length ([] :: nat list) + length hs))"
      using assms by (intro v6_groups_ellipsis [OF False]) auto
    ultimately show ?thesis by simp
  qed
  then show ?thesis unfolding ParseAddr_v6_text [OF t] using expand_ellipsis_gap [OF assms(1)] by simp
qed

lemma ParseAddr_groups:
  assumes "length gs = 8" "\<forall>g \<in> set gs. g < 65536"
  shows "ParseAddr (groups_text gs) = Some (IP6 gs)"
proof -
  have ne: "gs \<noteq> []" using assms(1) by auto
  then obtain g t where gs: "gs = g # t" "t \<noteq> []" using assms(1) by (cases gs) (simp, fastforce)
  have t: "v6_text (groups_text gs)" using groups_text_chars [of gs] gs by (simp add: v6_text_def groups_text_Cons)
  have "take 2 (groups_text gs) \<noteq> ''::''" using groups_text_hd [OF ne] by (intro hex_not_ellipsis) auto
  moreover have "v6_loop [] None (groups_text gs) = Some ([] @ gs, None)" using assms ne by (intro v6_groups) auto
  ultimately show ?thesis unfolding ParseAddr_v6_text [OF t] using assms(1) by (simp add: expand_ellipsis_def)
qed

lemma ParseAddr_IP6:
  assumes "ip_ok (IP6 gs)" "\<not> mapped4 gs"
  shows "ParseAddr (ip_String (IP6 gs)) = Some (IP6 gs)"
proof -
  have ok: "length gs = 8" "\<forall>g \<in> set gs. g < 65536" using assms(1) by (simp_all add: ip_ok_def)
  obtain i n where b: "best_run gs = (i, n)" by fastforce
  show ?thesis
  proof (cases "n = 0")
    case True
    then show ?thesis using ParseAddr_groups [OF ok] by (simp add: ip_String_def b assms(2))
  next
    case False
    let ?hs = "take i gs" and ?ks = "drop (i + n) gs"
    have n: "2 \<le> n" "n = zero_run gs i" using best_run_zeros [OF b] False by auto
    have split: "gs = ?hs @ replicate n 0 @ ?ks" using zero_run_split [of gs i] n(2) by simp
    then have len: "length (?hs @ ?ks) + n = 8" using ok(1) by (metis length_append length_replicate add.commute add.left_commute)
    have "set (?hs @ ?ks) \<subseteq> set gs" using set_take_subset [of i gs] set_drop_subset [of "i + n" gs] by simp
    then have "ParseAddr (groups_text ?hs @ ''::'' @ groups_text ?ks) = Some (IP6 (?hs @ replicate (8 - length (?hs @ ?ks)) 0 @ ?ks))"
      using ok(2) len n(1) by (intro ParseAddr_ellipsis) auto
    moreover have "8 - length (?hs @ ?ks) = n" using len by linarith
    ultimately show ?thesis using split False by (simp add: ip_String_def b assms(2))
  qed
qed

lemma dec_digits_length: "0 \<le> n \<Longrightarrow> n < 10 ^ Suc k \<Longrightarrow> length (dec_digits n) \<le> Suc k"
proof (induction k arbitrary: n)
  case 0
  then show ?case by (subst dec_digits.simps) simp
next
  case (Suc k)
  then have "0 \<le> n div 10" "n div 10 < 10 ^ Suc k" by simp_all
  then show ?case using Suc.IH [of "n div 10"] by (subst dec_digits.simps) simp
qed

lemma dec_digits_hd: "0 < n \<Longrightarrow> hd (dec_digits n) \<noteq> CHR ''0''"
proof (induction n rule: dec_digits.induct)
  case (1 n)
  show ?case
  proof (cases "n < 10")
    case True
    then have "digit_val (digit_char n) \<noteq> digit_val CHR ''0''" using 1(2) digit_char_props(2) [of n] by (simp add: digit_val_def)
    then show ?thesis using True by (subst dec_digits.simps) auto
  next
    case False
    then show ?thesis using 1(1) by (subst dec_digits.simps) (simp add: hd_append)
  qed
qed

lemma ipv4_field_digits:
  assumes "0 \<le> n" "n < 256"
  shows "ipv4_field (dec_digits n) = Some n"
proof -
  have "length (dec_digits n) \<le> 3" using dec_digits_length [of n 2] assms by simp
  moreover have "length (dec_digits n) > 1 \<Longrightarrow> hd (dec_digits n) \<noteq> CHR ''0''"
    using dec_digits_hd [of n] dec_digits_length [of n 0] assms by (cases "n = 0") auto
  ultimately show ?thesis
    using assms dec_digits_all_digits [of n] digits_val_dec_digits [of n] by (auto simp: ipv4_field_def)
qed

lemma no_dot_digits: "0 \<le> n \<Longrightarrow> CHR ''.'' \<notin> set (dec_digits n)"
  using dec_digits_all_digits [of n] by (auto simp: list_all_iff is_digit_def dest!: bspec)

lemma word_bytes:
  fixes w :: "32 word"
  shows "((int (unat w div 16777216 mod 256) * 256 + int (unat w div 65536 mod 256)) * 256 + int (unat w div 256 mod 256)) * 256
    + int (unat w mod 256) = int (unat w)"
proof -
  have "unat w < 2 ^ 32" using unsigned_less [of w] by simp
  then have m: "n div 16777216 < 256 \<and> n div 256 div 256 = n div 65536 \<and> n div 65536 div 256 = n div 16777216" if "n = unat w" for n
    using that by (simp add: less_mult_imp_div_less div_mult2_eq [symmetric])
  let ?n = "unat w"
  have "(?n div 16777216 * 256 + ?n div 65536 mod 256) = ?n div 65536" using m [OF refl] by (metis div_mult_mod_eq)
  moreover have "?n div 65536 * 256 + ?n div 256 mod 256 = ?n div 256" using m [OF refl] by (metis div_mult_mod_eq)
  moreover have "?n div 256 * 256 + ?n mod 256 = ?n" by simp
  moreover have "?n div 16777216 mod 256 = ?n div 16777216" using m [OF refl] by simp
  ultimately have "((?n div 16777216 mod 256 * 256 + ?n div 65536 mod 256) * 256 + ?n div 256 mod 256) * 256 + ?n mod 256 = ?n" by presburger
  then show ?thesis by (metis (no_types, lifting) of_nat_add of_nat_mult of_nat_numeral)
qed

lemma ParseAddr_IP4: "ParseAddr (ip_String (IP4 w)) = Some (IP4 w)"
proof -
  let ?fs = "map (\<lambda>n. dec_digits (int (n mod 256))) [unat w div 16777216, unat w div 65536, unat w div 256, unat w]"
  have t: "ip_String (IP4 w) = Join CHR ''.'' ?fs" by (simp add: ip_String_def v4_String_def)
  have "\<forall>f \<in> set ?fs. CHR ''.'' \<notin> set f" using no_dot_digits by auto
  then have "Split CHR ''.'' (Join CHR ''.'' ?fs) = ?fs" by (intro Split_Join) simp_all
  moreover have f: "ipv4_field (dec_digits (int (n mod 256))) = Some (int (n mod 256))" for n :: nat by (intro ipv4_field_digits) auto
  ultimately have p: "ParseAddr4 (Join CHR ''.'' ?fs) = Some w"
    using word_bytes [of w] by (simp add: ParseAddr4_def)
  have "dropWhile (\<lambda>c. c \<notin> {CHR ''.'', CHR '':'', CHR ''%''}) (dec_digits (int (unat w div 16777216 mod 256)) @ CHR ''.'' # s) = CHR ''.'' # s" for s
    using dec_digits_all_digits [of "int (unat w div 16777216 mod 256)"]
    by (subst dropWhile_append2) (auto simp: list_all_iff is_digit_def dest!: bspec)
  then have "ParseAddr (Join CHR ''.'' ?fs) = map_option IP4 (ParseAddr4 (Join CHR ''.'' ?fs))"
    by (simp add: ParseAddr_def)
  then show ?thesis using t p by simp
qed

definition unmapped :: "ip \<Rightarrow> bool" where
  "unmapped a = (case a of IP4 w \<Rightarrow> True | IP6 gs \<Rightarrow> \<not> mapped4 gs)"

lemma unmapped_Unmap: "unmapped (Unmap a)"
  by (simp add: unmapped_def Unmap_def split: ip.split)

lemma ParseAddr_String: "ip_ok a \<Longrightarrow> unmapped a \<Longrightarrow> ParseAddr (ip_String a) = Some a"
  by (cases a) (simp_all add: ParseAddr_IP4 ParseAddr_IP6 unmapped_def)

section \<open>Parsed addresses are well formed\<close>

lemma hex_val_lt: "is_hex c \<Longrightarrow> hex_val c < 16"
proof -
  assume "is_hex c"
  then consider "is_digit c" | "c \<in> set ''abcdefABCDEF''" by (auto simp: is_hex_def)
  then show ?thesis by cases (auto simp: hex_val_def is_digit_def)
qed

lemma hex_group_lt: "list_all is_hex g \<Longrightarrow> hex_group g < 16 ^ length g"
proof (induction g rule: rev_induct)
  case (snoc c g)
  then have "hex_group g < 16 ^ length g" "hex_val c < 16" by (simp_all add: hex_val_lt)
  then show ?case by (simp add: hex_group_def)
qed (simp add: hex_group_def)

lemma short_group_lt: "length g \<le> 4 \<Longrightarrow> list_all is_hex g \<Longrightarrow> hex_group g < 65536"
proof -
  assume "length g \<le> 4" "list_all is_hex g"
  then have "hex_group g < 16 ^ length g" "(16 :: nat) ^ length g \<le> 16 ^ 4" using power_increasing [of "length g" 4 "16 :: nat"] by (simp_all add: hex_group_lt)
  then show ?thesis by simp
qed

definition groups_ok :: "nat list \<Rightarrow> bool" where
  "groups_ok gs = (\<forall>g \<in> set gs. g < 65536)"

lemma v4_groups_ok: "groups_ok (v4_groups w)"
proof -
  have "unat w < 65536 * 65536" using unsigned_less [of w] by simp
  then show ?thesis by (auto simp: groups_ok_def v4_groups_def less_mult_imp_div_less)
qed

lemma v6_loop_step:
  assumes "v6_loop gs ell s = Some (hs, e)" "length gs < 8"
  shows "length (takeWhile is_hex s) \<le> 4 \<and>
    (hs = gs @ [hex_group (takeWhile is_hex s)] \<or> (\<exists>w. hs = gs @ v4_groups w \<and> length gs + 2 \<le> 8) \<or>
     (\<exists>ell' s'. v6_loop (gs @ [hex_group (takeWhile is_hex s)]) ell' s' = Some (hs, e)))"
  using assms by (subst (asm) v6_loop.simps) (auto simp: Let_def not_less not_le split: if_splits)

lemma v6_loop_ok: "v6_loop gs ell s = Some (hs, e) \<Longrightarrow> groups_ok gs \<Longrightarrow> length gs \<le> 8 \<Longrightarrow> groups_ok hs \<and> length hs \<le> 8"
proof (induction "8 - length gs" arbitrary: gs ell s rule: less_induct)
  case less
  show ?case
  proof (cases "length gs < 8")
    case False
    then show ?thesis using less.prems by (subst (asm) v6_loop.simps) (auto split: if_splits)
  next
    case True
    let ?g = "takeWhile is_hex s"
    note st = v6_loop_step [OF less.prems(1) True]
    have g: "groups_ok (gs @ [hex_group ?g])"
      using less.prems(2) st short_group_lt [of ?g] by (auto simp: groups_ok_def list_all_iff dest: set_takeWhileD)
    have "groups_ok (gs @ v4_groups w)" "length (v4_groups w) = 2" for w
      using less.prems(2) v4_groups_ok [of w] by (auto simp: groups_ok_def v4_groups_def)
    then show ?thesis using st g True less.hyps [of "gs @ [hex_group ?g]"] by fastforce
  qed
qed

lemma ParseAddr_ok: "ParseAddr s = Some a \<Longrightarrow> ip_ok a"
proof -
  assume a: "ParseAddr s = Some a"
  have e: "length hs = 8 \<and> groups_ok hs" if "expand_ellipsis (gs, e) = Some hs" "groups_ok gs" "length gs \<le> 8" for gs e hs
    using that set_take_subset [of _ gs] set_drop_subset [of _ gs]
    by (fastforce simp: expand_ellipsis_def groups_ok_def split: option.splits if_splits)
  have "ip_ok (IP6 hs)" if "parseIPv6 s = Some (IP6 hs)" for hs
    using that e v6_loop_ok [of "[]"]
    by (fastforce simp: parseIPv6_def Let_def ip_ok_def groups_ok_def bind_eq_Some_conv split: if_splits)
  then show ?thesis using a
    by (cases a) (auto simp: ParseAddr_def ip_ok_def [of "IP4 _"] split: list.splits if_splits)
qed

lemma Unmap_ok: "ip_ok a \<Longrightarrow> ip_ok (Unmap a)"
  by (auto simp: Unmap_def ip_ok_def split: ip.splits)

end
