(* ===== verification/Api_ClientIp.thy ===== *)
theory Api_ClientIp
  imports Go_Netip
begin

text \<open>
  The address a login attempt is counted under (\<open>internal/api/clientip.go\<close>).
\<close>

section \<open>The key of a client\<close>

definition unknownClient :: string where
  "unknownClient = map char_of
    [0xD0, 0xBD, 0xD0, 0xB5, 0xD0, 0xB8, 0xD0, 0xB7, 0xD0, 0xB2, 0xD0, 0xB5, 0xD1, 0x81, 0xD1, 0x82, 0xD0, 0xBD, 0xD1, 0x8B,
     0xD0, 0xB9, 0x20, 0xD0, 0xB0, 0xD0, 0xB4, 0xD1, 0x80, 0xD0, 0xB5, 0xD1, 0x81 :: nat]"

text \<open>The parts of a request \<open>clientKey\<close> reads: the first \<open>X-Real-IP\<close> value (empty when absent) and all
  \<open>X-Forwarded-For\<close> values.\<close>

record client_request =
  rq_RemoteAddr :: string
  rq_XRealIP :: string
  rq_XForwardedFor :: "string list"

definition parseClientAddr :: "string \<Rightarrow> ip option" where
  "parseClientAddr s = (let s = TrimSpace s in if s = [] then None else map_option Unmap (ParseAddr s))"

definition peerAddr :: "string \<Rightarrow> ip option" where
  "peerAddr remote = parseClientAddr (case SplitHostPort remote of None \<Rightarrow> remote | Some (host, _) \<Rightarrow> host)"

text \<open>The first element of a list that parses; both loops of \<open>lastForwarded\<close> run backwards.\<close>

fun first_addr :: "string list \<Rightarrow> ip option" where
  "first_addr [] = None"
| "first_addr (p # ps) = (case parseClientAddr p of None \<Rightarrow> first_addr ps | Some a \<Rightarrow> Some a)"

fun lastForwarded_rev :: "string list \<Rightarrow> ip option" where
  "lastForwarded_rev [] = None"
| "lastForwarded_rev (v # vs) = (case first_addr (rev (Split CHR '','' v)) of
     None \<Rightarrow> lastForwarded_rev vs | Some a \<Rightarrow> Some a)"

definition lastForwarded :: "string list \<Rightarrow> ip option" where
  "lastForwarded vs = lastForwarded_rev (rev vs)"

definition clientKey :: "client_request \<Rightarrow> string" where
  "clientKey r = (case peerAddr (rq_RemoteAddr r) of
     None \<Rightarrow> unknownClient
   | Some peer \<Rightarrow>
     if \<not> IsLoopback peer then ip_String peer
     else case parseClientAddr (rq_XRealIP r) of
       Some addr \<Rightarrow> ip_String addr
     | None \<Rightarrow> (case lastForwarded (rq_XForwardedFor r) of
         Some addr \<Rightarrow> ip_String addr
       | None \<Rightarrow> ip_String peer))"

lemma parseClientAddr_ok: "parseClientAddr s = Some a \<Longrightarrow> ip_ok a \<and> unmapped a"
  by (auto simp: parseClientAddr_def Let_def Unmap_ok ParseAddr_ok unmapped_Unmap split: if_splits)

section \<open>Who is counted\<close>

text \<open>The address a request stands for: that of the connection, unless it comes from the machine itself, where the
  proxy's headers name it.\<close>

definition client_addr :: "client_request \<Rightarrow> ip option" where
  "client_addr r = map_option (\<lambda>peer.
     if \<not> IsLoopback peer then peer
     else case parseClientAddr (rq_XRealIP r) of Some a \<Rightarrow> a
       | None \<Rightarrow> (case lastForwarded (rq_XForwardedFor r) of Some a \<Rightarrow> a | None \<Rightarrow> peer)) (peerAddr (rq_RemoteAddr r))"

lemma first_addr_ok: "first_addr ps = Some a \<Longrightarrow> ip_ok a \<and> unmapped a"
  by (induction ps) (auto simp: parseClientAddr_ok split: option.splits)

lemma lastForwarded_ok: "lastForwarded vs = Some a \<Longrightarrow> ip_ok a \<and> unmapped a"
proof -
  have "lastForwarded_rev us = Some a \<Longrightarrow> ip_ok a \<and> unmapped a" for us
    by (induction us) (auto simp: first_addr_ok split: option.splits)
  then show "lastForwarded vs = Some a \<Longrightarrow> ip_ok a \<and> unmapped a" by (simp add: lastForwarded_def)
qed

lemma client_addr_ok: "client_addr r = Some a \<Longrightarrow> ip_ok a \<and> unmapped a"
  by (auto simp: client_addr_def peerAddr_def parseClientAddr_ok lastForwarded_ok split: if_splits option.splits)

lemma clientKey_addr: "clientKey r = (case client_addr r of None \<Rightarrow> unknownClient | Some a \<Rightarrow> ip_String a)"
  by (simp add: clientKey_def client_addr_def split: option.split)

lemma unknownClient_no_addr: "ParseAddr unknownClient = None"
proof -
  have "\<forall>c \<in> set unknownClient. c \<notin> {CHR ''.'', CHR '':'', CHR ''%''}" by code_simp
  then have "dropWhile (\<lambda>c. c \<notin> {CHR ''.'', CHR '':'', CHR ''%''}) unknownClient = []" by (simp only: dropWhile_eq_Nil_conv)
  then show ?thesis by (simp only: ParseAddr_def list.case)
qed

text \<open>C30: every client has a counter of its own.  Two requests are counted together exactly when they stand for the same
  address (the IPv4 form and its IPv6 mapping being one) or when the address of neither can be read.\<close>

theorem clientKey_injective: "clientKey r = clientKey r' \<longleftrightarrow> client_addr r = client_addr r'"
proof
  assume k: "clientKey r = clientKey r'"
  have "client_addr q = ParseAddr (clientKey q)" for q
    using client_addr_ok [of q] ParseAddr_String unknownClient_no_addr
    by (auto simp: clientKey_addr split: option.split)
  then show "client_addr r = client_addr r'" using k by metis
qed (simp add: clientKey_addr)

lemma Split_last: "CHR '','' \<notin> set a \<Longrightarrow> rev (Split CHR '','' (s @ CHR '','' # a)) = a # rev (Split CHR '','' s)"
proof (induction s)
  case (Cons x s)
  then have "Split CHR '','' (s @ CHR '','' # a) = Split CHR '','' s @ [a]" by (metis rev.simps(2) rev_rev_ident)
  then show ?case by (auto split: list.split)
qed (simp add: Split_no_sep)


lemma demo_addr:
  "TrimSpace ''127.0.0.1'' = ''127.0.0.1''" "TrimSpace ''198.51.100.9'' = ''198.51.100.9''" "TrimSpace ''203.0.113.7'' = ''203.0.113.7''"
  "TrimSpace [] = []" "ParseAddr ''127.0.0.1'' = Some (IP4 0x7F000001)" "ParseAddr ''198.51.100.9'' = Some (IP4 0xC6336409)"
  "ParseAddr ''203.0.113.7'' = Some (IP4 0xCB007107)"
  by (simp_all add: TrimSpace_plain plain_char_def ParseAddr_def ParseAddr4_def ipv4_field_def is_digit_def digits_val_def digit_val_def)


end
