(* ===== verification/Api_Login.thy ===== *)
theory Api_Login
  imports Login_Throttle Api_Password Api_ClientIp
begin

text \<open>
  Signing in to the panel (\<open>internal/api/session.go\<close> and the handlers of \<open>internal/api/handlers.go\<close>): the brake on
  guessing, the password check, the session behind the cookie, its renewal, and the guard in front of every other
  handler.  A handler is a function of the request, of what it draws from outside (clock readings, random bytes, the
  cancellation of the request) and of the panel's state; it returns the response and the new state.  Of a response the
  status, the error code, the \<open>Retry-After\<close> header, the cookies and the delay before it are modelled, not its texts.
  \<open>idkey\<close> is \<open>argon2.IDKey\<close> and \<open>sha\<close> is \<open>sha256.Sum256\<close>; the statements hold for every such function.
\<close>

section \<open>State, requests, responses\<close>

record panel =
  pn_db :: db
  pn_throttle :: throttle

datatype set_cookie = SetCookie string time | ClearCookie

record response =
  rs_status :: nat
  rs_code :: string
  rs_retry :: "int option"
  rs_cookies :: "set_cookie list"
  rs_delay :: duration

definition respond :: "nat \<Rightarrow> string \<Rightarrow> response" where
  "respond status code = \<lparr>rs_status = status, rs_code = code, rs_retry = None, rs_cookies = [], rs_delay = 0\<rparr>"

abbreviation internal_error :: response where "internal_error \<equiv> respond 500 ''internal''"
abbreviation unauthorized :: response where "unauthorized \<equiv> respond 401 ''unauthorized''"
abbreviation ok_response :: response where "ok_response \<equiv> respond 200 []"

section \<open>Tokens and sessions\<close>

definition sessionTTL :: duration where
  "sessionTTL = 24 * 60 * Minute"

definition sessionRenewAfter :: duration where
  "sessionRenewAfter = quo sessionTTL 2"

text \<open>The random bytes are an argument; \<open>None\<close> is a failure of the random source.\<close>

definition newSessionToken :: "string option \<Rightarrow> string option" where
  "newSessionToken random = map_option (b64_encode b64_url) random"

definition hashToken :: "(string \<Rightarrow> string) \<Rightarrow> string \<Rightarrow> string" where
  "hashToken sha token = hexEncode (sha token)"

definition issueSession ::
  "(string \<Rightarrow> string) \<Rightarrow> string option \<Rightarrow> time \<Rightarrow> password_state \<Rightarrow> db \<Rightarrow> (err + set_cookie) \<times> db" where
  "issueSession sha random now st s = (case newSessionToken random of
     None \<Rightarrow> (Inl ErrOther, s)
   | Some token \<Rightarrow>
     let expires = now + sessionTTL in
     (case CreateVerifiedSession
        (\<lparr>ss_token_hash = hashToken sha token, ss_created_at = now, ss_expires_at = expires\<rparr>, st) s of
        (Inl e, s') \<Rightarrow> (Inl e, s')
      | (Inr _, s') \<Rightarrow> (Inr (SetCookie token expires), s')))"

definition session_of :: "(string \<Rightarrow> string) \<Rightarrow> string option \<Rightarrow> time \<Rightarrow> db \<Rightarrow> err + session option" where
  "session_of sha cookie now s = (case cookie of
     None \<Rightarrow> Inr None
   | Some token \<Rightarrow>
     if token = [] then Inr None
     else let hash = hashToken sha token in
       (case Session hash now s of
          Inl e \<Rightarrow> if e = ErrNotFound then Inr None else Inl e
        | Inr sess \<Rightarrow> if ss_token_hash sess \<noteq> hash then Inr None else Inr (Some sess)))"

text \<open>An extension that failed would only be logged; the statement cannot fail in the model.\<close>

definition renew :: "time \<Rightarrow> session \<Rightarrow> string \<Rightarrow> db \<Rightarrow> set_cookie list \<times> db" where
  "renew now sess token s =
    (if Sub (ss_expires_at sess) now > sessionRenewAfter then ([], s)
     else let expires = now + sessionTTL in
       (case ExtendSession (ss_token_hash sess, expires) s of
          (Inl _, s') \<Rightarrow> ([], s')
        | (Inr _, s') \<Rightarrow> ([SetCookie token expires], s')))"

section \<open>Handlers\<close>

text \<open>\<open>checkPassword\<close>: a request cancelled while it waits for a slot is an error.\<close>

definition checkPassword :: "idkey \<Rightarrow> bool \<Rightarrow> string \<Rightarrow> db \<Rightarrow> api_err + (password_state \<times> bool)" where
  "checkPassword idkey cancelled password s =
    (if cancelled then Inl (ErrStore ErrOther)
     else bindR (mapErr ErrStore (PasswordState s)) (\<lambda>st.
       bindR (VerifyPassword idkey (ps_hash st) password) (\<lambda>ok. Inr (st, ok))))"

text \<open>What a login draws from outside: the client, the decoded body (\<open>None\<close> when it cannot be decoded), the
  cancellation, the random bytes and the three readings of the clock.\<close>

record login_request =
  lr_client :: client_request
  lr_password :: "string option"
  lr_cancelled :: bool
  lr_random :: "string option"
  lr_gate :: time
  lr_fail :: time
  lr_issue :: time

definition handleLogin :: "idkey \<Rightarrow> (string \<Rightarrow> string) \<Rightarrow> login_request \<Rightarrow> panel \<Rightarrow> response \<times> panel" where
  "handleLogin idkey sha r p =
    (let key = clientKey (lr_client r); left = retryAfter key (lr_gate r) (pn_throttle p) in
     if left > 0 then ((respond 429 ''too_many_attempts'')\<lparr>rs_retry := Some ((left + 500 * Millisecond) div Second)\<rparr>, p)
     else case lr_password r of
       None \<Rightarrow> (respond 400 ''bad_request'', p)
     | Some password \<Rightarrow>
       (case checkPassword idkey (lr_cancelled r) password (pn_db p) of
          Inl _ \<Rightarrow> (internal_error, p)
        | Inr (st, ok) \<Rightarrow>
          if \<not> ok then
            (case fail key (lr_fail r) (pn_throttle p) of (delay, t) \<Rightarrow>
              (case delay of
                 None \<Rightarrow> internal_error
               | Some d \<Rightarrow> unauthorized\<lparr>rs_delay := d\<rparr>, p\<lparr>pn_throttle := t\<rparr>))
          else
            (case issueSession sha (lr_random r) (lr_issue r) st (pn_db p) of
               (Inl e, s) \<Rightarrow> (if e = ErrPasswordChanged then unauthorized else internal_error, p\<lparr>pn_db := s\<rparr>)
             | (Inr c, s) \<Rightarrow>
                 (ok_response\<lparr>rs_cookies := [c]\<rparr>,
                  p\<lparr>pn_db := s, pn_throttle := success key (pn_throttle p)\<rparr>))))"

definition requireSession ::
  "(string \<Rightarrow> string) \<Rightarrow> string option \<Rightarrow> time \<times> time \<Rightarrow> (panel \<Rightarrow> response \<times> panel) \<Rightarrow> panel \<Rightarrow> response \<times> panel" where
  "requireSession sha cookie nows handler p =
    (case session_of sha cookie (fst nows) (pn_db p) of
       Inl _ \<Rightarrow> (internal_error, p)
     | Inr None \<Rightarrow> (unauthorized\<lparr>rs_cookies := (case cookie of Some (_ # _) \<Rightarrow> [ClearCookie] | _ \<Rightarrow> [])\<rparr>, p)
     | Inr (Some sess) \<Rightarrow>
         (case cookie of
            None \<Rightarrow> handler p
          | Some token \<Rightarrow>
             (case renew (snd nows) sess token (pn_db p) of (cs, s) \<Rightarrow>
               (case handler (p\<lparr>pn_db := s\<rparr>) of (q, p') \<Rightarrow> (q\<lparr>rs_cookies := cs @ rs_cookies q\<rparr>, p')))))"

definition handleLogout :: "(string \<Rightarrow> string) \<Rightarrow> string option \<Rightarrow> panel \<Rightarrow> response \<times> panel" where
  "handleLogout sha cookie p =
    (case cookie of
       Some (c # cs) \<Rightarrow> (case DeleteSession (hashToken sha (c # cs)) (pn_db p) of
           (Inl _, s) \<Rightarrow> (internal_error, p\<lparr>pn_db := s\<rparr>)
         | (Inr _, s) \<Rightarrow> (ok_response\<lparr>rs_cookies := [ClearCookie]\<rparr>, p\<lparr>pn_db := s\<rparr>))
     | _ \<Rightarrow> (ok_response\<lparr>rs_cookies := [ClearCookie]\<rparr>, p))"

definition handleSession :: "(string \<Rightarrow> string) \<Rightarrow> string option \<Rightarrow> time \<Rightarrow> panel \<Rightarrow> response \<times> time option" where
  "handleSession sha cookie now p =
    (case session_of sha cookie now (pn_db p) of
       Inr (Some sess) \<Rightarrow> (ok_response, Some (ss_expires_at sess))
     | _ \<Rightarrow> (unauthorized, None))"

text \<open>One round of the sweeping goroutine of \<open>server.go\<close>.\<close>

definition sweep_round :: "time \<times> time \<Rightarrow> panel \<Rightarrow> panel" where
  "sweep_round nows p = p\<lparr>pn_db := snd (DeleteExpiredSessions (fst nows) (pn_db p)), pn_throttle := sweep (snd nows) (pn_throttle p)\<rparr>"

section \<open>A session behind a cookie\<close>

lemma hashToken_nonempty: "sha token \<noteq> [] \<Longrightarrow> hashToken sha token \<noteq> []"
  by (simp add: hashToken_def)

lemma ttl_pos: "0 < sessionTTL"
  by (simp add: sessionTTL_def Minute_def Second_def)

text \<open>The cookie value stands for a live session.\<close>

definition signed_in :: "(string \<Rightarrow> string) \<Rightarrow> string \<Rightarrow> time \<Rightarrow> db \<Rightarrow> bool" where
  "signed_in sha token now s = (case session_of sha (Some token) now s of Inr (Some _) \<Rightarrow> True | _ \<Rightarrow> False)"

lemma signed_in_iff: "signed_in sha token now s \<longleftrightarrow> token \<noteq> [] \<and> is_ok (Session (hashToken sha token) now s)"
  by (auto simp: signed_in_def session_of_def Session_def Let_def split: option.splits)

lemma CreateVerifiedSession_fresh:
  assumes "PasswordState s = Inr st" "ss_token_hash ss \<noteq> []" "ss_created_at ss < ss_expires_at ss"
    "ss_token_hash ss \<notin> sr_token_hash ` set (db_sessions s)"
  shows "CreateVerifiedSession (ss, st) s = (Inr (), s\<lparr>db_sessions := db_sessions s @ [session_args ss]\<rparr>)"
proof -
  have "password_matches st s" "ps_hash st \<noteq> []"
    using assms(1) by (auto simp: PasswordState_def password_matches_def split: option.splits if_splits)
  moreover have "insert_session (session_args ss) s = Inr (s\<lparr>db_sessions := db_sessions s @ [session_args ss]\<rparr>)"
    using assms(4) by (simp add: insert_session_def session_args_def)
  ultimately show ?thesis
    using assms(2,3) by (simp add: CreateVerifiedSession_def verified_session_tx_def tx_def)
qed

lemma schema_ok_sessions:
  "schema_ok s \<Longrightarrow> distinct (map sr_token_hash ws) \<Longrightarrow> schema_ok (s\<lparr>db_sessions := ws\<rparr>)"
  by (simp add: schema_ok_def tunnel_ids_def peer_ids_def)

lemma issueSession_ok:
  assumes "schema_ok s" "PasswordState s = Inr st" "b64_encode b64_url bytes = token" "token \<noteq> []" "sha token \<noteq> []"
    "hashToken sha token \<notin> sr_token_hash ` set (db_sessions s)"
  shows "\<exists>s'. issueSession sha (Some bytes) now st s = (Inr (SetCookie token (now + sessionTTL)), s') \<and>
    (\<forall>later. signed_in sha token later s' \<longleftrightarrow> Unix later < Unix (now + sessionTTL))"
proof -
  let ?ss = "\<lparr>ss_token_hash = hashToken sha token, ss_created_at = now, ss_expires_at = now + sessionTTL\<rparr>"
  let ?s' = "s\<lparr>db_sessions := db_sessions s @ [session_args ?ss]\<rparr>"
  have c: "CreateVerifiedSession (?ss, st) s = (Inr (), ?s')"
    using assms hashToken_nonempty ttl_pos by (intro CreateVerifiedSession_fresh) auto
  have "schema_ok ?s'" using assms(1,6) by (intro schema_ok_sessions) (auto simp: schema_ok_def session_args_def)
  moreover have "session_args ?ss \<in> set (db_sessions ?s')" by simp
  ultimately have "signed_in sha token later ?s' \<longleftrightarrow> Unix later < Unix (now + sessionTTL)" for later
    using Session_stored [of ?s' "session_args ?ss" later] assms(4) by (simp add: signed_in_iff session_args_def)
  then show ?thesis using c assms(3) by (auto simp: issueSession_def newSessionToken_def Let_def)
qed

section \<open>The outcome of a login\<close>

lemma checkPassword_hashed:
  assumes "HashPassword idkey salt password = Inr (ps_hash st)" "PasswordState s = Inr st"
    "length salt = argonSaltLen" "\<And>pw. length (argon_key idkey pw salt) = argonKeyLen"
  shows "checkPassword idkey False guess s = Inr (st, argon_key idkey guess salt
    = argon_key idkey password salt)"
proof -
  have "VerifyPassword idkey (ps_hash st) guess = Inr (argon_key idkey guess salt
      = argon_key idkey password salt)"
    by (rule HashPassword_checks [OF assms(3,4,1)])
  then show ?thesis using assms(2) by (simp add: checkPassword_def)
qed

text \<open>C25: a login against the password that was set.  While the address is blocked the answer is 429 and nothing changes;
  otherwise the right password signs in: the counter is cleared and the cookie is good until a day later, exactly.  A
  password with another key gives 401, no cookie, an unchanged database and one more counted failure.\<close>

theorem login_outcome:
  assumes "schema_ok (pn_db p)" "PasswordState (pn_db p) = Inr st" "HashPassword idkey salt password = Inr (ps_hash st)"
    "length salt = argonSaltLen" "\<And>pw. length (argon_key idkey pw salt) = argonKeyLen"
    "lr_password r = Some guess" "\<not> lr_cancelled r" "lr_random r = Some bytes" "b64_encode b64_url bytes = token" "token \<noteq> []"
    "sha token \<noteq> []" "hashToken sha token \<notin> sr_token_hash ` set (db_sessions (pn_db p))"
    "key = clientKey (lr_client r)" "handleLogin idkey sha r p = (q, p')"
  shows "if retryAfter key (lr_gate r) (pn_throttle p) > 0 then rs_status q = 429 \<and> p' = p
    else if argon_key idkey guess salt = argon_key idkey password salt
    then rs_status q = 200 \<and> rs_cookies q = [SetCookie token (lr_issue r + sessionTTL)] \<and> pn_throttle p' = success key (pn_throttle p) \<and>
      (\<forall>now. signed_in sha token now (pn_db p') \<longleftrightarrow> Unix now < Unix (lr_issue r + sessionTTL))
    else rs_cookies q = [] \<and> pn_db p' = pn_db p \<and> pn_throttle p' = snd (fail key (lr_fail r) (pn_throttle p)) \<and>
      (case fst (fail key (lr_fail r) (pn_throttle p)) of None \<Rightarrow> rs_status q = 500 | Some d \<Rightarrow> rs_status q = 401 \<and> rs_delay q = d)"
proof -
  have chk: "checkPassword idkey False guess (pn_db p) = Inr (st, argon_key idkey guess salt = argon_key idkey password salt)"
    by (rule checkPassword_hashed [of idkey, OF assms(3,2,4,5)])
  obtain s' where iss: "issueSession sha (Some bytes) (lr_issue r) st (pn_db p) = (Inr (SetCookie token (lr_issue r + sessionTTL)), s')"
    and live: "\<And>later. signed_in sha token later s' \<longleftrightarrow> Unix later < Unix (lr_issue r + sessionTTL)"
    using issueSession_ok [OF assms(1,2,9-12)] by blast
  consider "retryAfter key (lr_gate r) (pn_throttle p) > 0"
    | "\<not> retryAfter key (lr_gate r) (pn_throttle p) > 0" "argon_key idkey guess salt = argon_key idkey password salt"
    | "\<not> retryAfter key (lr_gate r) (pn_throttle p) > 0" "argon_key idkey guess salt \<noteq> argon_key idkey password salt" by blast
  then show ?thesis
  proof cases
    case 1
    then show ?thesis using assms(13,14) by (auto simp: handleLogin_def Let_def respond_def)
  next
    case 2
    then have "handleLogin idkey sha r p = (ok_response\<lparr>rs_cookies := [SetCookie token (lr_issue r + sessionTTL)]\<rparr>,
        p\<lparr>pn_db := s', pn_throttle := success key (pn_throttle p)\<rparr>)"
      using assms(6-8) by (simp add: handleLogin_def Let_def assms(13) [symmetric] chk iss)
    then show ?thesis using 2 assms(14) live by (auto simp: respond_def)
  next
    case 3
    obtain d t where f: "fail key (lr_fail r) (pn_throttle p) = (d, t)" by fastforce
    have "handleLogin idkey sha r p = (case d of None \<Rightarrow> internal_error | Some d \<Rightarrow> unauthorized\<lparr>rs_delay := d\<rparr>, p\<lparr>pn_throttle := t\<rparr>)"
      using 3 assms(6-8) by (simp add: handleLogin_def Let_def assms(13) [symmetric] chk f)
    then show ?thesis using 3 assms(14) f by (auto simp: respond_def split: option.splits)
  qed
qed


definition demo_panel :: panel where
  "demo_panel = \<lparr>pn_db = snd (SetPassword demo_idkey (''0123456789abcdef'', ''g1'', ''correct horse'') empty_db), pn_throttle = newThrottle\<rparr>"

definition demo_try :: "string \<Rightarrow> login_request" where
  "demo_try guess = \<lparr>lr_client = \<lparr>rq_RemoteAddr = ''198.51.100.9:4000'', rq_XRealIP = [], rq_XForwardedFor = []\<rparr>, lr_password = Some guess,
     lr_cancelled = False, lr_random = Some ''random'', lr_gate = 0, lr_fail = 1, lr_issue = 1\<rparr>"


lemma demo_hash:
  "HashPassword demo_idkey ''0123456789abcdef'' ''correct horse'' = Inr (phc ''0123456789abcdef''
     (argon_key demo_idkey ''correct horse'' ''0123456789abcdef''))"
proof -
  have "length (runes ''correct horse'') = 13" by (subst runes_ascii) (simp_all add: is_ascii_def)
  then show ?thesis by (simp add: HashPassword_def MinPasswordLen_def)
qed

lemma demo_panel_facts:
  "schema_ok (pn_db demo_panel)" "db_sessions (pn_db demo_panel) = []"
  "\<exists>st. PasswordState (pn_db demo_panel) = Inr st \<and> HashPassword demo_idkey ''0123456789abcdef'' ''correct horse'' = Inr (ps_hash st)"
proof -
  obtain h where h: "HashPassword demo_idkey ''0123456789abcdef'' ''correct horse'' = Inr h" "h \<noteq> []"
    using demo_hash by (auto simp: phc_def)
  obtain s' where s': "SetPasswordHash (''g1'', h) empty_db = (Inr (), s')" "db_sessions s' = []"
    using h(2) by (auto simp: SetPasswordHash_def tx_def set_password_tx_def Let_def)
  then have db: "pn_db demo_panel = s'" by (simp add: demo_panel_def SetPassword_def h(1))
  show "db_sessions (pn_db demo_panel) = []" using db s'(2) by simp
  show "\<exists>st. PasswordState (pn_db demo_panel) = Inr st \<and> HashPassword demo_idkey ''0123456789abcdef'' ''correct horse'' = Inr (ps_hash st)"
    using SetPasswordHash_effect(2) [OF schema_ok_empty s'(1)] h(1) db by simp
  show "schema_ok (pn_db demo_panel)"
    using set_password.step_writes [OF schema_ok_empty, of "(''g1'', h)"] schema_ok_empty s' db
    by (simp add: side_write_def schema_ok_def tunnel_ids_def peer_ids_def)
qed

theorem login_outcome_witness:
  "(\<exists>q p'. handleLogin demo_idkey (\<lambda>t. t) (demo_try ''correct horse'') demo_panel = (q, p') \<and> rs_status q = 200 \<and>
      signed_in (\<lambda>t. t) (b64_encode b64_url ''random'') (10 ^ 12) (pn_db p')) \<and>
   (\<exists>q p'. handleLogin demo_idkey (\<lambda>t. t) (demo_try ''battery staple'') demo_panel = (q, p') \<and> rs_cookies q = [] \<and> pn_db p' = pn_db demo_panel)"
proof -
  let ?salt = "''0123456789abcdef''" and ?token = "b64_encode b64_url ''random''"
  obtain st where st: "PasswordState (pn_db demo_panel) = Inr st" "HashPassword demo_idkey ?salt ''correct horse'' = Inr (ps_hash st)"
    using demo_panel_facts(3) by blast
  have salt: "length ?salt = argonSaltLen" by (simp add: argonSaltLen_def)
  have tok: "?token \<noteq> []" by simp
  have fresh: "hashToken (\<lambda>t. t) ?token \<notin> sr_token_hash ` set (db_sessions (pn_db demo_panel))" by (simp add: demo_panel_facts(2))
  have neq: "argon_key demo_idkey ''battery staple'' ?salt
      \<noteq> argon_key demo_idkey ''correct horse'' ?salt"
    by (simp add: demo_idkey_def argonKeyLen_def)
  have gate: "retryAfter k now (pn_throttle demo_panel) = 0" for k now
    by (simp add: demo_panel_def newThrottle_def retryAfter_def)
  have rq: "lr_password (demo_try g) = Some g" "\<not> lr_cancelled (demo_try g)" "lr_random (demo_try g) = Some ''random''" "lr_issue (demo_try g) = 1" for g
    by (simp_all add: demo_try_def)
  have day: "Unix (10 ^ 12) < Unix (1 + sessionTTL)" by (simp add: Unix_def sessionTTL_def Minute_def Second_def)
  note out = login_outcome [where idkey = demo_idkey and sha = "\<lambda>t. t", OF demo_panel_facts(1) st salt demo_idkey_length rq(1-3) refl tok tok fresh refl surjective_pairing]
  from out [of "''correct horse''"] out [of "''battery staple''"] neq gate day rq(4) show ?thesis
    by (metis (no_types, lifting) less_irrefl surjective_pairing)
qed


section \<open>The rate of guesses at the panel\<close>

datatype panel_step = Login login_request | Sweep_round "time \<times> time"

fun panel_do :: "idkey \<Rightarrow> (string \<Rightarrow> string) \<Rightarrow> panel_step \<Rightarrow> panel \<Rightarrow> panel" where
  "panel_do idkey sha (Login r) p = snd (handleLogin idkey sha r p)"
| "panel_do idkey sha (Sweep_round nows) p = sweep_round nows p"

text \<open>What a step does to the counters: a wrong password that was checked is a failure, a session that was handed out a
  success.\<close>

definition wrong_password :: "idkey \<Rightarrow> login_request \<Rightarrow> panel \<Rightarrow> bool" where
  "wrong_password idkey r p = (\<not> retryAfter (clientKey (lr_client r)) (lr_gate r) (pn_throttle p) > 0 \<and>
     (case lr_password r of None \<Rightarrow> False
      | Some pw \<Rightarrow> (case checkPassword idkey (lr_cancelled r) pw (pn_db p) of Inr (_, False) \<Rightarrow> True | _ \<Rightarrow> False)))"

fun counted :: "idkey \<Rightarrow> (string \<Rightarrow> string) \<Rightarrow> panel_step \<Rightarrow> panel \<Rightarrow> throttle_step list" where
  "counted idkey sha (Login r) p =
    (if wrong_password idkey r p then [Fail (clientKey (lr_client r)) (lr_fail r)]
     else if rs_status (fst (handleLogin idkey sha r p)) = 200 then [Success (clientKey (lr_client r))] else [])"
| "counted idkey sha (Sweep_round nows) p = [Sweep (snd nows)]"

fun panel_trace :: "idkey \<Rightarrow> (string \<Rightarrow> string) \<Rightarrow> panel_step list \<Rightarrow> panel \<Rightarrow> throttle_step list" where
  "panel_trace idkey sha [] p = []"
| "panel_trace idkey sha (x # xs) p = counted idkey sha x p @ panel_trace idkey sha xs (panel_do idkey sha x p)"

definition clock_forward :: "panel_step \<Rightarrow> bool" where
  "clock_forward x = (case x of Login r \<Rightarrow> lr_gate r \<le> lr_fail r | Sweep_round _ \<Rightarrow> True)"

lemma handleLogin_counted: "pn_throttle (snd (handleLogin idkey sha r p)) = fold throttle_do (counted idkey sha (Login r) p) (pn_throttle p)"
  by (auto simp: handleLogin_def wrong_password_def respond_def Let_def split: option.splits sum.splits prod.splits bool.splits)

lemma panel_do_counted: "pn_throttle (panel_do idkey sha x p) = fold throttle_do (counted idkey sha x p) (pn_throttle p)"
proof (cases x)
  case (Login r)
  then show ?thesis using handleLogin_counted by simp
qed (simp add: sweep_round_def)

lemma retryAfter_antimono: "now \<le> now' \<Longrightarrow> \<not> retryAfter key now t > 0 \<Longrightarrow> retryAfter key now' t = 0"
  by (auto simp: retryAfter_def Sub_def Let_def split: option.splits if_splits)

lemma counted_gated: "clock_forward x \<Longrightarrow> gated_from (pn_throttle p) (counted idkey sha x p)"
proof (cases x)
  case (Login r)
  moreover assume "clock_forward x"
  ultimately show ?thesis using retryAfter_antimono [of "lr_gate r" "lr_fail r" "clientKey (lr_client r)" "pn_throttle p"]
    by (auto simp: clock_forward_def wrong_password_def)
qed simp

lemma panel_trace_gated: "list_all clock_forward xs \<Longrightarrow> gated_from (pn_throttle p) (panel_trace idkey sha xs p)"
  by (induction xs arbitrary: p) (simp_all add: gated_from_append counted_gated flip: panel_do_counted)



text \<open>A series of wrong passwords of one address, each let through.\<close>

lemma wrong_series:
  assumes "\<forall>r \<in> set rs. clientKey (lr_client r) = key \<and> lr_gate r = lr_fail r \<and> lr_password r = Some guess \<and> \<not> lr_cancelled r"
    "checkPassword idkey False guess (pn_db p) = Inr (st, False)"
    "gated_from (pn_throttle p) (map (\<lambda>r. Fail key (lr_fail r)) rs)"
  shows "panel_trace idkey sha (map Login rs) p = map (\<lambda>r. Fail key (lr_fail r)) rs"
  using assms
proof (induction rs arbitrary: p)
  case (Cons r rs)
  have w: "wrong_password idkey r p" using Cons.prems by (simp add: wrong_password_def)
  have "pn_db (snd (handleLogin idkey sha r p)) = pn_db p"
    using Cons.prems by (auto simp: handleLogin_def Let_def split: prod.splits)
  moreover have "pn_throttle (snd (handleLogin idkey sha r p)) = throttle_do (Fail key (lr_fail r)) (pn_throttle p)"
    using handleLogin_counted [of idkey sha r p] w Cons.prems(1) by simp
  ultimately have "panel_trace idkey sha (map Login rs) (snd (handleLogin idkey sha r p)) = map (\<lambda>r. Fail key (lr_fail r)) rs"
    using Cons.prems by (intro Cons.IH) simp_all
  then show ?case using w Cons.prems(1) by simp
qed simp

definition demo_tries :: "login_request list" where
  "demo_tries = map (\<lambda>t. (demo_try ''battery staple'')\<lparr>lr_gate := t, lr_fail := t\<rparr>) [0, Second, 2 * Second, 3 * Second, 4 * Second, 20 * Minute]"


section \<open>The guard\<close>

lemma signed_in_session:
  assumes "signed_in sha token now s"
  obtains sess where "session_of sha (Some token) now s = Inr (Some sess)" "token \<noteq> []" "ss_token_hash sess = hashToken sha token"
    "Session (hashToken sha token) now s = Inr sess"
proof -
  have "token \<noteq> []" "is_ok (Session (hashToken sha token) now s)" using assms by (simp_all add: signed_in_iff)
  moreover then obtain sess where "Session (hashToken sha token) now s = Inr sess" by (auto simp: is_ok_iff)
  moreover from this have "ss_token_hash sess = hashToken sha token" by (auto simp: Session_def split: option.splits)
  ultimately show thesis by (intro that [of sess]) (simp_all add: session_of_def Let_def)
qed

lemma not_signed_in: "\<not> signed_in sha token now s \<Longrightarrow> session_of sha (Some token) now s = Inr None"
  by (auto simp: signed_in_def session_of_def Session_def Let_def split: option.splits if_splits)

lemma extended_session:
  assumes "schema_ok s" "signed_in sha token now s"
  shows "signed_in sha token later (snd (ExtendSession (hashToken sha token, deadline) s)) \<longleftrightarrow> Unix later < Unix deadline"
proof -
  let ?h = "hashToken sha token" and ?s = "snd (ExtendSession (hashToken sha token, deadline) s)"
  obtain sess where "token \<noteq> []" "Session ?h now s = Inr sess" using signed_in_session [OF assms(2)] by metis
  then obtain w where f: "List.find (\<lambda>w. sr_token_hash w = ?h \<and> Unix now < sr_expires_at w) (db_sessions s) = Some w"
    by (auto simp: Session_def split: option.splits)
  have w: "w \<in> set (db_sessions s)" "sr_token_hash w = ?h"
    using f by (auto simp: find_Some_iff)
  have "schema_ok ?s"
    using assms(1) extend_session.step_writes [OF assms(1), of "(?h, deadline)"]
    by (simp add: side_write_def schema_ok_def tunnel_ids_def peer_ids_def)
  moreover have "w\<lparr>sr_expires_at := Unix deadline\<rparr> \<in> set (db_sessions ?s)"
    using w by (auto simp: ExtendSession_def tx_def set_upd_where image_iff)
  ultimately show ?thesis
    using Session_stored [of ?s "w\<lparr>sr_expires_at := Unix deadline\<rparr>" later] w(2) \<open>token \<noteq> []\<close> by (simp add: signed_in_iff)
qed

lemma requireSession_denies:
  "\<not> signed_in sha token now (pn_db p) \<Longrightarrow> requireSession sha (Some token) (now, now') handler p
     = (unauthorized\<lparr>rs_cookies := (case token of [] \<Rightarrow> [] | _ \<Rightarrow> [ClearCookie])\<rparr>, p)"
  by (simp add: requireSession_def not_signed_in split: list.split)

lemma requireSession_hands_on:
  assumes "schema_ok (pn_db p)" "signed_in sha token now (pn_db p)"
  obtains deadline cs s where "handleSession sha (Some token) now p = (ok_response, Some deadline)"
    "requireSession sha (Some token) (now, now') handler p =
      (case handler (p\<lparr>pn_db := s\<rparr>) of (q, p') \<Rightarrow> (q\<lparr>rs_cookies := cs @ rs_cookies q\<rparr>, p'))"
    "if Sub deadline now' > sessionRenewAfter then cs = [] \<and> s = pn_db p
     else cs = [SetCookie token (now' + sessionTTL)] \<and> (\<forall>later. signed_in sha token later s \<longleftrightarrow> Unix later < Unix (now' + sessionTTL))"
proof -
  from signed_in_session [OF assms(2)] obtain sess where
    sess: "session_of sha (Some token) now (pn_db p) = Inr (Some sess)" "ss_token_hash sess = hashToken sha token" by metis
  obtain cs s where r: "renew now' sess token (pn_db p) = (cs, s)" by fastforce
  have "if Sub (ss_expires_at sess) now' > sessionRenewAfter then cs = [] \<and> s = pn_db p
     else cs = [SetCookie token (now' + sessionTTL)] \<and> s = snd (ExtendSession (hashToken sha token, now' + sessionTTL) (pn_db p))"
    using r sess(2) by (auto simp: renew_def ExtendSession_def tx_def Let_def split: if_splits)
  then show thesis using that [of "ss_expires_at sess" cs s] sess r extended_session [OF assms]
    by (auto simp: requireSession_def handleSession_def split: if_splits)
qed

lemma logout_ends: "\<not> signed_in sha token later (pn_db (snd (handleLogout sha (Some token) p)))"
proof (cases token)
  case (Cons c cs)
  have "Session (hashToken sha token) later (snd (DeleteSession (hashToken sha token) (pn_db p))) = Inl ErrNotFound"
    by (auto simp: Session_def DeleteSession_def tx_def find_None_iff split: option.split dest: find_Some_iff [THEN iffD1])
  then show ?thesis by (simp add: Cons handleLogout_def DeleteSession_def tx_def signed_in_iff)
qed (simp add: signed_in_iff)



definition demo_signed_in :: panel where
  "demo_signed_in = \<lparr>pn_db = empty_db\<lparr>db_sessions := [\<lparr>sr_token_hash = hashToken (\<lambda>t. t) ''tok'', sr_created_at = 0, sr_expires_at = 86400\<rparr>]\<rparr>,
     pn_throttle = newThrottle\<rparr>"


end
