(* ===== verification/Sb_Options.thy ===== *)
theory Sb_Options
  imports Go_Netip Store_Admission
begin

text \<open>
  The parts of a sing-box configuration the generator emits (\<open>github.com/sagernet/sing-box/option\<close>, the fields
  \<open>internal/singbox\<close> sets), the tags of \<open>singbox.go\<close>, and the order in which the core reads its route rules.
\<close>

section \<open>Route rules\<close>

record raw_rule =
  rr_inbound :: "string list"
  rr_source_ip_cidr :: "string list"
  rr_rule_set :: "string list"
  rr_ip_cidr :: "string list"
  rr_auth_user :: "string list"
  rr_domain :: "string list"
  rr_port :: "nat list"
  rr_ip_version :: nat
  rr_network :: "string list"
  rr_invert :: bool

definition no_raw :: raw_rule where
  "no_raw = \<lparr>rr_inbound = [], rr_source_ip_cidr = [], rr_rule_set = [], rr_ip_cidr = [], rr_auth_user = [], rr_domain = [],
     rr_port = [], rr_ip_version = 0, rr_network = [], rr_invert = False\<rparr>"

text \<open>\<open>NoAction\<close> is the zero value of an action, which the leaves of a logical rule have.\<close>

datatype rule_action = Route string | Reject | HijackDNS | Resolve string | Sniff | NoAction

datatype route_rule = DefaultRule (rule_raw: raw_rule) (rule_act: rule_action)
  | LogicalRule (rule_mode: string) (rule_invert: bool) (rule_children: "route_rule list") (rule_act: rule_action)

section \<open>DNS\<close>

record raw_dns_rule =
  dr_inbound :: "string list"
  dr_query_type :: "nat list"
  dr_domain_suffix :: "string list"
  dr_rule_set :: "string list"
  dr_source_ip_cidr :: "string list"
  dr_auth_user :: "string list"

definition no_dns_raw :: raw_dns_rule where
  "no_dns_raw = \<lparr>dr_inbound = [], dr_query_type = [], dr_domain_suffix = [], dr_rule_set = [], dr_source_ip_cidr = [], dr_auth_user = []\<rparr>"

text \<open>The server of a routed query, with the rewritten TTL and whether only IPv4 is asked for.\<close>

datatype dns_action = DnsRoute string "nat option" bool | DnsReject

datatype dns_rule = DnsRule (dns_raw: raw_dns_rule) (dns_act: dns_action)

record remote_dns =
  rd_server :: string
  rd_port :: nat
  rd_resolver :: "(string \<times> bool) option"
  rd_detour :: string

datatype dns_server = RemoteServer (server_type: string) (server_tag: string) remote_dns | FakeIPServer (server_tag: string) string

record dns_options =
  do_servers :: "dns_server list"
  do_rules :: "dns_rule list"
  do_final :: string

section \<open>Exits\<close>

text \<open>The body of an outbound or endpoint: a JSON object as text, a parsed pool member with its TLS section (\<open>None\<close>
  without one, else whether certificates go unchecked), a group, a selector, or the direct exit.\<close>

datatype exit_options = RawOptions string | MemberOptions string "bool option" | URLTestOptions "string list"
  | SelectorOptions "string list" string | DirectOptions

record sb_exit =
  ex_type :: string
  ex_tag :: string
  ex_options :: exit_options

section \<open>Rule sets\<close>

datatype set_content = InlineSet "string list" "string list" | LocalSet string string

record rule_set =
  rs_tag :: string
  rs_content :: set_content

section \<open>The whole configuration\<close>

text \<open>The TLS section of the alternative entrance.\<close>

record reality_tls =
  rl_server_name :: string
  rl_private_key :: string
  rl_short_id :: string
  rl_handshake_server :: string
  rl_handshake_port :: nat

record inbound =
  in_type :: string
  in_tag :: string
  in_listen :: ip
  in_port :: nat
  in_users :: "(string \<times> string) list"
  in_reality :: "reality_tls option"

record sb_options =
  so_log_level :: string
  so_dns :: dns_options
  so_inbounds :: "inbound list"
  so_endpoints :: "sb_exit list"
  so_outbounds :: "sb_exit list"
  so_rules :: "route_rule list"
  so_rule_sets :: "rule_set list"
  so_final :: string
  so_resolver :: string

section \<open>Tags\<close>

abbreviation TagDirect :: string where "TagDirect \<equiv> ''direct-out''"
abbreviation TagDNSIn :: string where "TagDNSIn \<equiv> ''dns-in''"
abbreviation TagTProxyIn :: string where "TagTProxyIn \<equiv> ''tproxy-in''"
abbreviation TagDNSUpstream :: string where "TagDNSUpstream \<equiv> ''upstream''"
abbreviation TagDNSBootstrap :: string where "TagDNSBootstrap \<equiv> ''bootstrap''"
abbreviation TagDNSFakeIP :: string where "TagDNSFakeIP \<equiv> ''fakeip''"

definition TunnelTag :: "string \<Rightarrow> string" where
  "TunnelTag i = ''tun-'' @ i"

definition ChainTag :: "string \<Rightarrow> string \<Rightarrow> string" where
  "ChainTag via first = ''chain-'' @ via @ ''-via-'' @ first"

definition ruleSetTag :: "string \<Rightarrow> string" where
  "ruleSetTag i = ''rule-'' @ i"

definition communityTag :: "string \<Rightarrow> string" where
  "communityTag key = ''list-'' @ key"

definition remoteListTag :: "string \<Rightarrow> nat \<Rightarrow> string" where
  "remoteListTag r i = ''rule-'' @ r @ ''-remote-'' @ Itoa (int i)"

definition plainListTag :: "string \<Rightarrow> nat \<Rightarrow> string" where
  "plainListTag r i = ''rule-'' @ r @ ''-plain-'' @ Itoa (int i)"

definition communityListURL :: "string \<Rightarrow> string" where
  "communityListURL key = ''https://github.com/itdoginfo/allow-domains/releases/latest/download/'' @ key @ ''.srs''"

definition LocalIPv4 :: "string list" where
  "LocalIPv4 = [''0.0.0.0/8'', ''10.0.0.0/8'', ''127.0.0.0/8'', ''169.254.0.0/16'', ''172.16.0.0/12'', ''192.168.0.0/16'',
     ''224.0.0.0/4'', ''240.0.0.0/4'']"

lemma TunnelTag_inj [simp]: "TunnelTag i = TunnelTag j \<longleftrightarrow> i = j"
  by (simp add: TunnelTag_def)

lemma tags_differ [simp]:
  "TunnelTag i \<noteq> TagDirect" "ChainTag v f \<noteq> TagDirect" "TunnelTag i \<noteq> ChainTag v f"
  "TagDirect \<noteq> TunnelTag i" "TagDirect \<noteq> ChainTag v f" "ChainTag v f \<noteq> TunnelTag i"
  by (simp_all add: TunnelTag_def ChainTag_def)

section \<open>How the core reads the rules\<close>

text \<open>The core goes through the rules in their order.  A rule that does not match is passed over; a matching one whose action
  ends routing decides; a matching one that resolves or sniffs changes what is known of the connection and the core goes
  on; without a decision the final outbound is taken.  What is known of a connection, how a rule matches it and how
  an action changes it is up to the core: these are arguments.\<close>

fun ends_routing :: "rule_action \<Rightarrow> bool" where
  "ends_routing (Route t) = True"
| "ends_routing Reject = True"
| "ends_routing HijackDNS = True"
| "ends_routing _ = False"

fun decide :: "('c \<Rightarrow> route_rule \<Rightarrow> bool) \<Rightarrow> ('c \<Rightarrow> rule_action \<Rightarrow> 'c) \<Rightarrow> 'c \<Rightarrow> string \<Rightarrow> route_rule list \<Rightarrow> rule_action" where
  "decide m upd c final [] = Route final"
| "decide m upd c final (r # rs) =
    (if \<not> m c r then decide m upd c final rs
     else if ends_routing (rule_act r) then rule_act r
     else decide m upd (upd c (rule_act r)) final rs)"

text \<open>A rule that matches whatever is known of the connection keeps everything behind it from deciding.\<close>

lemma decide_before:
  assumes "q \<in> set rs" "ends_routing (rule_act q)" "\<forall>c. m c q"
  shows "decide m upd c final (rs @ qs) \<in> rule_act ` {r \<in> set rs. ends_routing (rule_act r) \<and> (\<exists>c. m c r)}"
  using assms(1)
proof (induction rs arbitrary: c)
  case (Cons r rs)
  show ?case
  proof (cases "m c r \<and> ends_routing (rule_act r)")
    case False
    then have "q \<in> set rs" using Cons.prems assms(2,3) by auto
    from Cons.IH [OF this] have "decide m upd c final ((r # rs) @ qs) \<in> rule_act ` {r \<in> set rs. ends_routing (rule_act r) \<and> (\<exists>c. m c r)}"
      using False by simp
    then show ?thesis by (rule subsetD [rotated]) auto
  qed auto
qed simp

end
