(* ===== verification/Pool_Filter.thy ===== *)
theory Pool_Filter
  imports Go_Text Store_Settings
begin

text \<open>
  The filter of pool members (\<open>internal/store/poolfilter.go\<close>): servers whose caption names a blocked country and keys
  without verifiable encryption are left out.  The Unicode tables (which runes are letters or digits, case mapping of
  non-ASCII text) are parameters.
\<close>

section \<open>More of packages strings, unicode/utf8 and net/url\<close>

text \<open>The UTF-8 encoding of code points below \<open>0x800\<close>, to write Cyrillic words.\<close>

definition utf8 :: "nat list \<Rightarrow> string" where
  "utf8 cs = concat (map (\<lambda>c. if c < 128 then [char_of c] else [char_of (192 + c div 64), char_of (128 + c mod 64)]) cs)"

text \<open>\<open>strings.Index\<close>.\<close>

fun Index :: "string \<Rightarrow> string \<Rightarrow> nat option" where
  "Index [] needle = (if needle = [] then Some 0 else None)"
| "Index (c # s) needle = (if take (length needle) (c # s) = needle then Some 0 else map_option Suc (Index s needle))"

text \<open>\<open>strings.LastIndex\<close> of one byte, and \<open>strings.Cut\<close> at one byte.\<close>

definition LastIndex :: "string \<Rightarrow> char \<Rightarrow> nat option" where
  "LastIndex s c = (if c \<in> set s then Some (length s - Suc (length (takeWhile (\<lambda>x. x \<noteq> c) (rev s)))) else None)"

definition Cut :: "char \<Rightarrow> string \<Rightarrow> string \<times> string" where
  "Cut c s = (takeWhile (\<lambda>x. x \<noteq> c) s, drop (Suc (length (takeWhile (\<lambda>x. x \<noteq> c) s))) s)"

text \<open>\<open>utf8.DecodeLastRuneInString\<close>: back to the start of a rune within four bytes, and it must end the text.\<close>

definition rune_start :: "char \<Rightarrow> bool" where
  "rune_start c = (\<not> cont c)"

definition DecodeLastRune :: "string \<Rightarrow> nat" where
  "DecodeLastRune s =
    (if s = [] then RuneError
     else if byte (last s) < 128 then byte (last s)
     else
       let k = (case List.find (\<lambda>k. k \<le> length s \<and> rune_start (s ! (length s - k))) [2, 3, 4] of
             Some k \<Rightarrow> k | None \<Rightarrow> min (length s) 5);
           t = drop (length s - k) s
       in if snd (DecodeRune t) = length t then fst (DecodeRune t) else RuneError)"

fun unescape :: "bool \<Rightarrow> string \<Rightarrow> string option" where
  "unescape form [] = Some []"
| "unescape form (c # s) =
    (if c = CHR ''%'' then
       (case s of
          a # b # r \<Rightarrow> if is_hex a \<and> is_hex b then map_option ((#) (char_of (hex_val a * 16 + hex_val b))) (unescape form r) else None
        | _ \<Rightarrow> None)
     else map_option ((#) (if form \<and> c = CHR ''+'' then CHR '' '' else c)) (unescape form s))"

text \<open>\<open>url.ParseQuery\<close>, when it gives no error: the pairs in their order.\<close>

definition query_pair :: "string \<Rightarrow> (string \<times> string) option" where
  "query_pair piece = (if CHR '';'' \<in> set piece then None
     else case Cut CHR ''='' piece of (k, v) \<Rightarrow> (case (unescape True k, unescape True v) of (Some k, Some v) \<Rightarrow> Some (k, v) | _ \<Rightarrow> None))"

fun query_pairs :: "string list \<Rightarrow> (string \<times> string) list option" where
  "query_pairs [] = Some []"
| "query_pairs (p # ps) = (if p = [] then query_pairs ps
     else case (query_pair p, query_pairs ps) of (Some kv, Some kvs) \<Rightarrow> Some (kv # kvs) | _ \<Rightarrow> None)"

definition ParseQuery :: "string \<Rightarrow> (string \<times> string) list option" where
  "ParseQuery q = query_pairs (Split CHR ''&'' q)"

definition query_Get :: "(string \<times> string) list \<Rightarrow> string \<Rightarrow> string" where
  "query_Get kvs k = (case map_of kvs k of None \<Rightarrow> [] | Some v \<Rightarrow> v)"

section \<open>Countries\<close>

definition poolCountryAliases :: "(string \<times> string list) list" where
  "poolCountryAliases =
    [(''RU'', [utf8 [0x440, 0x43E, 0x441, 0x441, 0x438, 0x44F],
       utf8 [0x440, 0x43E, 0x441, 0x441, 0x438, 0x439, 0x441, 0x43A, 0x430, 0x44F, 0x20, 0x444, 0x435, 0x434, 0x435, 0x440, 0x430, 0x446, 0x438, 0x44F],
       utf8 [0x440, 0x444],
       ''russia'',
       ''russian federation'']),
     (''BY'', [utf8 [0x431, 0x435, 0x43B, 0x430, 0x440, 0x443, 0x441, 0x44C],
       utf8 [0x431, 0x435, 0x43B, 0x43E, 0x440, 0x443, 0x441, 0x441, 0x438, 0x44F],
       utf8 [0x440, 0x435, 0x441, 0x43F, 0x443, 0x431, 0x43B, 0x438, 0x43A, 0x430, 0x20, 0x431, 0x435, 0x43B, 0x430, 0x440, 0x443, 0x441, 0x44C],
       utf8 [0x440, 0x431],
       ''belarus'']),
     (''CN'', [utf8 [0x43A, 0x438, 0x442, 0x430, 0x439],
       ''china'']),
     (''IR'', [utf8 [0x438, 0x440, 0x430, 0x43D],
       ''iran'']),
     (''KP'', [utf8 [0x43A, 0x43D, 0x434, 0x440],
       utf8 [0x441, 0x435, 0x432, 0x435, 0x440, 0x43D, 0x430, 0x44F, 0x20, 0x43A, 0x43E, 0x440, 0x435, 0x44F],
       ''north korea''])]"

fun flag_codes :: "nat list \<Rightarrow> string list" where
  "flag_codes (a # b # rs) =
    (if a < 0x1F1E6 \<or> a > 0x1F1FF \<or> b < 0x1F1E6 \<or> b > 0x1F1FF then flag_codes (b # rs)
     else [char_of (65 + (a - 0x1F1E6)), char_of (65 + (b - 0x1F1E6))] # flag_codes rs)"
| "flag_codes _ = []"

definition poolFlagCountries :: "string \<Rightarrow> string list" where
  "poolFlagCountries title = flag_codes (runes title)"

definition boundaryBefore :: "(nat \<Rightarrow> bool) \<Rightarrow> string \<Rightarrow> nat \<Rightarrow> bool" where
  "boundaryBefore word_rune s i = (i = 0 \<or> \<not> word_rune (DecodeLastRune (take i s)))"

definition boundaryAfter :: "(nat \<Rightarrow> bool) \<Rightarrow> string \<Rightarrow> nat \<Rightarrow> bool" where
  "boundaryAfter word_rune s i = (i \<ge> length s \<or> \<not> word_rune (fst (DecodeRune (drop i s))))"

function contains_from :: "(nat \<Rightarrow> bool) \<Rightarrow> string \<Rightarrow> string \<Rightarrow> nat \<Rightarrow> bool" where
  "contains_from word_rune hay needle pos = (case Index (drop pos hay) needle of
     None \<Rightarrow> False
   | Some j \<Rightarrow>
     let i = pos + j in
     if boundaryBefore word_rune hay i \<and> boundaryAfter word_rune hay (i + length needle) then True
     else if Suc i \<ge> length hay then False
     else contains_from word_rune hay needle (Suc i))"
  by pat_completeness auto
termination by (relation "measure (\<lambda>(_, hay, _, pos). length hay - pos)") auto

declare contains_from.simps [simp del]

definition containsWord :: "(nat \<Rightarrow> bool) \<Rightarrow> string \<Rightarrow> string \<Rightarrow> bool" where
  "containsWord word_rune hay needle = (needle \<noteq> [] \<and> contains_from word_rune hay needle 0)"

text \<open>The tables the filter reads: word runes, and the two case mappings.\<close>

record unicode =
  un_word :: "nat \<Rightarrow> bool"
  un_lower :: "string \<Rightarrow> string"
  un_upper :: "string \<Rightarrow> string"

definition names_country :: "unicode \<Rightarrow> string \<Rightarrow> string \<Rightarrow> bool" where
  "names_country u title code =
    (code \<in> set (poolFlagCountries title) \<or>
     (\<exists>name \<in> set (case map_of poolCountryAliases code of None \<Rightarrow> [] | Some ns \<Rightarrow> ns).
        containsWord (un_word u) (ToLower (un_lower u) title) name) \<or>
     containsWord (un_word u) title code)"

definition blockedCountry :: "unicode \<Rightarrow> string list \<Rightarrow> string \<Rightarrow> string" where
  "blockedCountry u countries title =
    (if title = [] \<or> countries = [] then []
     else case List.find (\<lambda>code. code \<noteq> [] \<and> names_country u title code) (map (\<lambda>raw. ToUpper (un_upper u) (TrimSpace raw)) countries) of
       None \<Rightarrow> [] | Some code \<Rightarrow> code)"

section \<open>Encryption\<close>

definition ss_methods :: "string list" where
  "ss_methods = [''aes-128-gcm'', ''aes-192-gcm'', ''aes-256-gcm'', ''chacha20-ietf-poly1305'', ''xchacha20-ietf-poly1305'',
     ''2022-blake3-aes-128-gcm'', ''2022-blake3-aes-256-gcm'', ''2022-blake3-chacha20-poly1305'',
     ''aes-128-ctr'', ''aes-192-ctr'', ''aes-256-ctr'', ''aes-128-cfb'', ''aes-192-cfb'', ''aes-256-cfb'', ''rc4-md5'', ''chacha20-ietf'', ''xchacha20'']"

definition ss_userinfo :: "string \<Rightarrow> string option" where
  "ss_userinfo userinfo = (if CHR '':'' \<in> set userinfo then Some userinfo
     else case b64_decode b64_url False userinfo of Some b \<Rightarrow> Some b
     | None \<Rightarrow> (case b64_decode b64_url True userinfo of Some b \<Rightarrow> Some b
     | None \<Rightarrow> (case b64_decode b64_std False userinfo of Some b \<Rightarrow> Some b
     | None \<Rightarrow> b64_decode b64_std True userinfo)))"

definition poolShadowsocksEncrypted :: "string \<Rightarrow> bool" where
  "poolShadowsocksEncrypted rest =
    (let rest = fst (Cut CHR ''#'' rest); query = snd (Cut CHR ''?'' rest); rest = fst (Cut CHR ''?'' rest) in
     ParseQuery query \<noteq> None \<and>
     (case LastIndex rest CHR ''@'' of
        None \<Rightarrow> False
      | Some i \<Rightarrow> (case Option.bind (unescape False (take i rest)) ss_userinfo of
          None \<Rightarrow> False
        | Some userinfo \<Rightarrow>
          let parts = Split CHR '':'' userinfo in
          (length parts = 2 \<or> length parts = 3) \<and> [] \<notin> set parts \<and> hd parts \<in> set ss_methods)))"

definition poolKeyUnencrypted :: "unicode \<Rightarrow> string \<Rightarrow> bool" where
  "poolKeyUnencrypted u rawURL =
    (let s = TrimSpace rawURL in
     case Index s ''://'' of
       None \<Rightarrow> False
     | Some i \<Rightarrow>
       let scheme = ToLower (un_lower u) (take i s); rest = drop (i + 3) s in
       if scheme = ''ss'' then \<not> poolShadowsocksEncrypted rest
       else if scheme \<noteq> ''vless'' \<and> scheme \<noteq> ''trojan'' then False
       else
         let rest = fst (Cut CHR ''#'' rest) in
         (case ParseQuery (snd (Cut CHR ''?'' rest)) of
            None \<Rightarrow> True
          | Some values \<Rightarrow> ToLower (un_lower u) (TrimSpace (query_Get values ''security'')) \<in> {[], ''none''}))"

section \<open>The filter\<close>

datatype pool_reason = ReasonCountry string | ReasonNoEncryption

definition Exclusion :: "unicode \<Rightarrow> string list \<Rightarrow> pool_server \<Rightarrow> pool_reason option" where
  "Exclusion u countries s =
    (let code = blockedCountry u countries (ps_title s) in
     if code \<noteq> [] then Some (ReasonCountry code)
     else if poolKeyUnencrypted u (ps_url s) then Some ReasonNoEncryption
     else None)"

definition Allows :: "unicode \<Rightarrow> string list \<Rightarrow> pool_server \<Rightarrow> bool" where
  "Allows u countries s = (Exclusion u countries s = None)"

fun SplitPool :: "unicode \<Rightarrow> string list \<Rightarrow> pool_server list \<Rightarrow> pool_server list \<times> (pool_server \<times> pool_reason) list" where
  "SplitPool u countries [] = ([], [])"
| "SplitPool u countries (s # ss) = (case SplitPool u countries ss of (keep, excluded) \<Rightarrow>
     (case Exclusion u countries s of
        Some reason \<Rightarrow> (keep, (s, reason) # excluded)
      | None \<Rightarrow> (s # keep, excluded)))"

section \<open>A word of a caption\<close>

lemma Index_None: "Index s needle = None \<longleftrightarrow> (\<nexists>before after. s = before @ needle @ after)"
proof (induction s)
  case (Cons c s)
  have "(\<exists>before after. c # s = before @ needle @ after) \<longleftrightarrow>
      take (length needle) (c # s) = needle \<or> (\<exists>before after. s = before @ needle @ after)"
  proof
    assume "\<exists>before after. c # s = before @ needle @ after"
    then obtain before after where h: "c # s = before @ needle @ after" by blast
    show "take (length needle) (c # s) = needle \<or> (\<exists>before after. s = before @ needle @ after)"
      using h by (cases before) auto
  next
    assume "take (length needle) (c # s) = needle \<or> (\<exists>before after. s = before @ needle @ after)"
    then show "\<exists>before after. c # s = before @ needle @ after"
      by (metis append_Cons append_Nil append_take_drop_id)
  qed
  then show ?case using Cons by auto
qed simp

lemma Index_Some: "Index s needle = Some i \<Longrightarrow> \<exists>after. s = take i s @ needle @ after \<and> i \<le> length s"
proof (induction s arbitrary: i)
  case (Cons c s)
  show ?case
  proof (cases "take (length needle) (c # s) = needle")
    case True
    then have "c # s = needle @ drop (length needle) (c # s)" by (metis append_take_drop_id)
    then show ?thesis using True Cons.prems by (intro exI [of _ "drop (length needle) (c # s)"]) simp
  next
    case False
    then obtain j where "i = Suc j" "Index s needle = Some j" using Cons.prems by auto
    then show ?thesis using Cons.IH [of j] by auto
  qed
qed (auto split: if_splits)

lemma Index_first: "Index s needle = Some i \<Longrightarrow> s = before @ needle @ after \<Longrightarrow> i \<le> length before"
proof (induction s arbitrary: i before)
  case (Cons c s)
  show ?case
  proof (cases before)
    case Nil
    then have "take (length needle) (c # s) = needle" using Cons.prems(2) by simp
    then show ?thesis using Cons.prems(1) by simp
  next
    case (Cons d before')
    then show ?thesis using Cons.prems Cons.IH [of _ before'] by (auto split: if_splits)
  qed
qed (auto split: if_splits)

text \<open>An occurrence between boundaries, not before the given place.\<close>

definition word_at :: "(nat \<Rightarrow> bool) \<Rightarrow> string \<Rightarrow> string \<Rightarrow> nat \<Rightarrow> bool" where
  "word_at w hay needle i = (\<exists>before after. hay = before @ needle @ after \<and> length before = i \<and>
     (before = [] \<or> \<not> w (DecodeLastRune before)) \<and> (after = [] \<or> \<not> w (fst (DecodeRune after))))"

lemma word_at_boundaries:
  assumes "hay = before @ needle @ after"
  shows "boundaryBefore w hay (length before) \<and> boundaryAfter w hay (length before + length needle) \<longleftrightarrow> word_at w hay needle (length before)"
  using assms by (auto simp: word_at_def boundaryBefore_def boundaryAfter_def)

lemma contains_from_iff:
  assumes "needle \<noteq> []"
  shows "contains_from w hay needle pos \<longleftrightarrow> (\<exists>i \<ge> pos. word_at w hay needle i)"
proof (induction "length hay - pos" arbitrary: pos rule: less_induct)
  case less
  have out: "\<not> word_at w hay needle i" if "i \<ge> length hay" for i using that assms by (auto simp: word_at_def)
  show ?case
  proof (cases "Index (drop pos hay) needle")
    case None
    have "\<not> word_at w hay needle i" if "i \<ge> pos" for i
    proof
      assume "word_at w hay needle i"
      then obtain before after where h: "hay = before @ needle @ after" "length before = i" by (auto simp: word_at_def)
      then have "drop pos hay = drop pos before @ needle @ after" using that by simp
      then show False using None by (auto simp: Index_None)
    qed
    then show ?thesis using None by (subst contains_from.simps) auto
  next
    case (Some j)
    let ?i = "pos + j"
    obtain after where a: "drop pos hay = take j (drop pos hay) @ needle @ after" "j \<le> length (drop pos hay)"
      using Index_Some [OF Some] by blast
    show ?thesis
    proof (cases "pos \<le> length hay")
      case False
      then show ?thesis using Some assms a by (auto simp: word_at_def)
    next
      case True
      have h: "hay = take ?i hay @ needle @ after" using a(1) True by (metis append_take_drop_id append.assoc take_add)
      have len: "length (take ?i hay) = ?i" using a(2) True by simp
      have b: "boundaryBefore w hay ?i \<and> boundaryAfter w hay (?i + length needle) \<longleftrightarrow> word_at w hay needle ?i"
        using word_at_boundaries [OF h, of w] unfolding len .
      have first: "\<not> word_at w hay needle k" if "pos \<le> k" "k < ?i" for k
      proof
        assume "word_at w hay needle k"
        then obtain before after' where k: "hay = before @ needle @ after'" "length before = k" by (auto simp: word_at_def)
        then have "drop pos hay = drop pos before @ needle @ after'" using that by simp
        from Index_first [OF Some this] show False using k(2) that by simp
      qed
      show ?thesis
      proof (cases "word_at w hay needle ?i")
        case False
        have "(\<exists>i \<ge> pos. word_at w hay needle i) \<longleftrightarrow> (\<exists>i \<ge> Suc ?i. word_at w hay needle i)"
          using first False by (metis Suc_leD Suc_leI le_add1 le_trans linorder_neqE_nat not_less)
        then show ?thesis using False b Some out less [of "Suc ?i"]
          by (subst contains_from.simps) (auto simp: Let_def)
      next
        case True
        then have "\<exists>i \<ge> pos. word_at w hay needle i" by (intro exI [of _ ?i]) simp
        then show ?thesis using True b Some by (subst contains_from.simps) (simp add: Let_def)
      qed
    qed
  qed
qed

lemma containsWord_iff: "containsWord w hay needle \<longleftrightarrow> needle \<noteq> [] \<and> (\<exists>i. word_at w hay needle i)"
  by (auto simp: containsWord_def contains_from_iff)

section \<open>What is kept\<close>

lemma SplitPool_eq:
  "fst (SplitPool u cs pool) = filter (Allows u cs) pool"
  "map fst (snd (SplitPool u cs pool)) = filter (\<lambda>s. \<not> Allows u cs s) pool"
  by (induction pool) (auto simp: Allows_def split: prod.splits option.splits)

lemma blockedCountry_Nil:
  "blockedCountry u cs title = [] \<longleftrightarrow> title = [] \<or>
     (\<forall>raw \<in> set cs. let code = ToUpper (un_upper u) (TrimSpace raw) in code \<noteq> [] \<longrightarrow> \<not> names_country u title code)"
  by (auto simp: blockedCountry_def find_None_iff find_Some_iff Let_def split: option.splits)

text \<open>The caption names a country: by its flag, by one of its names or by its bare code as a word of its own.\<close>

definition caption_names :: "unicode \<Rightarrow> string \<Rightarrow> string \<Rightarrow> bool" where
  "caption_names u title code = (code \<in> set (poolFlagCountries title) \<or>
     (\<exists>i. word_at (un_word u) title code i) \<or>
     (\<exists>names name i. (code, names) \<in> set poolCountryAliases \<and> name \<in> set names \<and> word_at (un_word u) (ToLower (un_lower u) title) name i))"

lemma aliases_distinct: "distinct (map fst poolCountryAliases)" "\<forall>(c, ns) \<in> set poolCountryAliases. [] \<notin> set ns"
  by (simp_all add: poolCountryAliases_def utf8_def)

lemma names_country_iff: "code \<noteq> [] \<Longrightarrow> names_country u title code \<longleftrightarrow> caption_names u title code"
proof -
  assume c: "code \<noteq> []"
  have m: "map_of poolCountryAliases code = Some ns \<longleftrightarrow> (code, ns) \<in> set poolCountryAliases" for ns
    using aliases_distinct(1) by (rule map_of_eq_Some_iff)
  have ne: "name \<noteq> []" if "(code, ns) \<in> set poolCountryAliases" "name \<in> set ns" for name ns
    using aliases_distinct(2) that by fastforce
  have "(\<exists>name \<in> set (case map_of poolCountryAliases code of None \<Rightarrow> [] | Some ns \<Rightarrow> ns). containsWord w low name)
      \<longleftrightarrow> (\<exists>ns name i. (code, ns) \<in> set poolCountryAliases \<and> name \<in> set ns \<and> word_at w low name i)" for w low
    using ne by (cases "map_of poolCountryAliases code") (auto simp: m [symmetric] containsWord_iff)
  then show ?thesis using c by (simp only: names_country_def caption_names_def) (auto simp: containsWord_iff)
qed


definition demo_unicode :: unicode where
  "demo_unicode = \<lparr>un_word = (\<lambda>r. 48 \<le> r \<and> r \<le> 57 \<or> 65 \<le> r \<and> r \<le> 90 \<or> 97 \<le> r \<and> r \<le> 122), un_lower = id, un_upper = id\<rparr>"

definition demo_member :: "string \<Rightarrow> pool_server" where
  "demo_member title = \<lparr>ps_url = ''vless://u@h:1?security=tls'', ps_country = [], ps_title = title, ps_ping_ms = 0, ps_misses = 0\<rparr>"

lemma demo_captions:
  "Allows demo_unicode [''RU''] (demo_member ''-'')" "\<not> Allows demo_unicode [''RU''] (demo_member ''RU'')"
proof -
  have t: "TrimSpace ''RU'' = ''RU''" "TrimSpace ''vless://u@h:1?security=tls'' = ''vless://u@h:1?security=tls''" "TrimSpace ''tls'' = ''tls''"
    by (simp_all add: TrimSpace_plain plain_char_def)
  have k: "\<not> poolKeyUnencrypted demo_unicode ''vless://u@h:1?security=tls''"
    by (simp add: poolKeyUnencrypted_def t Cut_def ParseQuery_def query_pair_def query_Get_def ToLower_def is_ascii_def
        ascii_lower_def demo_unicode_def Let_def)
  have f: "poolFlagCountries ''-'' = []" "poolFlagCountries ''RU'' = []"
    by (simp_all add: poolFlagCountries_def runes.simps)
  have c: "contains_from w ''-'' ''RU'' 0 = False" "contains_from w ''-'' (a # b # n) 0 = False" for w a b n
    by (simp_all add: contains_from.simps)
  have r: "contains_from w ''RU'' ''RU'' 0" for w
    by (simp add: contains_from.simps boundaryBefore_def boundaryAfter_def Let_def)
  show "Allows demo_unicode [''RU''] (demo_member ''-'')"
    by (simp add: Allows_def Exclusion_def blockedCountry_def names_country_def demo_member_def t k f c containsWord_def
        poolCountryAliases_def utf8_def ToUpper_def ToLower_def is_ascii_def ascii_upper_def ascii_lower_def Let_def) (auto simp: c)
  show "\<not> Allows demo_unicode [''RU''] (demo_member ''RU'')"
    by (simp add: Allows_def Exclusion_def blockedCountry_def names_country_def demo_member_def t f r containsWord_def
        ToUpper_def is_ascii_def ascii_upper_def Let_def)
qed


end
