(* ===== verification/Sb_Generate.thy ===== *)
theory Sb_Generate
  imports Sb_Options Pool_Filter
begin

text \<open>
  The compiler from the state of the database to the configuration of the core (\<open>internal/singbox\<close>:
  \<open>generate.go\<close>, \<open>tunnel.go\<close>, \<open>pool.go\<close>, \<open>ruleset.go\<close>, \<open>peer_egress.go\<close>, \<open>dns.go\<close>,
  \<open>chain_alias.go\<close>).  Code outside the modelled files is an argument, collected in \<open>sb_env\<close>: the JSON and URL
  functions of the library, the parser of proxy links, the lists the daemon has loaded, SHA-256 and the Unicode tables.
  The log is not modelled.
\<close>

section \<open>Arguments\<close>

text \<open>A loaded list: domains and subnets, or a native artifact with the facts the compiler reads of it.\<close>

record native_artifact =
  na_format :: string
  na_version :: int
  na_path :: string
  na_dns_path :: string

record plain_list =
  pl_domains :: "string list"
  pl_subnets :: "string list"
  pl_native :: "native_artifact option"
  pl_transport_subnets :: "string list"
  pl_summary_complete :: bool

text \<open>\<open>en_fields\<close> and \<open>en_object\<close>: \<open>json.Unmarshal\<close> into and \<open>json.Marshal\<close> of a map of raw values, as an
  association list; \<open>en_string\<close>, \<open>en_quote\<close>: a JSON string; \<open>en_wireguard\<close>: the detour and the peer addresses of
  a WireGuard body; \<open>en_parse\<close>: \<open>Parse\<close> of a proxy link, as type, body and TLS section of its outbound (\<open>None\<close> on an
  error or for a link that is no outbound); \<open>en_url_path\<close>: the path of \<open>url.Parse\<close>.\<close>

record sb_env =
  en_fields :: "string \<Rightarrow> (string \<times> string) list option"
  en_object :: "(string \<times> string) list \<Rightarrow> string"
  en_string :: "string \<Rightarrow> string option"
  en_quote :: "string \<Rightarrow> string"
  en_wireguard :: "string \<Rightarrow> (string \<times> string list) option"
  en_parse :: "string \<Rightarrow> (string \<times> string \<times> bool option) option"
  en_url_path :: "string \<Rightarrow> string option"
  en_plain :: "string \<Rightarrow> plain_list option"
  en_sha :: "string \<Rightarrow> string"
  en_unicode :: unicode

definition ProjectionVersion :: int where "ProjectionVersion = 2"

datatype gen_err = BadTunnel | BadPeerAddress | BadEgressAddress | MissingTunnel | MissingVia | ViaNotWARP | NativeMissing
  | BadDNS | BadListen | ChainNotWireGuard | AliasCollision | NeedsReality | BadUser | BadIdentity | OverBudget

section \<open>Addresses\<close>

definition has_zone :: "string \<Rightarrow> bool" where
  "has_zone s = (CHR ''%'' \<in> set s)"

definition ip_bits :: "ip \<Rightarrow> nat" where
  "ip_bits a = (case a of IP4 _ \<Rightarrow> 32 | IP6 _ \<Rightarrow> 128)"

definition prefix_text :: "ip \<Rightarrow> nat \<Rightarrow> string" where
  "prefix_text a n = ip_String a @ ''/'' @ dec_digits (int n)"

text \<open>\<open>netip.ParsePrefix\<close>: a zone is not allowed, and the length has no sign and no leading zero.\<close>

definition ParsePrefix :: "string \<Rightarrow> (ip \<times> nat) option" where
  "ParsePrefix s = (case cut_last_slash s of
     None \<Rightarrow> None
   | Some (a, b) \<Rightarrow> (case ParseAddr a of
        None \<Rightarrow> None
      | Some ip \<Rightarrow>
          if has_zone a then None
          else if length b > 1 \<and> \<not> (CHR ''1'' \<le> hd b \<and> hd b \<le> CHR ''9'') then None
          else (case Atoi b of
              None \<Rightarrow> None
            | Some n \<Rightarrow> if n < 0 \<or> n > int (ip_bits ip) then None else Some (ip, nat n))))"

definition cidr :: "string \<Rightarrow> string option" where
  "cidr s = (if CHR ''/'' \<in> set s then map_option (\<lambda>(a, n). prefix_text a n) (ParsePrefix s)
     else map_option (\<lambda>a. prefix_text a (ip_bits a)) (ParseAddr s))"

definition hostPort :: "string \<Rightarrow> (string \<times> nat) option" where
  "hostPort s = (if CHR '':'' \<notin> set s then Some (s, 0)
     else case Cut CHR '':'' s of (host, port) \<Rightarrow>
       if port = [] \<or> \<not> list_all is_digit port \<or> digits_val port \<ge> 2 ^ 16 then None
       else Some (host, nat (digits_val port)))"

section \<open>DNS\<close>

definition dns_reject :: "raw_dns_rule \<Rightarrow> dns_rule" where
  "dns_reject raw = DnsRule raw DnsReject"

definition upstreamServer :: "settings \<Rightarrow> gen_err + dns_server" where
  "upstreamServer s = (case hostPort (se_dns_upstream s) of
     None \<Rightarrow> Inl BadDNS
   | Some (host, port) \<Rightarrow>
     let remote = \<lparr>rd_server = host, rd_port = port,
           rd_resolver = (if ParseAddr host = None then Some (TagDNSBootstrap, False) else None), rd_detour = []\<rparr> in
     if se_dns_type s = ''udp'' then Inr (RemoteServer ''udp'' TagDNSUpstream remote)
     else if se_dns_type s = ''dot'' then Inr (RemoteServer ''tls'' TagDNSUpstream remote)
     else if se_dns_type s = ''doh'' then Inr (RemoteServer ''https'' TagDNSUpstream remote)
     else Inl BadDNS)"

definition bootstrap_server :: "string \<Rightarrow> string \<Rightarrow> dns_server" where
  "bootstrap_server tag detour = RemoteServer ''udp'' tag \<lparr>rd_server = ''1.1.1.1'', rd_port = 0, rd_resolver = None, rd_detour = detour\<rparr>"

definition buildDNS :: "settings \<Rightarrow> gen_err + dns_options" where
  "buildDNS s = bindR (upstreamServer s) (\<lambda>upstream. Inr
    \<lparr>do_servers = [upstream, bootstrap_server TagDNSBootstrap [], FakeIPServer TagDNSFakeIP ''198.18.0.0/15''],
     do_rules = [dns_reject (no_dns_raw\<lparr>dr_query_type := [65]\<rparr>), dns_reject (no_dns_raw\<lparr>dr_domain_suffix := [''use-application-dns.net'']\<rparr>)],
     do_final = TagDNSUpstream\<rparr>)"

section \<open>Tunnels and pools\<close>

definition poolMaxServers :: nat where "poolMaxServers = 64"

fun select_from :: "(pool_server \<Rightarrow> bool) \<Rightarrow> string list \<Rightarrow> nat \<Rightarrow> pool_server list \<Rightarrow> pool_server list" where
  "select_from allows seen n [] = []"
| "select_from allows seen n (s # ss) =
    (if ps_url s = [] \<or> ps_url s \<in> set seen \<or> \<not> allows s then select_from allows seen n ss
     else if Suc n = poolMaxServers then [s]
     else s # select_from allows (ps_url s # seen) (Suc n) ss)"

definition selectPoolServers :: "pool_server list \<Rightarrow> (pool_server \<Rightarrow> bool) \<Rightarrow> pool_server list" where
  "selectPoolServers pool allows = select_from allows [] 0 pool"

definition poolMemberTag :: "string \<Rightarrow> nat \<Rightarrow> string" where
  "poolMemberTag i n = TunnelTag i @ ''-'' @ Itoa (int n)"

definition forceCertVerify :: "bool option \<Rightarrow> bool option" where
  "forceCertVerify tls = (case tls of Some True \<Rightarrow> Some False | _ \<Rightarrow> tls)"

fun pool_members :: "sb_env \<Rightarrow> string \<Rightarrow> nat \<Rightarrow> pool_server list \<Rightarrow> sb_exit list" where
  "pool_members env i n [] = []"
| "pool_members env i n (s # ss) = (case en_parse env (ps_url s) of
     None \<Rightarrow> pool_members env i (Suc n) ss
   | Some (typ, body, tls) \<Rightarrow>
       \<lparr>ex_type = typ, ex_tag = poolMemberTag i n, ex_options = MemberOptions body (forceCertVerify tls)\<rparr> # pool_members env i (Suc n) ss)"

definition buildPool :: "sb_env \<Rightarrow> tunnel \<Rightarrow> (pool_server \<Rightarrow> bool) \<Rightarrow> sb_exit list option" where
  "buildPool env t allows =
    (let out = pool_members env (t_id t) 0 (selectPoolServers (t_pool t) allows) in
     if out = [] then None
     else Some (out @ [\<lparr>ex_type = ''urltest'', ex_tag = TunnelTag (t_id t), ex_options = URLTestOptions (map ex_tag out)\<rparr>]))"

definition singboxTypes :: "(string \<times> string) list" where
  "singboxTypes = [(TunnelWireGuard, ''wireguard''), (TunnelVLESS, ''vless''), (TunnelShadowsocks, ''shadowsocks''),
     (TunnelTrojan, ''trojan''), (TunnelHysteria2, ''hysteria2''), (TunnelSOCKS, ''socks'')]"

definition singboxType :: "sb_env \<Rightarrow> tunnel \<Rightarrow> (string \<times> string) list \<Rightarrow> gen_err + string" where
  "singboxType env t flds =
    (if t_type t \<noteq> TunnelRaw then (case map_of singboxTypes (t_type t) of None \<Rightarrow> Inl BadTunnel | Some typ \<Rightarrow> Inr typ)
     else case map_of flds ''type'' of
       None \<Rightarrow> Inl BadTunnel
     | Some raw \<Rightarrow> (case en_string env raw of None \<Rightarrow> Inl BadTunnel | Some typ \<Rightarrow> if typ = [] then Inl BadTunnel else Inr typ))"

definition tunnelOptions :: "sb_env \<Rightarrow> tunnel \<Rightarrow> gen_err + string \<times> string" where
  "tunnelOptions env t =
    (if t_parsed t = [] then Inl BadTunnel
     else case en_fields env (t_parsed t) of
       None \<Rightarrow> Inl BadTunnel
     | Some flds \<Rightarrow> bindR (singboxType env t flds) (\<lambda>typ.
         Inr (typ, en_object env (filter (\<lambda>(k, _). k \<noteq> ''type'' \<and> k \<noteq> ''tag'') flds))))"

text \<open>Endpoints, outbounds and the enabled tunnels that got no exit.\<close>

fun buildTunnels :: "sb_env \<Rightarrow> (pool_server \<Rightarrow> bool) \<Rightarrow> tunnel list \<Rightarrow> gen_err + sb_exit list \<times> sb_exit list \<times> string list" where
  "buildTunnels env allows [] = Inr ([], [], [])"
| "buildTunnels env allows (t # ts) =
    (if \<not> t_enabled t then buildTunnels env allows ts
     else if t_source t = SourcePool then
       (case buildPool env t allows of
          None \<Rightarrow> bindR (buildTunnels env allows ts) (\<lambda>(eps, obs, sk). Inr (eps, obs, t_id t # sk))
        | Some grp \<Rightarrow> bindR (buildTunnels env allows ts) (\<lambda>(eps, obs, sk). Inr (eps, grp @ obs, sk)))
     else bindR (tunnelOptions env t) (\<lambda>(typ, body).
       let x = \<lparr>ex_type = typ, ex_tag = TunnelTag (t_id t), ex_options = RawOptions body\<rparr> in
       bindR (buildTunnels env allows ts) (\<lambda>(eps, obs, sk).
         Inr (if typ = ''wireguard'' then (x # eps, obs, sk) else (eps, x # obs, sk)))))"

definition chainEndpoint :: "sb_env \<Rightarrow> tunnel \<Rightarrow> string \<Rightarrow> string \<Rightarrow> gen_err + sb_exit" where
  "chainEndpoint env via tag detour = bindR (tunnelOptions env via) (\<lambda>(typ, body).
    if typ \<noteq> ''wireguard'' then Inl ChainNotWireGuard
    else case en_fields env body of
      None \<Rightarrow> Inl BadTunnel
    | Some flds \<Rightarrow> Inr \<lparr>ex_type = typ, ex_tag = tag,
        ex_options = RawOptions (en_object env ((''detour'', en_quote env detour) # filter (\<lambda>(k, _). k \<noteq> ''detour'') flds))\<rparr>)"

section \<open>Rule sets\<close>

text \<open>\<open>path.Ext\<close>: from the last dot of the last element.\<close>

definition path_Ext :: "string \<Rightarrow> string" where
  "path_Ext p =
    (let elem = rev (takeWhile (\<lambda>c. c \<noteq> CHR ''/'') (rev p)) in
     if CHR ''.'' \<in> set elem then CHR ''.'' # rev (takeWhile (\<lambda>c. c \<noteq> CHR ''.'') (rev elem)) else [])"

definition native_list :: "sb_env \<Rightarrow> string \<Rightarrow> bool" where
  "native_list env raw =
    (let p = (case en_url_path env raw of Some p \<Rightarrow> p | None \<Rightarrow> raw) in
     ToLower (un_lower (en_unicode env)) (path_Ext p) \<in> {''.srs'', ''.json''})"

record rule_sets =
  bs_sets :: "rule_set list"
  bs_route_tags :: "string list"
  bs_dns_tags :: "string list"
  bs_missing :: "string list"
  bs_err :: bool
  bs_address_capable :: bool
  bs_domains :: "string list"
  bs_native :: bool

definition no_sets :: rule_sets where
  "no_sets = \<lparr>bs_sets = [], bs_route_tags = [], bs_dns_tags = [], bs_missing = [], bs_err = False, bs_address_capable = False,
     bs_domains = [], bs_native = False\<rparr>"

definition inlineRuleSet :: "string \<Rightarrow> string list \<Rightarrow> string list \<Rightarrow> rule_set option" where
  "inlineRuleSet tag domains subnets = (if domains = [] \<and> subnets = [] then None
     else Some \<lparr>rs_tag = tag, rs_content = InlineSet domains subnets\<rparr>)"

definition addInline :: "string \<Rightarrow> string list \<Rightarrow> string list \<Rightarrow> rule_sets \<Rightarrow> bool \<times> rule_sets" where
  "addInline tag domains subnets b = (case inlineRuleSet tag domains subnets of
     None \<Rightarrow> (False, b)
   | Some s \<Rightarrow>
     let b = b\<lparr>bs_domains := bs_domains b @ domains, bs_sets := bs_sets b @ [s], bs_route_tags := bs_route_tags b @ [tag],
           bs_address_capable := bs_address_capable b \<or> subnets \<noteq> []\<rparr> in
     (True, case inlineRuleSet (tag @ ''-dns'') domains [] of
        None \<Rightarrow> b
      | Some d \<Rightarrow> b\<lparr>bs_sets := bs_sets b @ [d], bs_dns_tags := bs_dns_tags b @ [rs_tag d]\<rparr>))"

definition addNative :: "sb_env \<Rightarrow> string \<Rightarrow> string \<Rightarrow> rule_sets \<Rightarrow> rule_sets" where
  "addNative env tag raw b =
    (if bs_err b then b
     else case Option.bind (en_plain env raw) (\<lambda>c. map_option (\<lambda>a. (c, a)) (pl_native c)) of
       None \<Rightarrow> b\<lparr>bs_err := True\<rparr>
     | Some (c, a) \<Rightarrow>
       let b = b\<lparr>bs_native := True,
             bs_address_capable := bs_address_capable b \<or> \<not> pl_summary_complete c \<or> na_version a \<noteq> ProjectionVersion
               \<or> pl_subnets c \<noteq> [] \<or> pl_transport_subnets c \<noteq> [],
             bs_sets := bs_sets b @ [\<lparr>rs_tag = tag, rs_content = LocalSet (if na_format a = ''srs'' then ''binary'' else ''source'') (na_path a)\<rparr>],
             bs_route_tags := bs_route_tags b @ [tag]\<rparr> in
       if na_dns_path a \<noteq> [] then
         b\<lparr>bs_sets := bs_sets b @ [\<lparr>rs_tag = tag @ ''-dns'', rs_content = LocalSet ''source'' (na_dns_path a)\<rparr>],
           bs_dns_tags := bs_dns_tags b @ [tag @ ''-dns'']\<rparr>
       else b)"

definition add_remote :: "sb_env \<Rightarrow> string \<Rightarrow> nat \<times> string \<Rightarrow> rule_sets \<Rightarrow> rule_sets" where
  "add_remote env rid = (\<lambda>(i, raw) b.
    if native_list env raw then addNative env (remoteListTag rid i) raw b
    else case en_plain env raw of
      None \<Rightarrow> b\<lparr>bs_missing := bs_missing b @ [raw]\<rparr>
    | Some c \<Rightarrow> (case addInline (plainListTag rid i) (pl_domains c) (pl_subnets c) b of
        (True, b') \<Rightarrow> b'
      | (False, b') \<Rightarrow> b'\<lparr>bs_missing := bs_missing b' @ [raw]\<rparr>))"

definition buildRuleSets :: "sb_env \<Rightarrow> rule \<Rightarrow> rule_sets" where
  "buildRuleSets env r =
    (let b = fold (\<lambda>key. addNative env (communityTag key) (communityListURL key)) (r_community_lists r) no_sets;
         b = snd (addInline (ruleSetTag (r_id r)) (r_domains r) (r_subnets r) b)
     in fold (add_remote env (r_id r)) (enumerate 0 (r_remote_lists r)) b)"

definition RuleInConfig :: "sb_env \<Rightarrow> rule \<Rightarrow> bool" where
  "RuleInConfig env r = (r_enabled r \<and> (let b = buildRuleSets env r in \<not> bs_err b \<and> bs_route_tags b \<noteq> []))"

section \<open>Whole-client exits\<close>

text \<open>The rules and DNS additions of one client with an exit of its own; \<open>seen\<close> holds the tunnels whose resolver is
  already there.\<close>

record egress_state =
  eg_routes :: "route_rule list"
  eg_dns :: dns_options
  eg_seen :: "string list"

definition source_rule :: "string \<Rightarrow> rule_action \<Rightarrow> route_rule" where
  "source_rule c a = DefaultRule (no_raw\<lparr>rr_source_ip_cidr := [c]\<rparr>) a"

definition peer_dns_tag :: "string \<Rightarrow> string" where
  "peer_dns_tag i = ''peer-dns-'' @ i"

definition peer_resolver :: "settings \<Rightarrow> string \<Rightarrow> gen_err + dns_server list" where
  "peer_resolver st i = bindR (upstreamServer st) (\<lambda>server. case server of
     FakeIPServer _ _ \<Rightarrow> Inl BadDNS
   | RemoteServer typ _ remote \<Rightarrow>
     let remote = remote\<lparr>rd_detour := TunnelTag i\<rparr> in
     if rd_resolver remote \<noteq> None then
       Inr [bootstrap_server (peer_dns_tag i @ ''-bootstrap'') (TunnelTag i),
            RemoteServer typ (peer_dns_tag i) (remote\<lparr>rd_resolver := Some (peer_dns_tag i @ ''-bootstrap'', True)\<rparr>)]
     else Inr [RemoteServer typ (peer_dns_tag i) remote])"

definition add_rules :: "route_rule list \<Rightarrow> dns_rule \<Rightarrow> egress_state \<Rightarrow> egress_state" where
  "add_rules rs d e = e\<lparr>eg_routes := eg_routes e @ rs, eg_dns := (eg_dns e)\<lparr>do_rules := do_rules (eg_dns e) @ [d]\<rparr>\<rparr>"

definition peer_egress_one ::
  "settings \<Rightarrow> (string \<rightharpoonup> tunnel) \<Rightarrow> string list \<Rightarrow> peer \<Rightarrow> egress_state \<Rightarrow> gen_err + egress_state" where
  "peer_egress_one st tunnels skipped p e = (case p_egress_tunnel_id p of
     None \<Rightarrow> Inr e
   | Some i \<Rightarrow> (case ParseAddr (p_address p) of
       Some (IP4 w) \<Rightarrow>
        let c = prefix_text (IP4 w) 32; dns_raw = no_dns_raw\<lparr>dr_source_ip_cidr := [c]\<rparr> in
        if \<not> p_enabled p \<or> (case tunnels i of None \<Rightarrow> True | Some t \<Rightarrow> \<not> t_enabled t) \<or> i \<in> set skipped then
          Inr (add_rules [source_rule c Reject] (dns_reject dns_raw) e)
        else bindR (if i \<in> set (eg_seen e) then Inr e
            else bindR (peer_resolver st i) (\<lambda>servers.
              Inr (e\<lparr>eg_dns := (eg_dns e)\<lparr>do_servers := do_servers (eg_dns e) @ servers\<rparr>, eg_seen := i # eg_seen e\<rparr>))) (\<lambda>e.
          Inr (add_rules
            [source_rule c (Resolve (peer_dns_tag i)),
             DefaultRule (no_raw\<lparr>rr_source_ip_cidr := [c], rr_ip_cidr := LocalIPv4\<rparr>) Reject,
             source_rule c (Route (TunnelTag i))]
            (DnsRule dns_raw (DnsRoute (peer_dns_tag i) None True)) e))
     | _ \<Rightarrow> Inl BadEgressAddress))"

fun peer_egress_all ::
  "settings \<Rightarrow> (string \<rightharpoonup> tunnel) \<Rightarrow> string list \<Rightarrow> peer list \<Rightarrow> egress_state \<Rightarrow> gen_err + egress_state" where
  "peer_egress_all st tunnels skipped [] e = Inr e"
| "peer_egress_all st tunnels skipped (p # ps) e =
    bindR (peer_egress_one st tunnels skipped p e) (peer_egress_all st tunnels skipped ps)"

definition peerEgress ::
  "snapshot \<Rightarrow> dns_options \<Rightarrow> (string \<rightharpoonup> tunnel) \<Rightarrow> string list \<Rightarrow> gen_err + route_rule list \<times> dns_options" where
  "peerEgress sn dns tunnels skipped =
    bindR (peer_egress_all (sn_settings sn) tunnels skipped (sn_peers sn) \<lparr>eg_routes = [], eg_dns = dns, eg_seen = []\<rparr>)
      (\<lambda>e. Inr (eg_routes e, eg_dns e))"

section \<open>Rules\<close>

definition sortedRules :: "rule list \<Rightarrow> rule list" where
  "sortedRules rs = sort_key r_priority (filter r_enabled rs)"

definition sourceCIDRs :: "rule \<Rightarrow> (string \<rightharpoonup> string) \<Rightarrow> (string \<Rightarrow> bool) \<Rightarrow> string list \<times> bool" where
  "sourceCIDRs r peers live =
    (if r_peer_scope r \<noteq> ScopeSelected then ([], True)
     else
       let known = filter (\<lambda>i. peers i \<noteq> None) (r_peer_ids r);
           selected = map (\<lambda>i. the (peers i)) known;
           enabled = map (\<lambda>i. the (peers i)) (filter live known)
       in if enabled = [] then (selected, False) else (enabled, True))"

definition routeRule :: "rule \<Rightarrow> string list \<Rightarrow> string list \<Rightarrow> string \<Rightarrow> bool \<Rightarrow> route_rule" where
  "routeRule r tags sources tunnelTag denied = DefaultRule (no_raw\<lparr>rr_rule_set := tags, rr_source_ip_cidr := sources\<rparr>)
    (if denied \<or> r_action r = ActionBlock then Reject
     else if r_action r = ActionDirect then Route TagDirect
     else Route tunnelTag)"

definition dnsRuleFor :: "rule \<Rightarrow> string list \<Rightarrow> string list \<Rightarrow> bool \<Rightarrow> dns_rule option" where
  "dnsRuleFor r tags sources denied =
    (if tags = [] then None
     else
       let raw = no_dns_raw\<lparr>dr_rule_set := tags, dr_source_ip_cidr := sources\<rparr> in
       if denied \<or> r_action r = ActionBlock then Some (dns_reject raw)
       else if r_action r = ActionTunnel \<and> \<not> r_resolve_real_ip r then Some (DnsRule raw (DnsRoute TagDNSFakeIP (Some 60) False))
       else None)"

text \<open>What the compiler tells of one rule, and the entry it leaves for later stages.\<close>

record rule_diag =
  di_id :: string
  di_denied :: bool
  di_skipped :: bool

record compiled =
  cd_route :: route_rule
  cd_dns_tags :: "string list"
  cd_address_capable :: bool
  cd_id :: string
  cd_name :: string
  cd_domains :: "string list"
  cd_native :: bool
  cd_tunnel_id :: string
  cd_via_tunnel_id :: string
  cd_denied :: bool

record gen_state =
  gs_rules :: "route_rule list"
  gs_dns_rules :: "dns_rule list"
  gs_sets :: "rule_set list"
  gs_chains :: "(string \<times> string) list"
  gs_diags :: "rule_diag list"
  gs_plan :: "compiled list"

text \<open>The exit of a rule: a tag, or none when it is unavailable.  Rules that do not use a tunnel have the empty tag.\<close>

definition rule_exit :: "(string \<rightharpoonup> tunnel) \<Rightarrow> string list \<Rightarrow> rule \<Rightarrow> gen_err + string option" where
  "rule_exit tunnels skipped r =
    (if r_action r \<noteq> ActionTunnel then Inr (Some [])
     else case tunnels (r_tunnel_id r) of
       None \<Rightarrow> Inl MissingTunnel
     | Some t \<Rightarrow>
       if \<not> t_enabled t \<or> t_id t \<in> set skipped then Inr None
       else if r_via_tunnel_id r = [] then Inr (Some (TunnelTag (t_id t)))
       else (case tunnels (r_via_tunnel_id r) of
           None \<Rightarrow> Inl MissingVia
         | Some via \<Rightarrow>
           if t_source via \<noteq> SourceWARP then Inl ViaNotWARP
           else if \<not> t_enabled via then Inr None
           else Inr (Some (ChainTag (t_id via) (t_id t)))))"

definition add_sets :: "rule_set list \<Rightarrow> rule_set list \<Rightarrow> rule_set list" where
  "add_sets sets old = fold (\<lambda>s acc. if rs_tag s \<in> rs_tag ` set acc then acc else acc @ [s]) sets old"

definition add_chain :: "rule \<Rightarrow> (string \<times> string) list \<Rightarrow> (string \<times> string) list" where
  "add_chain r chs = (if ChainTag (r_via_tunnel_id r) (r_tunnel_id r) \<in> (\<lambda>(v, f). ChainTag v f) ` set chs then chs
     else chs @ [(r_via_tunnel_id r, r_tunnel_id r)])"

definition gen_rule ::
  "sb_env \<Rightarrow> (string \<rightharpoonup> tunnel) \<Rightarrow> string list \<Rightarrow> (string \<rightharpoonup> string) \<Rightarrow> (string \<Rightarrow> bool) \<Rightarrow> rule \<Rightarrow> gen_state \<Rightarrow> gen_err + gen_state" where
  "gen_rule env tunnels skipped peers live r g =
    (case sourceCIDRs r peers live of (sources, sourcesLive) \<Rightarrow>
     if r_peer_scope r = ScopeSelected \<and> sources = [] then
       Inr (g\<lparr>gs_diags := gs_diags g @ [\<lparr>di_id = r_id r, di_denied = False, di_skipped = True\<rparr>]\<rparr>)
     else bindR (rule_exit tunnels skipped r) (\<lambda>exit.
       let built = buildRuleSets env r in
       if bs_err built then Inl NativeMissing
       else if bs_route_tags built = [] then
         Inr (g\<lparr>gs_diags := gs_diags g @ [\<lparr>di_id = r_id r, di_denied = False, di_skipped = True\<rparr>]\<rparr>)
       else
         let denied = (exit = None \<or> \<not> sourcesLive);
             compiled = routeRule r (bs_route_tags built) sources (case exit of Some tag \<Rightarrow> tag | None \<Rightarrow> []) denied
         in Inr (g\<lparr>
           gs_sets := add_sets (bs_sets built) (gs_sets g),
           gs_chains := (if \<not> denied \<and> r_action r = ActionTunnel \<and> r_via_tunnel_id r \<noteq> [] then add_chain r (gs_chains g) else gs_chains g),
           gs_diags := gs_diags g @ [\<lparr>di_id = r_id r, di_denied = denied, di_skipped = False\<rparr>],
           gs_rules := gs_rules g @ [compiled],
           gs_dns_rules := gs_dns_rules g @ (case dnsRuleFor r (bs_dns_tags built) sources denied of None \<Rightarrow> [] | Some d \<Rightarrow> [d]),
           gs_plan := gs_plan g @ [\<lparr>cd_route = compiled, cd_dns_tags = bs_dns_tags built, cd_address_capable = bs_address_capable built,
             cd_id = r_id r, cd_name = r_name r, cd_domains = bs_domains built, cd_native = bs_native built,
             cd_tunnel_id = r_tunnel_id r, cd_via_tunnel_id = r_via_tunnel_id r, cd_denied = denied\<rparr>]\<rparr>)))"

fun gen_rules ::
  "sb_env \<Rightarrow> (string \<rightharpoonup> tunnel) \<Rightarrow> string list \<Rightarrow> (string \<rightharpoonup> string) \<Rightarrow> (string \<Rightarrow> bool) \<Rightarrow> rule list \<Rightarrow> gen_state \<Rightarrow> gen_err + gen_state" where
  "gen_rules env tunnels skipped peers live [] g = Inr g"
| "gen_rules env tunnels skipped peers live (r # rs) g =
    bindR (gen_rule env tunnels skipped peers live r g) (gen_rules env tunnels skipped peers live rs)"

section \<open>Chains\<close>

fun chain_endpoints :: "sb_env \<Rightarrow> (string \<rightharpoonup> tunnel) \<Rightarrow> (string \<times> string) list \<Rightarrow> gen_err + sb_exit list" where
  "chain_endpoints env tunnels [] = Inr []"
| "chain_endpoints env tunnels ((via, first) # cs) = (case tunnels via of
     None \<Rightarrow> Inl BadTunnel
   | Some t \<Rightarrow> bindR (chainEndpoint env t (ChainTag via first) (TunnelTag first)) (\<lambda>ep.
       bindR (chain_endpoints env tunnels cs) (\<lambda>eps. Inr (ep # eps))))"

definition wireGuardParentTag :: "sb_env \<Rightarrow> string \<Rightarrow> string" where
  "wireGuardParentTag env parent = ''wg-parent-'' @ hexEncode (en_sha env parent)"

text \<open>The body of an endpoint as the stabilizer reads it: only raw bodies occur among the endpoints.\<close>

definition raw_body :: "sb_exit \<Rightarrow> string" where
  "raw_body ep = (case ex_options ep of RawOptions b \<Rightarrow> b | _ \<Rightarrow> [])"

record alias_state =
  al_used :: "string list"
  al_aliases :: "(string \<times> string) list"
  al_outbounds :: "sb_exit list"

definition alias_for :: "sb_env \<Rightarrow> string \<Rightarrow> alias_state \<Rightarrow> gen_err + string \<times> alias_state" where
  "alias_for env parent a = (case map_of (al_aliases a) parent of
     Some alias \<Rightarrow> Inr (alias, a)
   | None \<Rightarrow>
     let alias = wireGuardParentTag env parent in
     if alias \<in> set (al_used a) then Inl AliasCollision
     else Inr (alias, \<lparr>al_used = alias # al_used a, al_aliases = (parent, alias) # al_aliases a,
       al_outbounds = al_outbounds a @ [\<lparr>ex_type = ''selector'', ex_tag = alias, ex_options = SelectorOptions [parent] parent\<rparr>]\<rparr>))"

definition stabilize_one :: "sb_env \<Rightarrow> string list \<Rightarrow> sb_exit \<Rightarrow> alias_state \<Rightarrow> gen_err + sb_exit \<times> alias_state" where
  "stabilize_one env parents ep a =
    (if ex_type ep \<noteq> ''wireguard'' then Inr (ep, a)
     else case en_wireguard env (raw_body ep) of
       None \<Rightarrow> Inl BadTunnel
     | Some (detour, addresses) \<Rightarrow>
       if detour \<notin> set parents then Inr (ep, a)
       else if \<not> list_ex (\<lambda>x. x \<noteq> [] \<and> ParseAddr x = None) addresses then Inr (ep, a)
       else bindR (alias_for env detour a) (\<lambda>(alias, a). case en_fields env (raw_body ep) of
         None \<Rightarrow> Inl BadTunnel
       | Some flds \<Rightarrow> Inr (ep\<lparr>ex_options := RawOptions (en_object env
             ((''detour'', en_quote env alias) # filter (\<lambda>(k, _). k \<noteq> ''detour'') flds))\<rparr>, a)))"

fun stabilize_all :: "sb_env \<Rightarrow> string list \<Rightarrow> sb_exit list \<Rightarrow> alias_state \<Rightarrow> gen_err + sb_exit list \<times> alias_state" where
  "stabilize_all env parents [] a = Inr ([], a)"
| "stabilize_all env parents (ep # eps) a = bindR (stabilize_one env parents ep a) (\<lambda>(ep', a).
     bindR (stabilize_all env parents eps a) (\<lambda>(eps', a). Inr (ep' # eps', a)))"

definition stabilizeWireGuardDetours :: "sb_env \<Rightarrow> sb_exit list \<Rightarrow> sb_exit list \<Rightarrow> gen_err + sb_exit list \<times> sb_exit list" where
  "stabilizeWireGuardDetours env eps obs =
    bindR (stabilize_all env (map ex_tag (filter (\<lambda>e. ex_type e = ''wireguard'') eps)) eps
       \<lparr>al_used = TagDirect # map ex_tag eps @ map ex_tag obs, al_aliases = [], al_outbounds = obs\<rparr>)
      (\<lambda>(eps', a). Inr (eps', al_outbounds a))"

section \<open>The configuration\<close>

fun peer_addresses :: "peer list \<Rightarrow> gen_err + (string \<times> string \<times> bool) list" where
  "peer_addresses [] = Inr []"
| "peer_addresses (p # ps) = (case cidr (p_address p) of
     None \<Rightarrow> if p_enabled p then Inl BadPeerAddress else peer_addresses ps
   | Some c \<Rightarrow> bindR (peer_addresses ps) (\<lambda>m. Inr ((p_id p, c, p_enabled p) # m)))"

definition last_of :: "('k \<times> 'v) list \<Rightarrow> 'k \<rightharpoonup> 'v" where
  "last_of xs = map_of (rev xs)"

definition hijack_rule :: route_rule where
  "hijack_rule = DefaultRule (no_raw\<lparr>rr_inbound := [TagDNSIn]\<rparr>) HijackDNS"

definition generatePolicyWithPlan :: "sb_env \<Rightarrow> snapshot \<Rightarrow> gen_err + sb_options \<times> rule_diag list \<times> compiled list" where
  "generatePolicyWithPlan env sn =
    (let tunnels = last_of (map (\<lambda>t. (t_id t, t)) (sn_tunnels sn)) in
     bindR (buildTunnels env (Allows (en_unicode env) (se_pool_country_blocklist (sn_settings sn))) (sn_tunnels sn)) (\<lambda>(eps, obs, skipped).
     bindR (peer_addresses (sn_peers sn)) (\<lambda>addrs.
     let peers = map_option fst \<circ> last_of addrs; live = (\<lambda>i. case last_of addrs i of Some (_, e) \<Rightarrow> e | None \<Rightarrow> False) in
     bindR (buildDNS (sn_settings sn)) (\<lambda>dns.
     bindR (peerEgress sn dns tunnels skipped) (\<lambda>(egress, dns).
     bindR (gen_rules env tunnels skipped peers live (sortedRules (sn_rules sn))
       \<lparr>gs_rules = [], gs_dns_rules = [], gs_sets = [], gs_chains = [], gs_diags = [], gs_plan = []\<rparr>) (\<lambda>g.
     bindR (chain_endpoints env tunnels (gs_chains g)) (\<lambda>chs.
     bindR (stabilizeWireGuardDetours env (eps @ chs) obs) (\<lambda>(eps, obs).
     case ParseAddr (se_wg_server_address (sn_settings sn)) of
       None \<Rightarrow> Inl BadListen
     | Some a \<Rightarrow> Inr
       (\<lparr>so_log_level = se_log_level (sn_settings sn),
         so_dns = dns\<lparr>do_rules := do_rules dns @ gs_dns_rules g\<rparr>,
         so_inbounds = [\<lparr>in_type = ''direct'', in_tag = TagDNSIn, in_listen = a, in_port = 53, in_users = [], in_reality = None\<rparr>,
           \<lparr>in_type = ''tproxy'', in_tag = TagTProxyIn, in_listen = IP4 0x7F000001, in_port = 1602, in_users = [], in_reality = None\<rparr>],
         so_endpoints = eps,
         so_outbounds = \<lparr>ex_type = ''direct'', ex_tag = TagDirect, ex_options = DirectOptions\<rparr> # obs,
         so_rules = hijack_rule # egress @ gs_rules g,
         so_rule_sets = gs_sets g,
         so_final = TagDirect,
         so_resolver = TagDNSUpstream\<rparr>, gs_diags g, gs_plan g)))))))))"

definition GenerateWithDiag :: "sb_env \<Rightarrow> snapshot \<Rightarrow> gen_err + sb_options \<times> rule_diag list" where
  "GenerateWithDiag env sn = (if se_reality_enabled (sn_settings sn) then Inl NeedsReality
     else bindR (generatePolicyWithPlan env sn) (\<lambda>(opts, diags, _). Inr (opts, diags)))"

end
