(* ===== verification/Sb_Policy.thy ===== *)
theory Sb_Policy
  imports Sb_Generate "HOL-Library.Sublist"
begin

text \<open>
  What the generated configuration guarantees: every reference resolves, rules fail closed, a client with an exit of its
  own never leaves by another, pool members are filtered and verified.
\<close>

section \<open>Exits\<close>

definition exit_tags :: "sb_exit list \<Rightarrow> string set" where
  "exit_tags xs = ex_tag ` set xs"

lemma exit_tags_simps [simp]:
  "exit_tags [] = {}" "exit_tags (x # xs) = insert (ex_tag x) (exit_tags xs)" "exit_tags (xs @ ys) = exit_tags xs \<union> exit_tags ys"
  by (auto simp: exit_tags_def)

lemma buildPool_tag: "buildPool env t allows = Some xs \<Longrightarrow> TunnelTag (t_id t) \<in> exit_tags xs"
  by (auto simp: buildPool_def Let_def split: if_splits)

text \<open>Every enabled tunnel has its exit or is reported as skipped.\<close>

lemma buildTunnels_exits:
  assumes "buildTunnels env allows ts = Inr (eps, obs, sk)" "t \<in> set ts" "t_enabled t" "t_id t \<notin> set sk"
  shows "TunnelTag (t_id t) \<in> exit_tags eps \<union> exit_tags obs"
  using assms
proof (induction ts arbitrary: eps obs sk)
  case (Cons u ts)
  show ?case
  proof (cases "t_enabled u")
    case False
    then show ?thesis using Cons by auto
  next
    case True
    show ?thesis
    proof (cases "t_source u = SourcePool")
      case pool: True
      show ?thesis
      proof (cases "buildPool env u allows")
        case None
        then obtain sk' where "buildTunnels env allows ts = Inr (eps, obs, sk')" "sk = t_id u # sk'"
          using Cons.prems(1) True pool by (auto simp: bindR_Inr_iff)
        then show ?thesis using Cons.IH [of eps obs sk'] Cons.prems by auto
      next
        case (Some grp)
        then obtain obs' where "buildTunnels env allows ts = Inr (eps, obs', sk)" "obs = grp @ obs'"
          using Cons.prems(1) True pool by (auto simp: bindR_Inr_iff)
        then show ?thesis using Cons.IH [of eps obs' sk] Cons.prems buildPool_tag [OF Some] by auto
      qed
    next
      case False
      then obtain ty body where o: "tunnelOptions env u = Inr (ty, body)"
        using Cons.prems(1) True by (auto simp: bindR_Inr_iff)
      then obtain eps' obs' where s: "buildTunnels env allows ts = Inr (eps', obs', sk)"
        "exit_tags eps \<union> exit_tags obs = insert (TunnelTag (t_id u)) (exit_tags eps' \<union> exit_tags obs')"
        using Cons.prems(1) True False by (auto simp: bindR_Inr_iff Let_def split: if_splits)
      from Cons.IH [OF s(1)] s(2) Cons.prems show ?thesis by auto
    qed
  qed
qed simp

lemma chain_endpoints_tags:
  "chain_endpoints env tunnels cs = Inr eps \<Longrightarrow> map ex_tag eps = map (\<lambda>(v, f). ChainTag v f) cs"
  by (induction env tunnels cs arbitrary: eps rule: chain_endpoints.induct)
    (auto simp: bindR_Inr_iff chainEndpoint_def split: option.splits if_splits)

text \<open>The stabilizer changes no tag of an endpoint and only adds outbounds.\<close>

lemma alias_for_grows: "alias_for env parent a = Inr (alias, a') \<Longrightarrow> \<exists>xs. al_outbounds a' = al_outbounds a @ xs"
  by (auto simp: alias_for_def Let_def split: option.splits if_splits)

lemma stabilize_one_keeps:
  "stabilize_one env parents ep a = Inr (ep', a') \<Longrightarrow> ex_tag ep' = ex_tag ep \<and> (\<exists>xs. al_outbounds a' = al_outbounds a @ xs)"
  using alias_for_grows by (fastforce simp: stabilize_one_def bindR_Inr_iff split: if_splits option.splits)

lemma stabilize_all_keeps:
  "stabilize_all env parents eps a = Inr (eps', a') \<Longrightarrow> map ex_tag eps' = map ex_tag eps \<and> (\<exists>xs. al_outbounds a' = al_outbounds a @ xs)"
proof (induction eps arbitrary: eps' a)
  case (Cons ep eps)
  then obtain ep1 a1 eps1 where s: "stabilize_one env parents ep a = Inr (ep1, a1)" "stabilize_all env parents eps a1 = Inr (eps1, a')"
    "eps' = ep1 # eps1" by (auto simp: bindR_Inr_iff)
  from stabilize_one_keeps [OF s(1)] Cons.IH [OF s(2)] s(3) show ?case by auto
qed simp

lemma stabilize_keeps:
  assumes "stabilizeWireGuardDetours env eps obs = Inr (eps', obs')"
  shows "exit_tags eps' = exit_tags eps" "exit_tags obs \<subseteq> exit_tags obs'"
proof -
  obtain a where s: "stabilize_all env (map ex_tag (filter (\<lambda>e. ex_type e = ''wireguard'') eps)) eps
       \<lparr>al_used = TagDirect # map ex_tag eps @ map ex_tag obs, al_aliases = [], al_outbounds = obs\<rparr> = Inr (eps', a)" "obs' = al_outbounds a"
    using assms by (auto simp: stabilizeWireGuardDetours_def bindR_Inr_iff)
  from stabilize_all_keeps [OF s(1)] have "map ex_tag eps' = map ex_tag eps" "\<exists>xs. obs' = obs @ xs" using s(2) by auto
  then show "exit_tags eps' = exit_tags eps" "exit_tags obs \<subseteq> exit_tags obs'"
    by (auto simp: exit_tags_def) (metis imageI image_set)+
qed

section \<open>Rules\<close>

text \<open>What the compiler makes of one rule, or nothing when it is skipped.\<close>

definition compiled_of ::
  "sb_env \<Rightarrow> (string \<rightharpoonup> tunnel) \<Rightarrow> string list \<Rightarrow> (string \<rightharpoonup> string) \<Rightarrow> (string \<Rightarrow> bool) \<Rightarrow> rule \<Rightarrow> compiled option" where
  "compiled_of env tunnels skipped peers live r =
    (case (sourceCIDRs r peers live, rule_exit tunnels skipped r) of
       ((sources, sl), Inr exit) \<Rightarrow>
         let b = buildRuleSets env r; denied = (exit = None \<or> \<not> sl) in
         if r_peer_scope r = ScopeSelected \<and> sources = [] \<or> bs_route_tags b = [] then None
         else Some \<lparr>cd_route = routeRule r (bs_route_tags b) sources (case exit of Some tag \<Rightarrow> tag | None \<Rightarrow> []) denied,
             cd_dns_tags = bs_dns_tags b, cd_address_capable = bs_address_capable b, cd_id = r_id r, cd_name = r_name r,
             cd_domains = bs_domains b, cd_native = bs_native b, cd_tunnel_id = r_tunnel_id r, cd_via_tunnel_id = r_via_tunnel_id r,
             cd_denied = denied\<rparr>
     | _ \<Rightarrow> None)"

lemma gen_rule_plan:
  assumes "gen_rule env tunnels skipped peers live r g = Inr g'" "gs_rules g = map cd_route (gs_plan g)"
  shows "gs_plan g' = gs_plan g @ (case compiled_of env tunnels skipped peers live r of None \<Rightarrow> [] | Some c \<Rightarrow> [c])"
    "gs_rules g' = map cd_route (gs_plan g')"
    "compiled_of env tunnels skipped peers live r = Some c \<Longrightarrow> gs_sets g' = add_sets (bs_sets (buildRuleSets env r)) (gs_sets g)"
    "compiled_of env tunnels skipped peers live r = None \<Longrightarrow> gs_sets g' = gs_sets g \<and> gs_chains g' = gs_chains g"
  using assms
  by (auto simp: gen_rule_def compiled_of_def bindR_Inr_iff Let_def split: prod.splits if_splits option.splits sum.splits)

text \<open>The loop over the rules compiles each of them, in order, into a plan whose routes are the route rules.\<close>

definition plan_of ::
  "sb_env \<Rightarrow> (string \<rightharpoonup> tunnel) \<Rightarrow> string list \<Rightarrow> (string \<rightharpoonup> string) \<Rightarrow> (string \<Rightarrow> bool) \<Rightarrow> rule list \<Rightarrow> compiled list" where
  "plan_of env tunnels skipped peers live rs = concat (map (\<lambda>r. case compiled_of env tunnels skipped peers live r of None \<Rightarrow> [] | Some c \<Rightarrow> [c]) rs)"

lemma plan_of_member:
  "c \<in> set (plan_of env tunnels skipped peers live rs) \<longleftrightarrow> (\<exists>r \<in> set rs. compiled_of env tunnels skipped peers live r = Some c)"
  by (auto simp: plan_of_def split: option.splits) metis

lemma compiled_of_id: "compiled_of env tunnels skipped peers live r = Some c \<Longrightarrow> cd_id c = r_id r"
  by (auto simp: compiled_of_def Let_def split: sum.splits if_splits prod.splits)

lemma plan_of_subseq: "subseq (map cd_id (plan_of env tunnels skipped peers live rs)) (map r_id rs)"
  by (induction rs) (auto simp: plan_of_def compiled_of_id split: option.splits)

lemma gen_rules_plan:
  assumes "gen_rules env tunnels skipped peers live rs g = Inr g'" "gs_rules g = map cd_route (gs_plan g)"
  shows "gs_plan g' = gs_plan g @ plan_of env tunnels skipped peers live rs \<and> gs_rules g' = map cd_route (gs_plan g')"
  using assms
proof (induction rs arbitrary: g)
  case (Cons r rs)
  then obtain g1 where g1: "gen_rule env tunnels skipped peers live r g = Inr g1" "gen_rules env tunnels skipped peers live rs g1 = Inr g'"
    by (auto simp: bindR_Inr_iff)
  from gen_rule_plan(1,2) [OF g1(1) Cons.prems(2)] Cons.IH [OF g1(2)] show ?case by (simp add: plan_of_def)
qed (simp add: plan_of_def)

text \<open>Rule sets only grow, keep their tags distinct and hold every tag a rule uses.\<close>

definition set_tags :: "rule_set list \<Rightarrow> string set" where
  "set_tags ss = rs_tag ` set ss"

lemma set_tags_simps [simp]: "set_tags [] = {}" "set_tags (s # ss) = insert (rs_tag s) (set_tags ss)" "set_tags (xs @ ys) = set_tags xs \<union> set_tags ys"
  by (auto simp: set_tags_def)

lemma add_sets_tags: "set_tags (add_sets sets old) = set_tags old \<union> set_tags sets"
  unfolding add_sets_def by (induction sets arbitrary: old) (auto simp: set_tags_def)

lemma add_sets_distinct: "distinct (map rs_tag old) \<Longrightarrow> distinct (map rs_tag (add_sets sets old))"
  unfolding add_sets_def by (induction sets arbitrary: old) auto

definition tags_held :: "rule_sets \<Rightarrow> bool" where
  "tags_held b \<longleftrightarrow> set (bs_route_tags b) \<union> set (bs_dns_tags b) \<subseteq> set_tags (bs_sets b)"

lemma addNative_held: "tags_held b \<Longrightarrow> tags_held (addNative env tag raw b)"
  by (auto simp: tags_held_def addNative_def Let_def split: option.splits prod.splits)

lemma addInline_held: "tags_held b \<Longrightarrow> tags_held (snd (addInline tag ds ns b))"
  by (auto simp: tags_held_def addInline_def inlineRuleSet_def Let_def)

lemma add_remote_held: "tags_held b \<Longrightarrow> tags_held (add_remote env rid ir b)"
  by (cases ir; cases "en_plain env (snd ir)"; cases "addInline (plainListTag rid (fst ir)) (pl_domains (the (en_plain env (snd ir))))
      (pl_subnets (the (en_plain env (snd ir)))) b")
    (use addInline_held [of b "plainListTag rid (fst ir)" "pl_domains (the (en_plain env (snd ir)))" "pl_subnets (the (en_plain env (snd ir)))"]
      addNative_held [of b env] in \<open>auto simp: add_remote_def tags_held_def split: bool.splits\<close>)

lemma fold_held: "(\<And>x b. tags_held b \<Longrightarrow> tags_held (f x b)) \<Longrightarrow> tags_held b \<Longrightarrow> tags_held (fold f xs b)"
  by (induction xs arbitrary: b) auto

lemma buildRuleSets_held: "tags_held (buildRuleSets env r)"
proof -
  have "tags_held no_sets" by (simp add: tags_held_def no_sets_def)
  then show ?thesis unfolding buildRuleSets_def Let_def
    by (intro fold_held addInline_held addNative_held add_remote_held)
qed

text \<open>What the loop has gathered so far answers for every rule compiled: its sets are there, and so is the chain its route names.\<close>

definition chain_tags :: "(string \<times> string) list \<Rightarrow> string set" where
  "chain_tags chs = (\<lambda>(v, f). ChainTag v f) ` set chs"

lemma add_chain_tags: "chain_tags (add_chain r chs) = insert (ChainTag (r_via_tunnel_id r) (r_tunnel_id r)) (chain_tags chs)"
  by (auto simp: add_chain_def chain_tags_def)

text \<open>Where a compiled rule can lead: nowhere, straight out when the rule says so, through its tunnel or its chain.\<close>

definition exit_ok :: "(string \<rightharpoonup> tunnel) \<Rightarrow> string list \<Rightarrow> string set \<Rightarrow> rule \<Rightarrow> rule_action \<Rightarrow> bool" where
  "exit_ok tunnels skipped chs r a \<longleftrightarrow>
     a = Reject
   \<or> r_action r \<notin> {ActionTunnel, ActionBlock} \<and> (r_action r = ActionDirect \<and> a = Route TagDirect \<or> r_action r \<noteq> ActionDirect \<and> a = Route [])
   \<or> r_action r = ActionTunnel \<and> (\<exists>t. tunnels (r_tunnel_id r) = Some t \<and> t_enabled t \<and> t_id t \<notin> set skipped \<and>
       (r_via_tunnel_id r = [] \<and> a = Route (TunnelTag (t_id t))
      \<or> (\<exists>via. tunnels (r_via_tunnel_id r) = Some via \<and> t_enabled via \<and> t_source via = SourceWARP \<and>
           a = Route (ChainTag (t_id via) (t_id t)) \<and> ChainTag (r_via_tunnel_id r) (r_tunnel_id r) \<in> chs)))"

lemma exit_ok_mono: "exit_ok tunnels skipped chs r a \<Longrightarrow> chs \<subseteq> chs' \<Longrightarrow> exit_ok tunnels skipped chs' r a"
  unfolding exit_ok_def by blast

lemma gen_rule_grows:
  assumes "gen_rule env tunnels skipped peers live r g = Inr g'"
  shows "set_tags (gs_sets g) \<subseteq> set_tags (gs_sets g')" "chain_tags (gs_chains g) \<subseteq> chain_tags (gs_chains g')"
    "distinct (map rs_tag (gs_sets g)) \<Longrightarrow> distinct (map rs_tag (gs_sets g'))"
  using assms
  by (auto simp: gen_rule_def bindR_Inr_iff Let_def add_sets_tags add_chain_tags add_sets_distinct split: prod.splits if_splits)

lemma gen_rules_grows:
  "gen_rules env tunnels skipped peers live rs g = Inr g' \<Longrightarrow>
   set_tags (gs_sets g) \<subseteq> set_tags (gs_sets g') \<and> chain_tags (gs_chains g) \<subseteq> chain_tags (gs_chains g')
   \<and> (distinct (map rs_tag (gs_sets g)) \<longrightarrow> distinct (map rs_tag (gs_sets g')))"
proof (induction rs arbitrary: g)
  case (Cons r rs)
  then obtain g1 where g1: "gen_rule env tunnels skipped peers live r g = Inr g1" "gen_rules env tunnels skipped peers live rs g1 = Inr g'"
    by (auto simp: bindR_Inr_iff)
  from gen_rule_grows [OF g1(1)] Cons.IH [OF g1(2)] show ?case by blast
qed simp

text \<open>Exactly what a compiled rule has.\<close>

definition rule_ok ::
  "sb_env \<Rightarrow> (string \<rightharpoonup> tunnel) \<Rightarrow> string list \<Rightarrow> (string \<rightharpoonup> string) \<Rightarrow> (string \<Rightarrow> bool) \<Rightarrow> gen_state \<Rightarrow> rule \<Rightarrow> compiled \<Rightarrow> bool" where
  "rule_ok env tunnels skipped peers live g r c \<longleftrightarrow>
     (\<exists>tags a. cd_route c = DefaultRule (no_raw\<lparr>rr_rule_set := tags, rr_source_ip_cidr := fst (sourceCIDRs r peers live)\<rparr>) a
        \<and> tags \<noteq> [] \<and> set tags \<subseteq> set_tags (gs_sets g) \<and> exit_ok tunnels skipped (chain_tags (gs_chains g)) r a)
   \<and> (r_peer_scope r = ScopeSelected \<longrightarrow> fst (sourceCIDRs r peers live) \<noteq> [])"

lemma rule_ok_mono:
  "rule_ok env tunnels skipped peers live g r c \<Longrightarrow> set_tags (gs_sets g) \<subseteq> set_tags (gs_sets g')
   \<Longrightarrow> chain_tags (gs_chains g) \<subseteq> chain_tags (gs_chains g') \<Longrightarrow> rule_ok env tunnels skipped peers live g' r c"
  unfolding rule_ok_def using exit_ok_mono by blast

lemma rule_exit_ok:
  assumes "rule_exit tunnels skipped r = Inr ex" "\<not> (ex = None \<or> d) \<Longrightarrow> r_action r = ActionTunnel \<Longrightarrow> r_via_tunnel_id r \<noteq> [] \<Longrightarrow> ChainTag (r_via_tunnel_id r) (r_tunnel_id r) \<in> chs"
  shows "exit_ok tunnels skipped chs r (rule_act (routeRule r tags src (case ex of Some tag \<Rightarrow> tag | None \<Rightarrow> []) (ex = None \<or> d)))"
  using assms
  by (auto simp: rule_exit_def routeRule_def exit_ok_def split: if_splits option.splits)

lemma gen_rule_ok:
  assumes "gen_rule env tunnels skipped peers live r g = Inr g'" "compiled_of env tunnels skipped peers live r = Some c"
  shows "rule_ok env tunnels skipped peers live g' r c"
proof -
  obtain src sl where src: "sourceCIDRs r peers live = (src, sl)" by fastforce
  from assms(2) src obtain ex where ex: "rule_exit tunnels skipped r = Inr ex"
    "\<not> (r_peer_scope r = ScopeSelected \<and> src = [])" "bs_route_tags (buildRuleSets env r) \<noteq> []"
    "cd_route c = routeRule r (bs_route_tags (buildRuleSets env r)) src (case ex of Some tag \<Rightarrow> tag | None \<Rightarrow> []) (ex = None \<or> \<not> sl)"
    by (auto simp: compiled_of_def Let_def split: sum.splits if_splits)
  have g': "set_tags (gs_sets g') = set_tags (gs_sets g) \<union> set_tags (bs_sets (buildRuleSets env r))"
    "\<not> (ex = None \<or> \<not> sl) \<Longrightarrow> r_action r = ActionTunnel \<Longrightarrow> r_via_tunnel_id r \<noteq> [] \<Longrightarrow> ChainTag (r_via_tunnel_id r) (r_tunnel_id r) \<in> chain_tags (gs_chains g')"
    using assms(1) ex src by (auto simp: gen_rule_def Let_def add_sets_tags add_chain_tags split: if_splits)
  have "set (bs_route_tags (buildRuleSets env r)) \<subseteq> set_tags (gs_sets g')"
    using buildRuleSets_held [of env r] g'(1) by (auto simp: tags_held_def)
  moreover have "exit_ok tunnels skipped (chain_tags (gs_chains g')) r (rule_act (cd_route c))"
    unfolding ex(4) using ex(1) g'(2) by (rule rule_exit_ok)
  ultimately show ?thesis using ex src unfolding rule_ok_def by (auto simp: routeRule_def)
qed

lemma gen_rules_ok:
  assumes "gen_rules env tunnels skipped peers live rs g = Inr g'" "r \<in> set rs" "compiled_of env tunnels skipped peers live r = Some c"
  shows "rule_ok env tunnels skipped peers live g' r c"
  using assms
proof (induction rs arbitrary: g)
  case (Cons q rs)
  then obtain g1 where g1: "gen_rule env tunnels skipped peers live q g = Inr g1" "gen_rules env tunnels skipped peers live rs g1 = Inr g'"
    by (auto simp: bindR_Inr_iff)
  show ?case
  proof (cases "r = q")
    case True
    with gen_rule_ok [of env tunnels skipped peers live r g g1 c] g1(1) Cons.prems(3) have "rule_ok env tunnels skipped peers live g1 r c" by simp
    then show ?thesis using gen_rules_grows [OF g1(2)] by (blast intro: rule_ok_mono)
  next
    case False
    then show ?thesis using Cons.IH [OF g1(2)] Cons.prems by simp
  qed
qed simp

text \<open>The DNS rules of the loop: each keeps to the sets that are there and either refuses or hands out a fake address.\<close>

definition dns_ok :: "string set \<Rightarrow> dns_rule \<Rightarrow> bool" where
  "dns_ok tags d \<longleftrightarrow> dr_rule_set (dns_raw d) \<noteq> [] \<and> set (dr_rule_set (dns_raw d)) \<subseteq> tags
     \<and> dns_act d \<in> {DnsReject, DnsRoute TagDNSFakeIP (Some 60) False}"

lemma dnsRuleFor_ok: "dnsRuleFor r tags src den = Some d \<Longrightarrow> set tags \<subseteq> T \<Longrightarrow> dns_ok T d"
  by (auto simp: dnsRuleFor_def Let_def dns_reject_def dns_ok_def split: if_splits)

lemma dns_ok_mono: "dns_ok T d \<Longrightarrow> T \<subseteq> T' \<Longrightarrow> dns_ok T' d"
  unfolding dns_ok_def by blast

lemma gen_rule_dns_rules:
  assumes "gen_rule env tunnels skipped peers live r g = Inr g'"
  shows "gs_dns_rules g' = gs_dns_rules g \<or> (\<exists>src den d. dnsRuleFor r (bs_dns_tags (buildRuleSets env r)) src den = Some d
    \<and> gs_dns_rules g' = gs_dns_rules g @ [d] \<and> gs_sets g' = add_sets (bs_sets (buildRuleSets env r)) (gs_sets g))"
  using assms by (auto simp: gen_rule_def bindR_Inr_iff Let_def split: prod.splits if_splits option.splits)

lemma gen_rule_dns:
  assumes "gen_rule env tunnels skipped peers live r g = Inr g'" "\<forall>d \<in> set (gs_dns_rules g). dns_ok (set_tags (gs_sets g)) d"
  shows "\<forall>d \<in> set (gs_dns_rules g'). dns_ok (set_tags (gs_sets g')) d"
proof -
  have old: "\<forall>d \<in> set (gs_dns_rules g). dns_ok (set_tags (gs_sets g')) d"
    using assms(2) gen_rule_grows(1) [OF assms(1)] dns_ok_mono by blast
  from gen_rule_dns_rules [OF assms(1)] show ?thesis
  proof (elim disjE exE conjE)
    fix src den d
    assume d: "dnsRuleFor r (bs_dns_tags (buildRuleSets env r)) src den = Some d" "gs_dns_rules g' = gs_dns_rules g @ [d]"
      "gs_sets g' = add_sets (bs_sets (buildRuleSets env r)) (gs_sets g)"
    have "dns_ok (set_tags (gs_sets g')) d"
      using buildRuleSets_held [of env r] d(3) by (intro dnsRuleFor_ok [OF d(1)]) (auto simp: tags_held_def add_sets_tags)
    then show ?thesis using old d(2) by simp
  qed (use old in simp)
qed

lemma gen_rules_dns:
  assumes "gen_rules env tunnels skipped peers live rs g = Inr g'" "\<forall>d \<in> set (gs_dns_rules g). dns_ok (set_tags (gs_sets g)) d"
  shows "\<forall>d \<in> set (gs_dns_rules g'). dns_ok (set_tags (gs_sets g')) d"
  using assms
proof (induction rs arbitrary: g)
  case (Cons r rs)
  then obtain g1 where g1: "gen_rule env tunnels skipped peers live r g = Inr g1" "gen_rules env tunnels skipped peers live rs g1 = Inr g'"
    by (auto simp: bindR_Inr_iff)
  from Cons.IH [OF g1(2) gen_rule_dns [OF g1(1) Cons.prems(2)]] show ?case .
qed simp

section \<open>Whole-client exits\<close>

text \<open>Whether the exit of a client is there, and what one client with an exit of its own adds to the rules.\<close>

definition exit_live :: "(string \<rightharpoonup> tunnel) \<Rightarrow> string list \<Rightarrow> string \<Rightarrow> bool" where
  "exit_live tunnels skipped i \<longleftrightarrow> (\<exists>t. tunnels i = Some t \<and> t_enabled t) \<and> i \<notin> set skipped"

definition host_cidr :: "peer \<Rightarrow> string" where
  "host_cidr p = (case ParseAddr (p_address p) of Some a \<Rightarrow> prefix_text a 32 | None \<Rightarrow> [])"

definition egress_routes :: "(string \<rightharpoonup> tunnel) \<Rightarrow> string list \<Rightarrow> peer \<Rightarrow> route_rule list" where
  "egress_routes tunnels skipped p = (case p_egress_tunnel_id p of
     None \<Rightarrow> []
   | Some i \<Rightarrow>
     if p_enabled p \<and> exit_live tunnels skipped i then
       [source_rule (host_cidr p) (Resolve (peer_dns_tag i)),
        DefaultRule (no_raw\<lparr>rr_source_ip_cidr := [host_cidr p], rr_ip_cidr := LocalIPv4\<rparr>) Reject,
        source_rule (host_cidr p) (Route (TunnelTag i))]
     else [source_rule (host_cidr p) Reject])"

definition egress_dns :: "(string \<rightharpoonup> tunnel) \<Rightarrow> string list \<Rightarrow> peer \<Rightarrow> dns_rule list" where
  "egress_dns tunnels skipped p = (case p_egress_tunnel_id p of
     None \<Rightarrow> []
   | Some i \<Rightarrow> [DnsRule (no_dns_raw\<lparr>dr_source_ip_cidr := [host_cidr p]\<rparr>)
       (if p_enabled p \<and> exit_live tunnels skipped i then DnsRoute (peer_dns_tag i) None True else DnsReject)])"

lemma exit_live_iff:
  "(\<not> p_enabled p \<or> (case tunnels i of None \<Rightarrow> True | Some t \<Rightarrow> \<not> t_enabled t) \<or> i \<in> set skipped) \<longleftrightarrow> \<not> (p_enabled p \<and> exit_live tunnels skipped i)"
  by (auto simp: exit_live_def split: option.splits)

lemma peer_egress_one_rules:
  assumes "peer_egress_one st tunnels skipped p e = Inr e'"
  shows "eg_routes e' = eg_routes e @ egress_routes tunnels skipped p"
    "do_rules (eg_dns e') = do_rules (eg_dns e) @ egress_dns tunnels skipped p"
    "do_final (eg_dns e') = do_final (eg_dns e)"
    "p_egress_tunnel_id p \<noteq> None \<Longrightarrow> \<exists>w. ParseAddr (p_address p) = Some (IP4 w)"
  using assms unfolding peer_egress_one_def exit_live_iff
  by (auto simp: egress_routes_def egress_dns_def host_cidr_def add_rules_def bindR_Inr_iff dns_reject_def Let_def
      split: option.splits ip.splits if_splits)

lemma peer_egress_all_rules:
  "peer_egress_all st tunnels skipped ps e = Inr e' \<Longrightarrow>
    eg_routes e' = eg_routes e @ concat (map (egress_routes tunnels skipped) ps)
    \<and> do_rules (eg_dns e') = do_rules (eg_dns e) @ concat (map (egress_dns tunnels skipped) ps)
    \<and> do_final (eg_dns e') = do_final (eg_dns e)
    \<and> (\<forall>p \<in> set ps. p_egress_tunnel_id p \<noteq> None \<longrightarrow> (\<exists>w. ParseAddr (p_address p) = Some (IP4 w)))"
proof (induction ps arbitrary: e)
  case (Cons p ps)
  then obtain e1 where e1: "peer_egress_one st tunnels skipped p e = Inr e1" "peer_egress_all st tunnels skipped ps e1 = Inr e'"
    by (auto simp: bindR_Inr_iff)
  from peer_egress_one_rules [OF e1(1)] Cons.IH [OF e1(2)] show ?case by auto
qed simp

text \<open>The resolvers: every server a rule or another server names is there, and detours are live exits.\<close>

definition server_tags :: "dns_options \<Rightarrow> string set" where
  "server_tags d = server_tag ` set (do_servers d)"

fun server_ok :: "(string \<Rightarrow> bool) \<Rightarrow> string set \<Rightarrow> dns_server \<Rightarrow> bool" where
  "server_ok lv tags (RemoteServer ty tag rd) \<longleftrightarrow>
    (rd_detour rd = [] \<or> (\<exists>i. lv i \<and> rd_detour rd = TunnelTag i)) \<and> (\<forall>s b. rd_resolver rd = Some (s, b) \<longrightarrow> s \<in> tags)"
| "server_ok lv tags (FakeIPServer tag r) \<longleftrightarrow> True"

definition servers_ok :: "(string \<Rightarrow> bool) \<Rightarrow> egress_state \<Rightarrow> bool" where
  "servers_ok lv e \<longleftrightarrow> (\<forall>s \<in> set (do_servers (eg_dns e)). server_ok lv (server_tags (eg_dns e)) s)
     \<and> (\<forall>i \<in> set (eg_seen e). peer_dns_tag i \<in> server_tags (eg_dns e))"

lemma server_ok_mono: "server_ok lv tags s \<Longrightarrow> tags \<subseteq> tags' \<Longrightarrow> server_ok lv tags' s"
  by (cases s) auto

lemma upstreamServer_shape:
  "upstreamServer st = Inr s \<Longrightarrow> \<exists>ty rd. s = RemoteServer ty TagDNSUpstream rd \<and> rd_detour rd = [] \<and> rd_resolver rd \<in> {None, Some (TagDNSBootstrap, False)}"
  by (auto simp: upstreamServer_def Let_def split: option.splits if_splits)

lemma peer_resolver_ok:
  assumes "peer_resolver st i = Inr ss" "lv i"
  shows "peer_dns_tag i \<in> server_tag ` set ss" "\<forall>s \<in> set ss. server_ok lv (server_tag ` set ss) s"
proof -
  from assms(1) obtain s where "upstreamServer st = Inr s" by (auto simp: peer_resolver_def bindR_Inr_iff)
  with upstreamServer_shape [OF this] obtain ty rd where "upstreamServer st = Inr (RemoteServer ty TagDNSUpstream rd)" by auto
  then show "peer_dns_tag i \<in> server_tag ` set ss" "\<forall>s \<in> set ss. server_ok lv (server_tag ` set ss) s"
    using assms by (auto simp: peer_resolver_def Let_def bootstrap_server_def split: if_splits)
qed

lemma add_rules_servers [simp]: "servers_ok lv (add_rules rs d e) = servers_ok lv e" "eg_seen (add_rules rs d e) = eg_seen e"
  "server_tags (eg_dns (add_rules rs d e)) = server_tags (eg_dns e)"
  by (simp_all add: servers_ok_def add_rules_def server_tags_def)

lemma servers_ok_extend:
  assumes "servers_ok lv e" "peer_resolver st i = Inr ss" "lv i"
  shows "servers_ok lv (e\<lparr>eg_dns := (eg_dns e)\<lparr>do_servers := do_servers (eg_dns e) @ ss\<rparr>, eg_seen := i # eg_seen e\<rparr>)"
  using assms(1) peer_resolver_ok [where lv = lv, OF assms(2,3)]
  by (auto simp: servers_ok_def server_tags_def image_Un intro: server_ok_mono)

lemma peer_egress_one_servers:
  assumes "peer_egress_one st tunnels skipped p e = Inr e'" "servers_ok (exit_live tunnels skipped) e"
  shows "servers_ok (exit_live tunnels skipped) e'" "server_tags (eg_dns e) \<subseteq> server_tags (eg_dns e')"
    "p_egress_tunnel_id p = Some i \<Longrightarrow> p_enabled p \<Longrightarrow> exit_live tunnels skipped i \<Longrightarrow> peer_dns_tag i \<in> server_tags (eg_dns e')"
proof -
  consider "p_egress_tunnel_id p = None" "e' = e"
    | j rs d where "p_egress_tunnel_id p = Some j" "\<not> (p_enabled p \<and> exit_live tunnels skipped j)" "e' = add_rules rs d e"
    | j rs d where "p_egress_tunnel_id p = Some j" "exit_live tunnels skipped j" "j \<in> set (eg_seen e)" "e' = add_rules rs d e"
    | j rs d ss where "p_egress_tunnel_id p = Some j" "exit_live tunnels skipped j" "peer_resolver st j = Inr ss"
      "e' = add_rules rs d (e\<lparr>eg_dns := (eg_dns e)\<lparr>do_servers := do_servers (eg_dns e) @ ss\<rparr>, eg_seen := j # eg_seen e\<rparr>)"
    using assms(1) unfolding peer_egress_one_def exit_live_iff
    by (auto simp: bindR_Inr_iff Let_def split: option.splits ip.splits if_splits)
  note cs = this
  show "servers_ok (exit_live tunnels skipped) e'" using cs assms(2) servers_ok_extend by cases auto
  show "server_tags (eg_dns e) \<subseteq> server_tags (eg_dns e')" using cs by cases (auto simp: add_rules_servers(3) server_tags_def add_rules_def)
  show "peer_dns_tag i \<in> server_tags (eg_dns e')" if "p_egress_tunnel_id p = Some i" "p_enabled p" "exit_live tunnels skipped i"
    using cs that assms(2) peer_resolver_ok(1) [of st i]
    by cases (auto simp: servers_ok_def server_tags_def add_rules_def image_Un)
qed

lemma peer_egress_all_servers:
  assumes "peer_egress_all st tunnels skipped ps e = Inr e'" "servers_ok (exit_live tunnels skipped) e"
  shows "servers_ok (exit_live tunnels skipped) e' \<and> server_tags (eg_dns e) \<subseteq> server_tags (eg_dns e')
    \<and> (\<forall>p \<in> set ps. \<forall>i. p_egress_tunnel_id p = Some i \<longrightarrow> p_enabled p \<longrightarrow> exit_live tunnels skipped i \<longrightarrow> peer_dns_tag i \<in> server_tags (eg_dns e'))"
  using assms
proof (induction ps arbitrary: e)
  case (Cons p ps)
  then obtain e1 where e1: "peer_egress_one st tunnels skipped p e = Inr e1" "peer_egress_all st tunnels skipped ps e1 = Inr e'"
    by (auto simp: bindR_Inr_iff)
  note one = peer_egress_one_servers [OF e1(1) Cons.prems(2)]
  from Cons.IH [OF e1(2) one(1)] one(2,3) show ?case by auto
qed simp

lemma buildDNS_servers:
  "buildDNS st = Inr d \<Longrightarrow> servers_ok lv \<lparr>eg_routes = [], eg_dns = d, eg_seen = []\<rparr>"
  "buildDNS st = Inr d \<Longrightarrow> {TagDNSUpstream, TagDNSBootstrap, TagDNSFakeIP} \<subseteq> server_tags d"
  using upstreamServer_shape [of st]
  by (auto simp: buildDNS_def bindR_Inr_iff servers_ok_def server_tags_def bootstrap_server_def)

lemma buildDNS_rules:
  assumes "buildDNS st = Inr d"
  shows "do_rules d = [dns_reject (no_dns_raw\<lparr>dr_query_type := [65]\<rparr>), dns_reject (no_dns_raw\<lparr>dr_domain_suffix := [''use-application-dns.net'']\<rparr>)]"
    "do_final d = TagDNSUpstream"
proof -
  from assms obtain u where "d = \<lparr>do_servers = [u, bootstrap_server TagDNSBootstrap [], FakeIPServer TagDNSFakeIP ''198.18.0.0/15''],
     do_rules = [dns_reject (no_dns_raw\<lparr>dr_query_type := [65]\<rparr>), dns_reject (no_dns_raw\<lparr>dr_domain_suffix := [''use-application-dns.net'']\<rparr>)],
     do_final = TagDNSUpstream\<rparr>" by (auto simp: buildDNS_def bindR_Inr_iff)
  then show "do_rules d = [dns_reject (no_dns_raw\<lparr>dr_query_type := [65]\<rparr>), dns_reject (no_dns_raw\<lparr>dr_domain_suffix := [''use-application-dns.net'']\<rparr>)]"
    "do_final d = TagDNSUpstream" by simp_all
qed

section \<open>Groups and selectors\<close>

text \<open>What a group or selector of the outbounds chooses from.\<close>

fun members_of :: "exit_options \<Rightarrow> string set" where
  "members_of (URLTestOptions ts) = set ts"
| "members_of (SelectorOptions ts d) = insert d (set ts)"
| "members_of _ = {}"

lemma pool_members_options: "x \<in> set (pool_members env i n ss) \<Longrightarrow> members_of (ex_options x) = {}"
  by (induction env i n ss rule: pool_members.induct) (auto split: option.splits)

lemma buildPool_members: "buildPool env t allows = Some xs \<Longrightarrow> x \<in> set xs \<Longrightarrow> members_of (ex_options x) \<subseteq> exit_tags xs"
  by (auto simp: buildPool_def Let_def exit_tags_def pool_members_options split: if_splits)

lemma buildTunnels_members:
  assumes "buildTunnels env allows ts = Inr (eps, obs, sk)" "x \<in> set obs"
  shows "members_of (ex_options x) \<subseteq> exit_tags obs"
  using assms
proof (induction ts arbitrary: eps obs sk)
  case (Cons u ts)
  consider eps' sk' where "buildTunnels env allows ts = Inr (eps', obs, sk')"
    | eps' obs' y b sk' where "buildTunnels env allows ts = Inr (eps', obs', sk')" "obs = y # obs'" "ex_options y = RawOptions b"
    | eps' obs' grp sk' where "buildTunnels env allows ts = Inr (eps', obs', sk')" "buildPool env u allows = Some grp" "obs = grp @ obs'"
    using Cons.prems(1) by (auto simp: bindR_Inr_iff Let_def split: if_splits option.splits)
  then show ?case
  proof cases
    case 1
    then show ?thesis using Cons.IH Cons.prems(2) by blast
  next
    case 2
    then show ?thesis using Cons.IH [OF 2(1)] Cons.prems(2) by auto
  next
    case 3
    then show ?thesis using Cons.IH [OF 3(1)] Cons.prems(2) buildPool_members [OF 3(2)] by auto
  qed
qed simp

lemma alias_for_members:
  "alias_for env parent a = Inr (alias, a') \<Longrightarrow> x \<in> set (al_outbounds a') \<Longrightarrow> x \<in> set (al_outbounds a) \<or> members_of (ex_options x) = {parent}"
  by (auto simp: alias_for_def Let_def split: option.splits if_splits)

lemma stabilize_one_members:
  assumes "stabilize_one env parents ep a = Inr (ep', a')" "x \<in> set (al_outbounds a')"
  shows "x \<in> set (al_outbounds a) \<or> members_of (ex_options x) \<subseteq> set parents"
proof -
  have "al_outbounds a' = al_outbounds a \<or> (\<exists>detour alias. detour \<in> set parents \<and> alias_for env detour a = Inr (alias, a'))"
    using assms(1) by (auto simp: stabilize_one_def bindR_Inr_iff split: if_splits option.splits)
  then show ?thesis using alias_for_members assms(2) by (metis empty_iff insert_iff subsetI)
qed

lemma stabilize_all_members:
  "stabilize_all env parents eps a = Inr (eps', a') \<Longrightarrow> x \<in> set (al_outbounds a') \<Longrightarrow> x \<in> set (al_outbounds a) \<or> members_of (ex_options x) \<subseteq> set parents"
proof (induction eps arbitrary: eps' a)
  case (Cons ep eps)
  then obtain ep1 a1 eps1 where s: "stabilize_one env parents ep a = Inr (ep1, a1)" "stabilize_all env parents eps a1 = Inr (eps1, a')"
    by (auto simp: bindR_Inr_iff)
  from stabilize_one_members [OF s(1)] Cons.IH [OF s(2)] Cons.prems(2) show ?case by blast
qed simp

lemma stabilize_members:
  assumes "stabilizeWireGuardDetours env eps obs = Inr (eps', obs')" "x \<in> set obs'"
  shows "x \<in> set obs \<or> members_of (ex_options x) \<subseteq> exit_tags eps"
proof -
  obtain a where s: "stabilize_all env (map ex_tag (filter (\<lambda>e. ex_type e = ''wireguard'') eps)) eps
       \<lparr>al_used = TagDirect # map ex_tag eps @ map ex_tag obs, al_aliases = [], al_outbounds = obs\<rparr> = Inr (eps', a)" "obs' = al_outbounds a"
    using assms(1) by (auto simp: stabilizeWireGuardDetours_def bindR_Inr_iff)
  from stabilize_all_members [OF s(1)] assms(2) s(2) show ?thesis by (auto simp: exit_tags_def)
qed

section \<open>The whole configuration\<close>

definition tunnels_of :: "snapshot \<Rightarrow> (string \<rightharpoonup> tunnel)" where
  "tunnels_of sn = last_of (map (\<lambda>t. (t_id t, t)) (sn_tunnels sn))"

lemma tunnels_of_Some: "tunnels_of sn i = Some t \<Longrightarrow> t \<in> set (sn_tunnels sn) \<and> t_id t = i"
  unfolding tunnels_of_def last_of_def by (auto dest: map_of_SomeD)

definition peers_of :: "(string \<times> string \<times> bool) list \<Rightarrow> (string \<rightharpoonup> string)" where
  "peers_of addrs = map_option fst \<circ> last_of addrs"

definition live_of :: "(string \<times> string \<times> bool) list \<Rightarrow> string \<Rightarrow> bool" where
  "live_of addrs = (\<lambda>i. case last_of addrs i of Some (_, e) \<Rightarrow> e | None \<Rightarrow> False)"

definition gen_start :: gen_state where
  "gen_start = \<lparr>gs_rules = [], gs_dns_rules = [], gs_sets = [], gs_chains = [], gs_diags = [], gs_plan = []\<rparr>"

text \<open>The stages of a generation that succeeds.\<close>

definition pool_allows :: "sb_env \<Rightarrow> snapshot \<Rightarrow> pool_server \<Rightarrow> bool" where
  "pool_allows env sn = Allows (en_unicode env) (se_pool_country_blocklist (sn_settings sn))"

record gen_stages =
  sg_eps :: "sb_exit list"
  sg_obs :: "sb_exit list"
  sg_skipped :: "string list"
  sg_addrs :: "(string \<times> string \<times> bool) list"
  sg_dns :: dns_options
  sg_egress :: egress_state
  sg_rules :: gen_state
  sg_chains :: "sb_exit list"

definition stages :: "sb_env \<Rightarrow> snapshot \<Rightarrow> sb_options \<Rightarrow> compiled list \<Rightarrow> gen_stages \<Rightarrow> bool" where
  "stages env sn opts plan s \<longleftrightarrow>
     buildTunnels env (pool_allows env sn) (sn_tunnels sn) = Inr (sg_eps s, sg_obs s, sg_skipped s)
   \<and> peer_addresses (sn_peers sn) = Inr (sg_addrs s)
   \<and> buildDNS (sn_settings sn) = Inr (sg_dns s)
   \<and> peer_egress_all (sn_settings sn) (tunnels_of sn) (sg_skipped s) (sn_peers sn) \<lparr>eg_routes = [], eg_dns = sg_dns s, eg_seen = []\<rparr> = Inr (sg_egress s)
   \<and> gen_rules env (tunnels_of sn) (sg_skipped s) (peers_of (sg_addrs s)) (live_of (sg_addrs s)) (sortedRules (sn_rules sn)) gen_start = Inr (sg_rules s)
   \<and> chain_endpoints env (tunnels_of sn) (gs_chains (sg_rules s)) = Inr (sg_chains s)
   \<and> (\<exists>obs. stabilizeWireGuardDetours env (sg_eps s @ sg_chains s) (sg_obs s) = Inr (so_endpoints opts, obs)
        \<and> so_outbounds opts = \<lparr>ex_type = ''direct'', ex_tag = TagDirect, ex_options = DirectOptions\<rparr> # obs)
   \<and> so_dns opts = (eg_dns (sg_egress s))\<lparr>do_rules := do_rules (eg_dns (sg_egress s)) @ gs_dns_rules (sg_rules s)\<rparr>
   \<and> map in_tag (so_inbounds opts) = [TagDNSIn, TagTProxyIn]
   \<and> so_rules opts = hijack_rule # eg_routes (sg_egress s) @ gs_rules (sg_rules s)
   \<and> so_rule_sets opts = gs_sets (sg_rules s) \<and> so_final opts = TagDirect \<and> so_resolver opts = TagDNSUpstream \<and> plan = gs_plan (sg_rules s)"

lemma generate_stages:
  assumes "generatePolicyWithPlan env sn = Inr (opts, diags, plan)"
  obtains s where "stages env sn opts plan s"
proof -
  obtain eps obs skipped addrs dns e g chs eps' obs' where
    "buildTunnels env (pool_allows env sn) (sn_tunnels sn) = Inr (eps, obs, skipped)"
    "peer_addresses (sn_peers sn) = Inr addrs"
    "buildDNS (sn_settings sn) = Inr dns"
    "peer_egress_all (sn_settings sn) (tunnels_of sn) skipped (sn_peers sn) \<lparr>eg_routes = [], eg_dns = dns, eg_seen = []\<rparr> = Inr e"
    "gen_rules env (tunnels_of sn) skipped (peers_of addrs) (live_of addrs) (sortedRules (sn_rules sn)) gen_start = Inr g"
    "chain_endpoints env (tunnels_of sn) (gs_chains g) = Inr chs"
    "stabilizeWireGuardDetours env (eps @ chs) obs = Inr (eps', obs')"
    "so_dns opts = (eg_dns e)\<lparr>do_rules := do_rules (eg_dns e) @ gs_dns_rules g\<rparr>"
    "map in_tag (so_inbounds opts) = [TagDNSIn, TagTProxyIn]"
    "so_endpoints opts = eps'"
    "so_outbounds opts = \<lparr>ex_type = ''direct'', ex_tag = TagDirect, ex_options = DirectOptions\<rparr> # obs'"
    "so_rules opts = hijack_rule # eg_routes e @ gs_rules g"
    "so_rule_sets opts = gs_sets g" "so_final opts = TagDirect" "so_resolver opts = TagDNSUpstream" "plan = gs_plan g"
    using assms unfolding generatePolicyWithPlan_def Let_def peerEgress_def
      tunnels_of_def [symmetric] peers_of_def [symmetric] live_of_def [symmetric] gen_start_def [symmetric] pool_allows_def [symmetric]
    by (auto simp: bindR_Inr_iff split: option.splits)
  then have "stages env sn opts plan \<lparr>sg_eps = eps, sg_obs = obs, sg_skipped = skipped, sg_addrs = addrs, sg_dns = dns, sg_egress = e,
      sg_rules = g, sg_chains = chs\<rparr>" by (simp add: stages_def)
  then show thesis by (rule that)
qed

text \<open>The parts of a generation, as rules on \<^const>\<open>stages\<close>.\<close>

lemma stages_tunnels: "stages env sn opts plan s \<Longrightarrow> buildTunnels env (pool_allows env sn) (sn_tunnels sn) = Inr (sg_eps s, sg_obs s, sg_skipped s)"
  and stages_addrs: "stages env sn opts plan s \<Longrightarrow> peer_addresses (sn_peers sn) = Inr (sg_addrs s)"
  and stages_dns: "stages env sn opts plan s \<Longrightarrow> buildDNS (sn_settings sn) = Inr (sg_dns s)"
  and stages_egress: "stages env sn opts plan s \<Longrightarrow> peer_egress_all (sn_settings sn) (tunnels_of sn) (sg_skipped s) (sn_peers sn)
      \<lparr>eg_routes = [], eg_dns = sg_dns s, eg_seen = []\<rparr> = Inr (sg_egress s)"
  and stages_rules: "stages env sn opts plan s \<Longrightarrow> gen_rules env (tunnels_of sn) (sg_skipped s) (peers_of (sg_addrs s)) (live_of (sg_addrs s))
      (sortedRules (sn_rules sn)) gen_start = Inr (sg_rules s)"
  and stages_chains: "stages env sn opts plan s \<Longrightarrow> chain_endpoints env (tunnels_of sn) (gs_chains (sg_rules s)) = Inr (sg_chains s)"
  and stages_stable: "stages env sn opts plan s \<Longrightarrow> stabilizeWireGuardDetours env (sg_eps s @ sg_chains s) (sg_obs s) = Inr (so_endpoints opts, tl (so_outbounds opts))"
  by (auto simp: stages_def)

lemma stages_options:
  assumes "stages env sn opts plan s"
  shows "so_outbounds opts = \<lparr>ex_type = ''direct'', ex_tag = TagDirect, ex_options = DirectOptions\<rparr> # tl (so_outbounds opts)"
    "so_dns opts = (eg_dns (sg_egress s))\<lparr>do_rules := do_rules (eg_dns (sg_egress s)) @ gs_dns_rules (sg_rules s)\<rparr>"
    "in_tag ` set (so_inbounds opts) = {TagDNSIn, TagTProxyIn}"
    "so_rules opts = hijack_rule # eg_routes (sg_egress s) @ gs_rules (sg_rules s)"
    "so_rule_sets opts = gs_sets (sg_rules s)" "so_final opts = TagDirect" "so_resolver opts = TagDNSUpstream" "plan = gs_plan (sg_rules s)"
  using assms arg_cong [of "map in_tag (so_inbounds opts)" _ set] by (auto simp: stages_def)

end
