(* ===== verification/Sb_Safety.thy ===== *)
theory Sb_Safety
  imports Sb_Policy
begin

text \<open>
  The guarantees of a generated configuration: its references resolve, its rules fail closed, a client with an exit of its
  own leaves by no other, and the members of a pool are filtered and verified.
\<close>

section \<open>References\<close>

definition exits :: "sb_options \<Rightarrow> string set" where
  "exits opts = exit_tags (so_endpoints opts) \<union> exit_tags (so_outbounds opts)"

fun action_refs :: "sb_options \<Rightarrow> rule_action \<Rightarrow> bool" where
  "action_refs opts (Route t) \<longleftrightarrow> t \<in> exits opts"
| "action_refs opts (Resolve s) \<longleftrightarrow> s \<in> server_tags (so_dns opts)"
| "action_refs opts _ \<longleftrightarrow> True"

fun rule_refs :: "sb_options \<Rightarrow> route_rule \<Rightarrow> bool" where
  "rule_refs opts (DefaultRule raw a) \<longleftrightarrow> set (rr_inbound raw) \<subseteq> in_tag ` set (so_inbounds opts)
     \<and> set (rr_rule_set raw) \<subseteq> set_tags (so_rule_sets opts) \<and> action_refs opts a"
| "rule_refs opts (LogicalRule m v rs a) \<longleftrightarrow> (\<forall>r \<in> set rs. rule_refs opts r) \<and> action_refs opts a"

fun dns_refs :: "sb_options \<Rightarrow> dns_rule \<Rightarrow> bool" where
  "dns_refs opts (DnsRule raw a) \<longleftrightarrow> set (dr_rule_set raw) \<subseteq> set_tags (so_rule_sets opts)
     \<and> (case a of DnsRoute s _ _ \<Rightarrow> s \<in> server_tags (so_dns opts) | DnsReject \<Rightarrow> True)"

fun server_refs :: "sb_options \<Rightarrow> dns_server \<Rightarrow> bool" where
  "server_refs opts (RemoteServer ty tag rd) \<longleftrightarrow> (rd_detour rd = [] \<or> rd_detour rd \<in> exits opts)
     \<and> (case rd_resolver rd of Some (s, _) \<Rightarrow> s \<in> server_tags (so_dns opts) | None \<Rightarrow> True)"
| "server_refs opts (FakeIPServer tag r) \<longleftrightarrow> True"

definition well_referenced :: "sb_options \<Rightarrow> bool" where
  "well_referenced opts \<longleftrightarrow>
     (\<forall>r \<in> set (so_rules opts). rule_refs opts r)
   \<and> (\<forall>d \<in> set (do_rules (so_dns opts)). dns_refs opts d)
   \<and> (\<forall>s \<in> set (do_servers (so_dns opts)). server_refs opts s)
   \<and> (\<forall>x \<in> set (so_outbounds opts). members_of (ex_options x) \<subseteq> exits opts)
   \<and> so_final opts \<in> exits opts \<and> so_resolver opts \<in> server_tags (so_dns opts) \<and> do_final (so_dns opts) \<in> server_tags (so_dns opts)
   \<and> distinct (map rs_tag (so_rule_sets opts))"

lemma no_raw_simps [simp]: "rr_inbound no_raw = []" "rr_rule_set no_raw = []" "rr_source_ip_cidr no_raw = []" "dr_rule_set no_dns_raw = []"
  by (simp_all add: no_raw_def no_dns_raw_def)

text \<open>The exits a generation that succeeds has.\<close>

lemma live_exit:
  assumes "buildTunnels env allows (sn_tunnels sn) = Inr (eps, obs, skipped)" "exit_live (tunnels_of sn) skipped i"
  shows "TunnelTag i \<in> exit_tags eps \<union> exit_tags obs"
proof -
  from assms(2) obtain t where "tunnels_of sn i = Some t" "t_enabled t" "i \<notin> set skipped" by (auto simp: exit_live_def)
  with tunnels_of_Some [OF this(1)] buildTunnels_exits [OF assms(1), of t] show ?thesis by auto
qed

lemma chain_endpoints_exits: "chain_endpoints env tunnels cs = Inr chs \<Longrightarrow> exit_tags chs = chain_tags cs"
  using chain_endpoints_tags [of env tunnels cs chs] by (metis chain_tags_def exit_tags_def list.set_map)

lemma exit_ok_refs:
  assumes ok: "exit_ok (tunnels_of sn) skipped (chain_tags chs) r a" and act: "r_action r \<in> set RuleActions"
    and exs: "\<And>i. exit_live (tunnels_of sn) skipped i \<Longrightarrow> TunnelTag i \<in> exits opts" "chain_tags chs \<subseteq> exits opts" "TagDirect \<in> exits opts"
  shows "action_refs opts a"
proof (cases "r_action r = ActionTunnel \<and> a \<noteq> Reject")
  case False
  then show ?thesis using ok act exs(3) by (auto simp: exit_ok_def RuleActions_def)
next
  case True
  then obtain t where t: "tunnels_of sn (r_tunnel_id r) = Some t" "t_enabled t" "t_id t \<notin> set skipped"
    "a = Route (TunnelTag (t_id t)) \<or> (\<exists>via. tunnels_of sn (r_via_tunnel_id r) = Some via \<and>
       a = Route (ChainTag (t_id via) (t_id t)) \<and> ChainTag (r_via_tunnel_id r) (r_tunnel_id r) \<in> chain_tags chs)"
    using ok by (auto simp: exit_ok_def)
  have "t_id t = r_tunnel_id r" using tunnels_of_Some [OF t(1)] by simp
  moreover have "exit_live (tunnels_of sn) skipped (t_id t)" using t calculation by (auto simp: exit_live_def)
  ultimately show ?thesis using t(4) exs tunnels_of_Some [of sn "r_via_tunnel_id r"] by auto
qed

lemma egress_routes_refs:
  assumes "q \<in> set (egress_routes tunnels skipped p)"
    and "\<And>i. exit_live tunnels skipped i \<Longrightarrow> TunnelTag i \<in> exits opts"
    and "\<And>i. p_egress_tunnel_id p = Some i \<Longrightarrow> p_enabled p \<Longrightarrow> exit_live tunnels skipped i \<Longrightarrow> peer_dns_tag i \<in> server_tags (so_dns opts)"
  shows "rule_refs opts q"
  using assms by (auto simp: egress_routes_def source_rule_def split: option.splits if_splits)

lemma egress_dns_refs:
  assumes "d \<in> set (egress_dns tunnels skipped p)"
    and "\<And>i. p_egress_tunnel_id p = Some i \<Longrightarrow> p_enabled p \<Longrightarrow> exit_live tunnels skipped i \<Longrightarrow> peer_dns_tag i \<in> server_tags (so_dns opts)"
  shows "dns_refs opts d"
  using assms by (auto simp: egress_dns_def split: option.splits if_splits)

lemma server_ok_refs:
  assumes "server_ok lv (server_tags (so_dns opts)) s" "\<And>i. lv i \<Longrightarrow> TunnelTag i \<in> exits opts"
  shows "server_refs opts s"
  using assms by (cases s) (auto split: option.splits)

lemma dns_ok_refs: "dns_ok (set_tags (so_rule_sets opts)) d \<Longrightarrow> TagDNSFakeIP \<in> server_tags (so_dns opts) \<Longrightarrow> dns_refs opts d"
  by (cases d) (auto simp: dns_ok_def)

lemma sortedRules_set [simp]: "set (sortedRules rs) = {r \<in> set rs. r_enabled r}"
  by (auto simp: sortedRules_def)

lemma gen_start_simps [simp]: "gs_rules gen_start = []" "gs_dns_rules gen_start = []" "gs_sets gen_start = []" "gs_chains gen_start = []" "gs_plan gen_start = []"
  by (simp_all add: gen_start_def)

lemma stages_exits:
  assumes "stages env sn opts plan s"
  shows "exit_tags (sg_eps s) \<union> exit_tags (sg_obs s) \<union> chain_tags (gs_chains (sg_rules s)) \<union> {TagDirect} \<subseteq> exits opts"
proof -
  have "exit_tags (so_outbounds opts) = insert TagDirect (exit_tags (tl (so_outbounds opts)))"
    using arg_cong [OF stages_options(1) [OF assms], of exit_tags] by simp
  then show ?thesis
    using stabilize_keeps [OF stages_stable [OF assms]] chain_endpoints_exits [OF stages_chains [OF assms]] by (auto simp: exits_def)
qed

lemma stages_live:
  assumes "stages env sn opts plan s" "exit_live (tunnels_of sn) (sg_skipped s) i"
  shows "TunnelTag i \<in> exits opts"
  using live_exit [OF stages_tunnels [OF assms(1)] assms(2)] stages_exits [OF assms(1)] by auto

lemma stages_rule:
  assumes "stages env sn opts plan s" "c \<in> set plan"
  obtains r where "r \<in> set (sn_rules sn)" "r_enabled r" "cd_id c = r_id r"
    "rule_ok env (tunnels_of sn) (sg_skipped s) (peers_of (sg_addrs s)) (live_of (sg_addrs s)) (sg_rules s) r c"
proof -
  from assms gen_rules_plan [OF stages_rules [OF assms(1)]] stages_options(8) [OF assms(1)]
  obtain r where r: "r \<in> set (sortedRules (sn_rules sn))"
    "compiled_of env (tunnels_of sn) (sg_skipped s) (peers_of (sg_addrs s)) (live_of (sg_addrs s)) r = Some c"
    by (auto simp: plan_of_member)
  from gen_rules_ok [OF stages_rules [OF assms(1)] r] compiled_of_id [OF r(2)] r(1) that show thesis by auto
qed

lemma stages_rule_refs:
  assumes "stages env sn opts plan s" "c \<in> set plan" "\<forall>r \<in> set (sn_rules sn). r_action r \<in> set RuleActions"
  shows "rule_refs opts (cd_route c)"
proof -
  from stages_rule [OF assms(1,2)] obtain r where r: "r \<in> set (sn_rules sn)"
    "rule_ok env (tunnels_of sn) (sg_skipped s) (peers_of (sg_addrs s)) (live_of (sg_addrs s)) (sg_rules s) r c" .
  then obtain tags a where c: "rule_refs opts (cd_route c) = (set tags \<subseteq> set_tags (so_rule_sets opts) \<and> action_refs opts a)"
    "set tags \<subseteq> set_tags (gs_sets (sg_rules s))" "exit_ok (tunnels_of sn) (sg_skipped s) (chain_tags (gs_chains (sg_rules s))) r a"
    by (auto simp: rule_ok_def)
  moreover have "action_refs opts a"
    using exit_ok_refs [OF c(3)] r(1) assms(3) stages_live [OF assms(1)] stages_exits [OF assms(1)] by auto
  ultimately show ?thesis using stages_options(5) [OF assms(1)] by simp
qed

text \<open>The resolvers after the clients with their own exits.\<close>

lemma stages_servers:
  assumes "stages env sn opts plan s"
  shows "\<forall>x \<in> set (do_servers (so_dns opts)). server_ok (exit_live (tunnels_of sn) (sg_skipped s)) (server_tags (so_dns opts)) x"
    "{TagDNSUpstream, TagDNSBootstrap, TagDNSFakeIP} \<subseteq> server_tags (so_dns opts)"
    "p \<in> set (sn_peers sn) \<Longrightarrow> p_egress_tunnel_id p = Some i \<Longrightarrow> p_enabled p \<Longrightarrow> exit_live (tunnels_of sn) (sg_skipped s) i
      \<Longrightarrow> peer_dns_tag i \<in> server_tags (so_dns opts)"
proof -
  note es = peer_egress_all_servers [OF stages_egress [OF assms] buildDNS_servers(1) [OF stages_dns [OF assms]]]
  have tags: "server_tags (so_dns opts) = server_tags (eg_dns (sg_egress s))" "do_servers (so_dns opts) = do_servers (eg_dns (sg_egress s))"
    by (simp_all add: stages_options(2) [OF assms] server_tags_def)
  show "\<forall>x \<in> set (do_servers (so_dns opts)). server_ok (exit_live (tunnels_of sn) (sg_skipped s)) (server_tags (so_dns opts)) x"
    using es unfolding tags servers_ok_def by blast
  show "{TagDNSUpstream, TagDNSBootstrap, TagDNSFakeIP} \<subseteq> server_tags (so_dns opts)"
    using es buildDNS_servers(2) [OF stages_dns [OF assms]] tags by auto
  show "p \<in> set (sn_peers sn) \<Longrightarrow> p_egress_tunnel_id p = Some i \<Longrightarrow> p_enabled p \<Longrightarrow> exit_live (tunnels_of sn) (sg_skipped s) i
      \<Longrightarrow> peer_dns_tag i \<in> server_tags (so_dns opts)"
    using es tags by blast
qed

lemma stages_dns_refs:
  assumes "stages env sn opts plan s" "d \<in> set (do_rules (so_dns opts))"
  shows "dns_refs opts d"
proof -
  consider "d \<in> set (do_rules (sg_dns s))" | p where "p \<in> set (sn_peers sn)" "d \<in> set (egress_dns (tunnels_of sn) (sg_skipped s) p)"
    | "d \<in> set (gs_dns_rules (sg_rules s))"
    using assms(2) stages_options(2) [OF assms(1)] peer_egress_all_rules [OF stages_egress [OF assms(1)]] by auto
  then show ?thesis
  proof cases
    case 1
    then show ?thesis using buildDNS_rules(1) [OF stages_dns [OF assms(1)]] by (auto simp: dns_reject_def)
  next
    case (2 p)
    then show ?thesis using egress_dns_refs stages_servers(3) [OF assms(1)] by blast
  next
    case 3
    then show ?thesis
      using gen_rules_dns [OF stages_rules [OF assms(1)]] dns_ok_refs stages_servers(2) [OF assms(1)] stages_options(5) [OF assms(1)] by auto
  qed
qed

lemma stages_members:
  assumes "stages env sn opts plan s" "x \<in> set (so_outbounds opts)"
  shows "members_of (ex_options x) \<subseteq> exits opts"
proof -
  note exs = stages_exits [OF assms(1)]
  consider "members_of (ex_options x) = {}" | "x \<in> set (sg_obs s)" | "members_of (ex_options x) \<subseteq> exit_tags (sg_eps s @ sg_chains s)"
    using assms(2) stages_options(1) [OF assms(1)] stabilize_members [OF stages_stable [OF assms(1)]]
    by (metis members_of.simps(5) sb_exit.select_convs(3) set_ConsD)
  then show ?thesis
  proof cases
    case 2
    then show ?thesis using buildTunnels_members [OF stages_tunnels [OF assms(1)]] exs by blast
  next
    case 3
    then show ?thesis using exs chain_endpoints_exits [OF stages_chains [OF assms(1)]] by auto
  qed simp
qed

lemma stages_route_refs:
  assumes "stages env sn opts plan s" "\<forall>r \<in> set (sn_rules sn). r_action r \<in> set RuleActions" "q \<in> set (so_rules opts)"
  shows "rule_refs opts q"
proof -
  consider "q = hijack_rule" | "q \<in> set (eg_routes (sg_egress s))" | "q \<in> cd_route ` set plan"
    using assms(3) stages_options(4,8) [OF assms(1)] gen_rules_plan [OF stages_rules [OF assms(1)]] by auto
  then show ?thesis
  proof cases
    case 1
    then show ?thesis using stages_options(3) [OF assms(1)] by (simp add: hijack_rule_def)
  next
    case 2
    then obtain p where "p \<in> set (sn_peers sn)" "q \<in> set (egress_routes (tunnels_of sn) (sg_skipped s) p)"
      using peer_egress_all_rules [OF stages_egress [OF assms(1)]] by auto
    then show ?thesis using egress_routes_refs stages_live [OF assms(1)] stages_servers(3) [OF assms(1)] by blast
  qed (use stages_rule_refs [OF assms(1) _ assms(2)] in auto)
qed


section \<open>A concrete state\<close>

definition demo_sb_env :: sb_env where
  "demo_sb_env = \<lparr>en_fields = (\<lambda>s. Some [(''name'', s)]), en_object = concat \<circ> map (\<lambda>(k, v). k @ v), en_string = Some, en_quote = id,
     en_wireguard = (\<lambda>_. Some ([], [])), en_parse = (\<lambda>u. Some (''vless'', u, Some True)), en_url_path = Some, en_plain = (\<lambda>_. None),
     en_sha = id, en_unicode = demo_unicode\<rparr>"

definition demo_exit :: "string \<Rightarrow> string \<Rightarrow> bool \<Rightarrow> tunnel" where
  "demo_exit i src on = (demo_tunnel i)\<lparr>t_type := TunnelWireGuard, t_source := src, t_parsed := i, t_enabled := on\<rparr>"

definition demo_tunneled :: "string \<Rightarrow> int \<Rightarrow> string \<Rightarrow> string \<Rightarrow> rule" where
  "demo_tunneled i n t via = (demo_rule i)\<lparr>r_action := ActionTunnel, r_tunnel_id := t, r_via_tunnel_id := via, r_priority := n\<rparr>"

definition demo_policy :: snapshot where
  "demo_policy = \<lparr>sn_settings = DefaultSettings\<lparr>se_pool_country_blocklist := [''RU'']\<rparr>,
     sn_tunnels = [demo_exit ''a'' SourceURL True, demo_exit ''w'' SourceWARP True, demo_exit ''x'' SourceURL False,
       (demo_exit ''q'' SourcePool True)\<lparr>t_pool := [demo_member ''RU'', demo_member ''-'']\<rparr>],
     sn_rules = [demo_tunneled ''r2'' 2 ''x'' [], demo_tunneled ''r1'' 1 ''a'' ''w''],
     sn_peers = [(demo_peer ''p'')\<lparr>p_address := ''10.8.0.2'', p_egress_tunnel_id := Some ''a''\<rparr>],
     sn_reality_identity_id = [], sn_reality_admissions = []\<rparr>"

lemma demo_addresses:
  "ParseAddr ''10.8.0.2'' = Some (IP4 0x0A080002)" "ParseAddr ''10.8.0.1'' = Some (IP4 0x0A080001)" "ParseAddr ''1.1.1.1'' = Some (IP4 0x01010101)"
  by code_simp+

lemmas demo_defs = demo_policy_def demo_sb_env_def demo_exit_def demo_tunnel_def demo_tunneled_def demo_rule_def demo_peer_def DefaultSettings_def

lemma demo_tunnels:
  "buildTunnels demo_sb_env (pool_allows demo_sb_env demo_policy) (sn_tunnels demo_policy) = Inr
    ([\<lparr>ex_type = ''wireguard'', ex_tag = TunnelTag ''a'', ex_options = RawOptions ''namea''\<rparr>,
      \<lparr>ex_type = ''wireguard'', ex_tag = TunnelTag ''w'', ex_options = RawOptions ''namew''\<rparr>],
     [\<lparr>ex_type = ''vless'', ex_tag = poolMemberTag ''q'' 0, ex_options = MemberOptions ''vless://u@h:1?security=tls'' (Some False)\<rparr>,
      \<lparr>ex_type = ''urltest'', ex_tag = TunnelTag ''q'', ex_options = URLTestOptions [poolMemberTag ''q'' 0]\<rparr>], [])"
proof -
  have "ps_url (demo_member ''-'') = ''vless://u@h:1?security=tls''" by (simp add: demo_member_def)
  then show ?thesis
    by (simp add: demo_defs pool_allows_def demo_captions buildPool_def selectPoolServers_def forceCertVerify_def
        tunnelOptions_def singboxType_def singboxTypes_def Let_def poolMaxServers_def)
qed

lemma demo_tunnel_map:
  "tunnels_of demo_policy ''a'' = Some (demo_exit ''a'' SourceURL True)" "tunnels_of demo_policy ''w'' = Some (demo_exit ''w'' SourceWARP True)"
  "tunnels_of demo_policy ''x'' = Some (demo_exit ''x'' SourceURL False)"
  by (simp_all add: tunnels_of_def last_of_def demo_defs)

lemma demo_peers:
  "peer_addresses (sn_peers demo_policy) = Inr [(''p'', prefix_text (IP4 0x0A080002) 32, True)]"
  by (simp add: demo_policy_def cidr_def demo_addresses demo_peer_def ip_bits_def)

lemma demo_egress:
  "\<exists>dns e. buildDNS (sn_settings demo_policy) = Inr dns
    \<and> peer_egress_all (sn_settings demo_policy) (tunnels_of demo_policy) [] (sn_peers demo_policy) \<lparr>eg_routes = [], eg_dns = dns, eg_seen = []\<rparr> = Inr e"
proof -
  obtain u where u: "upstreamServer (sn_settings demo_policy) = Inr (RemoteServer ''udp'' TagDNSUpstream u)"
    by (simp add: demo_policy_def DefaultSettings_def upstreamServer_def hostPort_def demo_addresses)
  have "\<exists>ss. peer_resolver (sn_settings demo_policy) ''a'' = Inr ss" by (auto simp: peer_resolver_def u Let_def)
  then show ?thesis
    by (auto simp: buildDNS_def u peer_egress_one_def demo_policy_def [THEN arg_cong, of sn_peers] demo_peer_def demo_addresses
        demo_tunnel_map demo_exit_def Let_def)
qed

lemma demo_rules:
  "sortedRules (sn_rules demo_policy) = [demo_tunneled ''r1'' 1 ''a'' ''w'', demo_tunneled ''r2'' 2 ''x'' []]"
  by (simp add: demo_policy_def sortedRules_def demo_tunneled_def demo_rule_def)

lemma demo_sets:
  "\<exists>b. buildRuleSets demo_sb_env (demo_tunneled i n t v) = b \<and> bs_route_tags b = [ruleSetTag i] \<and> bs_dns_tags b = [ruleSetTag i @ ''-dns''] \<and> \<not> bs_address_capable b \<and> \<not> bs_err b"
  by (simp add: buildRuleSets_def no_sets_def addInline_def inlineRuleSet_def demo_tunneled_def demo_rule_def)

text \<open>What of a compiled rule the properties look at.\<close>

definition demo_view :: "compiled \<Rightarrow> string \<times> rule_action \<times> string list \<times> string list \<times> bool" where
  "demo_view k = (cd_id k, rule_act (cd_route k), rr_source_ip_cidr (rule_raw (cd_route k)), cd_dns_tags k, cd_address_capable k)"

lemma demo_compiled:
  "\<exists>g. gen_rules demo_sb_env (tunnels_of demo_policy) [] peers live (sortedRules (sn_rules demo_policy)) gen_start = Inr g
    \<and> gs_chains g = [(''w'', ''a'')] \<and> map demo_view (gs_plan g) = [(''r1'', Route (ChainTag ''w'' ''a''), [], [ruleSetTag ''r1'' @ ''-dns''], False), (''r2'', Reject, [], [ruleSetTag ''r2'' @ ''-dns''], False)]"
proof -
  note d = demo_sets [of "''r1''" 1 "''a''" "''w''"] demo_sets [of "''r2''" 2 "''x''" "[]"]
  have f: "sourceCIDRs (demo_tunneled i n t v) peers live = ([], True)" "r_peer_scope (demo_tunneled i n t v) = ScopeAll"
    "r_action (demo_tunneled i n t v) = ActionTunnel" "r_tunnel_id (demo_tunneled i n t v) = t" "r_via_tunnel_id (demo_tunneled i n t v) = v"
    "r_id (demo_tunneled i n t v) = i" for i n t v
    by (simp_all add: sourceCIDRs_def demo_tunneled_def demo_rule_def)
  have x: "rule_exit (tunnels_of demo_policy) [] (demo_tunneled i n ''a'' ''w'') = Inr (Some (ChainTag ''w'' ''a''))"
    "rule_exit (tunnels_of demo_policy) [] (demo_tunneled i n ''x'' []) = Inr None" for i n
    by (simp_all add: rule_exit_def f demo_tunnel_map demo_exit_def demo_tunnel_def)
  show ?thesis using d by (auto simp: demo_rules gen_rule_def f x routeRule_def Let_def add_chain_def demo_view_def)
qed

lemma demo_chains: "\<exists>x. chain_endpoints demo_sb_env (tunnels_of demo_policy) [(''w'', ''a'')] = Inr [x] \<and> ex_tag x = ChainTag ''w'' ''a''"
  by (simp add: demo_tunnel_map chainEndpoint_def) (simp add: demo_exit_def demo_tunnel_def tunnelOptions_def singboxType_def singboxTypes_def demo_sb_env_def)

lemma demo_stable:
  assumes "[] \<notin> exit_tags eps"
  shows "stabilizeWireGuardDetours demo_sb_env eps obs = Inr (eps, obs)"
proof -
  have all: "stabilize_all demo_sb_env ps es a = Inr (es, a)" if "[] \<notin> set ps" for ps es a
    using that by (induction es arbitrary: a) (auto simp: stabilize_one_def demo_sb_env_def)
  have "[] \<notin> set (map ex_tag (filter (\<lambda>e. ex_type e = ''wireguard'') eps))" using assms by (auto simp: exit_tags_def)
  from all [OF this] show ?thesis by (simp add: stabilizeWireGuardDetours_def)
qed

text \<open>The generator accepts the state: the first rule goes through its chain, the second is refused with its tunnel off.\<close>

lemma demo_runs:
  "\<exists>opts diags plan. generatePolicyWithPlan demo_sb_env demo_policy = Inr (opts, diags, plan)
    \<and> map demo_view plan = [(''r1'', Route (ChainTag ''w'' ''a''), [], [ruleSetTag ''r1'' @ ''-dns''], False), (''r2'', Reject, [], [ruleSetTag ''r2'' @ ''-dns''], False)]
    \<and> map ex_tag (so_outbounds opts) = [TagDirect, poolMemberTag ''q'' 0, TunnelTag ''q'']"
proof -
  obtain dns e where e: "buildDNS (sn_settings demo_policy) = Inr dns"
    "peer_egress_all (sn_settings demo_policy) (tunnels_of demo_policy) [] (sn_peers demo_policy) \<lparr>eg_routes = [], eg_dns = dns, eg_seen = []\<rparr> = Inr e"
    using demo_egress by blast
  let ?addrs = "[(''p'', prefix_text (IP4 0x0A080002) 32, True)]"
  obtain g where g: "gen_rules demo_sb_env (tunnels_of demo_policy) [] (peers_of ?addrs) (live_of ?addrs) (sortedRules (sn_rules demo_policy)) gen_start = Inr g"
    "gs_chains g = [(''w'', ''a'')]"
    "map demo_view (gs_plan g) = [(''r1'', Route (ChainTag ''w'' ''a''), [], [ruleSetTag ''r1'' @ ''-dns''], False), (''r2'', Reject, [], [ruleSetTag ''r2'' @ ''-dns''], False)]"
    using demo_compiled [of "peers_of ?addrs" "live_of ?addrs"] by (elim exE conjE)
  obtain x where x: "chain_endpoints demo_sb_env (tunnels_of demo_policy) [(''w'', ''a'')] = Inr [x]" "ex_tag x = ChainTag ''w'' ''a''"
    using demo_chains by blast
  have "[] \<notin> exit_tags ([\<lparr>ex_type = ''wireguard'', ex_tag = TunnelTag ''a'', ex_options = RawOptions ''namea''\<rparr>,
      \<lparr>ex_type = ''wireguard'', ex_tag = TunnelTag ''w'', ex_options = RawOptions ''namew''\<rparr>] @ [x])"
    by (simp add: x TunnelTag_def ChainTag_def)
  note stable = demo_stable [OF this]
  have addr: "ParseAddr (se_wg_server_address (sn_settings demo_policy)) = Some (IP4 0x0A080001)"
    by (simp add: demo_policy_def DefaultSettings_def demo_addresses)
  show ?thesis
    unfolding generatePolicyWithPlan_def Let_def peerEgress_def tunnels_of_def [symmetric] pool_allows_def [symmetric] gen_start_def [symmetric]
    by (simp add: demo_tunnels demo_peers e peers_of_def [symmetric] live_of_def [symmetric] g x stable [simplified] addr del: chain_endpoints.simps)
qed

definition demo_out :: "sb_options \<times> rule_diag list \<times> compiled list" where
  "demo_out = projr (generatePolicyWithPlan demo_sb_env demo_policy)"

lemma demo_generated:
  "generatePolicyWithPlan demo_sb_env demo_policy = Inr (fst demo_out, fst (snd demo_out), snd (snd demo_out))"
  "map demo_view (snd (snd demo_out)) = [(''r1'', Route (ChainTag ''w'' ''a''), [], [ruleSetTag ''r1'' @ ''-dns''], False), (''r2'', Reject, [], [ruleSetTag ''r2'' @ ''-dns''], False)]"
  "map ex_tag (so_outbounds (fst demo_out)) = [TagDirect, poolMemberTag ''q'' 0, TunnelTag ''q'']"
proof -
  from demo_runs obtain opts diags plan where r: "generatePolicyWithPlan demo_sb_env demo_policy = Inr (opts, diags, plan)"
    "map demo_view plan = [(''r1'', Route (ChainTag ''w'' ''a''), [], [ruleSetTag ''r1'' @ ''-dns''], False), (''r2'', Reject, [], [ruleSetTag ''r2'' @ ''-dns''], False)]"
    "map ex_tag (so_outbounds opts) = [TagDirect, poolMemberTag ''q'' 0, TunnelTag ''q'']" by (elim exE conjE)
  then show "generatePolicyWithPlan demo_sb_env demo_policy = Inr (fst demo_out, fst (snd demo_out), snd (snd demo_out))"
    "map demo_view (snd (snd demo_out)) = [(''r1'', Route (ChainTag ''w'' ''a''), [], [ruleSetTag ''r1'' @ ''-dns''], False), (''r2'', Reject, [], [ruleSetTag ''r2'' @ ''-dns''], False)]"
    "map ex_tag (so_outbounds (fst demo_out)) = [TagDirect, poolMemberTag ''q'' 0, TunnelTag ''q'']"
    by (simp_all add: demo_out_def)
qed


section \<open>Rules fail closed\<close>

text \<open>What a route rule compiled from a rule of the database may do.  It always names rule sets; a rule for selected clients
  always names sources, all of them addresses of clients it selects; a blocking rule refuses; a rule through a tunnel
  refuses or leaves by the enabled tunnel, or by the enabled chain, that it asks for.\<close>

definition keeps_to_rule :: "snapshot \<Rightarrow> rule \<Rightarrow> route_rule \<Rightarrow> bool" where
  "keeps_to_rule sn r q \<longleftrightarrow> (\<exists>tags srcs a. q = DefaultRule (no_raw\<lparr>rr_rule_set := tags, rr_source_ip_cidr := srcs\<rparr>) a \<and> tags \<noteq> []
     \<and> (if r_peer_scope r = ScopeSelected
        then srcs \<noteq> [] \<and> (\<forall>c \<in> set srcs. \<exists>p \<in> set (sn_peers sn). p_id p \<in> set (r_peer_ids r) \<and> cidr (p_address p) = Some c)
        else srcs = [])
     \<and> (r_action r = ActionBlock \<longrightarrow> a = Reject)
     \<and> (r_action r = ActionTunnel \<longrightarrow> a = Reject \<or> (\<exists>t \<in> set (sn_tunnels sn). t_id t = r_tunnel_id r \<and> t_enabled t \<and>
          (r_via_tunnel_id r = [] \<and> a = Route (TunnelTag (t_id t))
         \<or> (\<exists>via \<in> set (sn_tunnels sn). t_id via = r_via_tunnel_id r \<and> t_enabled via \<and> t_source via = SourceWARP
              \<and> a = Route (ChainTag (t_id via) (t_id t)))))))"

lemma peer_addresses_member:
  "peer_addresses ps = Inr m \<Longrightarrow> (i, c, e) \<in> set m \<Longrightarrow> \<exists>p \<in> set ps. p_id p = i \<and> cidr (p_address p) = Some c"
  by (induction ps arbitrary: m) (auto simp: bindR_Inr_iff split: option.splits if_splits)

lemma peers_of_Some: "peers_of m i = Some c \<Longrightarrow> \<exists>e. (i, c, e) \<in> set m"
  unfolding peers_of_def last_of_def by (force dest: map_of_SomeD)

lemma sourceCIDRs_members:
  assumes "c \<in> set (fst (sourceCIDRs r peers live))"
  shows "\<exists>i \<in> set (r_peer_ids r). peers i = Some c"
  using assms by (auto simp: sourceCIDRs_def Let_def split: if_splits)

lemma exit_ok_kept:
  assumes "exit_ok (tunnels_of sn) skipped chs r a"
  shows "r_action r = ActionBlock \<Longrightarrow> a = Reject"
    and "r_action r = ActionTunnel \<Longrightarrow> a = Reject \<or> (\<exists>t \<in> set (sn_tunnels sn). t_id t = r_tunnel_id r \<and> t_enabled t \<and>
          (r_via_tunnel_id r = [] \<and> a = Route (TunnelTag (t_id t))
         \<or> (\<exists>via \<in> set (sn_tunnels sn). t_id via = r_via_tunnel_id r \<and> t_enabled via \<and> t_source via = SourceWARP
              \<and> a = Route (ChainTag (t_id via) (t_id t)))))"
proof -
  show "a = Reject" if "r_action r = ActionBlock" using assms that by (simp add: exit_ok_def)
  assume act: "r_action r = ActionTunnel"
  show "a = Reject \<or> (\<exists>t \<in> set (sn_tunnels sn). t_id t = r_tunnel_id r \<and> t_enabled t \<and>
          (r_via_tunnel_id r = [] \<and> a = Route (TunnelTag (t_id t))
         \<or> (\<exists>via \<in> set (sn_tunnels sn). t_id via = r_via_tunnel_id r \<and> t_enabled via \<and> t_source via = SourceWARP
              \<and> a = Route (ChainTag (t_id via) (t_id t)))))"
  proof (cases "a = Reject")
    case False
    then obtain t where t: "tunnels_of sn (r_tunnel_id r) = Some t" "t_enabled t"
      "r_via_tunnel_id r = [] \<and> a = Route (TunnelTag (t_id t))
       \<or> (\<exists>via. tunnels_of sn (r_via_tunnel_id r) = Some via \<and> t_enabled via \<and> t_source via = SourceWARP \<and> a = Route (ChainTag (t_id via) (t_id t)))"
      using assms act by (auto simp: exit_ok_def)
    from tunnels_of_Some [OF t(1)] tunnels_of_Some [of sn "r_via_tunnel_id r"] t(2,3) show ?thesis by blast
  qed simp
qed

lemma stages_rule_kept:
  assumes "stages env sn opts plan s" "c \<in> set plan"
  shows "\<exists>r \<in> set (sn_rules sn). r_enabled r \<and> r_id r = cd_id c \<and> keeps_to_rule sn r (cd_route c)"
proof -
  from stages_rule [OF assms] obtain r where r: "r \<in> set (sn_rules sn)" "r_enabled r" "cd_id c = r_id r"
    "rule_ok env (tunnels_of sn) (sg_skipped s) (peers_of (sg_addrs s)) (live_of (sg_addrs s)) (sg_rules s) r c" .
  let ?srcs = "fst (sourceCIDRs r (peers_of (sg_addrs s)) (live_of (sg_addrs s)))"
  from r(4) obtain tags a where c: "cd_route c = DefaultRule (no_raw\<lparr>rr_rule_set := tags, rr_source_ip_cidr := ?srcs\<rparr>) a" "tags \<noteq> []"
    "exit_ok (tunnels_of sn) (sg_skipped s) (chain_tags (gs_chains (sg_rules s))) r a" "r_peer_scope r = ScopeSelected \<longrightarrow> ?srcs \<noteq> []"
    unfolding rule_ok_def by blast
  have "\<exists>p \<in> set (sn_peers sn). p_id p \<in> set (r_peer_ids r) \<and> cidr (p_address p) = Some x" if x: "x \<in> set ?srcs" for x
  proof -
    from sourceCIDRs_members [OF x] obtain i where i: "i \<in> set (r_peer_ids r)" "peers_of (sg_addrs s) i = Some x" by blast
    from peers_of_Some [OF i(2)] peer_addresses_member [OF stages_addrs [OF assms(1)]] i(1) show ?thesis by blast
  qed
  moreover have "r_peer_scope r \<noteq> ScopeSelected \<Longrightarrow> ?srcs = []" by (simp add: sourceCIDRs_def)
  ultimately have "keeps_to_rule sn r (cd_route c)"
    unfolding keeps_to_rule_def using c exit_ok_kept [OF c(3)] by (intro exI [of _ tags] exI [of _ ?srcs] exI [of _ a] conjI) auto
  then show ?thesis using r by auto
qed



section \<open>Which rules are compiled\<close>

lemma gen_rules_step:
  assumes "gen_rules env tunnels skipped peers live rs g = Inr g'" "r \<in> set rs"
  obtains g1 g2 where "gen_rule env tunnels skipped peers live r g1 = Inr g2"
  using assms by (induction rs arbitrary: g) (auto simp: bindR_Inr_iff)

text \<open>In a generation that succeeds a rule is compiled exactly when it has sources and destinations.\<close>

lemma compiled_iff:
  assumes "gen_rule env tunnels skipped peers live r g = Inr g'"
  shows "(\<exists>c. compiled_of env tunnels skipped peers live r = Some c) \<longleftrightarrow>
    \<not> bs_err (buildRuleSets env r) \<and> bs_route_tags (buildRuleSets env r) \<noteq> [] \<and> (r_peer_scope r = ScopeSelected \<longrightarrow> fst (sourceCIDRs r peers live) \<noteq> [])"
proof -
  obtain src sl where src: "sourceCIDRs r peers live = (src, sl)" by fastforce
  show ?thesis
  proof (cases "r_peer_scope r = ScopeSelected \<and> src = []")
    case True
    then show ?thesis using src by (auto simp: compiled_of_def Let_def split: sum.splits)
  next
    case False
    then obtain ex where "rule_exit tunnels skipped r = Inr ex" "\<not> bs_err (buildRuleSets env r)"
      using assms src by (auto simp: gen_rule_def bindR_Inr_iff Let_def split: if_splits)
    then show ?thesis using src False by (auto simp: compiled_of_def Let_def)
  qed
qed

lemma sourceCIDRs_empty:
  "r_peer_scope r = ScopeSelected \<Longrightarrow> fst (sourceCIDRs r peers live) = [] \<longleftrightarrow> (\<forall>i \<in> set (r_peer_ids r). peers i = None)"
  by (auto simp: sourceCIDRs_def Let_def filter_empty_conv)

lemma peer_addresses_covers:
  "peer_addresses ps = Inr m \<Longrightarrow> p \<in> set ps \<Longrightarrow> cidr (p_address p) = Some c \<Longrightarrow> (p_id p, c, p_enabled p) \<in> set m"
  by (induction ps arbitrary: m) (auto simp: bindR_Inr_iff split: option.splits if_splits)

lemma peers_of_None: "peers_of m i = None \<longleftrightarrow> (\<forall>c e. (i, c, e) \<notin> set m)"
  unfolding peers_of_def last_of_def by (force simp: map_of_eq_None_iff)

lemma plan_ids:
  assumes "distinct (map r_id rs)" "r \<in> set rs"
  shows "r_id r \<in> cd_id ` set (plan_of env tunnels skipped peers live rs) \<longleftrightarrow> (\<exists>c. compiled_of env tunnels skipped peers live r = Some c)"
proof
  assume "r_id r \<in> cd_id ` set (plan_of env tunnels skipped peers live rs)"
  then obtain c q where c: "r_id r = cd_id c" "q \<in> set rs" "compiled_of env tunnels skipped peers live q = Some c" by (auto simp: plan_of_member)
  then have "q = r" using compiled_of_id [OF c(3)] assms inj_onD [of r_id "set rs" q r] by (simp add: distinct_map)
  then show "\<exists>c. compiled_of env tunnels skipped peers live r = Some c" using c by blast
next
  assume "\<exists>c. compiled_of env tunnels skipped peers live r = Some c"
  then obtain c where "compiled_of env tunnels skipped peers live r = Some c" ..
  then show "r_id r \<in> cd_id ` set (plan_of env tunnels skipped peers live rs)"
    using assms(2) compiled_of_id by (force simp: plan_of_member)
qed

text \<open>C10: which rules reach the configuration.  When generation succeeds, a rule of the database has a route rule exactly when
  the predicate of the route probe says so and, for a rule of selected clients, at least one selected client exists with a
  readable address.  An enabled rule with conditions is therefore never dropped silently, which would let its traffic
  out directly.\<close>

theorem RuleInConfig_agrees:
  assumes "generatePolicyWithPlan env sn = Inr (opts, diags, plan)" "distinct (map r_id (sn_rules sn))" "r \<in> set (sn_rules sn)"
  shows "r_id r \<in> cd_id ` set plan \<longleftrightarrow> RuleInConfig env r
    \<and> (r_peer_scope r = ScopeSelected \<longrightarrow> (\<exists>p \<in> set (sn_peers sn). p_id p \<in> set (r_peer_ids r) \<and> cidr (p_address p) \<noteq> None))"
proof -
  from generate_stages [OF assms(1)] obtain s where s: "stages env sn opts plan s" .
  let ?peers = "peers_of (sg_addrs s)" and ?live = "live_of (sg_addrs s)" and ?rs = "sortedRules (sn_rules sn)"
  have plan: "plan = plan_of env (tunnels_of sn) (sg_skipped s) ?peers ?live ?rs"
    using gen_rules_plan [OF stages_rules [OF s]] stages_options(8) [OF s] by simp
  have inj: "inj_on r_id (set (sn_rules sn))" using assms(2) by (simp add: distinct_map)
  have dist: "distinct (map r_id ?rs)"
    using assms(2) by (simp add: sortedRules_def distinct_map inj_on_def)
  show ?thesis
  proof (cases "r_enabled r")
    case False
    have "r_id r \<notin> cd_id ` set plan"
    proof
      assume "r_id r \<in> cd_id ` set plan"
      then obtain q where "q \<in> set ?rs" "r_id q = r_id r" unfolding plan using compiled_of_id by (force simp: plan_of_member)
      then show False using False inj assms(3) by (auto dest: inj_onD)
    qed
    then show ?thesis using False by (simp add: RuleInConfig_def)
  next
    case True
    then have r: "r \<in> set ?rs" using assms(3) by simp
    obtain g1 g2 where g: "gen_rule env (tunnels_of sn) (sg_skipped s) ?peers ?live r g1 = Inr g2"
      using gen_rules_step [OF stages_rules [OF s] r] .
    have "(\<exists>i \<in> set (r_peer_ids r). ?peers i \<noteq> None) \<longleftrightarrow> (\<exists>p \<in> set (sn_peers sn). p_id p \<in> set (r_peer_ids r) \<and> cidr (p_address p) \<noteq> None)"
      using peer_addresses_member [OF stages_addrs [OF s]] peer_addresses_covers [OF stages_addrs [OF s]] by (auto simp: peers_of_None) blast+
    then show ?thesis
      unfolding plan plan_ids [OF dist r] compiled_iff [OF g] RuleInConfig_def Let_def using True sourceCIDRs_empty [of r ?peers ?live] by auto
  qed
qed

theorem RuleInConfig_agrees_witness:
  "r_id (demo_tunneled ''r2'' 2 ''x'' []) \<in> cd_id ` set (snd (snd demo_out)) \<and> RuleInConfig demo_sb_env (demo_tunneled ''r2'' 2 ''x'' [])"
proof -
  have r: "demo_tunneled ''r2'' 2 ''x'' [] \<in> set (sn_rules demo_policy)" by (simp add: demo_policy_def)
  have d: "distinct (map r_id (sn_rules demo_policy))" by (simp add: demo_policy_def demo_tunneled_def demo_rule_def)
  have "map cd_id (snd (snd demo_out)) = map fst (map demo_view (snd (snd demo_out)))" by (simp add: demo_view_def)
  then have "r_id (demo_tunneled ''r2'' 2 ''x'' []) \<in> set (map cd_id (snd (snd demo_out)))"
    unfolding demo_generated(2) by (simp add: demo_tunneled_def demo_rule_def)
  then show ?thesis using RuleInConfig_agrees [OF demo_generated(1) d r] by simp
qed

section \<open>Clients with an exit of their own\<close>

lemma egress_ends:
  assumes "p_egress_tunnel_id p = Some i"
  shows "\<exists>a. source_rule (host_cidr p) a \<in> set (egress_routes tunnels skipped p) \<and> ends_routing a"
  using assms by (auto simp: egress_routes_def)

lemma egress_actions:
  assumes "q \<in> set (egress_routes tunnels skipped p)" "p_egress_tunnel_id p = Some i" "ends_routing (rule_act q)"
  shows "rule_act q = Reject \<or> rule_act q = Route (TunnelTag i) \<and> p_enabled p \<and> exit_live tunnels skipped i"
  using assms by (auto simp: egress_routes_def source_rule_def split: if_splits)

lemma egress_source:
  assumes "q \<in> set (egress_routes tunnels skipped p)"
  shows "\<exists>ips act. q = DefaultRule (no_raw\<lparr>rr_source_ip_cidr := [host_cidr p], rr_ip_cidr := ips\<rparr>) act \<and> p_egress_tunnel_id p \<noteq> None"
proof -
  have "no_raw\<lparr>rr_source_ip_cidr := [c]\<rparr> = no_raw\<lparr>rr_source_ip_cidr := [c], rr_ip_cidr := []\<rparr>" for c by (simp add: no_raw_def)
  then show ?thesis using assms by (cases "p_egress_tunnel_id p") (auto simp: egress_routes_def source_rule_def split: if_splits)
qed

text \<open>C5: a client with an exit of its own leaves by it or not at all.  Take a connection from the address of such a client,
  which no other client with an exit of its own shares: the core accepts every rule that asks for this source only, and no
  rule that asks for another host; how it matches the remaining rules, and what it learns while it resolves and
  sniffs, is left open.  Then the core hands the connection to the resolver, refuses it or sends it through that tunnel,
  never straight out or through the tunnel of a rule; and it sends it through the tunnel only while both the client and
  the tunnel are enabled.\<close>

theorem whole_client_exit:
  assumes "generatePolicyWithPlan env sn = Inr (opts, diags, plan)"
    and "p \<in> set (sn_peers sn)" "p_egress_tunnel_id p = Some i" "ParseAddr (p_address p) = Some (IP4 w)"
    and "\<forall>q \<in> set (sn_peers sn). p_egress_tunnel_id q \<noteq> None \<and> ParseAddr (p_address q) = Some (IP4 w) \<longrightarrow> q = p"
    and "\<forall>c act. m c (source_rule (prefix_text (IP4 w) 32) act)"
    and "\<forall>c v ips act. m c (DefaultRule (no_raw\<lparr>rr_source_ip_cidr := [prefix_text (IP4 v) 32], rr_ip_cidr := ips\<rparr>) act) \<longrightarrow> v = w"
  shows "decide m upd c (so_final opts) (so_rules opts) \<in> {HijackDNS, Reject, Route (TunnelTag i)}
    \<and> (decide m upd c (so_final opts) (so_rules opts) = Route (TunnelTag i) \<longrightarrow> p_enabled p \<and> (\<exists>t \<in> set (sn_tunnels sn). t_id t = i \<and> t_enabled t))"
proof -
  from generate_stages [OF assms(1)] obtain s where s: "stages env sn opts plan s" .
  let ?blocks = "concat (map (egress_routes (tunnels_of sn) (sg_skipped s)) (sn_peers sn))"
  note eg = peer_egress_all_rules [OF stages_egress [OF s]]
  have rules: "so_rules opts = (hijack_rule # ?blocks) @ gs_rules (sg_rules s)" using stages_options(4) [OF s] eg by simp
  have host: "host_cidr p = prefix_text (IP4 w) 32" using assms(4) by (simp add: host_cidr_def)
  from egress_ends [OF assms(3), of "tunnels_of sn" "sg_skipped s"] obtain a where
    a: "source_rule (host_cidr p) a \<in> set (egress_routes (tunnels_of sn) (sg_skipped s) p)" "ends_routing a" by blast
  have hit: "source_rule (host_cidr p) a \<in> set (hijack_rule # ?blocks)" "\<forall>c. m c (source_rule (host_cidr p) a)"
    "ends_routing (rule_act (source_rule (host_cidr p) a))"
    using a assms(2,6) host by (auto simp: source_rule_def)
  have outcome: "rule_act q \<in> {HijackDNS, Reject} \<or> rule_act q = Route (TunnelTag i) \<and> p_enabled p \<and> exit_live (tunnels_of sn) (sg_skipped s) i"
    if "q \<in> set (hijack_rule # ?blocks)" "ends_routing (rule_act q)" "m k q" for q k
  proof (cases "q = hijack_rule")
    case False
    with that obtain p' where p': "p' \<in> set (sn_peers sn)" "q \<in> set (egress_routes (tunnels_of sn) (sg_skipped s) p')" by auto
    from egress_source [OF p'(2)] obtain ips act where q: "q = DefaultRule (no_raw\<lparr>rr_source_ip_cidr := [host_cidr p'], rr_ip_cidr := ips\<rparr>) act"
      "p_egress_tunnel_id p' \<noteq> None" by blast
    with eg p'(1) obtain v where v: "ParseAddr (p_address p') = Some (IP4 v)" by blast
    then have "v = w" using that(3) q(1) assms(7) by (auto simp: host_cidr_def)
    then have "p' = p" using assms(5) p'(1) q(2) v by blast
    then show ?thesis using egress_actions [OF p'(2) _ that(2), of i] assms(3) by auto
  qed (simp add: hijack_rule_def)
  have "decide m upd c (so_final opts) (so_rules opts) \<in> rule_act ` {r \<in> set (hijack_rule # ?blocks). ends_routing (rule_act r) \<and> (\<exists>c. m c r)}"
    unfolding rules by (rule decide_before [where m = m, OF hit(1,3,2)])
  then obtain q k where q: "decide m upd c (so_final opts) (so_rules opts) = rule_act q" "q \<in> set (hijack_rule # ?blocks)" "ends_routing (rule_act q)" "m k q"
    by blast
  from outcome [OF q(2-4)] show ?thesis unfolding q(1) using tunnels_of_Some by (auto simp: exit_live_def)
qed

lemma prefix_text_inj:
  assumes "prefix_text (IP4 v) n = prefix_text (IP4 w) n"
  shows "v = w"
proof -
  have "ip_String (IP4 v) = ip_String (IP4 w)" using assms unfolding prefix_text_def by (rule append_same_eq [THEN iffD1])
  then have "ParseAddr (ip_String (IP4 v)) = ParseAddr (ip_String (IP4 w))" by (rule arg_cong)
  then show ?thesis unfolding ParseAddr_IP4 by simp
qed

lemma demo_client:
  "sn_peers demo_policy = [(demo_peer ''p'')\<lparr>p_address := ''10.8.0.2'', p_egress_tunnel_id := Some ''a''\<rparr>]"
  by (simp add: demo_policy_def)

text \<open>A matcher that looks at the source only, and takes everything to be outside the local networks.\<close>

definition demo_match :: "unit \<Rightarrow> route_rule \<Rightarrow> bool" where
  "demo_match c q \<longleftrightarrow> rr_source_ip_cidr (rule_raw q) = [prefix_text (IP4 0x0A080002) 32] \<and> rr_ip_cidr (rule_raw q) = []"

theorem whole_client_exit_witness:
  "decide demo_match (\<lambda>c a. c) () (so_final (fst demo_out)) (so_rules (fst demo_out)) \<in> {HijackDNS, Reject, Route (TunnelTag ''a'')}"
proof -
  let ?p = "(demo_peer ''p'')\<lparr>p_address := ''10.8.0.2'', p_egress_tunnel_id := Some ''a''\<rparr>"
  have p: "?p \<in> set (sn_peers demo_policy)" "p_egress_tunnel_id ?p = Some ''a''" "ParseAddr (p_address ?p) = Some (IP4 0x0A080002)"
    by (simp_all add: demo_client demo_addresses)
  have one: "\<forall>q \<in> set (sn_peers demo_policy). p_egress_tunnel_id q \<noteq> None \<and> ParseAddr (p_address q) = Some (IP4 0x0A080002) \<longrightarrow> q = ?p"
    by (simp add: demo_client)
  have src: "\<forall>c act. demo_match c (source_rule (prefix_text (IP4 0x0A080002) 32) act)"
    by (simp add: demo_match_def source_rule_def no_raw_def)
  have other: "\<forall>c v ips act. demo_match c (DefaultRule (no_raw\<lparr>rr_source_ip_cidr := [prefix_text (IP4 v) 32], rr_ip_cidr := ips\<rparr>) act) \<longrightarrow> v = 0x0A080002"
    using prefix_text_inj by (auto simp: demo_match_def)
  from whole_client_exit [OF demo_generated(1) p one src other] show ?thesis by (rule conjunct1)
qed

section \<open>Name resolution of such a client\<close>

text \<open>The core answers a query by the first DNS rule that matches it, else by the final server.\<close>

definition dns_decide :: "(dns_rule \<Rightarrow> bool) \<Rightarrow> dns_options \<Rightarrow> dns_action" where
  "dns_decide m d = (case find m (do_rules d) of Some q \<Rightarrow> dns_act q | None \<Rightarrow> DnsRoute (do_final d) None False)"

lemma find_before: "q \<in> set rs \<Longrightarrow> m q \<Longrightarrow> \<exists>r. find m (rs @ qs) = Some r \<and> r \<in> set rs \<and> m r"
  by (induction rs) auto

lemma egress_dns_ends:
  assumes "p_egress_tunnel_id p = Some i"
  shows "\<exists>a. egress_dns tunnels skipped p = [DnsRule (no_dns_raw\<lparr>dr_source_ip_cidr := [host_cidr p]\<rparr>) a]
    \<and> (a = DnsReject \<or> a = DnsRoute (peer_dns_tag i) None True \<and> p_enabled p \<and> exit_live tunnels skipped i)"
  using assms by (auto simp: egress_dns_def)

text \<open>Each resolver of a client sends its queries through the tunnel.\<close>

definition resolver_through :: "dns_options \<Rightarrow> string \<Rightarrow> bool" where
  "resolver_through d i \<longleftrightarrow> (\<exists>ty rd. RemoteServer ty (peer_dns_tag i) rd \<in> set (do_servers d) \<and> rd_detour rd = TunnelTag i)"

lemma peer_resolver_through: "peer_resolver st i = Inr ss \<Longrightarrow> \<exists>ty rd. RemoteServer ty (peer_dns_tag i) rd \<in> set ss \<and> rd_detour rd = TunnelTag i"
  by (cases "upstreamServer st"; cases "projr (upstreamServer st)") (auto simp: peer_resolver_def bootstrap_server_def Let_def split: if_splits)

lemma resolver_through_mono: "resolver_through d i \<Longrightarrow> set (do_servers d) \<subseteq> set (do_servers d') \<Longrightarrow> resolver_through d' i"
  unfolding resolver_through_def by blast

lemma peer_egress_one_through:
  assumes "peer_egress_one st tunnels skipped p e = Inr e'" "\<forall>i \<in> set (eg_seen e). resolver_through (eg_dns e) i"
  shows "\<forall>i \<in> set (eg_seen e'). resolver_through (eg_dns e') i" "set (do_servers (eg_dns e)) \<subseteq> set (do_servers (eg_dns e'))"
    "p_egress_tunnel_id p = Some i \<Longrightarrow> p_enabled p \<Longrightarrow> exit_live tunnels skipped i \<Longrightarrow> i \<in> set (eg_seen e')"
proof -
  have add: "eg_seen (add_rules rs d x) = eg_seen x" "do_servers (eg_dns (add_rules rs d x)) = do_servers (eg_dns x)"
    "resolver_through (eg_dns (add_rules rs d x)) j = resolver_through (eg_dns x) j" for rs d x j
    by (simp_all add: add_rules_def resolver_through_def)
  consider "p_egress_tunnel_id p = None" "e' = e"
    | j rs d where "p_egress_tunnel_id p = Some j" "\<not> (p_enabled p \<and> exit_live tunnels skipped j) \<or> j \<in> set (eg_seen e)" "e' = add_rules rs d e"
    | j rs d ss where "p_egress_tunnel_id p = Some j" "peer_resolver st j = Inr ss"
      "e' = add_rules rs d (e\<lparr>eg_dns := (eg_dns e)\<lparr>do_servers := do_servers (eg_dns e) @ ss\<rparr>, eg_seen := j # eg_seen e\<rparr>)"
    using assms(1) unfolding peer_egress_one_def exit_live_iff
    by (auto simp: bindR_Inr_iff Let_def split: option.splits ip.splits if_splits)
  note cs = this
  show "\<forall>i \<in> set (eg_seen e'). resolver_through (eg_dns e') i"
    using cs assms(2) peer_resolver_through by cases (fastforce simp: add resolver_through_def)+
  show "set (do_servers (eg_dns e)) \<subseteq> set (do_servers (eg_dns e'))" using cs by cases (auto simp: add)
  show "i \<in> set (eg_seen e')" if "p_egress_tunnel_id p = Some i" "p_enabled p" "exit_live tunnels skipped i"
    using cs that by cases (auto simp: add)
qed

lemma peer_egress_all_through:
  assumes "peer_egress_all st tunnels skipped ps e = Inr e'" "\<forall>i \<in> set (eg_seen e). resolver_through (eg_dns e) i"
  shows "(\<forall>i \<in> set (eg_seen e). resolver_through (eg_dns e') i)
    \<and> (\<forall>p \<in> set ps. \<forall>i. p_egress_tunnel_id p = Some i \<longrightarrow> p_enabled p \<longrightarrow> exit_live tunnels skipped i \<longrightarrow> resolver_through (eg_dns e') i)"
  using assms
proof (induction ps arbitrary: e)
  case (Cons p ps)
  then obtain e1 where e1: "peer_egress_one st tunnels skipped p e = Inr e1" "peer_egress_all st tunnels skipped ps e1 = Inr e'"
    by (auto simp: bindR_Inr_iff)
  note one = peer_egress_one_through [OF e1(1) Cons.prems(2)]
  note rest = Cons.IH [OF e1(2) one(1)]
  have "set (eg_seen e) \<subseteq> set (eg_seen e1)"
    using e1(1) by (auto simp: peer_egress_one_def add_rules_def bindR_Inr_iff Let_def split: option.splits ip.splits if_splits)
  then show ?case using rest one(3) by auto
qed simp

text \<open>C11: a client with an exit of its own does not leak its queries.  Take a query from its address, matched as above.
  It is refused or answered by the resolver of the client's tunnel, never by the global resolver and never with a fake
  address of a rule; and when it is answered, client and tunnel are enabled and that resolver is reached through the
  tunnel.\<close>

theorem whole_client_dns:
  assumes "generatePolicyWithPlan env sn = Inr (opts, diags, plan)"
    and "p \<in> set (sn_peers sn)" "p_egress_tunnel_id p = Some i" "ParseAddr (p_address p) = Some (IP4 w)"
    and "\<forall>q \<in> set (sn_peers sn). p_egress_tunnel_id q \<noteq> None \<and> ParseAddr (p_address q) = Some (IP4 w) \<longrightarrow> q = p"
    and "\<forall>v act. m (DnsRule (no_dns_raw\<lparr>dr_source_ip_cidr := [prefix_text (IP4 v) 32]\<rparr>) act) \<longleftrightarrow> v = w"
  shows "dns_decide m (so_dns opts) = DnsReject
    \<or> dns_decide m (so_dns opts) = DnsRoute (peer_dns_tag i) None True \<and> p_enabled p \<and> resolver_through (so_dns opts) i"
proof -
  from generate_stages [OF assms(1)] obtain s where s: "stages env sn opts plan s" .
  let ?blocks = "concat (map (egress_dns (tunnels_of sn) (sg_skipped s)) (sn_peers sn))"
  note eg = peer_egress_all_rules [OF stages_egress [OF s]] and base = buildDNS_rules(1) [OF stages_dns [OF s]]
  have rules: "do_rules (so_dns opts) = (do_rules (sg_dns s) @ ?blocks) @ gs_dns_rules (sg_rules s)" using stages_options(2) [OF s] eg by simp
  have thru: "resolver_through (so_dns opts) i" if "p_enabled p" "exit_live (tunnels_of sn) (sg_skipped s) i"
    using peer_egress_all_through [OF stages_egress [OF s]] assms(2,3) that stages_options(2) [OF s] by (auto simp: resolver_through_def)
  from egress_dns_ends [OF assms(3), of "tunnels_of sn" "sg_skipped s"] obtain a where
    a: "egress_dns (tunnels_of sn) (sg_skipped s) p = [DnsRule (no_dns_raw\<lparr>dr_source_ip_cidr := [host_cidr p]\<rparr>) a]"
    "a = DnsReject \<or> a = DnsRoute (peer_dns_tag i) None True \<and> p_enabled p \<and> exit_live (tunnels_of sn) (sg_skipped s) i" by blast
  let ?q = "DnsRule (no_dns_raw\<lparr>dr_source_ip_cidr := [host_cidr p]\<rparr>) a"
  have "?q \<in> set (egress_dns (tunnels_of sn) (sg_skipped s) p)" unfolding a(1) by simp
  then have "?q \<in> set (do_rules (sg_dns s) @ ?blocks)" using assms(2) by auto
  moreover have "m ?q" using assms(4,6) by (simp add: host_cidr_def)
  ultimately have "\<exists>r. find m (do_rules (so_dns opts)) = Some r \<and> r \<in> set (do_rules (sg_dns s) @ ?blocks) \<and> m r"
    unfolding rules by (rule find_before)
  then obtain r where r: "find m (do_rules (so_dns opts)) = Some r" "r \<in> set (do_rules (sg_dns s) @ ?blocks)" "m r" by (elim exE conjE)
  have "dns_act r = DnsReject \<or> dns_act r = a"
  proof (cases "r \<in> set (do_rules (sg_dns s))")
    case True
    then show ?thesis using base by (auto simp: dns_reject_def)
  next
    case False
    with r(2) obtain p' j where p': "p' \<in> set (sn_peers sn)" "r \<in> set (egress_dns (tunnels_of sn) (sg_skipped s) p')" "p_egress_tunnel_id p' = Some j"
      by (auto simp: egress_dns_def split: option.splits)
    with eg obtain v where v: "ParseAddr (p_address p') = Some (IP4 v)" by blast
    from egress_dns_ends [OF p'(3), of "tunnels_of sn" "sg_skipped s"] p'(2) obtain b where
      "r = DnsRule (no_dns_raw\<lparr>dr_source_ip_cidr := [host_cidr p']\<rparr>) b" by auto
    then have "v = w" using r(3) v assms(6) by (simp add: host_cidr_def)
    then have "p' = p" using assms(5) p' v by blast
    then show ?thesis using p'(2) a(1) by auto
  qed
  then show ?thesis using a(2) thru by (auto simp: dns_decide_def r(1))
qed

theorem whole_client_dns_witness:
  "dns_decide (\<lambda>d. dr_source_ip_cidr (dns_raw d) = [prefix_text (IP4 0x0A080002) 32]) (so_dns (fst demo_out))
   \<in> {DnsReject, DnsRoute (peer_dns_tag ''a'') None True}"
proof -
  let ?p = "(demo_peer ''p'')\<lparr>p_address := ''10.8.0.2'', p_egress_tunnel_id := Some ''a''\<rparr>"
  let ?m = "\<lambda>d. dr_source_ip_cidr (dns_raw d) = [prefix_text (IP4 0x0A080002) 32]"
  have p: "?p \<in> set (sn_peers demo_policy)" "p_egress_tunnel_id ?p = Some ''a''" "ParseAddr (p_address ?p) = Some (IP4 0x0A080002)"
    by (simp_all add: demo_client demo_addresses)
  have one: "\<forall>q \<in> set (sn_peers demo_policy). p_egress_tunnel_id q \<noteq> None \<and> ParseAddr (p_address q) = Some (IP4 0x0A080002) \<longrightarrow> q = ?p"
    by (simp add: demo_client)
  have src: "\<forall>v act. ?m (DnsRule (no_dns_raw\<lparr>dr_source_ip_cidr := [prefix_text (IP4 v) 32]\<rparr>) act) \<longleftrightarrow> v = 0x0A080002"
    using prefix_text_inj by auto
  from whole_client_dns [where m = ?m, OF demo_generated(1) p one src] show ?thesis
    unfolding insert_iff by (elim disjE conjE) (intro disjI1 disjI2, assumption)+
qed

section \<open>Pools\<close>

text \<open>What holds of an exit of the configuration that belongs to a pool: a member is a server of an enabled pool tunnel that the
  filter lets through, with the certificate checked whatever its link says; a group has between one and 64 members, no
  two with the same tag.\<close>

definition pool_exit_ok :: "sb_env \<Rightarrow> snapshot \<Rightarrow> sb_exit \<Rightarrow> bool" where
  "pool_exit_ok env sn x \<longleftrightarrow> (case ex_options x of
     MemberOptions body tls \<Rightarrow> tls \<noteq> Some True \<and> (\<exists>t \<in> set (sn_tunnels sn). t_enabled t \<and> t_source t = SourcePool \<and>
        (\<exists>srv \<in> set (t_pool t). pool_allows env sn srv \<and> (\<exists>tls'. en_parse env (ps_url srv) = Some (ex_type x, body, tls'))))
   | URLTestOptions ts \<Rightarrow> ts \<noteq> [] \<and> length ts \<le> poolMaxServers \<and> distinct ts
   | _ \<Rightarrow> True)"

lemma select_from_sub: "set (select_from allows seen n ss) \<subseteq> {x \<in> set ss. allows x \<and> ps_url x \<noteq> [] \<and> ps_url x \<notin> set seen}"
  by (induction allows seen n ss rule: select_from.induct) auto

lemma select_from_bound: "n < poolMaxServers \<Longrightarrow> length (select_from allows seen n ss) + n \<le> poolMaxServers"
  by (induction allows seen n ss rule: select_from.induct) auto

lemma select_from_distinct: "distinct (map ps_url (select_from allows seen n ss))"
proof (induction allows seen n ss rule: select_from.induct)
  case (2 allows seen n s ss)
  then show ?case using select_from_sub [of allows "ps_url s # seen" "Suc n" ss] by auto
qed simp

lemma Itoa_nat_inj:
  assumes "Itoa (int m) = Itoa (int n)"
  shows "m = n"
proof -
  have "dec_digits (int m) = dec_digits (int n)" using assms by (simp add: Itoa_def)
  then have "digits_val (dec_digits (int m)) = digits_val (dec_digits (int n))" by (rule arg_cong)
  then show ?thesis by (simp add: digits_val_dec_digits)
qed

lemma poolMemberTag_inj: "poolMemberTag i m = poolMemberTag i n \<longleftrightarrow> m = n"
  using Itoa_nat_inj by (auto simp: poolMemberTag_def)

lemma pool_members_tags: "ex_tag ` set (pool_members env i n ss) \<subseteq> poolMemberTag i ` {n ..}"
proof (induction ss arbitrary: n)
  case (Cons s ss)
  have "poolMemberTag i ` {Suc n ..} \<subseteq> poolMemberTag i ` {n ..}" by auto
  with Cons [of "Suc n"] show ?case by (auto split: option.splits)
qed simp

lemma pool_members_distinct: "distinct (map ex_tag (pool_members env i n ss))"
proof (induction ss arbitrary: n)
  case (Cons s ss)
  have "poolMemberTag i n \<notin> ex_tag ` set (pool_members env i (Suc n) ss)"
    using pool_members_tags [of env i "Suc n" ss] by (auto simp: poolMemberTag_inj)
  then show ?case using Cons [of "Suc n"] by (auto split: option.splits)
qed simp

lemma pool_members_length: "length (pool_members env i n ss) \<le> length ss"
proof (induction ss arbitrary: n)
  case (Cons s ss)
  show ?case using Cons [of "Suc n"] by (auto split: option.splits intro: le_SucI)
qed simp

lemma pool_members_from:
  "x \<in> set (pool_members env i n ss) \<Longrightarrow> \<exists>srv \<in> set ss. \<exists>body tls. en_parse env (ps_url srv) = Some (ex_type x, body, tls)
    \<and> ex_options x = MemberOptions body (forceCertVerify tls)"
proof (induction ss arbitrary: n)
  case (Cons s ss)
  then have "x \<in> set (pool_members env i (Suc n) ss) \<or> (\<exists>body tls. en_parse env (ps_url s) = Some (ex_type x, body, tls)
    \<and> ex_options x = MemberOptions body (forceCertVerify tls))" by (auto split: option.splits)
  then show ?case using Cons.IH [of "Suc n"] by auto
qed simp

lemma buildPool_ok:
  assumes "buildPool env t (pool_allows env sn) = Some xs" "x \<in> set xs" "t \<in> set (sn_tunnels sn)" "t_enabled t" "t_source t = SourcePool"
  shows "pool_exit_ok env sn x"
proof -
  let ?srvs = "selectPoolServers (t_pool t) (pool_allows env sn)"
  let ?ms = "pool_members env (t_id t) 0 ?srvs"
  have ms: "?ms \<noteq> []" "x \<in> set ?ms \<or> ex_options x = URLTestOptions (map ex_tag ?ms)"
    using assms(1,2) by (auto simp: buildPool_def Let_def split: if_splits)
  have "length ?srvs \<le> poolMaxServers" using select_from_bound [of 0 "pool_allows env sn" "[]"] by (simp add: selectPoolServers_def poolMaxServers_def)
  then have len: "length ?ms \<le> poolMaxServers" using pool_members_length [of env "t_id t" 0 ?srvs] by simp
  from ms(2) show ?thesis
  proof
    assume "x \<in> set ?ms"
    from pool_members_from [OF this] obtain srv body tls where srv: "srv \<in> set ?srvs" "en_parse env (ps_url srv) = Some (ex_type x, body, tls)"
      "ex_options x = MemberOptions body (forceCertVerify tls)" by blast
    have "srv \<in> set (t_pool t)" "pool_allows env sn srv"
      using srv(1) select_from_sub [of "pool_allows env sn" "[]" 0 "t_pool t"] by (auto simp: selectPoolServers_def)
    then show ?thesis using srv(2,3) assms(3-5) by (auto simp: pool_exit_ok_def forceCertVerify_def split: option.splits bool.splits)
  next
    assume "ex_options x = URLTestOptions (map ex_tag ?ms)"
    then show ?thesis using ms(1) len pool_members_distinct by (simp add: pool_exit_ok_def)
  qed
qed

lemma buildTunnels_pools:
  assumes "buildTunnels env (pool_allows env sn) ts = Inr (eps, obs, sk)" "x \<in> set obs" "set ts \<subseteq> set (sn_tunnels sn)"
  shows "pool_exit_ok env sn x"
  using assms
proof (induction ts arbitrary: eps obs sk)
  case (Cons u ts)
  consider eps' sk' where "buildTunnels env (pool_allows env sn) ts = Inr (eps', obs, sk')"
    | eps' obs' y b sk' where "buildTunnels env (pool_allows env sn) ts = Inr (eps', obs', sk')" "obs = y # obs'" "ex_options y = RawOptions b"
    | eps' obs' grp sk' where "buildTunnels env (pool_allows env sn) ts = Inr (eps', obs', sk')" "buildPool env u (pool_allows env sn) = Some grp"
      "obs = grp @ obs'" "t_enabled u" "t_source u = SourcePool"
    using Cons.prems(1) by (auto simp: bindR_Inr_iff Let_def split: if_splits option.splits)
  then show ?case
  proof cases
    case 1
    then show ?thesis using Cons.IH Cons.prems(2,3) by auto
  next
    case 2
    then show ?thesis using Cons.IH [OF 2(1)] Cons.prems(2,3) by (auto simp: pool_exit_ok_def)
  next
    case 3
    then show ?thesis using Cons.IH [OF 3(1)] Cons.prems(2,3) buildPool_ok [OF 3(2) _ _ 3(4,5)] by auto
  qed
qed simp

lemma stabilize_pools:
  assumes "stabilizeWireGuardDetours env eps obs = Inr (eps', obs')" "x \<in> set obs'"
  shows "x \<in> set obs \<or> (\<exists>ts d. ex_options x = SelectorOptions ts d)"
proof -
  have one: "x \<in> set (al_outbounds a') \<Longrightarrow> x \<in> set (al_outbounds a) \<or> (\<exists>ts d. ex_options x = SelectorOptions ts d)"
    if "stabilize_one env ps ep a = Inr (ep', a')" for ps ep a ep' a'
    using that by (auto simp: stabilize_one_def alias_for_def bindR_Inr_iff Let_def split: if_splits option.splits)
  have "x \<in> set (al_outbounds a') \<Longrightarrow> x \<in> set (al_outbounds a) \<or> (\<exists>ts d. ex_options x = SelectorOptions ts d)"
    if "stabilize_all env ps es a = Inr (es', a')" for ps es a es' a'
    using that
  proof (induction es arbitrary: a es')
    case (Cons ep es)
    then obtain ep1 a1 es1 where "stabilize_one env ps ep a = Inr (ep1, a1)" "stabilize_all env ps es a1 = Inr (es1, a')" by (auto simp: bindR_Inr_iff)
    then show ?case using one Cons.IH Cons.prems(1) by blast
  qed simp
  then show ?thesis using assms by (fastforce simp: stabilizeWireGuardDetours_def bindR_Inr_iff)
qed

text \<open>C12: the members of pools are filtered and verified.  The servers of a pool come from a public catalogue.  Every member in
  the configuration is a server of an enabled pool that passes the country and encryption filter, its certificate is
  checked even when its link asks not to, and every group has at least one and at most 64 members under distinct tags.\<close>

theorem pool_members_verified:
  assumes "generatePolicyWithPlan env sn = Inr (opts, diags, plan)" "x \<in> set (so_outbounds opts)"
  shows "pool_exit_ok env sn x"
proof -
  from generate_stages [OF assms(1)] obtain s where s: "stages env sn opts plan s" .
  from assms(2) stages_options(1) [OF s] have "ex_options x = DirectOptions \<or> x \<in> set (tl (so_outbounds opts))"
    by (metis sb_exit.select_convs(3) set_ConsD)
  with stabilize_pools [OF stages_stable [OF s]] have "ex_options x = DirectOptions \<or> x \<in> set (sg_obs s) \<or> (\<exists>ts d. ex_options x = SelectorOptions ts d)" by blast
  then show ?thesis
    using buildTunnels_pools [OF stages_tunnels [OF s]] by (auto simp: pool_exit_ok_def)
qed

theorem pool_members_verified_witness:
  "\<exists>x \<in> set (so_outbounds (fst demo_out)). ex_tag x = poolMemberTag ''q'' 0 \<and> pool_exit_ok demo_sb_env demo_policy x"
proof -
  have "poolMemberTag ''q'' 0 \<in> set (map ex_tag (so_outbounds (fst demo_out)))" unfolding demo_generated(3) by simp
  then obtain x where "x \<in> set (so_outbounds (fst demo_out))" "ex_tag x = poolMemberTag ''q'' 0" by auto
  with pool_members_verified [OF demo_generated(1) this(1)] show ?thesis by blast
qed

end
