(* ===== verification/Sb_Reality.thy ===== *)
theory Sb_Reality
  imports Sb_Safety
begin

text \<open>
  The alternative entrance: \<open>internal/singbox/reality.go\<close> adds an authenticated inbound to a generated configuration and
  rewrites its rules so that a client is recognised by its address on the WireGuard side and by its user name on the
  other; \<open>reality_denial.go\<close> refuses a denied domain before it is resolved.
\<close>

section \<open>Refusals before resolving\<close>

abbreviation TagRealityIn :: string where "TagRealityIn \<equiv> ''reality-in''"

definition realityDenialBudget :: nat where "realityDenialBudget = 1000000"

definition denialLeaf :: "raw_rule \<Rightarrow> route_rule" where
  "denialLeaf raw = DefaultRule raw NoAction"

definition denialLogical :: "string \<Rightarrow> bool \<Rightarrow> route_rule list \<Rightarrow> route_rule" where
  "denialLogical mode invert children = LogicalRule mode invert children NoAction"

fun denialMatcherCost :: "route_rule \<Rightarrow> nat" where
  "denialMatcherCost (DefaultRule raw a) = 1 + length (rr_auth_user raw) + length (rr_rule_set raw)"
| "denialMatcherCost (LogicalRule mode invert children a) = 1 + sum_list (map denialMatcherCost children)"

record positive_scope =
  po_auth :: "string list"
  po_tags :: "string list"
  po_address :: bool

record denial_state =
  de_positives :: "positive_scope list"
  de_groups :: "(string \<times> nat) list"
  de_out :: "route_rule list"
  de_cost :: nat

definition charge :: "nat \<Rightarrow> denial_state \<Rightarrow> gen_err + denial_state" where
  "charge n d = (if de_cost d + n > realityDenialBudget then Inl OverBudget else Inr (d\<lparr>de_cost := de_cost d + n\<rparr>))"

text \<open>A destination that is a name: neither of the two address versions.\<close>

definition hostname_rule :: route_rule where
  "hostname_rule = denialLogical ''or'' True [denialLeaf (no_raw\<lparr>rr_ip_version := 4\<rparr>), denialLeaf (no_raw\<lparr>rr_ip_version := 6\<rparr>)]"

definition shadow_of :: "positive_scope \<Rightarrow> route_rule" where
  "shadow_of g =
    (let predicate = denialLeaf (no_raw\<lparr>rr_auth_user := po_auth g\<rparr>) in
     if \<not> po_address g then denialLogical ''and'' False [predicate, denialLeaf (no_raw\<lparr>rr_rule_set := po_tags g\<rparr>)] else predicate)"

definition denial_reject :: "string list \<Rightarrow> compiled \<Rightarrow> denial_state \<Rightarrow> gen_err + denial_state" where
  "denial_reject auth p d =
    (if cd_dns_tags p = [] then Inr d
     else
       let children = [denialLeaf (no_raw\<lparr>rr_inbound := [TagRealityIn]\<rparr>), denialLeaf (no_raw\<lparr>rr_auth_user := auth\<rparr>), hostname_rule,
             denialLeaf (no_raw\<lparr>rr_rule_set := cd_dns_tags p\<rparr>)];
           n = 8 + length auth + length (cd_dns_tags p);
           shadow = map shadow_of (de_positives d);
           children' = (if de_positives d \<noteq> [] then children @ [denialLogical ''or'' True shadow] else children);
           n' = (if de_positives d \<noteq> [] then n + 1 + sum_list (map denialMatcherCost shadow) else n)
       in bindR (charge n' d) (\<lambda>d. Inr (d\<lparr>de_out := de_out d @ [LogicalRule ''and'' False children' Reject]\<rparr>)))"

definition denial_route :: "string list \<Rightarrow> compiled \<Rightarrow> denial_state \<Rightarrow> gen_err + denial_state" where
  "denial_route auth p d =
    (if \<not> cd_address_capable p \<and> cd_dns_tags p = [] then Inr d
     else
       let key = Join (CHR 0x00) auth in
       bindR (case map_of (de_groups d) key of
           Some index \<Rightarrow> Inr (index, d)
         | None \<Rightarrow> bindR (charge (1 + length auth) d) (\<lambda>d.
             Inr (length (de_positives d), d\<lparr>de_groups := (key, length (de_positives d)) # de_groups d,
               de_positives := de_positives d @ [\<lparr>po_auth = auth, po_tags = [], po_address = False\<rparr>]\<rparr>))) (\<lambda>(index, d).
         let g = de_positives d ! index in
         if po_address g then Inr d
         else if cd_address_capable p then
           Inr (d\<lparr>de_positives := (de_positives d)[index := g\<lparr>po_address := True, po_tags := []\<rparr>]\<rparr>)
         else bindR (charge (length (cd_dns_tags p)) d) (\<lambda>d.
           Inr (d\<lparr>de_positives := (de_positives d)[index := g\<lparr>po_tags := po_tags g @ cd_dns_tags p\<rparr>]\<rparr>))))"

definition denial_step :: "(string list \<Rightarrow> string list) \<Rightarrow> compiled \<Rightarrow> denial_state \<Rightarrow> gen_err + denial_state" where
  "denial_step selected p d =
    (let auth = selected (rr_source_ip_cidr (rule_raw (cd_route p))) in
     if auth = [] then Inr d
     else case rule_act (cd_route p) of
       Reject \<Rightarrow> denial_reject auth p d
     | Route t \<Rightarrow> denial_route auth p d
     | _ \<Rightarrow> Inr d)"

fun denial_loop :: "(string list \<Rightarrow> string list) \<Rightarrow> compiled list \<Rightarrow> denial_state \<Rightarrow> gen_err + denial_state" where
  "denial_loop selected [] d = Inr d"
| "denial_loop selected (p # ps) d = bindR (denial_step selected p d) (denial_loop selected ps)"

definition realityDenialPreflight :: "compiled list \<Rightarrow> (string list \<Rightarrow> string list) \<Rightarrow> gen_err + route_rule list" where
  "realityDenialPreflight plan selected =
    bindR (denial_loop selected plan \<lparr>de_positives = [], de_groups = [], de_out = [], de_cost = 0\<rparr>) (\<lambda>d. Inr (de_out d))"

section \<open>The rules of the entrance\<close>

text \<open>The users of the runtime: a malformed or repeated one refuses the configuration.\<close>

fun check_users :: "reality_user list \<Rightarrow> (string \<times> string) list \<Rightarrow> gen_err + (string \<times> string) list" where
  "check_users [] m = Inr m"
| "check_users (u # us) m =
    (if us_peer_id u = [] \<or> us_name u \<noteq> RealityUserName (us_peer_id u) \<or> us_uuid u = [] then Inl BadUser
     else if us_peer_id u \<in> fst ` set m then Inl BadUser
     else check_users us ((us_peer_id u, us_name u) # m))"

fun name_by_cidr :: "(string \<times> string) list \<Rightarrow> peer list \<Rightarrow> gen_err + (string \<times> string) list" where
  "name_by_cidr byPeer [] = Inr []"
| "name_by_cidr byPeer (p # ps) = (case map_of byPeer (p_id p) of
     None \<Rightarrow> name_by_cidr byPeer ps
   | Some nm \<Rightarrow> (case cidr (p_address p) of
       None \<Rightarrow> Inl BadPeerAddress
     | Some c \<Rightarrow> bindR (name_by_cidr byPeer ps) (\<lambda>m. Inr ((c, nm) # m))))"

definition selected_users :: "string list \<Rightarrow> (string \<times> string) list \<Rightarrow> string list \<Rightarrow> string list" where
  "selected_users names nameByCIDR sources =
    (if sources = [] then names else List.map_filter (last_of nameByCIDR) sources)"

definition reality_rule :: "raw_rule \<Rightarrow> rule_action \<Rightarrow> route_rule" where
  "reality_rule raw a = DefaultRule (raw\<lparr>rr_inbound := [TagRealityIn]\<rparr>) a"

definition unknown_rule :: "string list \<Rightarrow> route_rule" where
  "unknown_rule names = LogicalRule ''and'' False
     [reality_rule no_raw NoAction, DefaultRule (no_raw\<lparr>rr_auth_user := names, rr_invert := True\<rparr>) NoAction] Reject"

definition privateReject :: "string list \<Rightarrow> string list \<Rightarrow> route_rule" where
  "privateReject denied auth = reality_rule (no_raw\<lparr>rr_auth_user := auth, rr_ip_cidr := denied\<rparr>) Reject"

definition rejectEndpointName :: "settings \<Rightarrow> route_rule list" where
  "rejectEndpointName st = (if se_endpoint_host st \<noteq> [] \<and> ParseAddr (se_endpoint_host st) = None
     then [reality_rule (no_raw\<lparr>rr_domain := [se_endpoint_host st]\<rparr>) Reject] else [])"

definition sharedResolve :: "settings \<Rightarrow> string list \<Rightarrow> string list \<Rightarrow> bool \<Rightarrow> route_rule list" where
  "sharedResolve st denied names withDestinationRules =
    [reality_rule no_raw (Resolve TagDNSUpstream), privateReject denied names] @
    (if withDestinationRules then
       reality_rule (no_raw\<lparr>rr_ip_version := 4, rr_network := [''tcp'']\<rparr>) Sniff # rejectEndpointName st
     else [])"

definition reality_guards :: "settings \<Rightarrow> string list \<Rightarrow> string list \<Rightarrow> route_rule list" where
  "reality_guards st denied names =
    [unknown_rule names, reality_rule (no_raw\<lparr>rr_ip_version := 6\<rparr>) Reject, reality_rule (no_raw\<lparr>rr_port := [853]\<rparr>) Reject,
     reality_rule (no_raw\<lparr>rr_port := [53]\<rparr>) HijackDNS, privateReject denied names] @ rejectEndpointName st"

text \<open>One rule of the policy: as it is, or once for the WireGuard side and once for the users it selects.\<close>

definition split_rule :: "(string list \<Rightarrow> string list) \<Rightarrow> string list \<Rightarrow> route_rule \<Rightarrow> route_rule list" where
  "split_rule selected denied r = (case r of
     LogicalRule mode iv rs a \<Rightarrow> [r]
   | DefaultRule raw a \<Rightarrow>
     if rr_source_ip_cidr raw = [] \<and> rr_rule_set raw = [] then [r]
     else
       let auth = selected (rr_source_ip_cidr raw);
           alternative = (\<lambda>us. reality_rule (raw\<lparr>rr_source_ip_cidr := [], rr_auth_user := us\<rparr>) a)
       in DefaultRule (raw\<lparr>rr_inbound := [TagTProxyIn]\<rparr>) a #
         (if auth = [] then []
          else (case a of Route t \<Rightarrow> map (\<lambda>u. alternative [u]) auth | _ \<Rightarrow> [alternative auth]) @
            (case a of Resolve s \<Rightarrow> [privateReject denied auth] | _ \<Rightarrow> [])))"

fun split_rules ::
  "(string list \<Rightarrow> string list) \<Rightarrow> string list \<Rightarrow> route_rule list \<Rightarrow> bool \<Rightarrow> route_rule list \<Rightarrow> route_rule list \<times> bool" where
  "split_rules selected denied shared inserted [] = ([], inserted)"
| "split_rules selected denied shared inserted (r # rs) =
    (let first = (case r of DefaultRule raw a \<Rightarrow> rr_rule_set raw \<noteq> [] \<and> \<not> inserted | _ \<Rightarrow> False);
         (rest, ins) = split_rules selected denied shared (inserted \<or> first) rs
     in ((if first then shared else []) @ split_rule selected denied r @ rest, ins))"

definition split_dns :: "(string list \<Rightarrow> string list) \<Rightarrow> dns_rule \<Rightarrow> dns_rule list" where
  "split_dns selected d = (case d of DnsRule raw a \<Rightarrow>
     if dr_source_ip_cidr raw = [] \<and> dr_rule_set raw = [] then [d]
     else
       let auth = selected (dr_source_ip_cidr raw) in
       DnsRule (raw\<lparr>dr_inbound := [TagDNSIn, TagTProxyIn]\<rparr>) a #
       (if auth = [] then []
        else [DnsRule (raw\<lparr>dr_source_ip_cidr := [], dr_inbound := [TagRealityIn], dr_auth_user := auth\<rparr>) a]))"

definition with_reality ::
  "snapshot \<Rightarrow> reality_identity \<Rightarrow> reality_user list \<Rightarrow> string list \<Rightarrow> sb_options \<Rightarrow> compiled list \<Rightarrow> gen_err + sb_options" where
  "with_reality sn idn users localAddresses opts plan =
    (let st = sn_settings sn; names = map us_name users; denied = LocalIPv4 @ localAddresses in
     bindR (check_users users []) (\<lambda>byPeer.
     bindR (name_by_cidr byPeer (sn_peers sn)) (\<lambda>nameByCIDR.
     let selected = selected_users names nameByCIDR in
     bindR (realityDenialPreflight plan selected) (\<lambda>preflight.
     let (body, inserted) = split_rules selected denied (preflight @ sharedResolve st denied names True) False (so_rules opts) in
     Inr (opts\<lparr>
       so_inbounds := so_inbounds opts @ [\<lparr>in_type = ''vless'', in_tag = TagRealityIn, in_listen = IP4 0,
         in_port = nat (se_reality_listen_port st mod 65536), in_users = map (\<lambda>u. (us_name u, us_uuid u)) users,
         in_reality = Some \<lparr>rl_server_name = se_reality_server_name st, rl_private_key = id_private_key idn, rl_short_id = id_short_id idn,
           rl_handshake_server = se_reality_handshake_server st, rl_handshake_port = nat (se_reality_handshake_port st mod 65536)\<rparr>\<rparr>],
       so_rules := reality_guards st denied names @ body @ (if inserted then [] else sharedResolve st denied names False) @
         map (\<lambda>u. reality_rule (no_raw\<lparr>rr_auth_user := [u]\<rparr>) (Route TagDirect)) names,
       so_dns := (so_dns opts)\<lparr>do_rules := dns_reject (no_dns_raw\<lparr>dr_inbound := [TagRealityIn], dr_query_type := [28]\<rparr>) #
         concat (map (split_dns selected) (do_rules (so_dns opts)))\<rparr>\<rparr>)))))"

definition GenerateWithReality :: "sb_env \<Rightarrow> snapshot \<Rightarrow> reality_runtime option \<Rightarrow> string list \<Rightarrow> gen_err + sb_options" where
  "GenerateWithReality env sn live localAddresses =
    bindR (generatePolicyWithPlan env sn) (\<lambda>(opts, _, plan).
    if \<not> se_reality_enabled (sn_settings sn) then Inr opts
    else case live of
      None \<Rightarrow> Inl NeedsReality
    | Some rt \<Rightarrow> (case rt_identity rt of
        None \<Rightarrow> Inr opts
      | Some idn \<Rightarrow>
        if rt_users rt = [] then Inr opts
        else if id_id idn \<noteq> sn_reality_identity_id sn then Inl BadIdentity
        else with_reality sn idn (rt_users rt) localAddresses opts plan))"

section \<open>Reading the split rules\<close>

lemma decide_skip:
  assumes "\<forall>r \<in> set xs. \<forall>c. \<not> m c r"
  shows "decide m upd c final (xs @ ys) = decide m upd c final ys"
  using assms by (induction xs) auto

text \<open>The rules of a policy: none is logical, and those that look at sources or sets name no inbound.\<close>

definition policy_rule :: "route_rule \<Rightarrow> bool" where
  "policy_rule r \<longleftrightarrow> (\<exists>raw a. r = DefaultRule raw a \<and> (rr_source_ip_cidr raw \<noteq> [] \<or> rr_rule_set raw \<noteq> [] \<longrightarrow> rr_inbound raw = []))"

lemma stages_policy_rules:
  assumes "stages env sn opts plan s" "r \<in> set (so_rules opts)"
  shows "policy_rule r"
proof -
  consider "r = hijack_rule" | p where "r \<in> set (egress_routes (tunnels_of sn) (sg_skipped s) p)" | k where "k \<in> set plan" "r = cd_route k"
    using assms(2) stages_options(4,8) [OF assms(1)] gen_rules_plan [OF stages_rules [OF assms(1)]] peer_egress_all_rules [OF stages_egress [OF assms(1)]]
    by auto
  then show ?thesis
  proof cases
    case 1
    then show ?thesis by (simp add: policy_rule_def hijack_rule_def no_raw_def)
  next
    case (2 p)
    from egress_source [OF 2] show ?thesis by (auto simp: policy_rule_def)
  next
    case (3 k)
    from stages_rule [OF assms(1) 3(1)] obtain r' where
      "rule_ok env (tunnels_of sn) (sg_skipped s) (peers_of (sg_addrs s)) (live_of (sg_addrs s)) (sg_rules s) r' k" .
    then show ?thesis using 3(2) by (auto simp: policy_rule_def rule_ok_def)
  qed
qed

text \<open>What \<open>with_reality\<close> makes of the options.\<close>

lemma with_reality_rules:
  assumes "with_reality sn idn users localAddresses opts plan = Inr opts'"
  obtains byPeer m pre body ins where
    "check_users users [] = Inr byPeer" "name_by_cidr byPeer (sn_peers sn) = Inr m"
    "realityDenialPreflight plan (selected_users (map us_name users) m) = Inr pre"
    "split_rules (selected_users (map us_name users) m) (LocalIPv4 @ localAddresses)
       (pre @ sharedResolve (sn_settings sn) (LocalIPv4 @ localAddresses) (map us_name users) True) False (so_rules opts) = (body, ins)"
    "so_rules opts' = reality_guards (sn_settings sn) (LocalIPv4 @ localAddresses) (map us_name users) @ body @
       (if ins then [] else sharedResolve (sn_settings sn) (LocalIPv4 @ localAddresses) (map us_name users) False) @
       map (\<lambda>u. reality_rule (no_raw\<lparr>rr_auth_user := [u]\<rparr>) (Route TagDirect)) (map us_name users)"
    "so_dns opts' = (so_dns opts)\<lparr>do_rules := dns_reject (no_dns_raw\<lparr>dr_inbound := [TagRealityIn], dr_query_type := [28]\<rparr>) #
       concat (map (split_dns (selected_users (map us_name users) m)) (do_rules (so_dns opts)))\<rparr>"
    "so_final opts' = so_final opts"
proof -
  from assms obtain byPeer m pre where r: "check_users users [] = Inr byPeer" "name_by_cidr byPeer (sn_peers sn) = Inr m"
    "realityDenialPreflight plan (selected_users (map us_name users) m) = Inr pre"
    by (auto simp: with_reality_def Let_def bindR_Inr_iff)
  obtain body ins where b: "split_rules (selected_users (map us_name users) m) (LocalIPv4 @ localAddresses)
       (pre @ sharedResolve (sn_settings sn) (LocalIPv4 @ localAddresses) (map us_name users) True) False (so_rules opts) = (body, ins)"
    by fastforce
  from assms r b show thesis by (intro that [OF r b]) (simp_all add: with_reality_def Let_def, auto)
qed

lemma entrance_options:
  assumes "generatePolicyWithPlan env sn = Inr (opts, diags, plan)" "GenerateWithReality env sn (Some rt) localAddresses = Inr opts'"
    and "se_reality_enabled (sn_settings sn)" "rt_identity rt \<noteq> None" "i \<in> us_peer_id ` set (rt_users rt)"
  obtains idn where "with_reality sn idn (rt_users rt) localAddresses opts plan = Inr opts'"
proof -
  from assms(5) have "rt_users rt \<noteq> []" by auto
  with assms(1-4) that show thesis by (auto simp: GenerateWithReality_def split: if_splits)
qed

text \<open>The refusals before resolving all ask for the entrance first.\<close>

definition entrance_first :: "route_rule \<Rightarrow> bool" where
  "entrance_first r \<longleftrightarrow> (\<exists>raw a. r = DefaultRule raw a \<and> rr_inbound raw = [TagRealityIn])
     \<or> (\<exists>raw a rs b. r = LogicalRule ''and'' False (DefaultRule raw a # rs) b \<and> rr_inbound raw = [TagRealityIn] \<and> b = Reject)"

lemma denial_route_out: "denial_route auth p d = Inr d' \<Longrightarrow> de_out d' = de_out d"
  by (auto simp: denial_route_def charge_def Let_def bindR_Inr_iff split: if_splits option.splits)

lemma denial_reject_out:
  assumes "denial_reject auth p d = Inr d'"
  shows "de_out d' = de_out d \<or> (\<exists>rs. de_out d' = de_out d @ [LogicalRule ''and'' False (denialLeaf (no_raw\<lparr>rr_inbound := [TagRealityIn]\<rparr>) # rs) Reject])"
proof (cases "cd_dns_tags p = []")
  case True
  then show ?thesis using assms by (simp add: denial_reject_def)
next
  case False
  then show ?thesis using assms by (cases "de_positives d = []") (auto simp: denial_reject_def charge_def Let_def bindR_Inr_iff split: if_splits)
qed

lemma denial_step_out:
  assumes "denial_step selected p d = Inr d'"
  shows "de_out d' = de_out d \<or> (\<exists>rs. de_out d' = de_out d @ [LogicalRule ''and'' False (denialLeaf (no_raw\<lparr>rr_inbound := [TagRealityIn]\<rparr>) # rs) Reject])"
proof (cases "selected (rr_source_ip_cidr (rule_raw (cd_route p))) = []")
  case True
  then show ?thesis using assms by (simp add: denial_step_def)
next
  case False
  show ?thesis
  proof (cases "rule_act (cd_route p)")
    case (Route t)
    then have "denial_route (selected (rr_source_ip_cidr (rule_raw (cd_route p)))) p d = Inr d'" using assms False by (simp add: denial_step_def)
    then show ?thesis by (intro disjI1 denial_route_out)
  next
    case Reject
    then have "denial_reject (selected (rr_source_ip_cidr (rule_raw (cd_route p)))) p d = Inr d'" using assms False by (simp add: denial_step_def)
    then show ?thesis by (rule denial_reject_out)
  qed (use assms False in \<open>simp_all add: denial_step_def\<close>)
qed

lemma entrance_first_logical: "entrance_first (LogicalRule ''and'' False (denialLeaf (no_raw\<lparr>rr_inbound := [TagRealityIn]\<rparr>) # rs) Reject)"
  unfolding entrance_first_def denialLeaf_def by (intro disjI2 exI conjI) (rule refl, simp_all)

lemma denial_loop_out:
  "denial_loop selected ps d = Inr d' \<Longrightarrow> \<forall>r \<in> set (de_out d). entrance_first r \<and> rule_act r = Reject \<Longrightarrow> \<forall>r \<in> set (de_out d'). entrance_first r \<and> rule_act r = Reject"
proof (induction ps arbitrary: d)
  case (Cons p ps)
  then obtain d1 where d1: "denial_step selected p d = Inr d1" "denial_loop selected ps d1 = Inr d'" by (auto simp: bindR_Inr_iff)
  from denial_step_out [OF d1(1)] have "\<forall>r \<in> set (de_out d1). entrance_first r \<and> rule_act r = Reject"
  proof (elim disjE exE)
    fix rs assume o: "de_out d1 = de_out d @ [LogicalRule ''and'' False (denialLeaf (no_raw\<lparr>rr_inbound := [TagRealityIn]\<rparr>) # rs) Reject]"
    show ?thesis unfolding o using Cons.prems(2) entrance_first_logical [of rs] by simp
  qed (use Cons.prems(2) in simp)
  from Cons.IH [OF d1(2) this] show ?case .
qed simp

lemma preflight_entrance: "realityDenialPreflight plan selected = Inr pre \<Longrightarrow> \<forall>r \<in> set pre. entrance_first r \<and> rule_act r = Reject"
  using denial_loop_out [of selected plan "\<lparr>de_positives = [], de_groups = [], de_out = [], de_cost = 0\<rparr>"]
  by (auto simp: realityDenialPreflight_def bindR_Inr_iff)

lemma reality_rule_entrance [simp]: "entrance_first (reality_rule raw a)"
  by (simp add: entrance_first_def reality_rule_def)

lemma guards_entrance:
  "\<forall>r \<in> set (reality_guards st denied names). entrance_first r" "\<forall>r \<in> set (sharedResolve st denied names b). entrance_first r"
  "entrance_first (privateReject denied names)"
  by (auto simp: reality_guards_def unknown_rule_def sharedResolve_def privateReject_def rejectEndpointName_def)
     (auto simp: entrance_first_def reality_rule_def)

section \<open>The WireGuard side\<close>

text \<open>How the core matches a connection that did not come through the entrance: no rule that asks for the entrance matches,
  a conjunction matches only when its parts do, and asking for the tproxy inbound changes nothing.\<close>

definition other_entrance :: "('c \<Rightarrow> route_rule \<Rightarrow> bool) \<Rightarrow> bool" where
  "other_entrance m \<longleftrightarrow> (\<forall>c raw a. rr_inbound raw = [TagRealityIn] \<longrightarrow> \<not> m c (DefaultRule raw a))
     \<and> (\<forall>c rs a. m c (LogicalRule ''and'' False rs a) \<longrightarrow> (\<forall>r \<in> set rs. m c r))
     \<and> (\<forall>c raw a. rr_inbound raw = [] \<longrightarrow> m c (DefaultRule (raw\<lparr>rr_inbound := [TagTProxyIn]\<rparr>) a) = m c (DefaultRule raw a))"

lemma other_entrance_skips: "other_entrance m \<Longrightarrow> entrance_first r \<Longrightarrow> \<not> m c r"
  unfolding other_entrance_def entrance_first_def by fastforce

lemma split_rule_other:
  assumes "other_entrance m" "policy_rule r"
  shows "decide m upd c final (split_rule selected denied r @ rs) = decide m upd c final (r # rs)"
proof -
  from assms(2) obtain raw a where r: "r = DefaultRule raw a" "rr_source_ip_cidr raw \<noteq> [] \<or> rr_rule_set raw \<noteq> [] \<longrightarrow> rr_inbound raw = []"
    unfolding policy_rule_def by blast
  show ?thesis
  proof (cases "rr_source_ip_cidr raw = [] \<and> rr_rule_set raw = []")
    case True
    then show ?thesis by (simp add: split_rule_def r(1))
  next
    case False
    let ?auth = "selected (rr_source_ip_cidr raw)"
    let ?alt = "if ?auth = [] then [] else (case a of Route t \<Rightarrow> map (\<lambda>u. reality_rule (raw\<lparr>rr_source_ip_cidr := [], rr_auth_user := [u]\<rparr>) a) ?auth
        | _ \<Rightarrow> [reality_rule (raw\<lparr>rr_source_ip_cidr := [], rr_auth_user := ?auth\<rparr>) a]) @ (case a of Resolve s \<Rightarrow> [privateReject denied ?auth] | _ \<Rightarrow> [])"
    have e: "split_rule selected denied r = DefaultRule (raw\<lparr>rr_inbound := [TagTProxyIn]\<rparr>) a # ?alt"
      unfolding split_rule_def r(1) route_rule.case Let_def if_not_P [OF False] ..
    have "\<forall>q \<in> set ?alt. entrance_first q" using guards_entrance(3) by (cases a) auto
    then have skip: "decide m upd c final (?alt @ rs) = decide m upd c final rs" for c
      using other_entrance_skips [OF assms(1)] by (intro decide_skip) blast
    have "m c (DefaultRule (raw\<lparr>rr_inbound := [TagTProxyIn]\<rparr>) a) = m c r" using assms(1) r False by (simp add: other_entrance_def)
    then show ?thesis unfolding e append_Cons decide.simps skip using r(1) by simp
  qed
qed

lemma split_rules_other:
  assumes "other_entrance m" "\<forall>q \<in> set shared. entrance_first q" "\<forall>r \<in> set rs. policy_rule r" "\<forall>q \<in> set tail. entrance_first q"
  shows "decide m upd c final (fst (split_rules selected denied shared ins rs) @ tail) = decide m upd c final rs"
  using assms(3)
proof (induction rs arbitrary: ins c)
  case Nil
  then show ?case using assms(4) other_entrance_skips [OF assms(1)] decide_skip [of tail m upd c final "[]"] by simp
next
  case (Cons r rs)
  let ?first = "case r of DefaultRule raw a \<Rightarrow> rr_rule_set raw \<noteq> [] \<and> \<not> ins | _ \<Rightarrow> False"
  have sh: "decide m upd c final ((if ?first then shared else []) @ ys) = decide m upd c final ys" for ys
    using assms(2) other_entrance_skips [OF assms(1)] by (intro decide_skip) auto
  have "fst (split_rules selected denied shared ins (r # rs)) =
      (if ?first then shared else []) @ split_rule selected denied r @ fst (split_rules selected denied shared (ins \<or> ?first) rs)"
    by (simp add: Let_def split: prod.splits)
  then show ?case using sh split_rule_other [OF assms(1), of r] Cons by simp
qed

text \<open>The same for queries.\<close>

definition other_queries :: "(dns_rule \<Rightarrow> bool) \<Rightarrow> bool" where
  "other_queries m \<longleftrightarrow> (\<forall>raw a. dr_inbound raw = [TagRealityIn] \<longrightarrow> \<not> m (DnsRule raw a))
     \<and> (\<forall>raw a. dr_inbound raw = [] \<longrightarrow> m (DnsRule (raw\<lparr>dr_inbound := [TagDNSIn, TagTProxyIn]\<rparr>) a) = m (DnsRule raw a))"

lemma split_dns_other:
  assumes "other_queries m" "\<forall>d \<in> set ds. dr_inbound (dns_raw d) = []"
  shows "map_option dns_act (find m (concat (map (split_dns selected) ds))) = map_option dns_act (find m ds)"
  using assms(2)
proof (induction ds)
  case (Cons d ds)
  obtain raw a where d: "d = DnsRule raw a" by (cases d)
  have "map_option dns_act (find m (split_dns selected d @ qs)) = (if m d then Some a else map_option dns_act (find m qs))" for qs
    using assms(1) Cons.prems by (auto simp: d split_dns_def other_queries_def Let_def)
  then show ?case using Cons by (simp add: d)
qed simp

lemma stages_dns_inbound:
  assumes "stages env sn opts plan s" "d \<in> set (do_rules (so_dns opts))"
  shows "dr_inbound (dns_raw d) = []"
proof -
  have g: "\<forall>d \<in> set (gs_dns_rules g'). dr_inbound (dns_raw d) = []" if "gen_rules env tunnels skipped peers live rs g = Inr g'"
    "\<forall>d \<in> set (gs_dns_rules g). dr_inbound (dns_raw d) = []" for tunnels skipped peers live rs g g'
    using that
  proof (induction rs arbitrary: g)
    case (Cons r rs)
    then obtain g1 where g1: "gen_rule env tunnels skipped peers live r g = Inr g1" "gen_rules env tunnels skipped peers live rs g1 = Inr g'"
      by (auto simp: bindR_Inr_iff)
    have "dnsRuleFor r tags src den = Some d \<Longrightarrow> dr_inbound (dns_raw d) = []" for tags src den d
      by (auto simp: dnsRuleFor_def Let_def dns_reject_def no_dns_raw_def split: if_splits)
    then have "\<forall>d \<in> set (gs_dns_rules g1). dr_inbound (dns_raw d) = []"
      using gen_rule_dns_rules [OF g1(1)] Cons.prems(2) by auto
    from Cons.IH [OF g1(2) this] show ?case .
  qed simp
  consider "d \<in> set (do_rules (sg_dns s))" | p where "d \<in> set (egress_dns (tunnels_of sn) (sg_skipped s) p)" | "d \<in> set (gs_dns_rules (sg_rules s))"
    using assms(2) stages_options(2) [OF assms(1)] peer_egress_all_rules [OF stages_egress [OF assms(1)]] by auto
  then show ?thesis
  proof cases
    case 1
    then show ?thesis using buildDNS_rules(1) [OF stages_dns [OF assms(1)]] by (auto simp: dns_reject_def no_dns_raw_def)
  next
    case (2 p)
    then show ?thesis by (auto simp: egress_dns_def no_dns_raw_def split: option.splits)
  next
    case 3
    then show ?thesis using g [OF stages_rules [OF assms(1)]] by simp
  qed
qed


section \<open>A concrete state with the entrance\<close>

definition demo_entrance :: snapshot where
  "demo_entrance = demo_policy\<lparr>sn_settings := (sn_settings demo_policy)\<lparr>se_reality_enabled := True\<rparr>, sn_reality_identity_id := ''id''\<rparr>"

definition demo_live :: reality_runtime where
  "demo_live = \<lparr>rt_identity = Some \<lparr>id_id = ''id'', id_private_key = ''k'', id_public_key = ''pk'', id_short_id = ''s''\<rparr>,
     rt_users = [\<lparr>us_peer_id = ''p'', us_name = ''client-p'', us_uuid = ''u1''\<rparr>]\<rparr>"

text \<open>The policy does not look at the switch of the entrance.\<close>

lemma demo_entrance_policy: "generatePolicyWithPlan demo_sb_env demo_entrance = generatePolicyWithPlan demo_sb_env demo_policy"
proof -
  have "upstreamServer (st\<lparr>se_reality_enabled := True\<rparr>) = upstreamServer st" for st :: settings
    by (auto simp: upstreamServer_def Let_def split: option.splits prod.splits)
  then have d: "buildDNS (st\<lparr>se_reality_enabled := True\<rparr>) = buildDNS st" "peer_resolver (st\<lparr>se_reality_enabled := True\<rparr>) = peer_resolver st" for st :: settings
    by (auto simp: buildDNS_def peer_resolver_def fun_eq_iff)
  have "peer_egress_one (st\<lparr>se_reality_enabled := True\<rparr>) = peer_egress_one st" for st :: settings
    by (intro ext) (simp only: peer_egress_one_def d)
  then have "peer_egress_all (st\<lparr>se_reality_enabled := True\<rparr>) t sk ps e = peer_egress_all st t sk ps e" for st :: settings and t sk ps e
    by (induction ps arbitrary: e) (auto simp: bindR_def split: sum.splits)
  then have eqs: "peer_egress_all (sn_settings demo_entrance) = peer_egress_all (sn_settings demo_policy)"
    "buildDNS (sn_settings demo_entrance) = buildDNS (sn_settings demo_policy)"
    "se_pool_country_blocklist (sn_settings demo_entrance) = se_pool_country_blocklist (sn_settings demo_policy)"
    "se_wg_server_address (sn_settings demo_entrance) = se_wg_server_address (sn_settings demo_policy)"
    "se_log_level (sn_settings demo_entrance) = se_log_level (sn_settings demo_policy)"
    "sn_tunnels demo_entrance = sn_tunnels demo_policy" "sn_rules demo_entrance = sn_rules demo_policy" "sn_peers demo_entrance = sn_peers demo_policy"
    by (auto simp: demo_entrance_def d fun_eq_iff)
  show ?thesis unfolding generatePolicyWithPlan_def peerEgress_def eqs ..
qed

lemma demo_preflight: "\<exists>pre. realityDenialPreflight (snd (snd demo_out)) (selected_users [''client-p''] m) = Inr pre"
proof -
  obtain k1 k2 where k: "snd (snd demo_out) = [k1, k2]" "demo_view k1 = (''r1'', Route (ChainTag ''w'' ''a''), [], [ruleSetTag ''r1'' @ ''-dns''], False)"
    "demo_view k2 = (''r2'', Reject, [], [ruleSetTag ''r2'' @ ''-dns''], False)"
    using demo_generated(2) by (auto simp: map_eq_Cons_conv)
  then show ?thesis
    by (simp add: realityDenialPreflight_def demo_view_def denial_step_def selected_users_def denial_route_def denial_reject_def charge_def
        realityDenialBudget_def shadow_of_def denialLeaf_def denialLogical_def no_raw_def Let_def)
qed

definition demo_both :: sb_options where
  "demo_both = projr (GenerateWithReality demo_sb_env demo_entrance (Some demo_live) [])"

lemma demo_both: "GenerateWithReality demo_sb_env demo_entrance (Some demo_live) [] = Inr demo_both"
proof -
  have p: "sn_peers demo_entrance = [(demo_peer ''p'')\<lparr>p_address := ''10.8.0.2'', p_egress_tunnel_id := Some ''a''\<rparr>]"
    by (simp add: demo_entrance_def demo_client)
  have m: "name_by_cidr [(''p'', ''client-p'')] (sn_peers demo_entrance) = Inr [(prefix_text (IP4 0x0A080002) 32, ''client-p'')]"
    by (simp add: p demo_peer_def cidr_def demo_addresses ip_bits_def)
  obtain pre where pre: "realityDenialPreflight (snd (snd demo_out)) (selected_users [''client-p''] [(prefix_text (IP4 0x0A080002) 32, ''client-p'')]) = Inr pre"
    using demo_preflight by blast
  have "\<exists>o'. with_reality demo_entrance idn [\<lparr>us_peer_id = ''p'', us_name = ''client-p'', us_uuid = ''u1''\<rparr>] [] (fst demo_out) (snd (snd demo_out)) = Inr o'" for idn
    by (simp add: with_reality_def RealityUserName_def m pre Let_def split: prod.split)
  moreover have "se_reality_enabled (sn_settings demo_entrance)" "sn_reality_identity_id demo_entrance = ''id''" by (simp_all add: demo_entrance_def)
  ultimately have "\<exists>o'. GenerateWithReality demo_sb_env demo_entrance (Some demo_live) [] = Inr o'"
    by (simp add: GenerateWithReality_def demo_entrance_policy demo_generated(1) demo_live_def split_beta)
  then show ?thesis by (auto simp: demo_both_def)
qed

text \<open>A matcher for a WireGuard connection that looks at inbounds and parts of conjunctions only.\<close>

fun demo_tproxy :: "unit \<Rightarrow> route_rule \<Rightarrow> bool" where
  "demo_tproxy c (DefaultRule raw a) = (rr_inbound raw = [] \<or> rr_inbound raw = [TagTProxyIn])"
| "demo_tproxy c (LogicalRule mode iv rs a) = (\<forall>r \<in> set rs. demo_tproxy c r)"


section \<open>Who a rule of the entrance is for\<close>

lemma check_users_map:
  assumes "check_users us m = Inr m'" "map_of m i = None"
  shows "map_of m' i = map_option us_name (find (\<lambda>u. us_peer_id u = i) us)"
  using assms
proof (induction us arbitrary: m)
  case (Cons u us)
  show ?case
  proof (cases "us_peer_id u = i")
    case True
    have keep: "check_users vs k = Inr k' \<Longrightarrow> map_of k j = Some x \<Longrightarrow> map_of k' j = Some x" for vs k k' j x
    proof (induction vs arbitrary: k)
      case (Cons v vs)
      then have "check_users vs ((us_peer_id v, us_name v) # k) = Inr k'" "us_peer_id v \<noteq> j"
        by (auto simp: map_of_eq_None_iff [symmetric] split: if_splits)
      from Cons.IH [OF this(1)] this(2) Cons.prems(2) show ?case by simp
    qed simp
    from Cons.prems(1) have "check_users us ((us_peer_id u, us_name u) # m) = Inr m'" by (auto split: if_splits)
    from keep [OF this, of i "us_name u"] True show ?thesis by simp
  next
    case False
    from Cons.prems(1) have "check_users us ((us_peer_id u, us_name u) # m) = Inr m'" by (auto split: if_splits)
    from Cons.IH [OF this] False Cons.prems(2) show ?thesis by simp
  qed
qed (auto)

lemma check_users_names: "check_users us m = Inr m' \<Longrightarrow> u \<in> set us \<Longrightarrow> us_name u = RealityUserName (us_peer_id u)"
  by (induction us arbitrary: m) (auto split: if_splits)

lemma check_users_Some:
  assumes "check_users us [] = Inr m"
  shows "map_of m i = Some nm \<longleftrightarrow> nm = RealityUserName i \<and> i \<in> us_peer_id ` set us"
proof -
  have e: "map_of m i = map_option us_name (find (\<lambda>u. us_peer_id u = i) us)" using check_users_map [OF assms] by simp
  show ?thesis
  proof (cases "find (\<lambda>u. us_peer_id u = i) us")
    case None
    then have "map_of m i = None" "i \<notin> us_peer_id ` set us" using e by (auto simp: find_None_iff)
    then show ?thesis by simp
  next
    case (Some u)
    then have "u \<in> set us" "us_peer_id u = i" by (auto simp: find_Some_iff)
    then show ?thesis using e Some check_users_names [OF assms, of u] by auto
  qed
qed

lemma name_by_cidr_set:
  "name_by_cidr byPeer ps = Inr m \<Longrightarrow> (c, nm) \<in> set m \<longleftrightarrow> (\<exists>q \<in> set ps. map_of byPeer (p_id q) = Some nm \<and> cidr (p_address q) = Some c)"
  by (induction ps arbitrary: m) (auto simp: bindR_Inr_iff split: option.splits)

text \<open>The user of a client is selected by a list of sources exactly when the list is empty or has the address of the client,
  provided clients differ in their identifiers and this address is the client's own.\<close>

lemma selected_client:
  assumes cu: "check_users us [] = Inr byPeer" and nc: "name_by_cidr byPeer (sn_peers sn) = Inr m"
    and p: "p \<in> set (sn_peers sn)" "p_id p \<in> us_peer_id ` set us" "cidr (p_address p) = Some c"
    and dist: "distinct (map p_id (sn_peers sn))" and own: "\<forall>q \<in> set (sn_peers sn). cidr (p_address q) = Some c \<longrightarrow> q = p"
  shows "RealityUserName (p_id p) \<in> set (selected_users (map us_name us) m src) \<longleftrightarrow> src = [] \<or> c \<in> set src"
    and "selected_users (map us_name us) m [c] = [RealityUserName (p_id p)]"
proof -
  have mem: "(d, nm) \<in> set m \<longleftrightarrow> (\<exists>q \<in> set (sn_peers sn). nm = RealityUserName (p_id q) \<and> p_id q \<in> us_peer_id ` set us \<and> cidr (p_address q) = Some d)" for d nm
    unfolding name_by_cidr_set [OF nc] check_users_Some [OF cu] by blast
  have "(c, RealityUserName (p_id p)) \<in> set m" using mem p by blast
  then obtain nm where nm: "last_of m c = Some nm" unfolding last_of_def by (cases "map_of (rev m) c") (force simp: map_of_eq_None_iff)+
  then have "(c, nm) \<in> set m" unfolding last_of_def by (auto dest: map_of_SomeD)
  then have "nm = RealityUserName (p_id p)" using mem own by blast
  with nm have lc: "last_of m c = Some (RealityUserName (p_id p))" by simp
  have uniq: "d = c" if "last_of m d = Some (RealityUserName (p_id p))" for d
  proof -
    from that have "(d, RealityUserName (p_id p)) \<in> set m" unfolding last_of_def by (auto dest: map_of_SomeD)
    then obtain q where q: "q \<in> set (sn_peers sn)" "p_id q = p_id p" "cidr (p_address q) = Some d" unfolding mem by (auto simp: RealityUserName_def)
    then have "q = p" using dist p(1) by (auto simp: distinct_map dest: inj_onD)
    then show ?thesis using q(3) p(3) by simp
  qed
  have names: "RealityUserName (p_id p) \<in> set (map us_name us)"
  proof -
    from p(2) obtain u where "u \<in> set us" "us_peer_id u = p_id p" by auto
    with check_users_names [OF cu this(1)] show ?thesis by force
  qed
  have "x \<in> set (List.map_filter f xs) \<longleftrightarrow> (\<exists>y \<in> set xs. f y = Some x)" for x and f :: "string \<Rightarrow> string option" and xs
    by (induction xs) (auto simp: map_filter_def)
  then have "RealityUserName (p_id p) \<in> set (List.map_filter (last_of m) src) \<longleftrightarrow> c \<in> set src" using lc uniq by metis
  then show "RealityUserName (p_id p) \<in> set (selected_users (map us_name us) m src) \<longleftrightarrow> src = [] \<or> c \<in> set src"
    using names by (auto simp: selected_users_def)
  show "selected_users (map us_name us) m [c] = [RealityUserName (p_id p)]" by (simp add: selected_users_def lc map_filter_def)
qed

section \<open>The same policy on both sides\<close>

text \<open>Rules that can only refuse, hand over to the resolver, or let routing go on.\<close>

definition quiet :: "route_rule \<Rightarrow> bool" where
  "quiet r \<longleftrightarrow> rule_act r \<in> {Reject, HijackDNS} \<or> \<not> ends_routing (rule_act r)"

lemma guards_quiet:
  "\<forall>r \<in> set (reality_guards st denied names). quiet r" "\<forall>r \<in> set (sharedResolve st denied names b). quiet r" "quiet (privateReject denied names)"
  by (auto simp: quiet_def reality_guards_def unknown_rule_def sharedResolve_def privateReject_def rejectEndpointName_def reality_rule_def)

abbreviation fixed :: "(route_rule \<Rightarrow> bool) \<Rightarrow> string \<Rightarrow> route_rule list \<Rightarrow> rule_action" where
  "fixed m \<equiv> decide (\<lambda>_. m) (\<lambda>c a. c) ()"

lemma fixed_quiet: "\<forall>r \<in> set xs. quiet r \<Longrightarrow> fixed m final (xs @ ys) \<in> {Reject, HijackDNS, fixed m final ys}"
  by (induction xs) (auto simp: quiet_def)

lemma fixed_alike: "fixed m final (map f us @ ys) = (if \<exists>u \<in> set us. m (f u) then Route t else fixed m final ys)"
  if "\<forall>u \<in> set us. rule_act (f u) = Route t"
  using that by (induction us) auto

text \<open>How the core sees one client on the two sides, with a fixed view of the destination: from the address \<open>c\<close> over
  WireGuard and as the user \<open>n\<close> through the entrance.  A list of sources has the address or not, a list of users has the
  name or not, and the remaining conditions of a rule come out alike.\<close>

definition same_client :: "string \<Rightarrow> string \<Rightarrow> (route_rule \<Rightarrow> bool) \<Rightarrow> (route_rule \<Rightarrow> bool) \<Rightarrow> bool" where
  "same_client c n mw mr \<longleftrightarrow>
     (\<forall>raw a. rr_source_ip_cidr raw \<noteq> [] \<longrightarrow> mw (DefaultRule raw a) = (c \<in> set (rr_source_ip_cidr raw) \<and> mw (DefaultRule (raw\<lparr>rr_source_ip_cidr := []\<rparr>) a)))
   \<and> (\<forall>raw a us. rr_inbound raw = [] \<and> rr_source_ip_cidr raw = [] \<and> rr_auth_user raw = [] \<longrightarrow>
        mr (reality_rule (raw\<lparr>rr_auth_user := us\<rparr>) a) = (n \<in> set us \<and> mw (DefaultRule raw a)))
   \<and> (\<forall>raw a. rr_inbound raw = [TagTProxyIn] \<or> rr_inbound raw = [TagDNSIn] \<longrightarrow> \<not> mr (DefaultRule raw a))
   \<and> (\<forall>raw a. rr_inbound raw = [TagDNSIn] \<longrightarrow> \<not> mw (DefaultRule raw a))
   \<and> (\<forall>a. mw (DefaultRule no_raw a))"

definition scoped_rule :: "route_rule \<Rightarrow> bool" where
  "scoped_rule r \<longleftrightarrow> (\<exists>raw a. r = DefaultRule raw a \<and> (rr_source_ip_cidr raw \<noteq> [] \<or> rr_rule_set raw \<noteq> []) \<and> rr_inbound raw = [] \<and> rr_auth_user raw = [])"

lemma stages_scoped:
  assumes "stages env sn opts plan s"
  obtains rs where "so_rules opts = hijack_rule # rs" "\<forall>r \<in> set rs. scoped_rule r"
proof -
  have "scoped_rule r" if "r \<in> set (egress_routes (tunnels_of sn) (sg_skipped s) p)" for r p
    using egress_source [OF that] by (auto simp: scoped_rule_def no_raw_def)
  moreover have "scoped_rule (cd_route k)" if "k \<in> set plan" for k
  proof -
    from stages_rule [OF assms that] obtain r' where
      "rule_ok env (tunnels_of sn) (sg_skipped s) (peers_of (sg_addrs s)) (live_of (sg_addrs s)) (sg_rules s) r' k" .
    then show ?thesis by (auto simp: scoped_rule_def rule_ok_def no_raw_def)
  qed
  ultimately have "\<forall>r \<in> set (eg_routes (sg_egress s) @ gs_rules (sg_rules s)). scoped_rule r"
    using peer_egress_all_rules [OF stages_egress [OF assms]] gen_rules_plan [OF stages_rules [OF assms]] stages_options(8) [OF assms] by auto
  then show thesis using stages_options(4) [OF assms] that by blast
qed

lemma split_rule_client:
  assumes same: "same_client c n mw mr" and sel: "\<And>src. n \<in> set (selected src) \<longleftrightarrow> src = [] \<or> c \<in> set src" and sc: "scoped_rule r"
  shows "fixed mr final (split_rule selected denied r @ ys) \<in> {Reject, HijackDNS, if mw r \<and> ends_routing (rule_act r) then rule_act r else fixed mr final ys}"
proof -
  from sc obtain raw a where r: "r = DefaultRule raw a" "rr_source_ip_cidr raw \<noteq> [] \<or> rr_rule_set raw \<noteq> []" "rr_inbound raw = []" "rr_auth_user raw = []"
    unfolding scoped_rule_def by blast
  let ?auth = "selected (rr_source_ip_cidr raw)" and ?alt = "\<lambda>us. reality_rule (raw\<lparr>rr_source_ip_cidr := [], rr_auth_user := us\<rparr>) a"
  have alt: "mr (?alt us) \<longleftrightarrow> n \<in> set us \<and> mw (DefaultRule (raw\<lparr>rr_source_ip_cidr := []\<rparr>) a)" for us
    using same r(3,4) unfolding same_client_def by simp
  have here: "mw r \<longleftrightarrow> n \<in> set ?auth \<and> mw (DefaultRule (raw\<lparr>rr_source_ip_cidr := []\<rparr>) a)"
  proof (cases "rr_source_ip_cidr raw = []")
    case True
    then have same_raw: "raw\<lparr>rr_source_ip_cidr := []\<rparr> = raw" by simp
    show ?thesis unfolding same_raw using sel True r(1) by simp
  next
    case False
    then show ?thesis using same r(1) sel unfolding same_client_def by simp
  qed
  have tp: "\<not> mr (DefaultRule (raw\<lparr>rr_inbound := [TagTProxyIn]\<rparr>) a)" using same unfolding same_client_def by simp
  show ?thesis
  proof (cases "?auth = []")
    case True
    then show ?thesis using tp here r(1,2) by (auto simp: split_rule_def)
  next
    case False
    show ?thesis
    proof (cases "\<exists>t. a = Route t")
      case True
      then obtain t where t: "a = Route t" ..
      have e: "split_rule selected denied r = DefaultRule (raw\<lparr>rr_inbound := [TagTProxyIn]\<rparr>) a # map (\<lambda>u. ?alt [u]) ?auth"
        using False r(1,2) t by (auto simp: split_rule_def Let_def)
      have "fixed mr final (map (\<lambda>u. ?alt [u]) ?auth @ ys) = (if \<exists>u \<in> set ?auth. mr (?alt [u]) then Route t else fixed mr final ys)"
        by (rule fixed_alike) (simp add: reality_rule_def t)
      then show ?thesis unfolding e using tp alt here r(1) t by auto
    next
      case no: False
      have e: "split_rule selected denied r = DefaultRule (raw\<lparr>rr_inbound := [TagTProxyIn]\<rparr>) a # ?alt ?auth # (case a of Resolve x \<Rightarrow> [privateReject denied ?auth] | _ \<Rightarrow> [])"
        using False r(1,2) no by (cases a) (auto simp: split_rule_def Let_def)
      have "\<forall>q \<in> set (case a of Resolve x \<Rightarrow> [privateReject denied ?auth] | _ \<Rightarrow> []). quiet q" using guards_quiet(3) by (cases a) auto
      note tail = fixed_quiet [OF this, of mr final ys]
      have ra: "rule_act (?alt ?auth) = a" by (simp add: reality_rule_def)
      show ?thesis using tail tp alt [of ?auth] here r(1) ra unfolding e by (auto simp del: insert_iff split: if_splits)
    qed
  qed
qed

lemma split_rules_client:
  assumes "same_client c n mw mr" "\<And>src. n \<in> set (selected src) \<longleftrightarrow> src = [] \<or> c \<in> set src" "\<forall>r \<in> set rs. scoped_rule r"
    and "\<forall>q \<in> set shared. quiet q" "fixed mr final tail \<in> {Reject, HijackDNS, Route final}"
  shows "fixed mr final (fst (split_rules selected denied shared ins rs) @ tail) \<in> {Reject, HijackDNS, fixed mw final rs}"
  using assms(3)
proof (induction rs arbitrary: ins)
  case Nil
  then show ?case using assms(5) by simp
next
  case (Cons r rs)
  let ?first = "case r of DefaultRule raw a \<Rightarrow> rr_rule_set raw \<noteq> [] \<and> \<not> ins | _ \<Rightarrow> False"
  let ?rest = "fst (split_rules selected denied shared (ins \<or> ?first) rs) @ tail"
  have e: "fst (split_rules selected denied shared ins (r # rs)) @ tail = (if ?first then shared else []) @ split_rule selected denied r @ ?rest"
    by (simp add: Let_def split: prod.splits)
  have q: "fixed mr final ((if ?first then shared else []) @ ys) \<in> {Reject, HijackDNS, fixed mr final ys}" for ys
    using assms(4) by (intro fixed_quiet) auto
  have s: "fixed mr final (split_rule selected denied r @ ?rest) \<in> {Reject, HijackDNS, if mw r \<and> ends_routing (rule_act r) then rule_act r else fixed mr final ?rest}"
    using Cons.prems by (intro split_rule_client [OF assms(1,2)]) auto
  have i: "fixed mr final ?rest \<in> {Reject, HijackDNS, fixed mw final rs}" using Cons by simp
  have w: "fixed mw final (r # rs) = (if mw r \<and> ends_routing (rule_act r) then rule_act r else fixed mw final rs)" by simp
  show ?case unfolding e w using q [of "split_rule selected denied r @ ?rest"] s i
    by (cases "mw r \<and> ends_routing (rule_act r)") (simp_all only: if_True if_False insert_iff empty_iff, (elim disjE; simp)+)
qed

lemma direct_tail:
  assumes "same_client c n mw mr" "n \<in> set names" "\<forall>q \<in> set xs. quiet q"
  shows "fixed mr final (xs @ map (\<lambda>u. reality_rule (no_raw\<lparr>rr_auth_user := [u]\<rparr>) (Route TagDirect)) names) \<in> {Reject, HijackDNS, Route TagDirect}"
proof -
  have "mr (reality_rule (no_raw\<lparr>rr_auth_user := [n]\<rparr>) (Route TagDirect))"
  proof -
    have "rr_inbound no_raw = [] \<and> rr_source_ip_cidr no_raw = [] \<and> rr_auth_user no_raw = []" by (simp add: no_raw_def)
    then show ?thesis using assms(1) unfolding same_client_def by simp
  qed
  then have "fixed mr final (map (\<lambda>u. reality_rule (no_raw\<lparr>rr_auth_user := [u]\<rparr>) (Route TagDirect)) names @ []) = Route TagDirect"
    by (subst fixed_alike [where t = TagDirect]) (use assms(2) in \<open>auto simp: reality_rule_def\<close>)
  then show ?thesis using fixed_quiet [OF assms(3), of mr final "map (\<lambda>u. reality_rule (no_raw\<lparr>rr_auth_user := [u]\<rparr>) (Route TagDirect)) names"] by simp
qed


text \<open>The client of the concrete state on its two sides, on the way to a domain of the first rule.\<close>

definition demo_target :: "raw_rule \<Rightarrow> bool" where
  "demo_target raw \<longleftrightarrow> (rr_rule_set raw = [] \<or> ruleSetTag ''r1'' \<in> set (rr_rule_set raw)) \<and> rr_ip_cidr raw = []"

fun demo_address :: "route_rule \<Rightarrow> bool" where
  "demo_address (DefaultRule raw a) \<longleftrightarrow> rr_inbound raw = [] \<and> (rr_source_ip_cidr raw = [] \<or> prefix_text (IP4 0x0A080002) 32 \<in> set (rr_source_ip_cidr raw)) \<and> demo_target raw"
| "demo_address (LogicalRule mode iv rs a) \<longleftrightarrow> False"

fun demo_user :: "route_rule \<Rightarrow> bool" where
  "demo_user (DefaultRule raw a) \<longleftrightarrow> rr_inbound raw = [TagRealityIn] \<and> ''client-p'' \<in> set (rr_auth_user raw) \<and> demo_target raw"
| "demo_user (LogicalRule mode iv rs a) \<longleftrightarrow> False"

lemma demo_client_facts:
  fixes p :: peer
  defines "p \<equiv> (demo_peer ''p'')\<lparr>p_address := ''10.8.0.2'', p_egress_tunnel_id := Some ''a''\<rparr>"
  shows "se_reality_enabled (sn_settings demo_entrance)" "rt_identity demo_live \<noteq> None"
    "p \<in> set (sn_peers demo_entrance)" "p_id p \<in> us_peer_id ` set (rt_users demo_live)" "cidr (p_address p) = Some (prefix_text (IP4 0x0A080002) 32)"
    "distinct (map p_id (sn_peers demo_entrance))" "\<forall>q \<in> set (sn_peers demo_entrance). cidr (p_address q) = Some (prefix_text (IP4 0x0A080002) 32) \<longrightarrow> q = p"
proof -
  have ps: "sn_peers demo_entrance = [p]" by (simp add: demo_entrance_def demo_client p_def)
  show "se_reality_enabled (sn_settings demo_entrance)" "rt_identity demo_live \<noteq> None" by (simp_all add: demo_entrance_def demo_live_def)
  show "p \<in> set (sn_peers demo_entrance)" "p_id p \<in> us_peer_id ` set (rt_users demo_live)" "cidr (p_address p) = Some (prefix_text (IP4 0x0A080002) 32)"
    by (simp add: ps) (simp_all add: p_def demo_live_def demo_peer_def cidr_def demo_addresses ip_bits_def)
  show "distinct (map p_id (sn_peers demo_entrance))" "\<forall>q \<in> set (sn_peers demo_entrance). cidr (p_address q) = Some (prefix_text (IP4 0x0A080002) 32) \<longrightarrow> q = p"
    by (simp_all add: ps)
qed


section \<open>Whole-client exits through the entrance\<close>

text \<open>How the core matches a connection of the user \<open>n\<close> through the entrance, whatever it learns on the way: rules of other
  inbounds do not match, a list of users that is not inverted has the name, and a rule that asks for the name only matches.\<close>

definition entrance_user :: "string \<Rightarrow> ('k \<Rightarrow> route_rule \<Rightarrow> bool) \<Rightarrow> bool" where
  "entrance_user n m \<longleftrightarrow> (\<forall>k raw a. rr_inbound raw = [TagTProxyIn] \<longrightarrow> \<not> m k (DefaultRule raw a))
     \<and> (\<forall>k raw a us. us \<noteq> [] \<longrightarrow> m k (reality_rule (raw\<lparr>rr_source_ip_cidr := [], rr_auth_user := us\<rparr>) a) \<longrightarrow> n \<in> set us)
     \<and> (\<forall>k a. m k (reality_rule (no_raw\<lparr>rr_auth_user := [n]\<rparr>) a))"

lemma Split_chars: "x \<in> set s \<Longrightarrow> x \<noteq> c \<Longrightarrow> \<exists>f \<in> set (Split c s). x \<in> set f"
  by (induction s) (auto split: list.splits)

lemma ipv4_field_all_digits: "ipv4_field f = Some n \<Longrightarrow> list_all is_digit f"
  by (auto simp: ipv4_field_def split: if_splits)

lemma ParseAddr4_chars:
  assumes "ParseAddr4 s = Some w"
  shows "CHR ''/'' \<notin> set s"
proof
  assume "CHR ''/'' \<in> set s"
  then obtain f where f: "f \<in> set (Split CHR ''.'' s)" "CHR ''/'' \<in> set f" using Split_chars [of "CHR ''/''" s "CHR ''.''"] by auto
  from assms f(1) have "list_all is_digit f" using ipv4_field_all_digits by (auto simp: ParseAddr4_def split: list.splits option.splits)
  then show False using f(2) by (auto simp: list_all_iff is_digit_def)
qed

lemma ParseAddr_IP4_host:
  assumes "ParseAddr s = Some (IP4 w)"
  shows "cidr s = Some (prefix_text (IP4 w) 32)"
proof -
  have "ParseAddr4 s = Some w" using assms by (auto simp: ParseAddr_def parseIPv6_def Let_def split: list.splits if_splits)
  then show ?thesis using ParseAddr4_chars assms by (auto simp: cidr_def ip_bits_def)
qed

lemma split_rules_plain:
  assumes "\<forall>r \<in> set rs. \<exists>raw a. r = DefaultRule raw a \<and> rr_rule_set raw = []"
  shows "fst (split_rules selected denied shared ins (rs @ qs)) = concat (map (split_rule selected denied) rs) @ fst (split_rules selected denied shared ins qs)"
  using assms by (induction rs) (auto simp: Let_def split: prod.splits)

text \<open>What the split of a rule of a client gives the user: nothing the rule does not say, and the rule itself.\<close>

lemma split_source_acts:
  assumes "entrance_user n m" "q \<in> set (split_rule selected denied (DefaultRule raw a))" "rr_source_ip_cidr raw \<noteq> []"
    and "ends_routing (rule_act q)" "m k q"
  shows "rule_act q = Reject \<or> rule_act q = a \<and> n \<in> set (selected (rr_source_ip_cidr raw))"
proof -
  let ?auth = "selected (rr_source_ip_cidr raw)"
  have "q \<noteq> DefaultRule (raw\<lparr>rr_inbound := [TagTProxyIn]\<rparr>) a" using assms(1,5) unfolding entrance_user_def by auto
  then consider "q = privateReject denied ?auth" | us where "q = reality_rule (raw\<lparr>rr_source_ip_cidr := [], rr_auth_user := us\<rparr>) a" "us \<noteq> []" "set us \<subseteq> set ?auth"
    using assms(2,3) by (cases a) (auto simp: split_rule_def Let_def split: if_splits)
  then show ?thesis
  proof cases
    case 1
    then show ?thesis by (simp add: privateReject_def reality_rule_def)
  next
    case (2 us)
    then have "n \<in> set us" using assms(1,5) unfolding entrance_user_def by blast
    then show ?thesis using 2 by (auto simp: reality_rule_def)
  qed
qed

lemma split_source_hit:
  assumes "selected [c] = [n]"
  shows "reality_rule (no_raw\<lparr>rr_auth_user := [n]\<rparr>) a \<in> set (split_rule selected denied (source_rule c a))"
proof -
  have e: "no_raw\<lparr>rr_source_ip_cidr := [c], rr_source_ip_cidr := [], rr_auth_user := [n]\<rparr> = no_raw\<lparr>rr_auth_user := [n]\<rparr>" by (simp add: no_raw_def)
  show ?thesis using assms by (cases a) (simp_all add: split_rule_def source_rule_def Let_def no_raw_def)
qed

lemma front_outcome:
  assumes "entrance_user n m" "\<And>src. n \<in> set (selected src) \<longleftrightarrow> src = [] \<or> c \<in> set src"
    and "\<forall>p' \<in> set ps. p_egress_tunnel_id p' \<noteq> None \<longrightarrow> (\<exists>w. ParseAddr (p_address p') = Some (IP4 w))"
    and "\<forall>p' \<in> set ps. cidr (p_address p') = Some c \<longrightarrow> p' = p" "p_egress_tunnel_id p = Some i"
    and "q \<in> set (reality_guards st denied names @ concat (map (split_rule selected denied) (hijack_rule # concat (map (egress_routes tunnels skipped) ps))))"
    and "ends_routing (rule_act q)" "m k q"
  shows "rule_act q \<in> {Reject, HijackDNS} \<or> rule_act q = Route (TunnelTag i) \<and> p_enabled p"
proof -
  have "split_rule selected denied hijack_rule = [hijack_rule]" by (simp add: split_rule_def hijack_rule_def)
  then consider "q \<in> set (reality_guards st denied names)" | "q = hijack_rule"
    | p' r where "p' \<in> set ps" "r \<in> set (egress_routes tunnels skipped p')" "q \<in> set (split_rule selected denied r)"
    using assms(6) by auto
  then show ?thesis
  proof cases
    case 1
    then show ?thesis using guards_quiet(1) assms(7) by (fastforce simp: quiet_def)
  next
    case 2
    then show ?thesis by (simp add: hijack_rule_def)
  next
    case (3 p' r)
    from egress_source [OF 3(2)] obtain ips act where r: "r = DefaultRule (no_raw\<lparr>rr_source_ip_cidr := [host_cidr p'], rr_ip_cidr := ips\<rparr>) act"
      "p_egress_tunnel_id p' \<noteq> None" by blast
    from split_source_acts [OF assms(1) 3(3) [unfolded r(1)] _ assms(7,8)]
    have act: "rule_act q = Reject \<or> rule_act q = act \<and> n \<in> set (selected [host_cidr p'])" by simp
    show ?thesis
    proof (cases "rule_act q = Reject")
      case False
      then have c: "host_cidr p' = c" "rule_act q = act" using act assms(2) [of "[host_cidr p']"] by auto
      from assms(3) 3(1) r(2) obtain w where "ParseAddr (p_address p') = Some (IP4 w)" by blast
      then have "cidr (p_address p') = Some c" using ParseAddr_IP4_host c(1) by (simp add: host_cidr_def)
      then have "p' = p" using assms(4) 3(1) by blast
      then show ?thesis using egress_actions [OF 3(2), of i] assms(5,7) c(2) r(1) by auto
    qed simp
  qed
qed



end
