(* ===== verification/Sb_Apply.thy ===== *)
theory Sb_Apply
  imports Sb_Reality
begin

text \<open>
  Publication of the configuration (\<open>internal/singbox/apply.go\<close>, \<open>pool_reject.go\<close>): compile, compare with the disk, write
  a temporary file, have the core check it, drop a rejected member of a pool and try again, rename over the published file
  and restart the core.  The disk is a map from paths to contents; every call of the operating system, the checker and the
  restart can fail, at any pass, as the host (an argument) decides.  Serialisation is an argument of the applier.
\<close>

section \<open>The member a check stumbled over\<close>

text \<open>The expression \<open>initialize (outbound|endpoint)[N]\<close>, matched at the start of a text, and its leftmost match.\<close>

definition after_prefix :: "string \<Rightarrow> string \<Rightarrow> string option" where
  "after_prefix p s = (if take (length p) s = p then Some (drop (length p) s) else None)"

definition bracketed :: "string \<Rightarrow> string option" where
  "bracketed s = (let ds = takeWhile is_digit s in if ds \<noteq> [] \<and> take 1 (drop (length ds) s) = '']'' then Some ds else None)"

definition initIndexRe :: "string \<Rightarrow> (string \<times> string) option" where
  "initIndexRe s = (case after_prefix ''initialize '' s of
     None \<Rightarrow> None
   | Some r \<Rightarrow>
     (case after_prefix ''outbound['' r of
        Some r' \<Rightarrow> map_option (\<lambda>n. (''outbound'', n)) (bracketed r')
      | None \<Rightarrow> (case after_prefix ''endpoint['' r of
          Some r' \<Rightarrow> map_option (\<lambda>n. (''endpoint'', n)) (bracketed r')
        | None \<Rightarrow> None)))"

fun FindStringSubmatch :: "string \<Rightarrow> (string \<times> string) option" where
  "FindStringSubmatch [] = initIndexRe []"
| "FindStringSubmatch (c # s) = (case initIndexRe (c # s) of Some m \<Rightarrow> Some m | None \<Rightarrow> FindStringSubmatch s)"

text \<open>The address of the member, which only the log reads, is left out.\<close>

record rejected_member =
  rm_tunnel_id :: string
  rm_tunnel_name :: string
  rm_url :: string

fun tag_members :: "tunnel \<Rightarrow> nat \<Rightarrow> pool_server list \<Rightarrow> (string \<times> rejected_member) list" where
  "tag_members t n [] = []"
| "tag_members t n (s # ss) =
    (poolMemberTag (t_id t) n, \<lparr>rm_tunnel_id = t_id t, rm_tunnel_name = t_name t, rm_url = ps_url s\<rparr>) # tag_members t (Suc n) ss"

text \<open>A later entry of the map replaces an earlier one with the same tag.\<close>

definition poolMembersByTag :: "sb_env \<Rightarrow> snapshot \<Rightarrow> (string \<rightharpoonup> rejected_member)" where
  "poolMembersByTag env sn = map_of (rev (concat (map (\<lambda>t.
     if \<not> t_enabled t \<or> t_source t \<noteq> SourcePool then [] else tag_members t 0 (selectPoolServers (t_pool t) (pool_allows env sn)))
     (sn_tunnels sn))))"

definition rejectedPoolMember :: "sb_env \<Rightarrow> sb_options \<Rightarrow> snapshot \<Rightarrow> string \<Rightarrow> rejected_member option" where
  "rejectedPoolMember env opts sn msg = (case FindStringSubmatch msg of
     None \<Rightarrow> None
   | Some (kind, n) \<Rightarrow>
     if kind \<noteq> ''outbound'' then None
     else case Atoi n of
       None \<Rightarrow> None
     | Some idx \<Rightarrow>
       if idx < 0 \<or> idx \<ge> int (length (so_outbounds opts)) then None
       else poolMembersByTag env sn (ex_tag (so_outbounds opts ! nat idx)))"

fun drop_server :: "string \<Rightarrow> string \<Rightarrow> tunnel list \<Rightarrow> tunnel list" where
  "drop_server i u [] = []"
| "drop_server i u (t # ts) =
    (if t_id t \<noteq> i then t # drop_server i u ts else t\<lparr>t_pool := filter (\<lambda>s. ps_url s \<noteq> u) (t_pool t)\<rparr> # ts)"

definition withoutPoolServer :: "snapshot \<Rightarrow> string \<Rightarrow> string \<Rightarrow> snapshot" where
  "withoutPoolServer sn i u = sn\<lparr>sn_tunnels := drop_server i u (sn_tunnels sn)\<rparr>"

definition poolServerCount :: "snapshot \<Rightarrow> nat" where
  "poolServerCount sn = sum_list (map (\<lambda>t. if t_source t = SourcePool then length (t_pool t) else 0) (sn_tunnels sn))"

section \<open>The disk and the host\<close>

record disk =
  dk_files :: "string \<rightharpoonup> string"
  dk_checked :: "(string \<times> bool) list"
  dk_running :: "string option"
  dk_restarts :: nat

datatype temp_fault = CreateFails | WriteFails | SyncFails | CloseFails | ChmodFails

text \<open>What the operating system, the checker and the service manager answer, pass by pass.\<close>

record host =
  ho_read_fails :: "nat \<Rightarrow> bool"
  ho_mkdir_fails :: "nat \<Rightarrow> bool"
  ho_suffix :: "nat \<Rightarrow> string"
  ho_temp_fault :: "nat \<Rightarrow> temp_fault option"
  ho_check :: "nat \<Rightarrow> string \<Rightarrow> string option"
  ho_rename_fails :: bool
  ho_open_fails :: bool
  ho_dir_sync_fails :: bool
  ho_reload_fails :: bool
  ho_left_running :: "string option"

datatype apply_err = ErrGenerateFailed gen_err | MarshalFailed | ReadFailed | MkdirFailed | TempFailed temp_fault | TempExists
  | ErrCheckFailed string | PublishFailed | DirOpenFailed | DirSyncFailed | ErrReloadFailed

record applier =
  ap_env :: sb_env
  ap_reality :: "reality_runtime option"
  ap_local :: "string list"
  ap_config_path :: string
  ap_marshal :: "sb_options \<Rightarrow> string option"

definition DefaultConfigPath :: string where "DefaultConfigPath = ''/etc/sing-box/config.json''"

definition ap_path :: "applier \<Rightarrow> string" where
  "ap_path a = (if ap_config_path a = [] then DefaultConfigPath else ap_config_path a)"

definition sameOnDisk :: "host \<Rightarrow> nat \<Rightarrow> string \<Rightarrow> string \<Rightarrow> disk \<Rightarrow> apply_err + bool" where
  "sameOnDisk h n path data d =
    (if ho_read_fails h n then Inl ReadFailed
     else case dk_files d path of None \<Rightarrow> Inr False | Some old \<Rightarrow> Inr (old = data))"

definition temp_name :: "host \<Rightarrow> nat \<Rightarrow> string \<Rightarrow> string" where
  "temp_name h n dst = dst @ ''.tmp-'' @ ho_suffix h n"

definition remove_file :: "string \<Rightarrow> disk \<Rightarrow> disk" where
  "remove_file name d = d\<lparr>dk_files := (dk_files d)(name := None)\<rparr>"

text \<open>\<open>os.CreateTemp\<close> never gives a name in use; every later fault removes the file again.\<close>

definition writeTemp :: "host \<Rightarrow> nat \<Rightarrow> string \<Rightarrow> string \<Rightarrow> disk \<Rightarrow> (apply_err + string) \<times> disk" where
  "writeTemp h n dst data d =
    (let name = temp_name h n dst; created = d\<lparr>dk_files := (dk_files d)(name \<mapsto> [])\<rparr>; written = d\<lparr>dk_files := (dk_files d)(name \<mapsto> data)\<rparr> in
     if dk_files d name \<noteq> None then (Inl TempExists, d)
     else case ho_temp_fault h n of
       Some CreateFails \<Rightarrow> (Inl (TempFailed CreateFails), d)
     | Some WriteFails \<Rightarrow> (Inl (TempFailed WriteFails), remove_file name created)
     | Some f \<Rightarrow> (Inl (TempFailed f), remove_file name written)
     | None \<Rightarrow> (Inr name, written))"

text \<open>The checker reads the file it is given; the trace keeps what was checked and the verdict.\<close>

definition run_check :: "host \<Rightarrow> nat \<Rightarrow> string \<Rightarrow> disk \<Rightarrow> string option \<times> disk" where
  "run_check h n name d = (case dk_files d name of
     None \<Rightarrow> (Some [], d)
   | Some data \<Rightarrow> (ho_check h n data, d\<lparr>dk_checked := dk_checked d @ [(data, ho_check h n data = None)]\<rparr>))"

section \<open>Preparing\<close>

record apply_result =
  ar_path :: string
  ar_changed :: bool
  ar_reloaded :: bool

record prepared =
  pr_result :: apply_result
  pr_temporary :: "string option"

definition Changed :: "prepared \<Rightarrow> bool" where "Changed p = (pr_temporary p \<noteq> None)"

definition Close :: "prepared \<Rightarrow> disk \<Rightarrow> disk" where
  "Close p d = (case pr_temporary p of None \<Rightarrow> d | Some name \<Rightarrow> remove_file name d)"

definition ConfigData :: "prepared \<Rightarrow> disk \<Rightarrow> string option" where
  "ConfigData p d = dk_files d (case pr_temporary p of Some name \<Rightarrow> name | None \<Rightarrow> ar_path (pr_result p))"

definition prepared_for :: "applier \<Rightarrow> string option \<Rightarrow> prepared" where
  "prepared_for a tmp = \<lparr>pr_result = \<lparr>ar_path = ap_path a, ar_changed = False, ar_reloaded = False\<rparr>, pr_temporary = tmp\<rparr>"

text \<open>One pass of the loop: it ends with a result, or with a configuration the core rejected.\<close>

datatype pass = Finished "apply_err + prepared" | Refused sb_options string

definition prepare_pass :: "applier \<Rightarrow> host \<Rightarrow> bool \<Rightarrow> nat \<Rightarrow> snapshot \<Rightarrow> disk \<Rightarrow> pass \<times> disk" where
  "prepare_pass a h forceCheck n sn d = (case GenerateWithReality (ap_env a) sn (ap_reality a) (ap_local a) of
     Inl e \<Rightarrow> (Finished (Inl (ErrGenerateFailed e)), d)
   | Inr opts \<Rightarrow> (case ap_marshal a opts of
     None \<Rightarrow> (Finished (Inl MarshalFailed), d)
   | Some data \<Rightarrow> (case sameOnDisk h n (ap_path a) data d of
     Inl e \<Rightarrow> (Finished (Inl e), d)
   | Inr same \<Rightarrow>
       if same \<and> \<not> forceCheck then (Finished (Inr (prepared_for a None)), d)
       else if ho_mkdir_fails h n then (Finished (Inl MkdirFailed), d)
       else case writeTemp h n (ap_path a) data d of
         (Inl e, d') \<Rightarrow> (Finished (Inl e), d')
       | (Inr tmp, d') \<Rightarrow> (case run_check h n tmp d' of
           (Some msg, d'') \<Rightarrow> (Refused opts msg, remove_file tmp d'')
         | (None, d'') \<Rightarrow> if same then (Finished (Inr (prepared_for a None)), remove_file tmp d'')
             else (Finished (Inr (prepared_for a (Some tmp))), d'')))))"

function prepare_from :: "applier \<Rightarrow> host \<Rightarrow> bool \<Rightarrow> nat \<Rightarrow> nat \<Rightarrow> snapshot \<Rightarrow> disk \<Rightarrow> (apply_err + prepared) \<times> disk" where
  "prepare_from a h forceCheck maxDrops n sn d = (case prepare_pass a h forceCheck n sn d of
     (Finished r, d') \<Rightarrow> (r, d')
   | (Refused opts msg, d') \<Rightarrow> (case rejectedPoolMember (ap_env a) opts sn msg of
       Some m \<Rightarrow>
         if n < maxDrops then prepare_from a h forceCheck maxDrops (Suc n) (withoutPoolServer sn (rm_tunnel_id m) (rm_url m)) d'
         else (Inl (ErrCheckFailed msg), d')
     | None \<Rightarrow> (Inl (ErrCheckFailed msg), d')))"
  by pat_completeness auto
termination by (relation "measure (\<lambda>(_, _, _, maxDrops, n, _, _). maxDrops - n)") auto

declare prepare_from.simps [simp del]

definition prepare :: "applier \<Rightarrow> host \<Rightarrow> bool \<Rightarrow> snapshot \<Rightarrow> disk \<Rightarrow> (apply_err + prepared) \<times> disk" where
  "prepare a h forceCheck sn d = prepare_from a h forceCheck (poolServerCount sn) 0 sn d"

definition Prepare :: "applier \<Rightarrow> host \<Rightarrow> snapshot \<Rightarrow> disk \<Rightarrow> (apply_err + prepared) \<times> disk" where
  "Prepare a h = prepare a h False"

definition PrepareRecovery :: "applier \<Rightarrow> host \<Rightarrow> snapshot \<Rightarrow> disk \<Rightarrow> (apply_err + prepared) \<times> disk" where
  "PrepareRecovery a h = prepare a h True"

section \<open>Publishing\<close>

definition Reload :: "host \<Rightarrow> string \<Rightarrow> disk \<Rightarrow> bool \<times> disk" where
  "Reload h path d = (if ho_reload_fails h then (False, d\<lparr>dk_running := ho_left_running h\<rparr>)
     else (True, d\<lparr>dk_running := dk_files d path, dk_restarts := Suc (dk_restarts d)\<rparr>))"

text \<open>The result comes with the error, if any, and with what \<open>Close\<close> still has to remove.\<close>

definition Commit :: "host \<Rightarrow> bool \<Rightarrow> prepared \<Rightarrow> disk \<Rightarrow> (apply_result \<times> apply_err option) \<times> prepared \<times> disk" where
  "Commit h force p d =
    (let res = pr_result p;
         finish = (\<lambda>res p d.
           if ar_changed res \<or> force then
             if ho_open_fails h then ((res, Some DirOpenFailed), p, d)
             else if ho_dir_sync_fails h then ((res, Some DirSyncFailed), p, d)
             else (case Reload h (ar_path res) d of
               (False, d') \<Rightarrow> ((res, Some ErrReloadFailed), p, d')
             | (True, d') \<Rightarrow> ((res\<lparr>ar_reloaded := True\<rparr>, None), p, d'))
           else ((res, None), p, d))
     in case pr_temporary p of
       None \<Rightarrow> finish res p d
     | Some tmp \<Rightarrow>
       if ho_rename_fails h then ((res, Some PublishFailed), p, d)
       else finish (res\<lparr>ar_changed := True\<rparr>) (p\<lparr>pr_temporary := None\<rparr>)
         (d\<lparr>dk_files := (dk_files d)(ar_path res := dk_files d tmp, tmp := None)\<rparr>))"

definition Apply :: "applier \<Rightarrow> host \<Rightarrow> snapshot \<Rightarrow> disk \<Rightarrow> (apply_result \<times> apply_err option) \<times> disk" where
  "Apply a h sn d = (case Prepare a h sn d of
     (Inl e, d') \<Rightarrow> ((\<lparr>ar_path = ap_path a, ar_changed = False, ar_reloaded = False\<rparr>, Some e), d')
   | (Inr p, d') \<Rightarrow> (case Commit h False p d' of (r, p', d'') \<Rightarrow> (r, Close p' d'')))"

section \<open>One pass\<close>

lemma sameOnDisk_Inr: "sameOnDisk h n path data d = Inr same \<Longrightarrow> same \<longleftrightarrow> dk_files d path = Some data"
  by (auto simp: sameOnDisk_def split: if_splits option.splits)

lemma sameOnDisk_Inl: "sameOnDisk h n path data d = Inl e \<Longrightarrow> e = ReadFailed"
  by (auto simp: sameOnDisk_def split: if_splits option.splits)

lemma writeTemp_Inl:
  "writeTemp h n dst data d = (Inl e, d') \<Longrightarrow> d' = d \<and> (\<forall>msg. e \<noteq> ErrCheckFailed msg)"
  by (auto simp: writeTemp_def Let_def remove_file_def fun_upd_idem split: if_splits option.splits temp_fault.splits)

lemma writeTemp_Inr:
  "writeTemp h n dst data d = (Inr tmp, d') \<Longrightarrow>
    tmp = temp_name h n dst \<and> dk_files d tmp = None \<and> d' = d\<lparr>dk_files := (dk_files d)(tmp \<mapsto> data)\<rparr>"
  by (auto simp: writeTemp_def Let_def split: if_splits option.splits temp_fault.splits)

lemma temp_name_other: "temp_name h n dst \<noteq> dst"
  by (simp add: temp_name_def)

text \<open>What a pass may do to the disk: it adds at most one verdict, and only a finished candidate leaves a file, a new one
  with the bytes the core accepted.\<close>

definition candidate :: "applier \<Rightarrow> snapshot \<Rightarrow> string \<Rightarrow> bool" where
  "candidate a sn data \<longleftrightarrow> (\<exists>opts. GenerateWithReality (ap_env a) sn (ap_reality a) (ap_local a) = Inr opts \<and> ap_marshal a opts = Some data)"

definition prepares :: "applier \<Rightarrow> snapshot \<Rightarrow> disk \<Rightarrow> prepared \<Rightarrow> disk \<Rightarrow> bool" where
  "prepares a sn d p d' \<longleftrightarrow> (\<exists>data tmp. p = prepared_for a tmp \<and> candidate a sn data \<and>
     (case tmp of
        None \<Rightarrow> dk_files d' = dk_files d \<and> dk_files d (ap_path a) = Some data
      | Some t \<Rightarrow> t \<noteq> ap_path a \<and> dk_files d t = None \<and> dk_files d' = (dk_files d)(t \<mapsto> data) \<and>
          dk_files d (ap_path a) \<noteq> Some data \<and> (data, True) \<in> set (dk_checked d')))"

lemma prepares_none:
  "candidate a sn data \<Longrightarrow> dk_files d' = dk_files d \<Longrightarrow> dk_files d (ap_path a) = Some data \<Longrightarrow> prepares a sn d (prepared_for a None) d'"
  unfolding prepares_def by (intro exI [of _ data] exI [of _ None]) simp

lemma prepares_some:
  "candidate a sn data \<Longrightarrow> t \<noteq> ap_path a \<Longrightarrow> dk_files d t = None \<Longrightarrow> dk_files d' = (dk_files d)(t \<mapsto> data) \<Longrightarrow>
    dk_files d (ap_path a) \<noteq> Some data \<Longrightarrow> (data, True) \<in> set (dk_checked d') \<Longrightarrow> prepares a sn d (prepared_for a (Some t)) d'"
  unfolding prepares_def by (intro exI [of _ data] exI [of _ "Some t"]) simp

lemma prepares_data:
  assumes "prepares a sn d p d'"
  shows "\<exists>data. ConfigData p d' = Some data \<and> candidate a sn data"
proof -
  from assms obtain data tmp where p: "p = prepared_for a tmp" and c: "candidate a sn data"
    and t: "case tmp of None \<Rightarrow> dk_files d' = dk_files d \<and> dk_files d (ap_path a) = Some data
      | Some t \<Rightarrow> t \<noteq> ap_path a \<and> dk_files d t = None \<and> dk_files d' = (dk_files d)(t \<mapsto> data) \<and>
          dk_files d (ap_path a) \<noteq> Some data \<and> (data, True) \<in> set (dk_checked d')"
    unfolding prepares_def by (elim exE conjE)
  have "ConfigData p d' = Some data" using t by (cases tmp) (simp_all add: p ConfigData_def prepared_for_def)
  then show ?thesis using c by (intro exI [of _ data]) simp
qed

lemma candidate_unique: "candidate a sn data \<Longrightarrow> candidate a sn data' \<Longrightarrow> data = data'"
  by (auto simp: candidate_def)

definition same_core :: "disk \<Rightarrow> disk \<Rightarrow> bool" where
  "same_core d d' \<longleftrightarrow> dk_running d' = dk_running d \<and> dk_restarts d' = dk_restarts d"

lemma prepare_pass_spec:
  assumes "prepare_pass a h force n sn d = (r, d')"
  shows "same_core d d' \<and> length (dk_checked d') \<le> Suc (length (dk_checked d)) \<and>
    (case r of
       Finished (Inl e) \<Rightarrow> dk_files d' = dk_files d \<and> (\<forall>msg. e \<noteq> ErrCheckFailed msg)
     | Finished (Inr p) \<Rightarrow> prepares a sn d p d'
     | Refused opts msg \<Rightarrow> dk_files d' = dk_files d \<and>
         GenerateWithReality (ap_env a) sn (ap_reality a) (ap_local a) = Inr opts \<and>
         (\<exists>data. ap_marshal a opts = Some data \<and> ho_check h n data = Some msg))"
proof (cases "GenerateWithReality (ap_env a) sn (ap_reality a) (ap_local a)")
  case (Inl e)
  then show ?thesis using assms by (auto simp: prepare_pass_def same_core_def)
next
  case g: (Inr opts)
  show ?thesis
  proof (cases "ap_marshal a opts")
    case None
    then show ?thesis using assms by (auto simp: prepare_pass_def same_core_def g)
  next
    case m: (Some data)
    then have c: "candidate a sn data" using g by (auto simp: candidate_def)
    show ?thesis
    proof (cases "sameOnDisk h n (ap_path a) data d")
      case (Inl e)
      then show ?thesis using assms sameOnDisk_Inl [OF Inl] by (auto simp: prepare_pass_def same_core_def g m)
    next
      case s: (Inr same)
      note same = sameOnDisk_Inr [OF s]
      obtain w d1 where w: "writeTemp h n (ap_path a) data d = (w, d1)" by fastforce
      consider (same) "same \<and> \<not> force" | (mkdir) "\<not> (same \<and> \<not> force)" "ho_mkdir_fails h n"
        | (tmp) e where "\<not> (same \<and> \<not> force)" "\<not> ho_mkdir_fails h n" "w = Inl e"
        | (written) tmp where "\<not> (same \<and> \<not> force)" "\<not> ho_mkdir_fails h n" "w = Inr tmp" by (cases w) blast+
      then show ?thesis
      proof cases
        case same
        then show ?thesis using assms c \<open>same \<longleftrightarrow> _\<close>
          by (auto simp: prepare_pass_def same_core_def g m s intro!: prepares_none)
      next
        case mkdir
        then show ?thesis using assms by (auto simp: prepare_pass_def same_core_def g m s)
      next
        case tmp
        then show ?thesis using assms writeTemp_Inl [of h n "ap_path a" data d e d1] w by (auto simp: prepare_pass_def same_core_def g m s)
      next
        case written
        then have t: "tmp = temp_name h n (ap_path a)" "dk_files d tmp = None" "d1 = d\<lparr>dk_files := (dk_files d)(tmp \<mapsto> data)\<rparr>"
          using writeTemp_Inr [of h n "ap_path a" data d tmp d1] w by auto
        have r: "(r, d') = (case run_check h n tmp d1 of
             (Some msg, d'') \<Rightarrow> (Refused opts msg, remove_file tmp d'')
           | (None, d'') \<Rightarrow> if same then (Finished (Inr (prepared_for a None)), remove_file tmp d'')
               else (Finished (Inr (prepared_for a (Some tmp))), d''))"
          using assms written by (simp add: prepare_pass_def g m s w if_not_P)
        have rc: "run_check h n tmp d1 = (ho_check h n data, d1\<lparr>dk_checked := dk_checked d @ [(data, ho_check h n data = None)]\<rparr>)"
          by (simp add: run_check_def t(3))
        have tp: "tmp \<noteq> ap_path a" using t(1) temp_name_other by simp
        show ?thesis
        proof (cases "ho_check h n data")
          case None
          then show ?thesis using r rc t tp c same
            by (cases same) (auto simp: same_core_def remove_file_def fun_upd_idem intro!: prepares_none prepares_some)
        next
          case (Some msg)
          then show ?thesis using r rc t(2,3) g m by (auto simp: same_core_def remove_file_def fun_upd_idem)
        qed
      qed
    qed
  qed
qed


section \<open>The loop\<close>

text \<open>A snapshot with some servers left out of its pools.\<close>

definition thin :: "(string \<Rightarrow> string \<Rightarrow> bool) \<Rightarrow> snapshot \<Rightarrow> snapshot" where
  "thin keep sn = sn\<lparr>sn_tunnels := map (\<lambda>t. t\<lparr>t_pool := filter (\<lambda>s. keep (t_id t) (ps_url s)) (t_pool t)\<rparr>) (sn_tunnels sn)\<rparr>"

lemma thin_all: "thin (\<lambda>_ _. True) sn = sn"
  by (simp add: thin_def)

lemma thin_thin: "thin keep' (thin keep sn) = thin (\<lambda>i u. keep i u \<and> keep' i u) sn"
  by (simp add: thin_def comp_def)

lemma thin_ids: "map t_id (sn_tunnels (thin keep sn)) = map t_id (sn_tunnels sn)"
  by (simp add: thin_def comp_def)

lemma drop_server_map:
  "distinct (map t_id ts) \<Longrightarrow> drop_server i u ts = map (\<lambda>t. t\<lparr>t_pool := filter (\<lambda>s. \<not> (t_id t = i \<and> ps_url s = u)) (t_pool t)\<rparr>) ts"
proof (induction ts)
  case (Cons t ts)
  show ?case
  proof (cases "t_id t = i")
    case True
    then have "\<forall>x \<in> set ts. t_id x \<noteq> i" using Cons.prems by (auto simp: image_iff)
    then have "map (\<lambda>t. t\<lparr>t_pool := filter (\<lambda>s. \<not> (t_id t = i \<and> ps_url s = u)) (t_pool t)\<rparr>) ts = ts" by (intro map_idI) simp
    then show ?thesis using True by simp
  next
    case False
    then show ?thesis using Cons by simp
  qed
qed simp

lemma without_thin:
  "distinct (map t_id (sn_tunnels sn)) \<Longrightarrow> withoutPoolServer sn i u = thin (\<lambda>j v. \<not> (j = i \<and> v = u)) sn"
  by (simp add: withoutPoolServer_def thin_def drop_server_map)

lemma tag_members_mem: "(k, m) \<in> set (tag_members t n ss) \<Longrightarrow> rm_tunnel_id m = t_id t \<and> (\<exists>s \<in> set ss. ps_url s = rm_url m)"
  by (induction t n ss rule: tag_members.induct) auto

lemma in_concat_map: "x \<in> set (concat (map f ts)) \<Longrightarrow> \<exists>t. t \<in> set ts \<and> x \<in> set (f t)"
  by auto

lemma rejected_in_pool:
  assumes "rejectedPoolMember env opts sn msg = Some m"
  obtains t s where "t \<in> set (sn_tunnels sn)" "t_source t = SourcePool" "t_id t = rm_tunnel_id m" "s \<in> set (t_pool t)" "ps_url s = rm_url m"
proof -
  obtain k where "poolMembersByTag env sn k = Some m"
    using assms by (auto simp: rejectedPoolMember_def split: option.splits prod.splits if_splits)
  then have "(k, m) \<in> set (concat (map (\<lambda>t. if \<not> t_enabled t \<or> t_source t \<noteq> SourcePool then []
      else tag_members t 0 (selectPoolServers (t_pool t) (pool_allows env sn))) (sn_tunnels sn)))"
    unfolding poolMembersByTag_def by (drule_tac map_of_SomeD) (simp only: set_rev)
  from in_concat_map [OF this] obtain t where t0: "t \<in> set (sn_tunnels sn)" "(k, m) \<in> set (if \<not> t_enabled t \<or> t_source t \<noteq> SourcePool then []
      else tag_members t 0 (selectPoolServers (t_pool t) (pool_allows env sn)))"
    by (elim exE conjE)
  then have t: "t_source t = SourcePool" "(k, m) \<in> set (tag_members t 0 (selectPoolServers (t_pool t) (pool_allows env sn)))"
    by (simp_all split: if_splits)
  then obtain s where "s \<in> set (selectPoolServers (t_pool t) (pool_allows env sn))" "ps_url s = rm_url m" "rm_tunnel_id m = t_id t"
    using tag_members_mem by blast
  then show ?thesis using that t0(1) t(1) select_from_sub [of "pool_allows env sn" "[]" 0 "t_pool t"] by (auto simp: selectPoolServers_def)
qed

lemma drop_server_count:
  assumes "distinct (map t_id ts)" "t \<in> set ts" "t_source t = SourcePool" "s \<in> set (t_pool t)"
  shows "sum_list (map (\<lambda>t. if t_source t = SourcePool then length (t_pool t) else 0) (drop_server (t_id t) (ps_url s) ts)) <
    sum_list (map (\<lambda>t. if t_source t = SourcePool then length (t_pool t) else (0::nat)) ts)"
  using assms
proof (induction ts)
  case (Cons x ts)
  show ?case
  proof (cases "t_id x = t_id t")
    case True
    then have "x = t" using Cons.prems by force
    moreover have "length (filter (\<lambda>y. ps_url y \<noteq> ps_url s) (t_pool t)) < length (t_pool t)"
      using Cons.prems(4) by (intro length_filter_less [of s]) auto
    ultimately show ?thesis using Cons.prems by simp
  next
    case False
    then have "t \<in> set ts" using Cons.prems by auto
    then show ?thesis using Cons False by simp
  qed
qed simp

lemma without_count:
  assumes "distinct (map t_id (sn_tunnels sn))" "rejectedPoolMember env opts sn msg = Some m"
  shows "poolServerCount (withoutPoolServer sn (rm_tunnel_id m) (rm_url m)) < poolServerCount sn"
proof -
  obtain t s where "t \<in> set (sn_tunnels sn)" "t_source t = SourcePool" "t_id t = rm_tunnel_id m" "s \<in> set (t_pool t)" "ps_url s = rm_url m"
    using rejected_in_pool [OF assms(2)] by blast
  then show ?thesis using drop_server_count [OF assms(1), of t s] by (simp add: poolServerCount_def withoutPoolServer_def)
qed

text \<open>A refusal that the loop cannot cure: the core names no member of a pool.\<close>

definition incurable :: "applier \<Rightarrow> host \<Rightarrow> snapshot \<Rightarrow> string \<Rightarrow> bool" where
  "incurable a h sn msg \<longleftrightarrow> (\<exists>opts data n. GenerateWithReality (ap_env a) sn (ap_reality a) (ap_local a) = Inr opts \<and>
     ap_marshal a opts = Some data \<and> ho_check h n data = Some msg \<and> rejectedPoolMember (ap_env a) opts sn msg = None)"

text \<open>A server the core has blamed: in a configuration of the snapshot, less some servers, the check failed at the member
  made from it.\<close>

definition blamed :: "applier \<Rightarrow> host \<Rightarrow> snapshot \<Rightarrow> string \<Rightarrow> string \<Rightarrow> bool" where
  "blamed a h sn i u \<longleftrightarrow> (\<exists>keep opts data n msg m. GenerateWithReality (ap_env a) (thin keep sn) (ap_reality a) (ap_local a) = Inr opts \<and>
     ap_marshal a opts = Some data \<and> ho_check h n data = Some msg \<and> rejectedPoolMember (ap_env a) opts (thin keep sn) msg = Some m \<and>
     rm_tunnel_id m = i \<and> rm_url m = u)"

lemma blamed_thin: "blamed a h (thin keep sn) i u \<Longrightarrow> blamed a h sn i u"
  unfolding blamed_def thin_thin by blast

lemma prepare_from_spec:
  assumes "prepare_from a h force maxDrops n sn d = (r, d')" "distinct (map t_id (sn_tunnels sn))" "n + poolServerCount sn \<le> maxDrops"
  shows "\<exists>keep. same_core d d' \<and> length (dk_checked d') \<le> length (dk_checked d) + poolServerCount sn + 1 \<and>
    (\<forall>i u. \<not> keep i u \<longrightarrow> blamed a h sn i u) \<and>
    (case r of
       Inl e \<Rightarrow> dk_files d' = dk_files d \<and> (\<forall>msg. e = ErrCheckFailed msg \<longrightarrow> incurable a h (thin keep sn) msg)
     | Inr p \<Rightarrow> prepares a (thin keep sn) d p d')"
  using assms
proof (induction a h force maxDrops n sn d rule: prepare_from.induct)
  case (1 a h force maxDrops n sn d)
  obtain q d1 where q: "prepare_pass a h force n sn d = (q, d1)" by fastforce
  note spec = prepare_pass_spec [OF q]
  show ?case
  proof (cases q)
    case (Finished r')
    then have "r' = r" "d1 = d'" using 1(2) by (auto simp: prepare_from.simps [of a h force maxDrops n sn d] q)
    then show ?thesis using spec Finished
      by (intro exI [of _ "\<lambda>_ _. True"]) (auto simp: thin_all split: sum.splits)
  next
    case (Refused opts msg)
    show ?thesis
    proof (cases "rejectedPoolMember (ap_env a) opts sn msg")
      case None
      then have "r = Inl (ErrCheckFailed msg)" "d1 = d'" using 1(2) Refused by (auto simp: prepare_from.simps [of a h force maxDrops n sn d] q)
      then show ?thesis using spec Refused None
        by (intro exI [of _ "\<lambda>_ _. True"]) (auto simp: thin_all incurable_def)
    next
      case (Some m)
      let ?sn = "withoutPoolServer sn (rm_tunnel_id m) (rm_url m)"
      have less: "poolServerCount ?sn < poolServerCount sn" using without_count [OF 1(3) Some] .
      then have n: "n < maxDrops" using 1(4) by simp
      have eq: "?sn = thin (\<lambda>j v. \<not> (j = rm_tunnel_id m \<and> v = rm_url m)) sn" using without_thin [OF 1(3)] .
      have "prepare_from a h force maxDrops (Suc n) ?sn d1 = (r, d')"
        using 1(2) n by (simp add: prepare_from.simps [of a h force maxDrops n sn d] q Refused Some)
      moreover have "distinct (map t_id (sn_tunnels ?sn))" unfolding eq thin_ids using 1(3) .
      ultimately obtain keep where k: "same_core d1 d'" "length (dk_checked d') \<le> length (dk_checked d1) + poolServerCount ?sn + 1"
        "\<forall>i u. \<not> keep i u \<longrightarrow> blamed a h ?sn i u"
        "case r of Inl e \<Rightarrow> dk_files d' = dk_files d1 \<and> (\<forall>msg. e = ErrCheckFailed msg \<longrightarrow> incurable a h (thin keep ?sn) msg)
         | Inr p \<Rightarrow> prepares a (thin keep ?sn) d1 p d'"
        using 1(1) [OF q [symmetric] Refused Some n] less 1(4) by (auto simp: Suc_le_eq)
      have f: "dk_files d1 = dk_files d" "same_core d d1" "length (dk_checked d1) \<le> Suc (length (dk_checked d))" using spec Refused by auto
      have b: "blamed a h sn (rm_tunnel_id m) (rm_url m)"
        unfolding blamed_def using spec Refused Some by (intro exI [of _ "\<lambda>_ _. True"]) (auto simp: thin_all)
      have "prepares a x d p d' = prepares a x d1 p d'" for x p unfolding prepares_def f(1) ..
      moreover have "\<forall>i u. \<not> keep i u \<longrightarrow> blamed a h sn i u" using k(3) blamed_thin unfolding eq by blast
      ultimately show ?thesis using k(1,2,4) f less b unfolding eq thin_thin
        by (intro exI [of _ "\<lambda>i u. \<not> (i = rm_tunnel_id m \<and> u = rm_url m) \<and> keep i u"]) (auto simp: same_core_def split: sum.splits)
    qed
  qed
qed


lemma prepare_spec:
  assumes "prepare a h force sn d = (r, d')" "distinct (map t_id (sn_tunnels sn))"
  shows "\<exists>keep. same_core d d' \<and> length (dk_checked d') \<le> length (dk_checked d) + poolServerCount sn + 1 \<and>
    (\<forall>i u. \<not> keep i u \<longrightarrow> blamed a h sn i u) \<and>
    (case r of
       Inl e \<Rightarrow> dk_files d' = dk_files d \<and> (\<forall>msg. e = ErrCheckFailed msg \<longrightarrow> incurable a h (thin keep sn) msg)
     | Inr p \<Rightarrow> prepares a (thin keep sn) d p d')"
  using prepare_from_spec [OF assms(1) [unfolded prepare_def] assms(2)] by simp

section \<open>What publication promises\<close>

text \<open>C14: Preparing a configuration always ends, after at most one check more than there are servers in the pools, and members of pools cannot block it: every rejected member is dropped and the rest compiled again, and the limit on drops never cuts this short.  A check that finally fails names no member of a pool.  Preparing changes neither the published file nor the running core.\<close>

theorem prepare_tolerates_pools:
  assumes "distinct (map t_id (sn_tunnels sn))" "prepare a h force sn d = (r, d')"
  shows "length (dk_checked d') \<le> length (dk_checked d) + poolServerCount sn + 1 \<and>
    (\<forall>msg. r = Inl (ErrCheckFailed msg) \<longrightarrow>
       (\<exists>keep. (\<forall>i u. \<not> keep i u \<longrightarrow> blamed a h sn i u) \<and> incurable a h (thin keep sn) msg)) \<and>
    dk_files d' (ap_path a) = dk_files d (ap_path a) \<and> dk_running d' = dk_running d"
proof -
  from prepare_spec [OF assms(2,1)] obtain keep where k: "same_core d d'" "length (dk_checked d') \<le> length (dk_checked d) + poolServerCount sn + 1"
    "\<forall>i u. \<not> keep i u \<longrightarrow> blamed a h sn i u"
    "case r of Inl e \<Rightarrow> dk_files d' = dk_files d \<and> (\<forall>msg. e = ErrCheckFailed msg \<longrightarrow> incurable a h (thin keep sn) msg)
     | Inr p \<Rightarrow> prepares a (thin keep sn) d p d'" by blast
  have "dk_files d' (ap_path a) = dk_files d (ap_path a)"
    using k(4) by (auto simp: prepares_def split: sum.splits option.splits)
  moreover have "\<exists>keep. (\<forall>i u. \<not> keep i u \<longrightarrow> blamed a h sn i u) \<and> incurable a h (thin keep sn) msg" if "r = Inl (ErrCheckFailed msg)" for msg
    using k(3,4) that by (intro exI [of _ keep]) simp
  ultimately show ?thesis using k(1,2) unfolding same_core_def by blast
qed

text \<open>The disk after publishing a prepared candidate.\<close>

definition commits :: "applier \<Rightarrow> disk \<Rightarrow> string \<Rightarrow> apply_result \<Rightarrow> apply_err option \<Rightarrow> disk \<Rightarrow> bool" where
  "commits a d data res err d' \<longleftrightarrow>
    dk_files d' = (if ar_changed res then (dk_files d)(ap_path a \<mapsto> data) else dk_files d) \<and>
    (ar_changed res \<longrightarrow> dk_files d (ap_path a) \<noteq> Some data \<and> (data, True) \<in> set (dk_checked d')) \<and>
    (\<not> ar_changed res \<longrightarrow> same_core d d') \<and>
    (err = None \<longrightarrow> dk_files d' (ap_path a) = Some data \<and> ar_reloaded res = ar_changed res \<and>
      (ar_changed res \<longrightarrow> dk_running d' = Some data \<and> dk_restarts d' = Suc (dk_restarts d)))"

lemma Commit_spec:
  assumes p: "prepares a sn d p d1" "same_core d d1" and c: "Commit h False p d1 = ((res, err), p', d2)"
  shows "\<exists>data. candidate a sn data \<and> commits a d data res err (Close p' d2)"
proof -
  obtain data tmp where t: "p = prepared_for a tmp" "candidate a sn data"
    "case tmp of None \<Rightarrow> dk_files d1 = dk_files d \<and> dk_files d (ap_path a) = Some data
      | Some t \<Rightarrow> t \<noteq> ap_path a \<and> dk_files d t = None \<and> dk_files d1 = (dk_files d)(t \<mapsto> data) \<and>
          dk_files d (ap_path a) \<noteq> Some data \<and> (data, True) \<in> set (dk_checked d1)"
    using p(1) by (auto simp: prepares_def)
  have "commits a d data res err (Close p' d2)"
  proof (cases tmp)
    case None
    then show ?thesis using t(1,3) c p(2) by (auto simp: Commit_def prepared_for_def Close_def commits_def same_core_def Let_def)
  next
    case (Some n)
    have restored: "(dk_files d)(n \<mapsto> data, n := None) = dk_files d" using t(3) Some by (simp add: fun_upd_idem)
    have fwd: "(dk_files d1)(ap_path a := dk_files d1 n, n := None) = (dk_files d)(ap_path a \<mapsto> data)"
      using t(3) Some by (auto simp: fun_eq_iff)
    consider "ho_rename_fails h" | "\<not> ho_rename_fails h" "ho_open_fails h" | "\<not> ho_rename_fails h" "\<not> ho_open_fails h" "ho_dir_sync_fails h"
      | "\<not> ho_rename_fails h" "\<not> ho_open_fails h" "\<not> ho_dir_sync_fails h" by blast
    then show ?thesis
      using t(1,3) c p(2) Some restored fwd
      by cases (auto simp: Commit_def prepared_for_def Close_def commits_def same_core_def remove_file_def Reload_def Let_def split: if_splits)
  qed
  then show ?thesis using t(2) by blast
qed



section \<open>Applying again\<close>

text \<open>A host on which nothing fails, with the same verdicts as another one.\<close>

definition healthy :: "host \<Rightarrow> host \<Rightarrow> string \<Rightarrow> disk \<Rightarrow> bool" where
  "healthy h h' path d \<longleftrightarrow> (\<forall>n. \<not> ho_read_fails h' n \<and> \<not> ho_mkdir_fails h' n \<and> ho_temp_fault h' n = None \<and>
     dk_files d (temp_name h' n path) = None \<and> ho_check h' n = ho_check h n)"

lemma healthy_files: "dk_files e' = dk_files e \<Longrightarrow> healthy h h' path e \<Longrightarrow> healthy h h' path e'"
  by (simp add: healthy_def)

lemma healthy_pass:
  assumes "healthy h h' (ap_path a) e" "GenerateWithReality (ap_env a) sn (ap_reality a) (ap_local a) = Inr opts"
    "ap_marshal a opts = Some data" "dk_files e (ap_path a) = Some old"
  shows "if data = old then prepare_pass a h' False n sn e = (Finished (Inr (prepared_for a None)), e)
    else case ho_check h n data of
        None \<Rightarrow> True
      | Some msg \<Rightarrow> (\<exists>e'. prepare_pass a h' False n sn e = (Refused opts msg, e') \<and> dk_files e' = dk_files e \<and> same_core e e')"
proof (cases "data = old")
  case True
  then show ?thesis using assms by (simp add: prepare_pass_def sameOnDisk_def healthy_def)
next
  case False
  let ?t = "temp_name h' n (ap_path a)"
  have w: "writeTemp h' n (ap_path a) data e = (Inr ?t, e\<lparr>dk_files := (dk_files e)(?t \<mapsto> data)\<rparr>)"
    using assms(1) by (simp add: writeTemp_def healthy_def Let_def)
  have "dk_files e ?t = None" using assms(1) by (simp add: healthy_def)
  then have r: "(dk_files e)(?t := None) = dk_files e" by (simp add: fun_upd_idem)
  have h: "\<not> ho_read_fails h' n" "\<not> ho_mkdir_fails h' n" "ho_check h' n = ho_check h n" using assms(1) by (simp_all add: healthy_def)
  show ?thesis
  proof (cases "ho_check h n data")
    case (Some msg)
    have "prepare_pass a h' False n sn e =
        (Refused opts msg, e\<lparr>dk_files := dk_files e, dk_checked := dk_checked e @ [(data, False)]\<rparr>)"
      using False Some by (simp add: prepare_pass_def assms(2-4) sameOnDisk_def h w run_check_def remove_file_def r)
    then show ?thesis using False Some by (simp add: same_core_def)
  qed (simp add: False)
qed

lemma prepare_from_again:
  assumes "prepare_from a h False maxDrops n sn d = (Inr p, d')" "ConfigData p d' = Some data" "dk_files e (ap_path a) = Some data"
    "healthy h h' (ap_path a) e"
  shows "\<exists>e'. prepare_from a h' False maxDrops n sn e = (Inr (prepared_for a None), e') \<and> dk_files e' = dk_files e \<and> same_core e e'"
  using assms
proof (induction a h "False" maxDrops n sn d arbitrary: e rule: prepare_from.induct)
  case (1 a h maxDrops n sn d)
  obtain q d1 where q: "prepare_pass a h False n sn d = (q, d1)" by fastforce
  note spec = prepare_pass_spec [OF q]
  show ?case
  proof (cases q)
    case (Finished r)
    then have r: "r = Inr p" "d1 = d'" using 1(2) by (auto simp: prepare_from.simps [of a h False maxDrops n sn d] q)
    then have "prepares a sn d p d'" using spec Finished by simp
    then have "candidate a sn data" using prepares_data 1(3) by force
    then obtain opts where "GenerateWithReality (ap_env a) sn (ap_reality a) (ap_local a) = Inr opts" "ap_marshal a opts = Some data"
      unfolding candidate_def by blast
    from healthy_pass [OF 1(5) this 1(4), of n] show ?thesis
      by (simp add: prepare_from.simps [of a h' False maxDrops n sn e] same_core_def)
  next
    case (Refused opts msg)
    obtain m where m: "rejectedPoolMember (ap_env a) opts sn msg = Some m" "n < maxDrops"
      "prepare_from a h False maxDrops (Suc n) (withoutPoolServer sn (rm_tunnel_id m) (rm_url m)) d1 = (Inr p, d')"
    proof (cases "rejectedPoolMember (ap_env a) opts sn msg")
      case None
      then show ?thesis using 1(2) by (simp add: prepare_from.simps [of a h False maxDrops n sn d] q Refused)
    next
      case (Some m)
      then have "n < maxDrops" using 1(2) by (cases "n < maxDrops") (simp_all add: prepare_from.simps [of a h False maxDrops n sn d] q Refused)
      then show ?thesis using that [OF Some] 1(2) by (simp add: prepare_from.simps [of a h False maxDrops n sn d] q Refused Some)
    qed
    obtain dat where g: "GenerateWithReality (ap_env a) sn (ap_reality a) (ap_local a) = Inr opts" "ap_marshal a opts = Some dat"
      "ho_check h n dat = Some msg" using spec Refused by auto
    note hp = healthy_pass [OF 1(5) g(1,2) 1(4), of n]
    show ?thesis
    proof (cases "dat = data")
      case True
      then show ?thesis using hp by (simp add: prepare_from.simps [of a h' False maxDrops n sn e] same_core_def)
    next
      case False
      then obtain e1 where e1: "prepare_pass a h' False n sn e = (Refused opts msg, e1)" "dk_files e1 = dk_files e" "same_core e e1"
        using hp g(3) by auto
      have "dk_files e1 (ap_path a) = Some data" using e1(2) 1(4) by simp
      from 1(1) [OF q [symmetric] Refused m(1,2) m(3) 1(3) this healthy_files [OF e1(2) 1(5)]]
      obtain e' where e': "prepare_from a h' False maxDrops (Suc n) (withoutPoolServer sn (rm_tunnel_id m) (rm_url m)) e1 =
          (Inr (prepared_for a None), e')" "dk_files e' = dk_files e1" "same_core e1 e'" by (elim exE conjE)
      have "prepare_from a h' False maxDrops n sn e = (Inr (prepared_for a None), e')"
        using e'(1) m(1,2) by (simp add: prepare_from.simps [of a h' False maxDrops n sn e] e1(1))
      moreover have "same_core e e'" using e1(3) e'(3) by (simp add: same_core_def)
      ultimately show ?thesis using e'(2) e1(2) by simp
    qed
  qed
qed

text \<open>C16: Applying the same snapshot again, when the core judges as before and nothing fails, changes nothing: the file stays and the core is not restarted, also when members of pools have to be dropped anew on the way.\<close>

theorem Apply_again_quiet:
  assumes "distinct (map t_id (sn_tunnels sn))" "Apply a h sn d = ((res, None), d1)" "healthy h h' (ap_path a) d1"
  shows "\<exists>d2. Apply a h' sn d1 = ((\<lparr>ar_path = ap_path a, ar_changed = False, ar_reloaded = False\<rparr>, None), d2) \<and>
    dk_files d2 = dk_files d1 \<and> dk_running d2 = dk_running d1 \<and> dk_restarts d2 = dk_restarts d1"
proof -
  obtain r d0 where pr: "prepare a h False sn d = (r, d0)" by fastforce
  obtain p where r: "r = Inr p" using assms(2) pr by (cases r) (auto simp: Apply_def Prepare_def)
  note p = pr [unfolded r]
  obtain p' d' where c: "Commit h False p d0 = ((res, None), p', d')" "d1 = Close p' d'"
    using assms(2) p by (auto simp: Apply_def Prepare_def split: prod.splits)
  from prepare_spec [OF p assms(1)] obtain keep where k: "prepares a (thin keep sn) d p d0" "same_core d d0" by auto
  from Commit_spec [OF k c(1)] obtain data where d: "candidate a (thin keep sn) data" "dk_files d1 (ap_path a) = Some data"
    by (auto simp: commits_def c(2))
  have cd: "ConfigData p d0 = Some data"
    using prepares_data [OF k(1)] candidate_unique [OF d(1)] by blast
  from prepare_from_again [OF p [unfolded prepare_def] cd d(2) assms(3)]
  obtain e where "prepare a h' False sn d1 = (Inr (prepared_for a None), e)" "dk_files e = dk_files d1" "same_core d1 e"
    unfolding prepare_def by blast
  then show ?thesis
    by (simp add: Apply_def Prepare_def Commit_def prepared_for_def Close_def same_core_def Let_def)
qed


section \<open>Blaming the right member\<close>

lemma stabilize_tags:
  assumes "stabilizeWireGuardDetours env eps obs = Inr (eps', obs')" "x \<in> set obs'"
  shows "x \<in> set obs \<or> ex_tag x \<in> range (wireGuardParentTag env)"
proof -
  have one: "x \<in> set (al_outbounds a') \<Longrightarrow> x \<in> set (al_outbounds a) \<or> ex_tag x \<in> range (wireGuardParentTag env)"
    if "stabilize_one env ps ep a = Inr (ep', a')" for ps ep a ep' a'
    using that by (auto simp: stabilize_one_def alias_for_def bindR_Inr_iff Let_def split: if_splits option.splits)
  have "x \<in> set (al_outbounds a') \<Longrightarrow> x \<in> set (al_outbounds a) \<or> ex_tag x \<in> range (wireGuardParentTag env)"
    if "stabilize_all env ps es a = Inr (es', a')" for ps es a es' a'
    using that
  proof (induction es arbitrary: a es')
    case (Cons ep es)
    then obtain ep1 a1 es1 where "stabilize_one env ps ep a = Inr (ep1, a1)" "stabilize_all env ps es a1 = Inr (es1, a')" by (auto simp: bindR_Inr_iff)
    then show ?case using one Cons.IH Cons.prems(1) by blast
  qed simp
  then show ?thesis using assms by (fastforce simp: stabilizeWireGuardDetours_def bindR_Inr_iff)
qed

text \<open>An exit built from the server at a place of the window of a pool.\<close>

definition member_of :: "sb_env \<Rightarrow> snapshot \<Rightarrow> tunnel \<Rightarrow> nat \<Rightarrow> sb_exit \<Rightarrow> bool" where
  "member_of env sn t n x \<longleftrightarrow> n < length (selectPoolServers (t_pool t) (pool_allows env sn)) \<and> ex_tag x = poolMemberTag (t_id t) n \<and>
     (\<exists>body tls. en_parse env (ps_url (selectPoolServers (t_pool t) (pool_allows env sn) ! n)) = Some (ex_type x, body, tls) \<and>
       ex_options x = MemberOptions body (forceCertVerify tls))"

lemma pool_members_place:
  "x \<in> set (pool_members env i n ss) \<Longrightarrow> \<exists>k < length ss. ex_tag x = poolMemberTag i (n + k) \<and>
    (\<exists>body tls. en_parse env (ps_url (ss ! k)) = Some (ex_type x, body, tls) \<and> ex_options x = MemberOptions body (forceCertVerify tls))"
proof (induction ss arbitrary: n)
  case (Cons s ss)
  show ?case
  proof (cases "x \<in> set (pool_members env i (Suc n) ss)")
    case True
    then obtain k where "k < length ss" "ex_tag x = poolMemberTag i (Suc n + k)"
      "\<exists>body tls. en_parse env (ps_url (ss ! k)) = Some (ex_type x, body, tls) \<and> ex_options x = MemberOptions body (forceCertVerify tls)"
      using Cons.IH by blast
    then show ?thesis by (intro exI [of _ "Suc k"]) simp
  next
    case False
    then show ?thesis using Cons.prems by (intro exI [of _ 0]) (auto split: option.splits)
  qed
qed simp

lemma buildTunnels_tags:
  assumes "buildTunnels env (pool_allows env sn) ts = Inr (eps, obs, sk)" "x \<in> set obs"
  shows "\<exists>t \<in> set ts. ex_tag x = TunnelTag (t_id t) \<or> (\<exists>n. member_of env sn t n x)"
  using assms
proof (induction ts arbitrary: eps obs sk)
  case (Cons u ts)
  consider eps' sk' where "buildTunnels env (pool_allows env sn) ts = Inr (eps', obs, sk')"
    | eps' obs' y sk' where "buildTunnels env (pool_allows env sn) ts = Inr (eps', obs', sk')" "obs = y # obs'" "ex_tag y = TunnelTag (t_id u)"
    | eps' obs' grp sk' where "buildTunnels env (pool_allows env sn) ts = Inr (eps', obs', sk')" "buildPool env u (pool_allows env sn) = Some grp"
      "obs = grp @ obs'"
    using Cons.prems(1) by (auto simp: bindR_Inr_iff Let_def split: if_splits option.splits)
  then show ?case
  proof cases
    case 1
    then show ?thesis using Cons.IH Cons.prems(2) by auto
  next
    case 2
    then show ?thesis using Cons.IH [OF 2(1)] Cons.prems(2) by auto
  next
    case 3
    have "ex_tag x = TunnelTag (t_id u) \<or> (\<exists>n. member_of env sn u n x)" if "x \<in> set grp"
    proof -
      have "x \<in> set (pool_members env (t_id u) 0 (selectPoolServers (t_pool u) (pool_allows env sn))) \<or> ex_tag x = TunnelTag (t_id u)"
        using that 3(2) by (auto simp: buildPool_def Let_def split: if_splits)
      then show ?thesis using pool_members_place [of x env "t_id u" 0] by (auto simp: member_of_def)
    qed
    then show ?thesis using Cons.IH [OF 3(1)] Cons.prems(2) 3(3) by auto
  qed
qed simp

lemma GenerateWithReality_outbounds:
  assumes "GenerateWithReality env sn live loc = Inr opts"
  obtains opts' diags plan where "generatePolicyWithPlan env sn = Inr (opts', diags, plan)" "so_outbounds opts = so_outbounds opts'"
proof -
  obtain opts' diags plan where g: "generatePolicyWithPlan env sn = Inr (opts', diags, plan)"
    using assms by (cases "generatePolicyWithPlan env sn") (auto simp: GenerateWithReality_def)
  have "so_outbounds o2 = so_outbounds o1" if "with_reality sn idn users loc o1 pl = Inr o2" for idn users o1 o2 pl
    using that by (auto simp: with_reality_def bindR_Inr_iff Let_def case_prod_beta)
  then have "so_outbounds opts = so_outbounds opts'"
    using assms by (auto simp: GenerateWithReality_def g split: if_splits option.splits)
  then show ?thesis using that g by blast
qed

lemma tag_members_place:
  "(k, m) \<in> set (tag_members t n ss) \<Longrightarrow> \<exists>j < length ss. k = poolMemberTag (t_id t) (n + j) \<and> rm_tunnel_id m = t_id t \<and> rm_url m = ps_url (ss ! j)"
proof (induction ss arbitrary: n)
  case (Cons s ss)
  show ?case
  proof (cases "(k, m) \<in> set (tag_members t (Suc n) ss)")
    case True
    then obtain j where "j < length ss" "k = poolMemberTag (t_id t) (Suc n + j)" "rm_tunnel_id m = t_id t" "rm_url m = ps_url (ss ! j)"
      using Cons.IH by blast
    then show ?thesis by (intro exI [of _ "Suc j"]) simp
  next
    case False
    then show ?thesis using Cons.prems by (intro exI [of _ 0]) auto
  qed
qed simp

lemma rejected_place:
  assumes "rejectedPoolMember env opts sn msg = Some m"
  obtains t j num idx where "t \<in> set (sn_tunnels sn)" "j < length (selectPoolServers (t_pool t) (pool_allows env sn))"
    "rm_tunnel_id m = t_id t" "rm_url m = ps_url (selectPoolServers (t_pool t) (pool_allows env sn) ! j)"
    "FindStringSubmatch msg = Some (''outbound'', num)" "Atoi num = Some idx" "0 \<le> idx" "idx < int (length (so_outbounds opts))"
    "ex_tag (so_outbounds opts ! nat idx) = poolMemberTag (t_id t) j"
proof -
  obtain num idx where i: "FindStringSubmatch msg = Some (''outbound'', num)" "Atoi num = Some idx" "0 \<le> idx" "idx < int (length (so_outbounds opts))"
    "poolMembersByTag env sn (ex_tag (so_outbounds opts ! nat idx)) = Some m"
    using assms by (auto simp: rejectedPoolMember_def split: option.splits prod.splits if_splits)
  have "(ex_tag (so_outbounds opts ! nat idx), m) \<in> set (concat (map (\<lambda>t. if \<not> t_enabled t \<or> t_source t \<noteq> SourcePool then []
      else tag_members t 0 (selectPoolServers (t_pool t) (pool_allows env sn))) (sn_tunnels sn)))"
    using i(5) unfolding poolMembersByTag_def by (rule map_of_SomeD [THEN subst [OF set_rev, of "\<lambda>S. _ \<in> S"]])
  from in_concat_map [OF this] obtain t where t: "t \<in> set (sn_tunnels sn)"
    "(ex_tag (so_outbounds opts ! nat idx), m) \<in> set (if \<not> t_enabled t \<or> t_source t \<noteq> SourcePool then []
      else tag_members t 0 (selectPoolServers (t_pool t) (pool_allows env sn)))" by (elim exE conjE)
  then have "(ex_tag (so_outbounds opts ! nat idx), m) \<in> set (tag_members t 0 (selectPoolServers (t_pool t) (pool_allows env sn)))"
    by (simp split: if_splits)
  from tag_members_place [OF this] show ?thesis using that t(1) i(1-4) by auto
qed


lemma tags_of_ids:
  assumes "length i = length j"
  shows "TunnelTag i \<noteq> poolMemberTag j n" "poolMemberTag i m = poolMemberTag j n \<longleftrightarrow> i = j \<and> m = n"
proof -
  show "TunnelTag i \<noteq> poolMemberTag j n"
  proof
    assume "TunnelTag i = poolMemberTag j n"
    then have "length (TunnelTag i) = length (poolMemberTag j n)" by (rule arg_cong)
    then show False using assms by (simp add: TunnelTag_def poolMemberTag_def)
  qed
  show "poolMemberTag i m = poolMemberTag j n \<longleftrightarrow> i = j \<and> m = n"
    using assms Itoa_nat_inj by (auto simp: poolMemberTag_def TunnelTag_def)
qed

text \<open>C15: When the core refuses an exit by its number, the member that is dropped is the one that exit was built from: the number of the message, read as the runtime writes it, points at an exit whose protocol and body come from the link of exactly the server that leaves the snapshot.  Hand-made tunnels, chains and groups are never taken for members.  Identifiers of tunnels are distinct and of one length, as UUIDs are.\<close>

theorem rejected_member_built_exit:
  assumes ids: "distinct (map t_id (sn_tunnels sn))" "\<forall>t \<in> set (sn_tunnels sn). length (t_id t) = k"
    and gen: "GenerateWithReality env sn live loc = Inr opts"
    and rej: "rejectedPoolMember env opts sn msg = Some m"
  shows "\<exists>num idx body tls. FindStringSubmatch msg = Some (''outbound'', num) \<and> Atoi num = Some idx \<and>
    0 \<le> idx \<and> idx < int (length (so_outbounds opts)) \<and>
    (let x = so_outbounds opts ! nat idx in
     en_parse env (rm_url m) = Some (ex_type x, body, tls) \<and> ex_options x = MemberOptions body (forceCertVerify tls))"
proof -
  from rejected_place [OF rej] obtain t j num idx where t: "t \<in> set (sn_tunnels sn)"
    "rm_url m = ps_url (selectPoolServers (t_pool t) (pool_allows env sn) ! j)"
    "FindStringSubmatch msg = Some (''outbound'', num)" "Atoi num = Some idx" "0 \<le> idx" "idx < int (length (so_outbounds opts))"
    "ex_tag (so_outbounds opts ! nat idx) = poolMemberTag (t_id t) j" by metis
  let ?x = "so_outbounds opts ! nat idx"
  from GenerateWithReality_outbounds [OF gen] obtain opts' diags plan
    where g: "generatePolicyWithPlan env sn = Inr (opts', diags, plan)" "so_outbounds opts = so_outbounds opts'" .
  from generate_stages [OF g(1)] obtain s where s: "stages env sn opts' plan s" .
  have "?x \<in> set (so_outbounds opts')" using t(5,6) g(2) by (metis nat_less_iff nth_mem)
  then have "ex_tag ?x = TagDirect \<or> ?x \<in> set (tl (so_outbounds opts'))"
    using stages_options(1) [OF s] by (metis sb_exit.select_convs(2) set_ConsD)
  moreover have "ex_tag ?x \<noteq> TagDirect" "ex_tag ?x \<notin> range (wireGuardParentTag env)"
    unfolding t(7) by (auto simp: poolMemberTag_def TunnelTag_def wireGuardParentTag_def)
  ultimately have "?x \<in> set (sg_obs s)" using stabilize_tags [OF stages_stable [OF s]] by blast
  from buildTunnels_tags [OF stages_tunnels [OF s] this] obtain u where u: "u \<in> set (sn_tunnels sn)"
    "ex_tag ?x = TunnelTag (t_id u) \<or> (\<exists>n. member_of env sn u n ?x)" by blast
  have len: "length (t_id u) = length (t_id t)" using ids(2) t(1) u(1) by simp
  then have "ex_tag ?x \<noteq> TunnelTag (t_id u)" unfolding t(7) using tags_of_ids(1) by metis
  then obtain n where n: "member_of env sn u n ?x" using u(2) by blast
  then have "t_id u = t_id t \<and> n = j" using t(7) tags_of_ids(2) [OF len] unfolding member_of_def by metis
  moreover from this have "u = t" using ids(1) u(1) t(1) by (metis distinct_map inj_on_def)
  ultimately show ?thesis using n t(2-6) unfolding member_of_def Let_def by metis
qed

section \<open>Example\<close>

text \<open>A core that refuses the second exit of every configuration that has one: the demo policy loses the member of its
  pool and is published without it.\<close>

definition demo_msg :: string where "demo_msg = ''FATAL initialize outbound[1]: bad key''"

lemma demo_msg_parsed: "FindStringSubmatch demo_msg = Some (''outbound'', ''1'')" "Atoi ''1'' = Some 1"
  by (simp_all add: demo_msg_def initIndexRe_def after_prefix_def bracketed_def is_digit_def Let_def) code_simp


lemma demo_reality: "GenerateWithReality demo_sb_env demo_policy None [] = Inr (fst demo_out)"
  unfolding GenerateWithReality_def demo_generated(1) by (simp add: demo_policy_def DefaultSettings_def case_prod_beta)

lemma demo_ids: "distinct (map t_id (sn_tunnels demo_policy))" "\<forall>t \<in> set (sn_tunnels demo_policy). length (t_id t) = 1"
  by (simp_all add: demo_policy_def demo_exit_def demo_tunnel_def)

lemma demo_rejected:
  "rejectedPoolMember demo_sb_env (fst demo_out) demo_policy demo_msg =
    Some \<lparr>rm_tunnel_id = ''q'', rm_tunnel_name = ''q'', rm_url = ''vless://u@h:1?security=tls''\<rparr>"
proof -
  have o: "length (so_outbounds (fst demo_out)) = 3" "ex_tag (so_outbounds (fst demo_out) ! 1) = poolMemberTag ''q'' 0"
  proof -
    have "length (map ex_tag (so_outbounds (fst demo_out))) = 3" unfolding demo_generated(3) by simp
    then show l: "length (so_outbounds (fst demo_out)) = 3" by simp
    have "map ex_tag (so_outbounds (fst demo_out)) ! 1 = poolMemberTag ''q'' 0" unfolding demo_generated(3) by simp
    then show "ex_tag (so_outbounds (fst demo_out) ! 1) = poolMemberTag ''q'' 0" by (simp add: l)
  qed
  have "ps_url (demo_member ''-'') = ''vless://u@h:1?security=tls''" by (simp add: demo_member_def)
  moreover from this have "selectPoolServers [demo_member ''RU'', demo_member ''-''] (pool_allows demo_sb_env demo_policy) = [demo_member ''-'']"
    by (simp add: selectPoolServers_def pool_allows_def demo_defs demo_captions poolMaxServers_def)
  ultimately have "poolMembersByTag demo_sb_env demo_policy (poolMemberTag ''q'' 0) =
      Some \<lparr>rm_tunnel_id = ''q'', rm_tunnel_name = ''q'', rm_url = ''vless://u@h:1?security=tls''\<rparr>"
    unfolding poolMembersByTag_def by (simp add: demo_policy_def demo_exit_def demo_tunnel_def)
  then show ?thesis by (simp add: rejectedPoolMember_def demo_msg_parsed o(1) o(2) [unfolded One_nat_def])
qed

theorem rejected_member_built_exit_witness:
  "\<exists>body tls. en_parse demo_sb_env ''vless://u@h:1?security=tls'' = Some (ex_type (so_outbounds (fst demo_out) ! 1), body, tls) \<and>
    ex_options (so_outbounds (fst demo_out) ! 1) = MemberOptions body (forceCertVerify tls)"
  using rejected_member_built_exit [OF demo_ids demo_reality demo_rejected] by (auto simp: demo_msg_parsed Let_def)

definition demo_applier :: applier where
  "demo_applier = \<lparr>ap_env = demo_sb_env, ap_reality = None, ap_local = [], ap_config_path = [], ap_marshal = (\<lambda>_. Some ''cfg'')\<rparr>"

definition demo_host :: "(nat \<Rightarrow> string \<Rightarrow> string option) \<Rightarrow> host" where
  "demo_host check = \<lparr>ho_read_fails = (\<lambda>_. False), ho_mkdir_fails = (\<lambda>_. False), ho_suffix = (\<lambda>_. ''1''), ho_temp_fault = (\<lambda>_. None),
     ho_check = check, ho_rename_fails = False, ho_open_fails = False, ho_dir_sync_fails = False, ho_reload_fails = False,
     ho_left_running = None\<rparr>"

definition empty_disk :: disk where
  "empty_disk = \<lparr>dk_files = Map.empty, dk_checked = [], dk_running = None, dk_restarts = 0\<rparr>"

text \<open>A core that always blames the pool is asked at most three times for two servers.\<close>

theorem prepare_tolerates_pools_witness:
  "length (dk_checked (snd (prepare demo_applier (demo_host (\<lambda>_ _. Some demo_msg)) True demo_policy empty_disk))) \<le> 3"
proof -
  have "poolServerCount demo_policy = 2" by (simp add: poolServerCount_def demo_policy_def demo_exit_def demo_tunnel_def)
  then show ?thesis
    using prepare_tolerates_pools [OF demo_ids(1) prod.collapse [symmetric], of demo_applier "demo_host (\<lambda>_ _. Some demo_msg)" True empty_disk]
    by (simp add: empty_disk_def)
qed

lemma demo_applied:
  "Apply demo_applier (demo_host (\<lambda>_ _. None)) demo_policy empty_disk =
    ((\<lparr>ar_path = DefaultConfigPath, ar_changed = True, ar_reloaded = True\<rparr>, None),
     \<lparr>dk_files = [DefaultConfigPath \<mapsto> ''cfg''], dk_checked = [(''cfg'', True)], dk_running = Some ''cfg'', dk_restarts = 1\<rparr>)"
proof -
  have a: "ap_path demo_applier = DefaultConfigPath" by (simp add: ap_path_def demo_applier_def)
  have f: "GenerateWithReality (ap_env demo_applier) demo_policy (ap_reality demo_applier) (ap_local demo_applier) = Inr (fst demo_out)"
    "ap_marshal demo_applier (fst demo_out) = Some ''cfg''" using demo_reality by (simp_all add: demo_applier_def)
  let ?t = "DefaultConfigPath @ ''.tmp-1''"
  have "prepare_pass demo_applier (demo_host (\<lambda>_ _. None)) False 0 demo_policy empty_disk =
      (Finished (Inr (prepared_for demo_applier (Some ?t))), empty_disk\<lparr>dk_files := [?t \<mapsto> ''cfg''], dk_checked := [(''cfg'', True)]\<rparr>)"
    by (simp add: prepare_pass_def a f sameOnDisk_def empty_disk_def demo_host_def writeTemp_def temp_name_def run_check_def Let_def)
  then have p: "Prepare demo_applier (demo_host (\<lambda>_ _. None)) demo_policy empty_disk =
      (Inr (prepared_for demo_applier (Some ?t)), empty_disk\<lparr>dk_files := [?t \<mapsto> ''cfg''], dk_checked := [(''cfg'', True)]\<rparr>)"
    by (simp add: Prepare_def prepare_def prepare_from.simps [of demo_applier _ False _ 0])
  show ?thesis
    unfolding Apply_def p
    by (simp add: Commit_def prepared_for_def a demo_host_def Reload_def Close_def empty_disk_def Let_def fun_upd_idem)
qed


theorem Apply_again_quiet_witness:
  "\<exists>d2. Apply demo_applier (demo_host (\<lambda>_ _. None)) demo_policy
      \<lparr>dk_files = [DefaultConfigPath \<mapsto> ''cfg''], dk_checked = [(''cfg'', True)], dk_running = Some ''cfg'', dk_restarts = 1\<rparr> =
    ((\<lparr>ar_path = DefaultConfigPath, ar_changed = False, ar_reloaded = False\<rparr>, None), d2) \<and> dk_restarts d2 = 1"
proof -
  have a: "ap_path demo_applier = DefaultConfigPath" by (simp add: ap_path_def demo_applier_def)
  have "healthy (demo_host (\<lambda>_ _. None)) (demo_host (\<lambda>_ _. None)) (ap_path demo_applier)
      \<lparr>dk_files = [DefaultConfigPath \<mapsto> ''cfg''], dk_checked = [(''cfg'', True)], dk_running = Some ''cfg'', dk_restarts = 1\<rparr>"
    by (simp add: healthy_def a) (simp add: demo_host_def temp_name_def)
  from Apply_again_quiet [OF demo_ids(1) demo_applied this] show ?thesis by (auto simp: a)
qed


end
