(* ===== verification/Lists_Pool.thy ===== *)
theory Lists_Pool
  imports Sb_Generate "HOL-Library.Multiset"
begin

text \<open>
  The schedule of the pools (\<open>internal/lists/pool.go\<close>): how a crawl of the catalogue is merged into the servers of a
  pool, and the manager that crawls the catalogues and writes the result.  Positions matter: the compiler gives the first
  \<open>PoolConfigServers\<close> servers their tags by position, so a server that stays must keep its place.  The crawl itself is an
  argument; what is proved is the merge, its history over many crawls and the writes of one round.
\<close>

section \<open>Merging a crawl\<close>

definition poolMissesBeforeDrop :: int where "poolMissesBeforeDrop = 3"

definition PoolConfigServers :: nat where "PoolConfigServers = 64"

text \<open>\<open>freshByURL\<close>: the first admitted card of every link; \<open>inFresh\<close> is its domain.\<close>

fun fresh_by_url :: "(pool_server \<Rightarrow> bool) \<Rightarrow> (string \<rightharpoonup> pool_server) \<Rightarrow> pool_server list \<Rightarrow> (string \<rightharpoonup> pool_server)" where
  "fresh_by_url allows m [] = m"
| "fresh_by_url allows m (s # ss) = fresh_by_url allows
     (if ps_url s \<noteq> [] \<and> allows s \<and> m (ps_url s) = None then m(ps_url s \<mapsto> s) else m) ss"

text \<open>A known server after the crawl: found, its misses are cleared and empty captions filled in; not found, it counts
  one more miss and lives while the count is below the limit.\<close>

definition meet :: "(string \<rightharpoonup> pool_server) \<Rightarrow> pool_server \<Rightarrow> pool_server \<times> bool" where
  "meet m s = (case m (ps_url s) of
     Some f \<Rightarrow> (s\<lparr>ps_misses := 0,
         ps_title := if ps_title s = [] then ps_title f else ps_title s,
         ps_country := if ps_country s = [] then ps_country f else ps_country s\<rparr>, True)
   | None \<Rightarrow> (let n = wrap64 (ps_misses s + 1) in (s\<lparr>ps_misses := n\<rparr>, n < poolMissesBeforeDrop)))"

record merge_state =
  ms_known :: "string list"
  ms_window :: "pool_server option list"
  ms_candidates :: "pool_server list"

definition merge_one :: "(pool_server \<Rightarrow> bool) \<Rightarrow> (string \<rightharpoonup> pool_server) \<Rightarrow> pool_server \<Rightarrow> merge_state \<Rightarrow> merge_state" where
  "merge_one allows m s st =
    (if ps_url s = [] \<or> ps_url s \<in> set (ms_known st) then st
     else
       let st = st\<lparr>ms_known := ps_url s # ms_known st\<rparr> in
       if \<not> allows s then st
       else case meet m s of (s, alive) \<Rightarrow>
         if length (ms_window st) < PoolConfigServers
         then st\<lparr>ms_window := ms_window st @ [if alive then Some s else None]\<rparr>
         else if alive then st\<lparr>ms_candidates := ms_candidates st @ [s]\<rparr> else st)"

fun merge_stored :: "(pool_server \<Rightarrow> bool) \<Rightarrow> (string \<rightharpoonup> pool_server) \<Rightarrow> pool_server list \<Rightarrow> merge_state \<Rightarrow> merge_state" where
  "merge_stored allows m [] st = st"
| "merge_stored allows m (s # ss) st = merge_stored allows m ss (merge_one allows m s st)"

fun new_cards :: "(pool_server \<Rightarrow> bool) \<Rightarrow> string list \<Rightarrow> string list \<Rightarrow> pool_server list \<Rightarrow> pool_server list" where
  "new_cards allows known seen [] = []"
| "new_cards allows known seen (s # ss) =
    (if ps_url s = [] \<or> ps_url s \<in> set known \<or> ps_url s \<in> set seen \<or> \<not> allows s then new_cards allows known seen ss
     else s\<lparr>ps_misses := 0\<rparr> # new_cards allows known (ps_url s # seen) ss)"

definition poolPingRank :: "int \<Rightarrow> int" where
  "poolPingRank ping = (if ping \<le> 0 then 2 ^ 30 else ping)"

text \<open>The order of \<open>sort.Slice\<close>: by rank, then by link.  Candidates have distinct links, so every sorting algorithm
  gives the same list (\<open>candidate_order_unique\<close> below).\<close>

definition candidate_key :: "pool_server \<Rightarrow> int \<times> string" where
  "candidate_key s = (poolPingRank (ps_ping_ms s), ps_url s)"

fun fill_window :: "pool_server option list \<Rightarrow> pool_server list \<Rightarrow> pool_server list" where
  "fill_window [] cs = cs"
| "fill_window (Some s # w) cs = s # fill_window w cs"
| "fill_window (None # w) [] = fill_window w []"
| "fill_window (None # w) (c # cs) = c # fill_window w cs"

fun samePool :: "pool_server list \<Rightarrow> pool_server list \<Rightarrow> bool" where
  "samePool [] [] = True"
| "samePool (a # as) (b # bs) = (a = b \<and> samePool as bs)"
| "samePool _ _ = False"

definition merge_parts :: "pool_server list \<Rightarrow> pool_server list \<Rightarrow> (pool_server \<Rightarrow> bool) \<Rightarrow> pool_server option list \<times> pool_server list" where
  "merge_parts stored fresh allows =
    (let st = merge_stored allows (fresh_by_url allows Map.empty fresh) stored \<lparr>ms_known = [], ms_window = [], ms_candidates = []\<rparr>
     in (ms_window st, sort_key candidate_key (ms_candidates st @ new_cards allows (ms_known st) [] fresh)))"

definition MergePool :: "pool_server list \<Rightarrow> pool_server list \<Rightarrow> (pool_server \<Rightarrow> bool) \<Rightarrow> pool_server list \<times> bool" where
  "MergePool stored fresh allows = (case merge_parts stored fresh allows of (window, candidates) \<Rightarrow>
     let merged = fill_window window candidates in (merged, \<not> samePool stored merged))"

section \<open>The merge in closed form\<close>

text \<open>The stored servers the merge looks at: non-empty links, the first of each, admitted by the filter.\<close>

fun admitted :: "(pool_server \<Rightarrow> bool) \<Rightarrow> string list \<Rightarrow> pool_server list \<Rightarrow> pool_server list" where
  "admitted allows known [] = []"
| "admitted allows known (s # ss) =
    (if ps_url s = [] \<or> ps_url s \<in> set known then admitted allows known ss
     else (if allows s then [s] else []) @ admitted allows (ps_url s # known) ss)"

definition slot :: "(string \<rightharpoonup> pool_server) \<Rightarrow> pool_server \<Rightarrow> pool_server option" where
  "slot m s = (case meet m s of (s, alive) \<Rightarrow> if alive then Some s else None)"

definition offers :: "(pool_server \<Rightarrow> bool) \<Rightarrow> pool_server list \<Rightarrow> string \<Rightarrow> bool" where
  "offers allows fresh u \<longleftrightarrow> u \<noteq> [] \<and> (\<exists>s \<in> set fresh. ps_url s = u \<and> allows s)"

definition urls :: "pool_server list \<Rightarrow> string set" where
  "urls ss = ps_url ` set ss"

lemma fresh_by_url_find:
  "fresh_by_url allows m fresh u =
    (case m u of Some s \<Rightarrow> Some s | None \<Rightarrow> if u = [] then None else List.find (\<lambda>s. ps_url s = u \<and> allows s) fresh)"
  by (induction fresh arbitrary: m) (auto split: option.splits)

lemma fresh_by_url_dom: "fresh_by_url allows Map.empty fresh u = None \<longleftrightarrow> \<not> offers allows fresh u"
  by (auto simp: fresh_by_url_find offers_def find_None_iff)

lemma fresh_by_url_Some:
  "fresh_by_url allows Map.empty fresh u = Some f \<Longrightarrow> f \<in> set fresh \<and> ps_url f = u \<and> allows f \<and> u \<noteq> []"
  by (auto simp: fresh_by_url_find find_Some_iff split: if_splits)

lemma slot_url: "slot m s = Some s' \<Longrightarrow> ps_url s' = ps_url s \<and> ps_ping_ms s' = ps_ping_ms s"
  by (auto simp: slot_def meet_def Let_def split: option.splits if_splits)

lemma merge_stored_known:
  "set (ms_known (merge_stored allows m ss st)) = set (ms_known st) \<union> (urls ss - {[]})"
proof (induction ss arbitrary: st)
  case (Cons s ss)
  have "set (ms_known (merge_one allows m s st)) = set (ms_known st) \<union> ({ps_url s} - {[]})"
    by (auto simp: merge_one_def Let_def split: prod.splits)
  then show ?case using Cons [of "merge_one allows m s st"] by (auto simp: urls_def)
qed (simp add: urls_def)

lemma merge_one_skip: "ps_url s = [] \<or> ps_url s \<in> set (ms_known st) \<Longrightarrow> merge_one allows m s st = st"
  by (simp add: merge_one_def)

lemma merge_one_admit:
  assumes "ps_url s \<noteq> []" "ps_url s \<notin> set (ms_known st)"
  shows "ms_known (merge_one allows m s st) = ps_url s # ms_known st"
    and "ms_window (merge_one allows m s st) = ms_window st @
      (if allows s \<and> length (ms_window st) < PoolConfigServers then [slot m s] else [])"
    and "ms_candidates (merge_one allows m s st) = ms_candidates st @
      (if allows s \<and> \<not> length (ms_window st) < PoolConfigServers then List.map_filter (slot m) [s] else [])"
  using assms by (auto simp: merge_one_def Let_def slot_def List.map_filter_def split: prod.splits)

lemma merge_stored_window:
  "ms_window (merge_stored allows m ss st) =
    ms_window st @ map (slot m) (take (PoolConfigServers - length (ms_window st)) (admitted allows (ms_known st) ss))"
proof (induction ss arbitrary: st)
  case (Cons s ss)
  show ?case
  proof (cases "ps_url s = [] \<or> ps_url s \<in> set (ms_known st)")
    case True
    then show ?thesis using Cons [of st] by (auto simp: merge_one_skip)
  next
    case False
    then have "ps_url s \<noteq> []" "ps_url s \<notin> set (ms_known st)" by auto
    note a = merge_one_admit [OF this, of allows m]
    show ?thesis using Cons [of "merge_one allows m s st"] False
      by (auto simp: a take_Cons')
  qed
qed simp

lemma merge_stored_candidates:
  "ms_candidates (merge_stored allows m ss st) = ms_candidates st @
    List.map_filter (slot m) (drop (PoolConfigServers - length (ms_window st)) (admitted allows (ms_known st) ss))"
proof (induction ss arbitrary: st)
  case (Cons s ss)
  show ?case
  proof (cases "ps_url s = [] \<or> ps_url s \<in> set (ms_known st)")
    case True
    then show ?thesis using Cons [of st] by (auto simp: merge_one_skip)
  next
    case False
    then have "ps_url s \<noteq> []" "ps_url s \<notin> set (ms_known st)" by auto
    note a = merge_one_admit [OF this, of allows m]
    show ?thesis using Cons [of "merge_one allows m s st"] False
      by (auto simp: a drop_Cons' List.map_filter_def)
  qed
qed (simp add: List.map_filter_def)

text \<open>New cards are chosen against the known links, as a set.\<close>

lemma new_cards_cong: "set known = set known' \<Longrightarrow> new_cards allows known seen fresh = new_cards allows known' seen fresh"
  by (induction fresh arbitrary: seen) auto

lemma merge_parts_closed:
  fixes fresh allows stored
  defines "m \<equiv> fresh_by_url allows Map.empty fresh"
  shows "merge_parts stored fresh allows =
    (map (slot m) (take PoolConfigServers (admitted allows [] stored)),
     sort_key candidate_key (List.map_filter (slot m) (drop PoolConfigServers (admitted allows [] stored)) @
       new_cards allows (map ps_url stored) [] fresh))"
proof -
  let ?st = "merge_stored allows m stored \<lparr>ms_known = [], ms_window = [], ms_candidates = []\<rparr>"
  have "new_cards allows (ms_known ?st) [] fresh = new_cards allows (map ps_url stored) [] fresh"
  proof -
    have k: "set (ms_known ?st) = urls stored - {[]}" by (simp add: merge_stored_known)
    have "set known' - {[]} = set known - {[]} \<Longrightarrow> new_cards allows known' seen fresh = new_cards allows known seen fresh"
      for known known' seen by (induction fresh arbitrary: seen) auto
    then show ?thesis using k by (simp add: urls_def)
  qed
  then show ?thesis by (simp add: merge_parts_def Let_def m_def merge_stored_window merge_stored_candidates)
qed

lemma fill_window_mset: "mset (fill_window w cs) = mset (List.map_filter id w) + mset cs"
  by (induction w cs rule: fill_window.induct) (auto simp: List.map_filter_def)

lemma map_filter_id_map: "List.map_filter id (map f xs) = List.map_filter f xs"
  by (simp add: List.map_filter_def comp_def filter_map)

lemma map_filter_append: "List.map_filter f (xs @ ys) = List.map_filter f xs @ List.map_filter f ys"
  by (simp add: List.map_filter_def)

lemma samePool_iff: "samePool a b \<longleftrightarrow> a = b"
  by (induction a b rule: samePool.induct) auto

text \<open>The merged pool is the survivors of the stored servers and the new cards, in some order.\<close>

lemma MergePool_mset:
  "mset (fst (MergePool stored fresh allows)) =
    mset (List.map_filter (slot (fresh_by_url allows Map.empty fresh)) (admitted allows [] stored)) +
    mset (new_cards allows (map ps_url stored) [] fresh)"
proof -
  let ?m = "fresh_by_url allows Map.empty fresh"
  have "mset (List.map_filter (slot ?m) (admitted allows [] stored)) =
      mset (List.map_filter (slot ?m) (take PoolConfigServers (admitted allows [] stored))) +
      mset (List.map_filter (slot ?m) (drop PoolConfigServers (admitted allows [] stored)))"
    by (metis append_take_drop_id map_filter_append mset_append)
  then show ?thesis
    by (simp add: MergePool_def merge_parts_closed fill_window_mset map_filter_id_map Let_def)
qed

lemma MergePool_set:
  "set (fst (MergePool stored fresh allows)) =
    {s'. \<exists>s \<in> set (admitted allows [] stored). slot (fresh_by_url allows Map.empty fresh) s = Some s'} \<union>
    set (new_cards allows (map ps_url stored) [] fresh)"
proof -
  have "set (fst (MergePool stored fresh allows)) = set_mset (mset (fst (MergePool stored fresh allows)))" by simp
  also have "\<dots> = set (List.map_filter (slot (fresh_by_url allows Map.empty fresh)) (admitted allows [] stored)) \<union>
      set (new_cards allows (map ps_url stored) [] fresh)"
    unfolding MergePool_mset by simp
  finally show ?thesis by (force simp: List.map_filter_def)
qed

section \<open>Well-formed pools\<close>

definition pool_ok :: "(pool_server \<Rightarrow> bool) \<Rightarrow> pool_server list \<Rightarrow> bool" where
  "pool_ok allows p \<longleftrightarrow> distinct (map ps_url p) \<and>
    (\<forall>s \<in> set p. ps_url s \<noteq> [] \<and> allows s \<and> 0 \<le> ps_misses s \<and> ps_misses s < poolMissesBeforeDrop)"

definition tail_sorted :: "pool_server list \<Rightarrow> bool" where
  "tail_sorted p \<longleftrightarrow> sorted (map candidate_key (drop PoolConfigServers p))"

lemma admitted_mem:
  "s \<in> set (admitted allows known ss) \<Longrightarrow> s \<in> set ss \<and> allows s \<and> ps_url s \<noteq> [] \<and> ps_url s \<notin> set known"
  by (induction ss arbitrary: known) (fastforce split: if_splits)+

lemma admitted_distinct: "distinct (map ps_url (admitted allows known ss))"
proof (induction ss arbitrary: known)
  case (Cons s ss)
  have "ps_url s \<notin> ps_url ` set (admitted allows (ps_url s # known) ss)" using admitted_mem by fastforce
  then show ?case using Cons by auto
qed simp

lemma admitted_id:
  "distinct (map ps_url ss) \<Longrightarrow> \<forall>s \<in> set ss. ps_url s \<noteq> [] \<and> allows s \<and> ps_url s \<notin> set known \<Longrightarrow> admitted allows known ss = ss"
proof (induction ss arbitrary: known)
  case (Cons s ss)
  have "\<forall>x \<in> set ss. ps_url x \<noteq> [] \<and> allows x \<and> ps_url x \<notin> set (ps_url s # known)"
  proof
    fix x assume "x \<in> set ss"
    then have "ps_url x \<in> ps_url ` set ss" "ps_url x \<noteq> [] \<and> allows x \<and> ps_url x \<notin> set known" using Cons.prems(2) by auto
    moreover have "ps_url s \<notin> ps_url ` set ss" using Cons.prems(1) by simp
    ultimately show "ps_url x \<noteq> [] \<and> allows x \<and> ps_url x \<notin> set (ps_url s # known)" by auto
  qed
  then show ?case using Cons.IH [of "ps_url s # known"] Cons.prems by simp
qed simp

lemma admitted_pool_ok: "pool_ok allows p \<Longrightarrow> admitted allows [] p = p"
  by (rule admitted_id) (auto simp: pool_ok_def)

lemma new_cards_mem:
  "s \<in> set (new_cards allows known seen ss) \<Longrightarrow>
    ps_url s \<noteq> [] \<and> ps_url s \<notin> set known \<and> ps_url s \<notin> set seen \<and> ps_misses s = 0 \<and>
    (\<exists>f \<in> set ss. allows f \<and> s = f\<lparr>ps_misses := 0\<rparr>)"
  by (induction ss arbitrary: seen) (fastforce split: if_splits)+

lemma new_cards_distinct: "distinct (map ps_url (new_cards allows known seen ss))"
proof (induction ss arbitrary: seen)
  case (Cons s ss)
  have "ps_url s \<notin> ps_url ` set (new_cards allows known (ps_url s # seen) ss)" using new_cards_mem by fastforce
  then show ?case using Cons by auto
qed simp

lemma new_cards_urls:
  "urls (new_cards allows known seen ss) = {u. offers allows ss u \<and> u \<notin> set known \<and> u \<notin> set seen}"
proof (induction ss arbitrary: seen)
  case (Cons s ss)
  have *: "offers allows (s # ss) u \<longleftrightarrow> (u \<noteq> [] \<and> ps_url s = u \<and> allows s) \<or> offers allows ss u" for u
    by (auto simp: offers_def)
  show ?case
  proof (cases "ps_url s = [] \<or> ps_url s \<in> set known \<or> ps_url s \<in> set seen \<or> \<not> allows s")
    case True
    then show ?thesis using Cons [of seen] unfolding * by auto
  next
    case False
    then have "urls (new_cards allows known seen (s # ss)) = insert (ps_url s) (urls (new_cards allows known (ps_url s # seen) ss))"
      by (simp add: urls_def)
    then show ?thesis using Cons [of "ps_url s # seen"] False unfolding * by auto
  qed
qed (simp add: urls_def offers_def)

lemma map_filter_slot_distinct: "distinct (map ps_url ss) \<Longrightarrow> distinct (map ps_url (List.map_filter (slot m) ss))"
proof (induction ss)
  case (Cons s ss)
  have "ps_url ` set (List.map_filter (slot m) ss) \<subseteq> ps_url ` set ss"
    by (force simp: List.map_filter_def dest: slot_url)
  then have "ps_url s \<notin> ps_url ` set (List.map_filter (slot m) ss)" using Cons.prems by auto
  moreover have "distinct (map ps_url (List.map_filter (slot m) ss))" using Cons by simp
  ultimately show ?case
    by (cases "slot m s") (simp_all add: List.map_filter_simps(1) slot_url)
qed (simp add: List.map_filter_simps)

lemma MergePool_distinct: "distinct (map ps_url (fst (MergePool stored fresh allows)))"
proof -
  let ?a = "List.map_filter (slot (fresh_by_url allows Map.empty fresh)) (admitted allows [] stored)"
  let ?n = "new_cards allows (map ps_url stored) [] fresh"
  have "mset (fst (MergePool stored fresh allows)) = mset (?a @ ?n)" by (simp add: MergePool_mset)
  then have "mset (map ps_url (fst (MergePool stored fresh allows))) = mset (map ps_url (?a @ ?n))" by (metis mset_map)
  moreover have "distinct (map ps_url (?a @ ?n))"
  proof -
    have "ps_url ` set ?a \<subseteq> ps_url ` set stored"
      by (force simp: List.map_filter_def dest: slot_url admitted_mem)
    moreover have "ps_url ` set ?n \<inter> ps_url ` set stored = {}" using new_cards_mem by fastforce
    ultimately show ?thesis
      using map_filter_slot_distinct [OF admitted_distinct] new_cards_distinct by (auto simp del: map_append simp: map_append [symmetric]) auto
  qed
  ultimately show ?thesis by (metis mset_eq_imp_distinct_iff)
qed

lemma fill_window_drop: "length w \<le> n \<Longrightarrow> \<exists>k. drop n (fill_window w cs) = drop k cs"
proof (induction w cs arbitrary: n rule: fill_window.induct)
  case (2 s w cs)
  then show ?case by (cases n) auto
next
  case (3 w)
  then show ?case using 3(1) [of "n - 1"] by (metis Suc_leD drop_Nil fill_window.simps(3) length_Cons)
next
  case (4 w c cs)
  then obtain n' where n: "n = Suc n'" "length w \<le> n'" by (cases n) auto
  obtain k where "drop n' (fill_window w cs) = drop k cs" using 4(1) [OF n(2)] by blast
  then show ?case by (intro exI [of _ "Suc k"]) (simp add: n)
qed auto

lemma MergePool_tail_sorted: "tail_sorted (fst (MergePool stored fresh allows))"
proof -
  obtain w cs where p: "merge_parts stored fresh allows = (w, cs)" by fastforce
  then have w: "length w \<le> PoolConfigServers" and cs: "sorted (map candidate_key cs)"
    by (auto simp: merge_parts_closed)
  obtain k where "drop PoolConfigServers (fill_window w cs) = drop k cs" using fill_window_drop [OF w] by blast
  then show ?thesis using cs by (simp add: tail_sorted_def MergePool_def p Let_def sorted_wrt_drop drop_map [symmetric])
qed

text \<open>A filter that looks at the link and the caption only: the caption a survivor takes from its admitted card keeps
  it admitted.\<close>

locale caption_filter =
  fixes allows :: "pool_server \<Rightarrow> bool"
  assumes by_caption: "ps_url s = ps_url t \<Longrightarrow> ps_title s = ps_title t \<Longrightarrow> allows s = allows t"
begin

lemma slot_ok:
  assumes "slot (fresh_by_url allows Map.empty fresh) s = Some s'" "allows s" "ps_url s \<noteq> []"
    and "0 \<le> ps_misses s" "ps_misses s < 2 ^ 63 - 1"
  shows "allows s' \<and> ps_url s' \<noteq> [] \<and> 0 \<le> ps_misses s' \<and> ps_misses s' < poolMissesBeforeDrop"
proof (cases "fresh_by_url allows Map.empty fresh (ps_url s)")
  case None
  have "wrap64 (ps_misses s + 1) = ps_misses s + 1" using assms(4,5) by (intro wrap64_id) (simp add: int64_ok_def)
  then have "s' = s\<lparr>ps_misses := ps_misses s + 1\<rparr>" "ps_misses s + 1 < poolMissesBeforeDrop"
    using assms(1) None by (auto simp: slot_def meet_def Let_def split: if_splits)
  then show ?thesis using assms(2-4) by_caption [of s' s] by auto
next
  case (Some f)
  then have f: "ps_url f = ps_url s" "allows f" using fresh_by_url_Some by metis+
  have s': "s' = fst (meet (fresh_by_url allows Map.empty fresh) s)" "ps_misses s' = 0" "ps_url s' = ps_url s"
    "ps_title s' = (if ps_title s = [] then ps_title f else ps_title s)"
    using assms(1) Some by (auto simp: slot_def meet_def)
  then have "allows s'" using by_caption [of s' s] by_caption [of s' f] f assms(2) by (auto split: if_splits)
  then show ?thesis using s' assms(3) by (simp add: poolMissesBeforeDrop_def)
qed

lemma MergePool_ok:
  assumes "\<forall>s \<in> set stored. 0 \<le> ps_misses s \<and> ps_misses s < 2 ^ 63 - 1"
  shows "pool_ok allows (fst (MergePool stored fresh allows))"
proof -
  have "ps_url s \<noteq> [] \<and> allows s \<and> 0 \<le> ps_misses s \<and> ps_misses s < poolMissesBeforeDrop"
    if "s \<in> set (new_cards allows (map ps_url stored) [] fresh)" for s
  proof -
    have n: "ps_url s \<noteq> []" "ps_misses s = 0" "\<exists>f \<in> set fresh. allows f \<and> s = f\<lparr>ps_misses := 0\<rparr>"
      using new_cards_mem [OF that] by auto
    obtain f where "allows f" "s = f\<lparr>ps_misses := 0\<rparr>" using n(3) by blast
    then have "allows s" using by_caption [of s f] by simp
    then show ?thesis using n by (simp add: poolMissesBeforeDrop_def)
  qed
  moreover have "ps_url s' \<noteq> [] \<and> allows s' \<and> 0 \<le> ps_misses s' \<and> ps_misses s' < poolMissesBeforeDrop"
    if "s \<in> set (admitted allows [] stored)" "slot (fresh_by_url allows Map.empty fresh) s = Some s'" for s s'
    using slot_ok [OF that(2)] admitted_mem [OF that(1)] assms by blast
  ultimately show ?thesis unfolding pool_ok_def MergePool_set by (auto simp: MergePool_distinct)
qed

end

interpretation pool_filter: caption_filter "Allows u countries" for u countries
  by unfold_locales (simp add: Allows_def Exclusion_def)


section \<open>Positions\<close>

lemma candidate_order_unique:
  assumes "mset xs = mset ys" "distinct (map ps_url xs)" "sorted (map candidate_key xs)" "sorted (map candidate_key ys)"
  shows "xs = ys"
proof -
  have "inj_on candidate_key (set xs)"
    using assms(2) by (auto simp: inj_on_def candidate_key_def distinct_map)
  moreover have "set xs = set ys" using assms(1) by (metis set_mset_mset)
  moreover have "mset (map candidate_key xs) = mset (map candidate_key ys)" using assms(1) by simp
  then have "map candidate_key xs = map candidate_key ys" using assms(3,4)
    by (metis properties_for_sort sorted_sort_id)
  ultimately show ?thesis by (metis inj_on_map_eq_map map_eq_conv list.set_map Un_absorb)
qed

lemma fill_window_length:
  "length (fill_window w cs) = length (filter (\<lambda>x. x \<noteq> None) w) + length cs"
  by (induction w cs rule: fill_window.induct) auto

lemma fill_window_nth:
  "length (filter (\<lambda>x. x = None) w) \<le> length cs \<Longrightarrow> i < length w \<Longrightarrow> w ! i = Some s \<Longrightarrow> fill_window w cs ! i = s"
proof (induction w cs arbitrary: i rule: fill_window.induct)
  case (2 a w cs)
  then show ?case by (cases i) auto
next
  case (4 w c cs)
  then show ?case by (cases i) auto
qed auto

lemma select_from_take:
  "n < poolMaxServers \<Longrightarrow> distinct (map ps_url ss) \<Longrightarrow> \<forall>s \<in> set ss. ps_url s \<noteq> [] \<and> allows s \<and> ps_url s \<notin> set seen \<Longrightarrow>
    select_from allows seen n ss = take (poolMaxServers - n) ss"
proof (induction ss arbitrary: seen n)
  case (Cons s ss)
  have "\<forall>x \<in> set ss. ps_url x \<noteq> [] \<and> allows x \<and> ps_url x \<notin> set (ps_url s # seen)"
  proof
    fix x assume "x \<in> set ss"
    then have "ps_url x \<in> ps_url ` set ss" "ps_url x \<noteq> [] \<and> allows x \<and> ps_url x \<notin> set seen" using Cons.prems(3) by auto
    moreover have "ps_url s \<notin> ps_url ` set ss" using Cons.prems(2) by simp
    ultimately show "ps_url x \<noteq> [] \<and> allows x \<and> ps_url x \<notin> set (ps_url s # seen)" by auto
  qed
  moreover have "poolMaxServers - n = Suc (poolMaxServers - Suc n)" using Cons.prems(1) by simp
  ultimately show ?case using Cons.IH [of "Suc n" "ps_url s # seen"] Cons.prems by auto
qed simp

text \<open>The compiler takes exactly the window of a well-formed pool: the two constants agree.\<close>

lemma window_is_selected: "pool_ok allows p \<Longrightarrow> selectPoolServers p allows = take PoolConfigServers p"
  unfolding selectPoolServers_def
  by (subst select_from_take) (auto simp: pool_ok_def poolMaxServers_def PoolConfigServers_def)

lemma slot_survives:
  assumes "slot m s = Some s'"
  shows "ps_url s' = ps_url s" "ps_ping_ms s' = ps_ping_ms s"
  using slot_url [OF assms] by auto

lemma slot_alive:
  assumes "0 \<le> ps_misses s" "ps_misses s < 2 ^ 63 - 1"
  shows "(\<exists>s'. slot (fresh_by_url allows Map.empty fresh) s = Some s') \<longleftrightarrow>
    offers allows fresh (ps_url s) \<or> ps_misses s + 1 < poolMissesBeforeDrop"
proof -
  have "wrap64 (ps_misses s + 1) = ps_misses s + 1" using assms by (intro wrap64_id) (simp add: int64_ok_def)
  then show ?thesis using fresh_by_url_dom [of allows fresh "ps_url s"]
    by (auto simp: slot_def meet_def Let_def split: option.splits)
qed

lemma slot_misses:
  assumes "slot (fresh_by_url allows Map.empty fresh) s = Some s'" "0 \<le> ps_misses s" "ps_misses s < 2 ^ 63 - 1"
  shows "ps_misses s' = (if offers allows fresh (ps_url s) then 0 else ps_misses s + 1)"
proof -
  have "wrap64 (ps_misses s + 1) = ps_misses s + 1" using assms by (intro wrap64_id) (simp add: int64_ok_def)
  then show ?thesis using assms(1) fresh_by_url_dom [of allows fresh "ps_url s"]
    by (auto simp: slot_def meet_def Let_def split: option.splits if_splits)
qed

lemma pool_ok_misses: "pool_ok allows p \<Longrightarrow> s \<in> set p \<Longrightarrow> 0 \<le> ps_misses s \<and> ps_misses s < 2 ^ 63 - 1"
  by (auto simp: pool_ok_def poolMissesBeforeDrop_def)

lemma MergePool_keeps_place:
  assumes ok: "pool_ok allows stored"
    and wide: "min PoolConfigServers (length stored) \<le> length (fst (MergePool stored fresh allows))"
    and i: "i < PoolConfigServers" "i < length stored"
    and alive: "offers allows fresh (ps_url (stored ! i)) \<or> ps_misses (stored ! i) + 1 < poolMissesBeforeDrop"
  shows "slot (fresh_by_url allows Map.empty fresh) (stored ! i) = Some (fst (MergePool stored fresh allows) ! i)"
proof -
  let ?m = "fresh_by_url allows Map.empty fresh"
  obtain w cs where p: "merge_parts stored fresh allows = (w, cs)" by fastforce
  then have w: "w = map (slot ?m) (take PoolConfigServers stored)" by (simp add: merge_parts_closed admitted_pool_ok [OF ok])
  have len: "i < length w" using i by (simp add: w)
  obtain s' where s': "slot ?m (stored ! i) = Some s'"
    using alive slot_alive [of "stored ! i" allows fresh] pool_ok_misses [OF ok nth_mem [OF i(2)]] by blast
  then have wi: "w ! i = Some s'" using i by (simp add: w)
  have merged: "fst (MergePool stored fresh allows) = fill_window w cs" by (simp add: MergePool_def p Let_def)
  have "length w = length (filter (\<lambda>x. x \<noteq> None) w) + length (filter (\<lambda>x. x = None) w)"
    using sum_length_filter_compl [of "\<lambda>x. x \<noteq> None" w] by simp
  moreover have "length w \<le> length (filter (\<lambda>x. x \<noteq> None) w) + length cs"
    using wide unfolding merged fill_window_length by (simp add: w)
  ultimately have "length (filter (\<lambda>x. x = None) w) \<le> length cs" by linarith
  then have "fill_window w cs ! i = s'" using fill_window_nth len wi by blast
  then show ?thesis using merged s' by simp
qed

section \<open>Membership\<close>

lemma MergePool_member:
  assumes ok: "pool_ok allows stored" and u: "u \<noteq> []"
  shows "u \<in> urls (fst (MergePool stored fresh allows)) \<longleftrightarrow>
    offers allows fresh u \<or> (\<exists>s \<in> set stored. ps_url s = u \<and> ps_misses s + 1 < poolMissesBeforeDrop)"
proof -
  let ?m = "fresh_by_url allows Map.empty fresh"
  have "u \<in> urls (fst (MergePool stored fresh allows)) \<longleftrightarrow>
      (\<exists>s \<in> set stored. ps_url s = u \<and> (\<exists>s'. slot ?m s = Some s')) \<or> u \<in> urls (new_cards allows (map ps_url stored) [] fresh)"
  proof -
    have "ps_url ` {s'. \<exists>s \<in> set stored. slot ?m s = Some s'} = {ps_url s | s. s \<in> set stored \<and> (\<exists>s'. slot ?m s = Some s')}"
      (is "?l = ?r")
    proof (intro set_eqI iffI)
      fix v assume "v \<in> ?l"
      then obtain s s' where "s \<in> set stored" "slot ?m s = Some s'" "v = ps_url s'" by blast
      then show "v \<in> ?r" using slot_survives(1) [of ?m s s'] by auto
    next
      fix v assume "v \<in> ?r"
      then obtain s s' where "s \<in> set stored" "slot ?m s = Some s'" "v = ps_url s" by blast
      then show "v \<in> ?l" using slot_survives(1) [of ?m s s'] by (intro image_eqI [of _ _ s']) auto
    qed
    then have "urls (fst (MergePool stored fresh allows)) =
        {ps_url s | s. s \<in> set stored \<and> (\<exists>s'. slot ?m s = Some s')} \<union> urls (new_cards allows (map ps_url stored) [] fresh)"
      unfolding urls_def MergePool_set admitted_pool_ok [OF ok] image_Un by simp
    then show ?thesis by auto
  qed
  moreover have "(\<exists>s'. slot ?m s = Some s') \<longleftrightarrow> offers allows fresh (ps_url s) \<or> ps_misses s + 1 < poolMissesBeforeDrop"
    if "s \<in> set stored" for s using slot_alive pool_ok_misses [OF ok that] by blast
  ultimately show ?thesis by (auto simp: new_cards_urls)
qed

lemma MergePool_misses:
  assumes ok: "pool_ok allows stored" and s': "s' \<in> set (fst (MergePool stored fresh allows))"
  shows "if offers allows fresh (ps_url s') then ps_misses s' = 0
    else \<exists>s \<in> set stored. ps_url s = ps_url s' \<and> ps_misses s' = ps_misses s + 1"
proof (cases "s' \<in> set (new_cards allows (map ps_url stored) [] fresh)")
  case True
  then have "ps_url s' \<in> urls (new_cards allows (map ps_url stored) [] fresh)" by (simp add: urls_def)
  then have "offers allows fresh (ps_url s')" by (simp add: new_cards_urls)
  then show ?thesis using new_cards_mem [OF True] by simp
next
  case False
  then obtain s where s: "s \<in> set stored" "slot (fresh_by_url allows Map.empty fresh) s = Some s'"
    using s' unfolding MergePool_set admitted_pool_ok [OF ok] by blast
  have b: "0 \<le> ps_misses s" "ps_misses s < 2 ^ 63 - 1" using pool_ok_misses [OF ok s(1)] by auto
  show ?thesis using slot_misses [OF s(2) b] slot_survives [OF s(2)] s(1) by auto
qed


section \<open>What the merge promises\<close>

text \<open>C20: Whatever the database holds and the catalogue offers, the merged pool is well-formed: its links are distinct and not empty, every server passes the filter (also one whose caption was filled in from the catalogue), no server has missed three crawls, and the servers behind the window are ordered by ping and link.  The result counts as changed exactly when it differs from what was stored, so a quiet crawl writes nothing.\<close>

theorem MergePool_wellformed:
  assumes "\<forall>s \<in> set stored. 0 \<le> ps_misses s \<and> ps_misses s < 2 ^ 63 - 1"
    and "MergePool stored fresh (Allows u countries) = (merged, changed)"
  shows "pool_ok (Allows u countries) merged \<and> tail_sorted merged \<and> (changed \<longleftrightarrow> merged \<noteq> stored)"
proof -
  have "merged = fst (MergePool stored fresh (Allows u countries))" using assms(2) by simp
  moreover have "changed \<longleftrightarrow> merged \<noteq> stored"
    using assms(2) by (auto simp: MergePool_def samePool_iff Let_def split: prod.splits)
  ultimately show ?thesis using pool_filter.MergePool_ok [OF assms(1)] MergePool_tail_sorted by metis
qed



text \<open>The pool after a sequence of crawls, and how many of the last crawls in a row missed a link.\<close>

definition after_crawls :: "(pool_server \<Rightarrow> bool) \<Rightarrow> pool_server list list \<Rightarrow> pool_server list \<Rightarrow> pool_server list" where
  "after_crawls allows fs p = foldl (\<lambda>p fresh. fst (MergePool p fresh allows)) p fs"

definition missed_in_row :: "(pool_server \<Rightarrow> bool) \<Rightarrow> pool_server list list \<Rightarrow> string \<Rightarrow> nat" where
  "missed_in_row allows fs u = length (takeWhile (\<lambda>f. \<not> offers allows f u) (rev fs))"

lemma after_crawls_snoc: "after_crawls allows (fs @ [f]) p = fst (MergePool (after_crawls allows fs p) f allows)"
  by (simp add: after_crawls_def)

lemma missed_snoc: "missed_in_row allows (fs @ [f]) u = (if offers allows f u then 0 else Suc (missed_in_row allows fs u))"
  by (simp add: missed_in_row_def)

lemma after_crawls_ok: "pool_ok (Allows u countries) p \<Longrightarrow> pool_ok (Allows u countries) (after_crawls (Allows u countries) fs p)"
proof (induction fs rule: rev_induct)
  case (snoc f fs)
  then show ?case unfolding after_crawls_snoc using pool_filter.MergePool_ok pool_ok_misses by metis
qed (simp add: after_crawls_def)

lemma after_crawls_misses:
  assumes "pool_ok (Allows u countries) p" "\<forall>s \<in> set p. ps_misses s = 0"
  shows "\<forall>s \<in> set (after_crawls (Allows u countries) fs p). ps_misses s = int (missed_in_row (Allows u countries) fs (ps_url s))"
proof (induction fs rule: rev_induct)
  case Nil
  then show ?case using assms(2) by (simp add: after_crawls_def missed_in_row_def)
next
  case (snoc f fs)
  show ?case
  proof
    fix s assume "s \<in> set (after_crawls (Allows u countries) (fs @ [f]) p)"
    from MergePool_misses [OF after_crawls_ok [OF assms(1)] this [unfolded after_crawls_snoc]]
    show "ps_misses s = int (missed_in_row (Allows u countries) (fs @ [f]) (ps_url s))"
      using snoc by (auto simp: missed_snoc split: if_splits)
  qed
qed

text \<open>C18: The pool after any sequence of crawls is what their history says: a link is in the pool exactly when it was there at first or was offered by some crawl, and it is not missing from the last three crawls; and the counter of each server is the number of crawls in a row that missed it.  So one capricious page evicts nobody, a dead key leaves after the third crawl, and a server that returns is taken back.\<close>

theorem pool_follows_history:
  assumes "pool_ok (Allows u countries) p" "\<forall>s \<in> set p. ps_misses s = 0" "v \<noteq> []"
  shows "(v \<in> urls (after_crawls (Allows u countries) fs p) \<longleftrightarrow>
      missed_in_row (Allows u countries) fs v < 3 \<and> (v \<in> urls p \<or> (\<exists>f \<in> set fs. offers (Allows u countries) f v))) \<and>
    (\<forall>s \<in> set (after_crawls (Allows u countries) fs p). ps_misses s = int (missed_in_row (Allows u countries) fs (ps_url s)))"
proof
  let ?a = "Allows u countries"
  show "v \<in> urls (after_crawls ?a fs p) \<longleftrightarrow> missed_in_row ?a fs v < 3 \<and> (v \<in> urls p \<or> (\<exists>f \<in> set fs. offers ?a f v))"
  proof (induction fs rule: rev_induct)
    case (snoc f fs)
    have "v \<in> urls (after_crawls ?a (fs @ [f]) p) \<longleftrightarrow> offers ?a f v \<or>
        (\<exists>s \<in> set (after_crawls ?a fs p). ps_url s = v \<and> ps_misses s + 1 < poolMissesBeforeDrop)"
      unfolding after_crawls_snoc by (rule MergePool_member [OF after_crawls_ok [OF assms(1)] assms(3)])
    also have "\<dots> \<longleftrightarrow> offers ?a f v \<or> (v \<in> urls (after_crawls ?a fs p) \<and> missed_in_row ?a fs v + 1 < 3)"
      using after_crawls_misses [OF assms(1,2), of fs] by (auto simp: urls_def poolMissesBeforeDrop_def)
    finally show ?case using snoc by (auto simp: missed_snoc)
  qed (simp add: after_crawls_def missed_in_row_def)
qed (rule after_crawls_misses [OF assms(1,2)])


section \<open>Examples\<close>

definition demo_card :: "string \<Rightarrow> int \<Rightarrow> pool_server" where
  "demo_card u ping = \<lparr>ps_url = u, ps_country = [], ps_title = u, ps_ping_ms = ping, ps_misses = 0\<rparr>"

lemma demo_card_simps [simp]:
  "ps_url (demo_card u ping) = u" "ps_country (demo_card u ping) = []" "ps_title (demo_card u ping) = u"
  "ps_ping_ms (demo_card u ping) = ping" "ps_misses (demo_card u ping) = 0"
  by (simp_all add: demo_card_def)

lemma demo_keys: "\<not> poolKeyUnencrypted demo_unicode ''a''" "\<not> poolKeyUnencrypted demo_unicode ''b''"
  by (simp_all add: poolKeyUnencrypted_def TrimSpace_plain plain_char_def Let_def)

lemma demo_cards [simp]:
  "ps_url s = ''a'' \<Longrightarrow> Allows demo_unicode [] s" "ps_url s = ''b'' \<Longrightarrow> Allows demo_unicode [] s"
  by (simp_all add: Allows_def Exclusion_def blockedCountry_def demo_keys)

lemma demo_merge:
  "MergePool [demo_card ''a'' 5] [demo_card ''b'' 3, demo_card ''a'' 9] (Allows demo_unicode []) = ([demo_card ''a'' 5, demo_card ''b'' 3], True)"
  by (simp add: MergePool_def merge_parts_def merge_one_def meet_def Let_def PoolConfigServers_def)

theorem MergePool_wellformed_witness:
  "pool_ok (Allows demo_unicode []) [demo_card ''a'' 5, demo_card ''b'' 3] \<and> tail_sorted [demo_card ''a'' 5, demo_card ''b'' 3] \<and>
   [demo_card ''a'' 5, demo_card ''b'' 3] \<noteq> [demo_card ''a'' 5]"
  using MergePool_wellformed [OF _ demo_merge] by simp



text \<open>Two crawls without the server keep it, the third drops it.\<close>

theorem pool_follows_history_witness:
  "''a'' \<in> urls (after_crawls (Allows demo_unicode []) [[demo_card ''b'' 3], [demo_card ''b'' 3]] [demo_card ''a'' 5]) \<and>
   ''a'' \<notin> urls (after_crawls (Allows demo_unicode []) [[demo_card ''b'' 3], [demo_card ''b'' 3], [demo_card ''b'' 3]] [demo_card ''a'' 5])"
proof -
  have ok: "pool_ok (Allows demo_unicode []) [demo_card ''a'' 5]" by (simp add: pool_ok_def poolMissesBeforeDrop_def)
  have "''a'' \<in> urls [demo_card ''a'' 5]" by (simp add: urls_def)
  then show ?thesis
    using pool_follows_history [OF ok, of "''a''" "[[demo_card ''b'' 3], [demo_card ''b'' 3]]"]
      pool_follows_history [OF ok, of "''a''" "[[demo_card ''b'' 3], [demo_card ''b'' 3], [demo_card ''b'' 3]]"]
    by (simp add: missed_in_row_def offers_def)
qed


end
