(* ===== verification/Lists_Manager.thy ===== *)
theory Lists_Manager
  imports Lists_Pool Login_Throttle
begin

text \<open>
  The manager of the pools (\<open>internal/lists/pool.go\<close>): which catalogues are crawled in a round, which pools are written
  from which crawl, what a failure leaves behind and when the daemon is told to compile again.  The catalogue is an
  argument: a function from the address to the servers of a crawl or its error.  The manager writes through the modelled
  \<open>UpdateTunnelPool\<close>; its channel of updates holds one notice, so it is a flag.
\<close>

section \<open>The set of pools\<close>

record pool_tunnel =
  pt_id :: string
  pt_name :: string
  pt_catalog_url :: string
  pt_enabled :: bool
  pt_servers :: "pool_server list"

record pool_identity =
  pi_id :: string
  pi_catalog_url :: string
  pi_enabled :: bool

definition Identity :: "pool_tunnel \<Rightarrow> pool_identity" where
  "Identity t = \<lparr>pi_id = pt_id t, pi_catalog_url = pt_catalog_url t, pi_enabled = pt_enabled t\<rparr>"

fun SamePoolSet :: "pool_tunnel list \<Rightarrow> pool_tunnel list \<Rightarrow> bool" where
  "SamePoolSet [] [] = True"
| "SamePoolSet (a # as) (b # bs) = (Identity a = Identity b \<and> SamePoolSet as bs)"
| "SamePoolSet _ _ = False"

definition PoolTunnelFrom :: "tunnel \<Rightarrow> pool_tunnel" where
  "PoolTunnelFrom t = \<lparr>pt_id = t_id t, pt_name = t_name t, pt_catalog_url = t_raw t, pt_enabled = t_enabled t, pt_servers = t_pool t\<rparr>"

definition PoolTunnels :: "snapshot \<Rightarrow> pool_tunnel list" where
  "PoolTunnels snap = map PoolTunnelFrom (filter (\<lambda>t. t_source t = SourcePool) (sn_tunnels snap))"

section \<open>The manager\<close>

definition DefaultPoolInterval :: duration where "DefaultPoolInterval = 60 * Minute"

definition defaultRetry :: duration where "defaultRetry = Minute"

definition maxRetryBackoff :: duration where "maxRetryBackoff = 15 * Minute"

record pool_manager =
  pm_retry :: duration
  pm_interval :: duration
  pm_filter :: "string list"
  pm_tunnels :: "pool_tunnel list"
  pm_last :: time
  pm_updates :: bool

definition NewPoolManager :: "duration \<Rightarrow> duration \<Rightarrow> string list \<Rightarrow> pool_manager" where
  "NewPoolManager retry interval flt =
    \<lparr>pm_retry = if retry \<le> 0 then defaultRetry else retry,
     pm_interval = if interval \<le> 0 then DefaultPoolInterval else interval,
     pm_filter = flt, pm_tunnels = [], pm_last = time_zero, pm_updates = False\<rparr>"

definition SetTunnels :: "pool_tunnel list \<Rightarrow> pool_manager \<Rightarrow> pool_manager" where
  "SetTunnels ts m = m\<lparr>pm_tunnels := ts\<rparr>"

definition SetInterval :: "duration \<Rightarrow> pool_manager \<Rightarrow> pool_manager" where
  "SetInterval d m = (if d \<le> 0 then m else m\<lparr>pm_interval := d\<rparr>)"

definition SetFilter :: "string list \<Rightarrow> pool_manager \<Rightarrow> pool_manager" where
  "SetFilter f m = m\<lparr>pm_filter := f\<rparr>"

datatype pool_err = ErrPoolCrawlBusy | CrawlFailed | PoolWrite err | Cancelled

text \<open>What a round reads of its surroundings: the crawl of an address, the tables of characters for the filter, the clock
  at each write, and whether the daemon stops before a catalogue.\<close>

record pool_env =
  pe_crawl :: "string \<Rightarrow> pool_err + pool_server list"
  pe_unicode :: unicode
  pe_clock :: "string \<Rightarrow> time"
  pe_stopped :: "string \<Rightarrow> bool"

definition applyServers :: "pool_env \<Rightarrow> pool_tunnel \<Rightarrow> pool_server list \<Rightarrow> string list \<Rightarrow> db \<Rightarrow> (pool_err + bool) \<times> db" where
  "applyServers env t servers flt s = (case MergePool (pt_servers t) servers (Allows (pe_unicode env) flt) of (merged, changed) \<Rightarrow>
     if \<not> changed then (Inr False, s)
     else case UpdateTunnelPool (pt_id t, merged, pe_clock env (pt_id t)) s of
       (Inl e, s') \<Rightarrow> (Inl (PoolWrite e), s')
     | (Inr _, s') \<Rightarrow> (Inr True, s'))"

fun apply_group :: "pool_env \<Rightarrow> pool_server list \<Rightarrow> string list \<Rightarrow> pool_tunnel list \<Rightarrow> bool \<Rightarrow> pool_err list \<Rightarrow> db \<Rightarrow> (bool \<times> pool_err list) \<times> db" where
  "apply_group env servers flt [] changed errs s = ((changed, errs), s)"
| "apply_group env servers flt (t # ts) changed errs s = (case applyServers env t servers flt s of
     (Inl e, s') \<Rightarrow> apply_group env servers flt ts changed (errs @ [e]) s'
   | (Inr done_now, s') \<Rightarrow> apply_group env servers flt ts (changed \<or> done_now) errs s')"

text \<open>The error of a group is the list of its errors; no error is the empty list.\<close>

definition refreshGroup :: "pool_env \<Rightarrow> string list \<Rightarrow> pool_tunnel list \<Rightarrow> db \<Rightarrow> (bool \<times> pool_err list) \<times> db" where
  "refreshGroup env flt grp s = (case pe_crawl env (pt_catalog_url (hd grp)) of
     Inl e \<Rightarrow> ((False, [e]), s)
   | Inr servers \<Rightarrow> apply_group env servers flt grp False [] s)"

text \<open>\<open>order\<close> and \<open>groups\<close>: the enabled pools by catalogue, both in order of appearance.\<close>

fun add_group :: "pool_tunnel \<Rightarrow> (string \<times> pool_tunnel list) list \<Rightarrow> (string \<times> pool_tunnel list) list" where
  "add_group t [] = [(pt_catalog_url t, [t])]"
| "add_group t ((c, ts) # gs) = (if c = pt_catalog_url t then (c, ts @ [t]) # gs else (c, ts) # add_group t gs)"

fun group_pools :: "pool_tunnel list \<Rightarrow> (string \<times> pool_tunnel list) list \<Rightarrow> (string \<times> pool_tunnel list) list" where
  "group_pools [] gs = gs"
| "group_pools (t # ts) gs = group_pools ts (if pt_enabled t then add_group t gs else gs)"

text \<open>The loop over the catalogues.  \<open>None\<close> as the first result is the early return when the daemon stops.\<close>

fun refresh_groups :: "pool_env \<Rightarrow> string list \<Rightarrow> (string \<times> pool_tunnel list) list \<Rightarrow> bool \<Rightarrow> pool_err list \<Rightarrow> db \<Rightarrow> (bool \<times> pool_err list) option \<times> db" where
  "refresh_groups env flt [] changed errs s = (Some (changed, errs), s)"
| "refresh_groups env flt ((c, grp) # gs) changed errs s =
    (if pe_stopped env c then (None, s)
     else case refreshGroup env flt grp s of ((ok, gerrs), s') \<Rightarrow>
       if ErrPoolCrawlBusy \<in> set gerrs then refresh_groups env flt gs changed errs s'
       else if gerrs \<noteq> [] then refresh_groups env flt gs changed (errs @ gerrs) s'
       else refresh_groups env flt gs (changed \<or> ok) errs s')"

definition Refresh :: "pool_env \<Rightarrow> time \<Rightarrow> pool_manager \<Rightarrow> db \<Rightarrow> pool_err list \<times> pool_manager \<times> db" where
  "Refresh env now m s = (case refresh_groups env (pm_filter m) (group_pools (pm_tunnels m) []) False [] s of
     (None, s') \<Rightarrow> ([Cancelled], m, s')
   | (Some (changed, errs), s') \<Rightarrow> (errs, m\<lparr>pm_last := now, pm_updates := pm_updates m \<or> changed\<rparr>, s'))"

definition refreshOne :: "pool_env \<Rightarrow> string list \<Rightarrow> pool_tunnel \<Rightarrow> db \<Rightarrow> (pool_err + bool) \<times> db" where
  "refreshOne env flt t s = (case pe_crawl env (pt_catalog_url t) of
     Inl e \<Rightarrow> (Inl e, s)
   | Inr servers \<Rightarrow> applyServers env t servers flt s)"

definition RefreshPool :: "pool_env \<Rightarrow> time \<Rightarrow> pool_tunnel \<Rightarrow> pool_manager \<Rightarrow> db \<Rightarrow> (pool_err + bool) \<times> pool_manager \<times> db" where
  "RefreshPool env now t m s = (case refreshOne env (pm_filter m) t s of
     (Inl e, s') \<Rightarrow> (Inl e, m, s')
   | (Inr changed, s') \<Rightarrow> (Inr changed, m\<lparr>pm_last := now, pm_updates := pm_updates m \<or> changed\<rparr>, s'))"

text \<open>One turn of \<open>loop\<close> after a round: how long it waits, and the next backoff.\<close>

definition loop_wait :: "pool_manager \<Rightarrow> bool \<Rightarrow> duration \<Rightarrow> duration \<times> duration" where
  "loop_wait m failed backoff =
    (let wait = pm_interval m in
     if failed then (if backoff < wait then backoff else wait, if backoff < maxRetryBackoff then wrap64 (backoff * 2) else backoff)
     else (wait, pm_retry m))"

section \<open>What a round writes\<close>

definition pool_row :: "string \<Rightarrow> tunnel_row \<Rightarrow> bool" where
  "pool_row i w \<longleftrightarrow> tr_id w = i \<and> tr_source w = SourcePool"

text \<open>The row of a pool after its catalogue was crawled: the merge, when there is one and it changes something.\<close>

definition crawled_row :: "pool_env \<Rightarrow> string list \<Rightarrow> pool_tunnel \<Rightarrow> tunnel_row \<Rightarrow> tunnel_row" where
  "crawled_row env flt t w = (case pe_crawl env (pt_catalog_url t) of
     Inl _ \<Rightarrow> w
   | Inr servers \<Rightarrow> (case MergePool (pt_servers t) servers (Allows (pe_unicode env) flt) of (merged, changed) \<Rightarrow>
       if changed \<and> pool_row (pt_id t) w then w\<lparr>tr_pool := merged, tr_pool_updated_at := unixOrZero (pe_clock env (pt_id t))\<rparr> else w))"

definition round_row :: "pool_env \<Rightarrow> string list \<Rightarrow> pool_tunnel list \<Rightarrow> tunnel_row \<Rightarrow> tunnel_row" where
  "round_row env flt ts w = (case List.find (\<lambda>t. pt_enabled t \<and> pt_id t = tr_id w) ts of None \<Rightarrow> w | Some t \<Rightarrow> crawled_row env flt t w)"

lemma UpdateTunnelPool_rows:
  "snd (UpdateTunnelPool (i, servers, now) s) =
    s\<lparr>db_tunnels := map (\<lambda>w. if pool_row i w then w\<lparr>tr_pool := servers, tr_pool_updated_at := unixOrZero now\<rparr> else w) (db_tunnels s)\<rparr>"
proof (cases "\<exists>w \<in> set (db_tunnels s). pool_row i w")
  case True
  then have "length (filter (\<lambda>w. tr_id w = i \<and> tr_source w = SourcePool) (db_tunnels s)) \<noteq> 0"
    unfolding length_filter_0_iff by (auto simp: pool_row_def)
  then show ?thesis by (simp add: UpdateTunnelPool_def update_pool_tx_def tx_def checkAffected_def upd_where_def pool_row_def)
next
  case False
  then have "length (filter (\<lambda>w. tr_id w = i \<and> tr_source w = SourcePool) (db_tunnels s)) = 0"
    unfolding length_filter_0_iff by (auto simp: pool_row_def)
  moreover have "map (\<lambda>w. if pool_row i w then w\<lparr>tr_pool := servers, tr_pool_updated_at := unixOrZero now\<rparr> else w) (db_tunnels s) = db_tunnels s"
    using False by (intro map_idI) auto
  ultimately show ?thesis by (simp add: UpdateTunnelPool_def update_pool_tx_def tx_def checkAffected_def)
qed

lemma applyServers_rows:
  assumes "pe_crawl env (pt_catalog_url t) = Inr servers"
  shows "snd (applyServers env t servers flt s) = s\<lparr>db_tunnels := map (crawled_row env flt t) (db_tunnels s)\<rparr>"
proof -
  obtain merged changed where m: "MergePool (pt_servers t) servers (Allows (pe_unicode env) flt) = (merged, changed)" by fastforce
  have "snd (applyServers env t servers flt s) =
      (if changed then snd (UpdateTunnelPool (pt_id t, merged, pe_clock env (pt_id t)) s) else s)"
    by (auto simp: applyServers_def m split: prod.splits sum.splits)
  moreover have "crawled_row env flt t = (\<lambda>w. if changed \<and> pool_row (pt_id t) w
      then w\<lparr>tr_pool := merged, tr_pool_updated_at := unixOrZero (pe_clock env (pt_id t))\<rparr> else w)"
    by (rule ext) (simp add: crawled_row_def assms m)
  ultimately show ?thesis by (cases changed) (simp_all add: UpdateTunnelPool_rows)
qed

lemma crawled_row_keeps [simp]: "tr_id (crawled_row env flt t w) = tr_id w" "tr_source (crawled_row env flt t w) = tr_source w"
  by (auto simp: crawled_row_def split: sum.splits prod.splits)

lemma crawled_row_other: "pt_id t \<noteq> tr_id w \<Longrightarrow> crawled_row env flt t w = w"
  by (auto simp: crawled_row_def pool_row_def split: sum.splits prod.splits)

lemma apply_group_rows:
  assumes "\<forall>t \<in> set ts. pe_crawl env (pt_catalog_url t) = Inr servers"
  shows "snd (apply_group env servers flt ts changed errs s) = s\<lparr>db_tunnels := map (fold (crawled_row env flt) ts) (db_tunnels s)\<rparr>"
  using assms
proof (induction ts arbitrary: changed errs s)
  case (Cons t ts)
  obtain r s' where a: "applyServers env t servers flt s = (r, s')" by fastforce
  then have s': "s' = s\<lparr>db_tunnels := map (crawled_row env flt t) (db_tunnels s)\<rparr>"
    using applyServers_rows [of env t servers flt s] Cons.prems by simp
  show ?case using Cons by (cases r) (auto simp: a s' comp_def)
qed simp

definition groups_ok :: "(string \<times> pool_tunnel list) list \<Rightarrow> bool" where
  "groups_ok gs \<longleftrightarrow> (\<forall>(c, ts) \<in> set gs. ts \<noteq> [] \<and> (\<forall>t \<in> set ts. pt_catalog_url t = c))"

lemma add_group_ok: "groups_ok gs \<Longrightarrow> groups_ok (add_group t gs)"
  by (induction t gs rule: add_group.induct) (auto simp: groups_ok_def)

lemma add_group_mset: "mset (concat (map snd (add_group t gs))) = add_mset t (mset (concat (map snd gs)))"
  by (induction t gs rule: add_group.induct) auto

lemma group_pools_ok: "groups_ok gs \<Longrightarrow> groups_ok (group_pools ts gs)"
  by (induction ts gs rule: group_pools.induct) (auto simp: add_group_ok)

lemma group_pools_mset: "mset (concat (map snd (group_pools ts gs))) = mset (filter pt_enabled ts) + mset (concat (map snd gs))"
  by (induction ts gs rule: group_pools.induct) (auto simp: add_group_mset)

text \<open>Every catalogue is crawled once in a round.\<close>

lemma add_group_catalogs: "set (map fst (add_group t gs)) = insert (pt_catalog_url t) (set (map fst gs))"
  by (induction t gs rule: add_group.induct) auto

lemma add_group_distinct: "distinct (map fst gs) \<Longrightarrow> distinct (map fst (add_group t gs))"
proof (induction t gs rule: add_group.induct)
  case (2 t c ts gs)
  then show ?case using add_group_catalogs [of t gs] by auto
qed simp

lemma group_pools_distinct: "distinct (map fst gs) \<Longrightarrow> distinct (map fst (group_pools ts gs))"
  by (induction ts gs rule: group_pools.induct) (auto simp: add_group_distinct)

lemma group_pools_catalogs: "set (map fst (group_pools ts gs)) = set (map fst gs) \<union> pt_catalog_url ` {t \<in> set ts. pt_enabled t}"
proof (induction ts gs rule: group_pools.induct)
  case (2 t ts gs)
  then show ?case using add_group_catalogs [of t gs] by auto
qed simp

lemma fold_crawled_failed:
  "\<forall>t \<in> set ts. \<exists>e. pe_crawl env (pt_catalog_url t) = Inl e \<Longrightarrow> fold (crawled_row env flt) ts w = w"
  by (induction ts arbitrary: w) (auto simp: crawled_row_def)

lemma refreshGroup_rows:
  assumes "grp \<noteq> []" "\<forall>t \<in> set grp. pt_catalog_url t = c"
  shows "snd (refreshGroup env flt grp s) = s\<lparr>db_tunnels := map (fold (crawled_row env flt) grp) (db_tunnels s)\<rparr>"
proof (cases "pe_crawl env c")
  case (Inl e)
  then have "fold (crawled_row env flt) grp = id" using assms(2) by (intro ext) (simp add: fold_crawled_failed)
  then show ?thesis using assms Inl by (simp add: refreshGroup_def)
next
  case (Inr servers)
  then show ?thesis using assms by (simp add: refreshGroup_def apply_group_rows)
qed

lemma refresh_groups_rows:
  "groups_ok gs \<Longrightarrow> \<forall>(c, ts) \<in> set gs. \<not> pe_stopped env c \<Longrightarrow>
    snd (refresh_groups env flt gs changed errs s) = s\<lparr>db_tunnels := map (fold (crawled_row env flt) (concat (map snd gs))) (db_tunnels s)\<rparr>"
proof (induction gs arbitrary: changed errs s)
  case (Cons p gs)
  obtain c grp where p: "p = (c, grp)" by fastforce
  obtain ok gerrs s' where g: "refreshGroup env flt grp s = ((ok, gerrs), s')" by (metis prod.exhaust)
  have s': "s' = s\<lparr>db_tunnels := map (fold (crawled_row env flt) grp) (db_tunnels s)\<rparr>"
    using refreshGroup_rows [of grp c env flt s] Cons.prems(1) g by (simp add: groups_ok_def p)
  have "groups_ok gs" "\<forall>(c, ts) \<in> set gs. \<not> pe_stopped env c" "\<not> pe_stopped env c" using Cons.prems by (auto simp: groups_ok_def p)
  then show ?case using Cons.IH by (simp add: p g s' comp_def)
qed simp

lemma fold_crawled_round:
  assumes "distinct (map pt_id ts)"
  shows "fold (crawled_row env flt) ts w = (case List.find (\<lambda>t. pt_id t = tr_id w) ts of None \<Rightarrow> w | Some t \<Rightarrow> crawled_row env flt t w)"
  using assms
proof (induction ts arbitrary: w)
  case (Cons t ts)
  have "pt_id t = tr_id w \<Longrightarrow> List.find (\<lambda>x. pt_id x = tr_id w) ts = None"
    using Cons.prems by (force simp: find_None_iff)
  then show ?case using Cons by (cases "pt_id t = tr_id w") (simp_all add: crawled_row_other [of t w])
qed simp


lemma find_by_id_mset:
  assumes "mset xs = mset ys" "distinct (map pt_id xs)"
  shows "List.find (\<lambda>t. pt_id t = i) xs = List.find (\<lambda>t. pt_id t = i) ys"
proof -
  have d: "distinct (map pt_id ys)" using assms by (metis mset_eq_imp_distinct_iff mset_map)
  have e: "set xs = set ys" using assms(1) by (metis set_mset_mset)
  have unique: "x = y" if "x \<in> set xs" "y \<in> set xs" "pt_id x = pt_id y" for x y
    using that assms(2) by (auto simp: distinct_map inj_on_def)
  show ?thesis
  proof (cases "\<exists>t \<in> set xs. pt_id t = i")
    case True
    then obtain x y where "List.find (\<lambda>t. pt_id t = i) xs = Some x" "List.find (\<lambda>t. pt_id t = i) ys = Some y"
      using e by (metis (mono_tags, lifting) find_None_iff not_Some_eq)
    moreover from this have "x \<in> set xs" "pt_id x = i" "y \<in> set xs" "pt_id y = i"
      using e by (auto simp: find_Some_iff)
    ultimately show ?thesis using unique by simp
  next
    case False
    then show ?thesis using e by (metis (mono_tags, lifting) find_None_iff)
  qed
qed

lemma fold_groups_round:
  assumes "distinct (map pt_id ts)"
  shows "fold (crawled_row env flt) (concat (map snd (group_pools ts []))) = round_row env flt ts"
proof
  fix w
  let ?gs = "concat (map snd (group_pools ts []))"
  have m: "mset (filter pt_enabled ts) = mset ?gs" by (simp add: group_pools_mset)
  have d: "distinct (map pt_id (filter pt_enabled ts))" using assms by (rule distinct_map_filter)
  then have "distinct (map pt_id ?gs)" using m by (metis mset_eq_imp_distinct_iff mset_map)
  then have "fold (crawled_row env flt) ?gs w = (case List.find (\<lambda>t. pt_id t = tr_id w) ?gs of None \<Rightarrow> w | Some t \<Rightarrow> crawled_row env flt t w)"
    by (rule fold_crawled_round)
  then show "fold (crawled_row env flt) ?gs w = round_row env flt ts w"
    unfolding round_row_def find_by_id_mset [OF m d, symmetric] find_filter .
qed

lemma applyServers_quiet: "fst (applyServers env t servers flt s) \<noteq> Inr True \<Longrightarrow> snd (applyServers env t servers flt s) = s"
  by (auto simp: applyServers_def UpdateTunnelPool_def tx_def split: prod.splits sum.splits if_splits)

lemma apply_group_quiet:
  "apply_group env servers flt ts changed errs s = ((changed', errs'), s') \<Longrightarrow> \<not> changed' \<Longrightarrow> s' = s \<and> \<not> changed"
proof (induction ts arbitrary: changed errs s)
  case (Cons t ts)
  obtain r s1 where a: "applyServers env t servers flt s = (r, s1)" by fastforce
  then show ?case using Cons applyServers_quiet [of env t servers flt s] by (cases r) auto
qed simp

lemma refreshGroup_quiet: "refreshGroup env flt grp s = ((ok, gerrs), s') \<Longrightarrow> \<not> ok \<Longrightarrow> s' = s"
  by (auto simp: refreshGroup_def split: sum.splits dest: apply_group_quiet)

lemma apply_group_errs: "apply_group env servers flt ts changed errs s = ((changed', errs'), s') \<Longrightarrow> \<exists>ws. errs' = errs @ map PoolWrite ws"
proof (induction ts arbitrary: changed errs s)
  case (Cons t ts)
  obtain r s1 where a: "applyServers env t servers flt s = (r, s1)" by fastforce
  show ?case
  proof (cases r)
    case (Inl e)
    then obtain w where "e = PoolWrite w" using a by (auto simp: applyServers_def split: prod.splits sum.splits if_splits)
    moreover obtain ws where "errs' = (errs @ [e]) @ map PoolWrite ws" using Cons.prems Inl Cons.IH [of changed "errs @ [e]" s1] by (auto simp: a)
    ultimately show ?thesis by (intro exI [of _ "w # ws"]) simp
  next
    case (Inr b)
    then show ?thesis using Cons by (auto simp: a)
  qed
qed simp

lemma refreshGroup_busy: "refreshGroup env flt grp s = ((ok, gerrs), s') \<Longrightarrow> ErrPoolCrawlBusy \<in> set gerrs \<Longrightarrow> s' = s"
proof (cases "pe_crawl env (pt_catalog_url (hd grp))")
  case (Inr servers)
  assume "refreshGroup env flt grp s = ((ok, gerrs), s')" and b: "ErrPoolCrawlBusy \<in> set gerrs"
  then have "apply_group env servers flt grp False [] s = ((ok, gerrs), s')" by (simp add: refreshGroup_def Inr)
  then obtain ws where "gerrs = map PoolWrite ws" using apply_group_errs by fastforce
  then show ?thesis using b by auto
qed (simp add: refreshGroup_def)

lemma refresh_groups_notice:
  "refresh_groups env flt gs changed errs s = (Some (changed', []), s') \<Longrightarrow> \<not> changed' \<Longrightarrow> s' = s \<and> \<not> changed \<and> errs = []"
proof (induction gs arbitrary: changed errs s)
  case (Cons p gs)
  obtain c grp where p: "p = (c, grp)" by fastforce
  obtain ok gerrs s1 where g: "refreshGroup env flt grp s = ((ok, gerrs), s1)" by (metis prod.exhaust)
  have ns: "\<not> pe_stopped env c" using Cons.prems by (auto simp: p)
  consider (busy) "ErrPoolCrawlBusy \<in> set gerrs" | (failed) "ErrPoolCrawlBusy \<notin> set gerrs" "gerrs \<noteq> []" | (fine) "gerrs = []" by blast
  then show ?case
  proof cases
    case busy
    then show ?thesis using Cons.prems ns Cons.IH [of changed errs s1] refreshGroup_busy [OF g busy] by (simp add: p g)
  next
    case failed
    then show ?thesis using Cons.prems ns Cons.IH [of changed "errs @ gerrs" s1] by (simp add: p g)
  next
    case fine
    then show ?thesis using Cons.prems ns Cons.IH [of "changed \<or> ok" errs s1] refreshGroup_quiet [OF g] by (simp add: p g)
  qed
qed simp



section \<open>Examples\<close>

definition demo_pool :: "string \<Rightarrow> pool_tunnel" where
  "demo_pool i = \<lparr>pt_id = i, pt_name = i, pt_catalog_url = ''c'', pt_enabled = True, pt_servers = [demo_card ''a'' 5]\<rparr>"

definition demo_pool_row :: "string \<Rightarrow> tunnel_row" where
  "demo_pool_row i = (tunnelArgs (demo_tunnel i))\<lparr>tr_source := SourcePool, tr_pool := [demo_card ''a'' 5]\<rparr>"

definition demo_pool_db :: db where
  "demo_pool_db = empty_db\<lparr>db_tunnels := [demo_pool_row ''p'']\<rparr>"

definition demo_pool_env :: pool_env where
  "demo_pool_env = \<lparr>pe_crawl = (\<lambda>c. Inr [demo_card ''b'' 3, demo_card ''a'' 9]), pe_unicode = demo_unicode,
     pe_clock = (\<lambda>_. 7), pe_stopped = (\<lambda>_. False)\<rparr>"


definition demo_manager :: "string list \<Rightarrow> pool_manager" where
  "demo_manager ids = SetTunnels (map demo_pool ids) (NewPoolManager 0 0 [])"

definition demo_pool_after :: db where
  "demo_pool_after = demo_pool_db\<lparr>db_tunnels :=
     [(demo_pool_row ''p'')\<lparr>tr_pool := [demo_card ''a'' 5, demo_card ''b'' 3], tr_pool_updated_at := unixOrZero 7\<rparr>]\<rparr>"

lemma demo_row_simps [simp]:
  "tr_id (demo_pool_row i) = i" "tr_source (demo_pool_row i) = SourcePool" "tr_pool (demo_pool_row i) = [demo_card ''a'' 5]"
  by (simp_all add: demo_pool_row_def tunnelArgs_def demo_tunnel_def)

lemma demo_pool_simps [simp]:
  "pt_id (demo_pool i) = i" "pt_catalog_url (demo_pool i) = ''c''" "pt_enabled (demo_pool i)" "pt_servers (demo_pool i) = [demo_card ''a'' 5]"
  by (simp_all add: demo_pool_def)

lemma demo_apply:
  "applyServers demo_pool_env (demo_pool ''p'') [demo_card ''b'' 3, demo_card ''a'' 9] [] demo_pool_db = (Inr True, demo_pool_after)"
  "applyServers demo_pool_env (demo_pool ''q'') [demo_card ''b'' 3, demo_card ''a'' 9] [] demo_pool_after = (Inl (PoolWrite ErrNotFound), demo_pool_after)"
  by (simp_all add: applyServers_def demo_pool_env_def demo_merge UpdateTunnelPool_def update_pool_tx_def tx_def checkAffected_def upd_where_def
      demo_pool_db_def demo_pool_after_def)


text \<open>The other side of the last promise: when one pool of a catalogue is written and another pool of the same catalogue
  fails, the round counts as failed only, and no notice goes out for the pool that was written.\<close>

lemma Refresh_loses_notice:
  "Refresh demo_pool_env 9 (demo_manager [''p'', ''q'']) demo_pool_db =
    ([PoolWrite ErrNotFound], (demo_manager [''p'', ''q''])\<lparr>pm_last := 9, pm_updates := False\<rparr>, demo_pool_after)"
  using demo_apply by (simp add: Refresh_def demo_manager_def SetTunnels_def NewPoolManager_def refreshGroup_def demo_pool_env_def)


end
