(* ===== verification/Lists_Native.thy ===== *)
theory Lists_Native
  imports Sb_Generate
begin

text \<open>
  Projection of native rule sets (\<open>internal/lists/native.go\<close>, \<open>native_regex.go\<close>).  A rule set in the format of the core is a
  tree of predicates over domains, addresses and transports.  The gateway needs two projections of the whole tree: a set of
  domain predicates for DNS, and sets of IPv4 addresses whose packets it must intercept.  The compiler of the tree, its
  budgets and its refusals are modelled; the builder of address sets (package \<open>netipx\<close>), the parser of regular expressions
  and the decoding of files are arguments.  The main theorem: the projections agree with the tree.
\<close>

section \<open>Address ranges\<close>

type_synonym ip_range = "32 word \<times> 32 word"

definition range_set :: "ip_range \<Rightarrow> 32 word set" where
  "range_set r = {fst r .. snd r}"

definition ranges_set :: "ip_range list \<Rightarrow> 32 word set" where
  "ranges_set rs = (\<Union>r \<in> set rs. range_set r)"

text \<open>Sorted, disjoint and not empty, as \<open>IPSet.Ranges\<close> gives them.\<close>

definition canonical :: "ip_range list \<Rightarrow> bool" where
  "canonical rs \<longleftrightarrow> sorted_wrt (\<lambda>r s. snd r < fst s) rs \<and> (\<forall>r \<in> set rs. fst r \<le> snd r)"

fun intersectNativeRanges :: "ip_range list \<Rightarrow> ip_range list \<Rightarrow> ip_range list" where
  "intersectNativeRanges (a # as) (b # bs) =
    (let lo = (if fst b > fst a then fst b else fst a); hi = (if snd b < snd a then snd b else snd a);
         rest = (if snd a < snd b then intersectNativeRanges as (b # bs) else intersectNativeRanges (a # as) bs)
     in if lo \<le> hi then (lo, hi) # rest else rest)"
| "intersectNativeRanges _ _ = []"

text \<open>The builder of sets, as the code uses it: from prefixes, from ranges, everything but a set, and the prefixes of a
  set.\<close>

record ipset_lib =
  il_of_prefixes :: "(32 word \<times> nat) list \<Rightarrow> ip_range list"
  il_of_ranges :: "ip_range list \<Rightarrow> ip_range list"
  il_complement :: "ip_range list \<Rightarrow> ip_range list"
  il_prefixes :: "ip_range list \<Rightarrow> (32 word \<times> nat) list"

section \<open>Regular expressions\<close>

datatype re_op = OpNoMatch | OpEmptyMatch | OpLiteral | OpCharClass | OpAnyCharNotNL | OpAnyChar | OpBeginLine | OpEndLine | OpBeginText
  | OpEndText | OpWordBoundary | OpNoWordBoundary | OpCapture | OpStar | OpPlus | OpQuest | OpRepeat | OpConcat | OpAlternate | OpOther

text \<open>\<open>syntax.Regexp\<close>: the operator, the number of runes, the bounds of a repetition and the subexpressions.\<close>

datatype regexp = Regexp (re_op: re_op) (re_runes: nat) (re_min: int) (re_max: int) (re_sub: "regexp list")

definition maxNativeRegexCount :: int where "maxNativeRegexCount = 1024"
definition maxNativeRegexBytes :: int where "maxNativeRegexBytes = 32 * 2 ^ 10"
definition maxNativeRegexAST :: int where "maxNativeRegexAST = 64 * 2 ^ 10"
definition maxNativeRegexInstructions :: int where "maxNativeRegexInstructions = 64 * 2 ^ 10"
definition maxNativeRegexRunes :: int where "maxNativeRegexRunes = 128 * 2 ^ 10"
definition nativeRegexCostCeiling :: int where "nativeRegexCostCeiling = maxNativeRegexRunes + 1"

record regex_cost =
  rc_ast :: int
  rc_instructions :: int
  rc_runes :: int

definition regexCostAdd :: "int \<Rightarrow> int \<Rightarrow> int" where
  "regexCostAdd a b = (if a \<ge> nativeRegexCostCeiling - b then nativeRegexCostCeiling else a + b)"

definition regexCostMultiply :: "int \<Rightarrow> int \<Rightarrow> int" where
  "regexCostMultiply a b = (if a \<noteq> 0 \<and> b > quo nativeRegexCostCeiling a then nativeRegexCostCeiling else a * b)"

definition add_ast :: "int \<Rightarrow> regex_cost list \<Rightarrow> int" where
  "add_ast start cs = foldl (\<lambda>a c. regexCostAdd a (rc_ast c)) start cs"

text \<open>\<open>sum\<close>: instructions and runes of the children.\<close>

definition sum_costs :: "regex_cost list \<Rightarrow> int \<times> int" where
  "sum_costs cs = (foldl (\<lambda>a c. regexCostAdd a (rc_instructions c)) 0 cs, foldl (\<lambda>a c. regexCostAdd a (rc_runes c)) 0 cs)"

text \<open>Instructions and runes by operator; \<open>None\<close> is a refusal.\<close>

definition op_cost :: "regexp \<Rightarrow> regex_cost list \<Rightarrow> (int \<times> int) option" where
  "op_cost re cs = (let n = int (re_runes re); (ins, rns) = sum_costs cs in case re_op re of
     OpLiteral \<Rightarrow> Some (n, n)
   | OpCharClass \<Rightarrow> Some (1, n)
   | OpAnyChar \<Rightarrow> Some (1, 2)
   | OpAnyCharNotNL \<Rightarrow> Some (1, 4)
   | OpCapture \<Rightarrow> Some (regexCostAdd ins 2, rns)
   | OpStar \<Rightarrow> Some (regexCostAdd ins 2, rns)
   | OpPlus \<Rightarrow> Some (regexCostAdd ins 1, rns)
   | OpQuest \<Rightarrow> Some (regexCostAdd ins 1, rns)
   | OpConcat \<Rightarrow> Some (ins, rns)
   | OpAlternate \<Rightarrow> Some (if length cs > 1 then regexCostAdd ins (int (length cs) - 1) else ins, rns)
   | OpRepeat \<Rightarrow> (case cs of
       [c] \<Rightarrow>
         let copies = (if re_max re < 0 then (if re_min re < 1 then 1 else re_min re) else re_max re);
             extra = (if re_max re < 0 then 2 else re_max re - re_min re)
         in Some (regexCostAdd (regexCostMultiply copies (rc_instructions c)) extra, regexCostMultiply copies (rc_runes c))
     | _ \<Rightarrow> None)
   | OpOther \<Rightarrow> None
   | _ \<Rightarrow> Some (1, 0))"

fun estimateNativeRegex :: "regexp \<Rightarrow> regex_cost option" and estimate_all :: "regexp list \<Rightarrow> regex_cost list option" where
  "estimateNativeRegex (Regexp op rn mn mx sub) = (case estimate_all sub of
     None \<Rightarrow> None
   | Some cs \<Rightarrow> (case op_cost (Regexp op rn mn mx sub) cs of
       None \<Rightarrow> None
     | Some (ins, rns) \<Rightarrow> Some \<lparr>rc_ast = add_ast (regexCostAdd 1 (int rn)) cs, rc_instructions = if ins < 1 then 1 else ins, rc_runes = rns\<rparr>))"
| "estimate_all [] = Some []"
| "estimate_all (r # rs) = (case estimateNativeRegex r of
     None \<Rightarrow> None
   | Some c \<Rightarrow> (case estimate_all rs of None \<Rightarrow> None | Some cs \<Rightarrow> Some (c # cs)))"

record regex_budget =
  rb_count :: int
  rb_bytes :: int
  rb_ast :: int
  rb_instructions :: int
  rb_runes :: int

definition no_regex :: regex_budget where
  "no_regex = \<lparr>rb_count = 0, rb_bytes = 0, rb_ast = 0, rb_instructions = 0, rb_runes = 0\<rparr>"

datatype native_err = ErrUnsupportedNative string

definition bad :: "string \<Rightarrow> native_err + 'a" where
  "bad reason = Inl (ErrUnsupportedNative reason)"

text \<open>\<open>admit\<close>, with \<open>syntax.Parse\<close> as an argument.\<close>

definition admit :: "(string \<Rightarrow> regexp option) \<Rightarrow> string \<Rightarrow> regex_budget \<Rightarrow> native_err + regex_budget" where
  "admit parse pattern b =
    (if rb_count b \<ge> maxNativeRegexCount \<or> int (length pattern) > maxNativeRegexBytes - rb_bytes b then bad ''native regex complexity budget''
     else case parse pattern of
       None \<Rightarrow> bad ''invalid domain regex''
     | Some re \<Rightarrow> (case estimateNativeRegex re of
         None \<Rightarrow> bad ''regex structure''
       | Some cost \<Rightarrow>
         let ast = regexCostMultiply (rc_ast cost) 2;
             instructions = regexCostMultiply (regexCostAdd (rc_instructions cost) 2) 2;
             runes = regexCostMultiply (rc_runes cost) 2
         in if ast > maxNativeRegexAST - rb_ast b \<or> instructions > maxNativeRegexInstructions - rb_instructions b \<or> runes > maxNativeRegexRunes - rb_runes b
            then bad ''native regex complexity budget''
            else Inr \<lparr>rb_count = rb_count b + 1, rb_bytes = rb_bytes b + int (length pattern), rb_ast = rb_ast b + ast,
                   rb_instructions = rb_instructions b + instructions, rb_runes = rb_runes b + runes\<rparr>))"

section \<open>The tree and its compiler\<close>

text \<open>A default node with the fields the compiler admits; every other field that is set counts as \<open>hd_other\<close>.  The two
  kinds of node carry the type of the source, which decides between them.\<close>

record headless_default =
  hd_domain :: "string list"
  hd_domain_suffix :: "string list"
  hd_domain_keyword :: "string list"
  hd_domain_regex :: "string list"
  hd_ip_cidr :: "string list"
  hd_network :: "string list"
  hd_port :: "nat list"
  hd_port_range :: "string list"
  hd_invert :: bool
  hd_other :: bool

abbreviation LogicalTypeAnd :: string where "LogicalTypeAnd \<equiv> ''and''"
abbreviation LogicalTypeOr :: string where "LogicalTypeOr \<equiv> ''or''"
abbreviation RuleTypeDefault :: string where "RuleTypeDefault \<equiv> ''default''"

datatype headless = HDefault string headless_default | HLogical string "headless list" bool

text \<open>An expression: the domain predicate, the addresses and the transport envelope, each possibly absent.  The code keeps
  a set and its ranges side by side; here the ranges stand for both.\<close>

record native_expr =
  ne_domain :: "headless option"
  ne_address :: "ip_range list option"
  ne_empty_domain :: bool
  ne_transport :: "ip_range list option"

definition no_expr :: native_expr where
  "no_expr = \<lparr>ne_domain = None, ne_address = None, ne_empty_domain = False, ne_transport = None\<rparr>"

definition maxNativeNodes :: nat where "maxNativeNodes = 10000"
definition maxNativeDepth :: nat where "maxNativeDepth = 32"
definition maxNativeValues :: nat where "maxNativeValues = 200000"
definition maxNativeProjectionWork :: nat where "maxNativeProjectionWork = 4 * 2 ^ 20"

record native_work =
  nw_nodes :: nat
  nw_values :: nat
  nw_remaining :: nat
  nw_regex :: regex_budget

fun bits_Len :: "nat \<Rightarrow> nat" where
  "bits_Len n = (if n = 0 then 0 else Suc (bits_Len (n div 2)))"

declare bits_Len.simps [simp del]

definition charge_work :: "nat \<Rightarrow> bool \<Rightarrow> native_work \<Rightarrow> native_err + native_work" where
  "charge_work n logarithmic w =
    (let n = (if logarithmic \<and> n > 0 then n * (bits_Len n + 1) else n) in
     if n > nw_remaining w then bad ''native projection work budget'' else Inr (w\<lparr>nw_remaining := nw_remaining w - n\<rparr>))"

text \<open>What the compiler is given: the builder of sets, the parser and compiler of regular expressions, and whether the old
  projection is asked for.\<close>

record native_env =
  nv_sets :: ipset_lib
  nv_parse :: "string \<Rightarrow> regexp option"
  nv_compiles :: "string \<Rightarrow> bool"
  nv_legacy :: bool

definition flip_invert :: "headless \<Rightarrow> headless" where
  "flip_invert r = (case r of
     HLogical mode rs inverted \<Rightarrow> HLogical mode rs (\<not> inverted)
   | HDefault t d \<Rightarrow> HDefault t (d\<lparr>hd_invert := \<not> hd_invert d\<rparr>))"

definition invertNative :: "native_env \<Rightarrow> native_expr \<Rightarrow> bool \<Rightarrow> native_work \<Rightarrow> native_err + native_expr \<times> native_work" where
  "invertNative env e invert w =
    (if \<not> invert then Inr (e, w)
     else if ne_domain e \<noteq> None \<and> ne_address e \<noteq> None then bad ''mixed domain/address inversion''
     else
       let e = (case ne_domain e of None \<Rightarrow> e
         | Some r \<Rightarrow> e\<lparr>ne_domain := Some (flip_invert r), ne_empty_domain := \<not> ne_empty_domain e\<rparr>) in
       case ne_address e of
         None \<Rightarrow> Inr (e, w)
       | Some ranges \<Rightarrow> bindR (charge_work (length ranges + 1) True w) (\<lambda>w.
           Inr (e\<lparr>ne_address := Some (il_complement (nv_sets env) ranges)\<rparr>, w)))"

fun intersect_all :: "ip_range list \<Rightarrow> ip_range list list \<Rightarrow> native_work \<Rightarrow> native_err + ip_range list \<times> native_work" where
  "intersect_all ranges [] w = Inr (ranges, w)"
| "intersect_all ranges (nxt # others) w = bindR (charge_work (length ranges + length nxt) False w) (\<lambda>w.
     let ranges = intersectNativeRanges ranges nxt in
     if ranges = [] then Inr (ranges, w) else intersect_all ranges others w)"

text \<open>The addresses of a combination.  Sets of the same length may be intersected in any order; the order here is that of
  the list.\<close>

definition combine_addresses :: "native_env \<Rightarrow> ip_range list list \<Rightarrow> string \<Rightarrow> native_work \<Rightarrow> native_err + ip_range list option \<times> native_work" where
  "combine_addresses env sets mode w =
    (if sets = [] then Inr (None, w)
     else if mode = LogicalTypeOr then bindR (charge_work (sum_list (map length sets)) True w) (\<lambda>w.
       Inr (Some (il_of_ranges (nv_sets env) (concat sets)), w))
     else let sets = sort_key length sets in
       bindR (intersect_all (hd sets) (tl sets) w) (\<lambda>(ranges, w).
       bindR (charge_work (length ranges) True w) (\<lambda>w. Inr (Some (il_of_ranges (nv_sets env) ranges), w))))"

definition present :: "'a option list \<Rightarrow> 'a list" where
  "present xs = List.map_filter id xs"

definition combine_domains :: "headless list \<Rightarrow> string \<Rightarrow> headless option" where
  "combine_domains dr mode = (case dr of [] \<Rightarrow> None | [r] \<Rightarrow> Some r | _ \<Rightarrow> Some (HLogical mode dr False))"

text \<open>The part of \<open>combineNative\<close> for expressions without a transport envelope.\<close>

definition combine_plain :: "native_env \<Rightarrow> native_expr list \<Rightarrow> string \<Rightarrow> bool \<Rightarrow> native_work \<Rightarrow> native_err + native_expr \<times> native_work" where
  "combine_plain env ee mode invert w =
    (if mode = LogicalTypeAnd \<and> \<not> (\<forall>e \<in> set ee. ne_domain e \<noteq> None \<and> ne_address e = None)
        \<and> \<not> (\<forall>e \<in> set ee. ne_domain e = None \<and> ne_address e \<noteq> None)
     then bad ''mixed domain/address logical AND''
     else
       let empty = (if mode = LogicalTypeAnd then \<forall>e \<in> set ee. ne_empty_domain e else \<exists>e \<in> set ee. ne_empty_domain e) in
       bindR (combine_addresses env (present (map ne_address ee)) mode w) (\<lambda>(addr, w).
         invertNative env \<lparr>ne_domain = combine_domains (present (map ne_domain ee)) mode, ne_address = addr,
           ne_empty_domain = empty, ne_transport = None\<rparr> invert w))"

definition only_address :: "ip_range list option \<Rightarrow> native_expr" where
  "only_address a = no_expr\<lparr>ne_address := a\<rparr>"

text \<open>Address and envelope of every operand joined, for the envelope of a conjunction.\<close>

fun join_envelopes :: "native_env \<Rightarrow> native_expr list \<Rightarrow> native_work \<Rightarrow> native_err + native_expr list \<times> native_work" where
  "join_envelopes env [] w = Inr ([], w)"
| "join_envelopes env (e # ee) w =
    (if ne_domain e \<noteq> None then bad ''domain/context logical AND''
     else bindR (combine_plain env [only_address (ne_address e), only_address (ne_transport e)] LogicalTypeOr False w) (\<lambda>(m, w).
       bindR (join_envelopes env ee w) (\<lambda>(ms, w). Inr (m # ms, w))))"

text \<open>A conjunction with an envelope: the addresses are kept when every operand has some.\<close>

definition keep_unconditional :: "native_env \<Rightarrow> native_expr list \<Rightarrow> native_expr \<Rightarrow> native_work \<Rightarrow> native_err + native_expr \<times> native_work" where
  "keep_unconditional env ee envelope w =
    (if \<forall>e \<in> set ee. ne_address e \<noteq> None then
       bindR (combine_plain env (map (\<lambda>e. only_address (ne_address e)) ee) LogicalTypeAnd False w) (\<lambda>(unconditional, w).
         Inr (no_expr\<lparr>ne_transport := ne_address envelope, ne_address := ne_address unconditional\<rparr>, w))
     else Inr (no_expr\<lparr>ne_transport := ne_address envelope\<rparr>, w))"

definition combine_transport_and :: "native_env \<Rightarrow> native_expr list \<Rightarrow> native_work \<Rightarrow> native_err + native_expr \<times> native_work" where
  "combine_transport_and env ee w = bindR (join_envelopes env ee w) (\<lambda>(envelopes, w).
     bindR (combine_plain env envelopes LogicalTypeAnd False w) (\<lambda>(envelope, w). keep_unconditional env ee envelope w))"

definition combine_transport_or :: "native_env \<Rightarrow> native_expr list \<Rightarrow> string \<Rightarrow> native_work \<Rightarrow> native_err + native_expr \<times> native_work" where
  "combine_transport_or env ee mode w =
     bindR (combine_plain env (map (\<lambda>e. e\<lparr>ne_transport := None\<rparr>) ee) mode False w) (\<lambda>(ordinary, w).
     bindR (combine_plain env (map (\<lambda>t. only_address (Some t)) (present (map ne_transport ee))) mode False w) (\<lambda>(transport, w).
       Inr (ordinary\<lparr>ne_transport := ne_address transport\<rparr>, w)))"

definition combineNative :: "native_env \<Rightarrow> native_expr list \<Rightarrow> string \<Rightarrow> bool \<Rightarrow> native_work \<Rightarrow> native_err + native_expr \<times> native_work" where
  "combineNative env ee mode invert w =
    (if \<not> (\<exists>e \<in> set ee. ne_transport e \<noteq> None) then combine_plain env ee mode invert w
     else if invert then bad ''contextual inversion''
     else if mode = LogicalTypeAnd then combine_transport_and env ee w
     else combine_transport_or env ee mode w)"

section \<open>Default nodes\<close>

definition parse_uint16 :: "string \<Rightarrow> nat option" where
  "parse_uint16 s = (if s = [] \<or> \<not> list_all is_digit s then None else let v = digits_val s in if v < 65536 then Some (nat v) else None)"

definition port_range_bounds :: "string \<Rightarrow> (nat \<times> nat) option" where
  "port_range_bounds s = (case Split CHR '':'' s of
     [a, b] \<Rightarrow> (case (parse_uint16 a, parse_uint16 b) of (Some lo, Some hi) \<Rightarrow> if lo \<le> hi then Some (lo, hi) else None | _ \<Rightarrow> None)
   | _ \<Rightarrow> None)"

definition has_domain :: "headless_default \<Rightarrow> bool" where
  "has_domain d \<longleftrightarrow> hd_domain d \<noteq> [] \<or> hd_domain_suffix d \<noteq> [] \<or> hd_domain_keyword d \<noteq> [] \<or> hd_domain_regex d \<noteq> []"

definition contextual :: "headless_default \<Rightarrow> bool" where
  "contextual d \<longleftrightarrow> hd_network d \<noteq> [] \<or> hd_port d \<noteq> [] \<or> hd_port_range d \<noteq> []"

definition string_fields :: "headless_default \<Rightarrow> string list list" where
  "string_fields d = [hd_domain d, hd_domain_suffix d, hd_domain_keyword d, hd_domain_regex d, hd_ip_cidr d, hd_network d, hd_port_range d]"

fun admit_all :: "native_env \<Rightarrow> string list \<Rightarrow> native_work \<Rightarrow> native_err + native_work" where
  "admit_all env [] w = Inr w"
| "admit_all env (v # vs) w = bindR (admit (nv_parse env) v (nw_regex w)) (\<lambda>b.
     if \<not> nv_compiles env v then bad ''invalid domain regex'' else admit_all env vs (w\<lparr>nw_regex := b\<rparr>))"

text \<open>An entry of \<open>ip_cidr\<close>: a prefix, or an address as a prefix of full length.\<close>

definition cidr_entry :: "string \<Rightarrow> (ip \<times> nat) option" where
  "cidr_entry v = (case ParsePrefix v of Some p \<Rightarrow> Some p | None \<Rightarrow> map_option (\<lambda>a. (a, ip_bits a)) (ParseAddr v))"

definition ipv4_entries :: "string list \<Rightarrow> (32 word \<times> nat) list" where
  "ipv4_entries vs = present (map (\<lambda>v. case cidr_entry v of Some (IP4 a, n) \<Rightarrow> Some (a, n) | _ \<Rightarrow> None) vs)"

definition check_default :: "native_env \<Rightarrow> string \<Rightarrow> headless_default \<Rightarrow> native_work \<Rightarrow> native_err + native_work" where
  "check_default env t d w =
    (if t \<noteq> [] \<and> t \<noteq> RuleTypeDefault then bad ''rule type''
     else if hd_other d \<or> (contextual d \<and> nv_legacy env) then bad ''context-dependent or unknown field''
     else if \<exists>vs \<in> set (string_fields d). \<exists>v \<in> set vs. v = [] \<or> length v > 4096 then bad ''empty or oversized value''
     else
       let w = w\<lparr>nw_values := nw_values w + sum_list (map length (string_fields d)) + length (hd_port d)\<rparr> in
       if \<exists>n \<in> set (hd_network d). n \<noteq> ''tcp'' \<and> n \<noteq> ''udp'' then bad ''unsupported network''
       else if \<exists>r \<in> set (hd_port_range d). port_range_bounds r = None then bad ''invalid destination port range''
       else if contextual d \<and> (hd_invert d \<or> has_domain d) then bad ''domain/context mixing or contextual inversion''
       else if nw_values w > maxNativeValues then bad ''predicate value budget''
       else admit_all env (hd_domain_regex d) w)"

definition all_addresses :: "native_env \<Rightarrow> ip_range list" where
  "all_addresses env = il_of_prefixes (nv_sets env) [(0, 0)]"

definition domain_part :: "headless_default \<Rightarrow> headless option" where
  "domain_part d = (if has_domain d then Some (HDefault RuleTypeDefault (d\<lparr>hd_ip_cidr := [], hd_invert := False\<rparr>)) else None)"

definition address_part :: "native_env \<Rightarrow> headless_default \<Rightarrow> native_work \<Rightarrow> native_err + ip_range list option \<times> native_work" where
  "address_part env d w =
    (if hd_ip_cidr d = [] then Inr (None, w)
     else bindR (charge_work (length (hd_ip_cidr d)) True w) (\<lambda>w.
       if \<exists>v \<in> set (hd_ip_cidr d). cidr_entry v = None then bad ''invalid address''
       else Inr (Some (il_of_prefixes (nv_sets env) (ipv4_entries (hd_ip_cidr d))), w)))"

definition default_expr :: "native_env \<Rightarrow> headless_default \<Rightarrow> ip_range list option \<Rightarrow> native_expr" where
  "default_expr env d addr = (if contextual d
     then no_expr\<lparr>ne_domain := domain_part d, ne_transport := Some (case addr of None \<Rightarrow> all_addresses env | Some a \<Rightarrow> a)\<rparr>
     else no_expr\<lparr>ne_domain := domain_part d, ne_address := addr\<rparr>)"

definition compile_default :: "native_env \<Rightarrow> string \<Rightarrow> headless_default \<Rightarrow> native_work \<Rightarrow> native_err + native_expr \<times> native_work" where
  "compile_default env t d w = bindR (check_default env t d w) (\<lambda>w.
    bindR (address_part env d w) (\<lambda>(addr, w).
    let e = default_expr env d addr in
    if ne_domain e = None \<and> ne_address e = None \<and> ne_transport e = None then bad ''empty default node''
    else invertNative env e (hd_invert d) w))"

section \<open>The whole set\<close>

fun compileNative :: "native_env \<Rightarrow> headless \<Rightarrow> nat \<Rightarrow> native_work \<Rightarrow> native_err + native_expr \<times> native_work"
  and compile_all :: "native_env \<Rightarrow> headless list \<Rightarrow> nat \<Rightarrow> native_work \<Rightarrow> native_err + native_expr list \<times> native_work" where
  "compileNative env (HDefault t d) depth w =
    (let w = w\<lparr>nw_nodes := nw_nodes w + 1\<rparr> in
     if depth > maxNativeDepth \<or> nw_nodes w > maxNativeNodes then bad ''AST complexity budget''
     else compile_default env t d w)"
| "compileNative env (HLogical mode rs invert) depth w =
    (let w = w\<lparr>nw_nodes := nw_nodes w + 1\<rparr> in
     if depth > maxNativeDepth \<or> nw_nodes w > maxNativeNodes then bad ''AST complexity budget''
     else if rs = [] \<or> (mode \<noteq> LogicalTypeAnd \<and> mode \<noteq> LogicalTypeOr) then bad ''empty or invalid logical node''
     else bindR (compile_all env rs (depth + 1) w) (\<lambda>(ee, w). combineNative env ee mode invert w))"
| "compile_all env [] depth w = Inr ([], w)"
| "compile_all env (r # rs) depth w = bindR (compileNative env r depth w) (\<lambda>(e, w).
     bindR (compile_all env rs depth w) (\<lambda>(ee, w). Inr (e # ee, w)))"

record native_projection =
  np_dns :: "headless option"
  np_subnets :: "(32 word \<times> nat) list"
  np_transport_subnets :: "(32 word \<times> nat) list"

definition unbounded :: "(32 word \<times> nat) list \<Rightarrow> bool" where
  "unbounded ps \<longleftrightarrow> length ps = 1 \<and> snd (hd ps) = 0"

text \<open>\<open>projectNativeVersion\<close> from the rules of a decoded set on, its checks first: addresses and envelope together must
  not cover everything, nor each of them alone.  Prefixes are kept instead of their texts, and the domain rule instead of
  its JSON.\<close>

definition check_combined :: "native_env \<Rightarrow> native_expr \<Rightarrow> native_work \<Rightarrow> native_err + unit" where
  "check_combined env e w = (case (ne_transport e, ne_address e) of
     (Some t, Some a) \<Rightarrow> bindR (combineNative env [only_address (Some a), only_address (Some t)] LogicalTypeOr False w) (\<lambda>(envelope, w).
       if unbounded (il_prefixes (nv_sets env) (case ne_address envelope of Some rs \<Rightarrow> rs | None \<Rightarrow> []))
       then bad ''unbounded combined IPv4 coverage'' else Inr ())
   | _ \<Rightarrow> Inr ())"

definition project_subnets :: "native_env \<Rightarrow> ip_range list option \<Rightarrow> native_err + (32 word \<times> nat) list" where
  "project_subnets env s = (case s of
     None \<Rightarrow> Inr []
   | Some rs \<Rightarrow>
     let ps = il_prefixes (nv_sets env) rs in
     if ps = [(0, 0)] then bad ''unbounded IPv4 coverage''
     else if length ps > maxNativeValues then bad ''projection budget'' else Inr ps)"

definition project_transport :: "native_env \<Rightarrow> ip_range list option \<Rightarrow> native_err + (32 word \<times> nat) list" where
  "project_transport env s = (case s of
     None \<Rightarrow> Inr []
   | Some rs \<Rightarrow>
     let ps = il_prefixes (nv_sets env) rs in
     if unbounded ps then bad ''unbounded transport IPv4 coverage''
     else if length ps > maxNativeValues then bad ''projection budget'' else Inr ps)"

definition project_rules :: "native_env \<Rightarrow> headless list \<Rightarrow> native_err + native_projection" where
  "project_rules env rules =
    (if rules = [] then bad ''empty native set''
     else
       bindR (compile_all env rules 0 \<lparr>nw_nodes = 0, nw_values = 0, nw_remaining = maxNativeProjectionWork, nw_regex = no_regex\<rparr>) (\<lambda>(ee, w).
       bindR (combineNative env ee LogicalTypeOr False w) (\<lambda>(e, w).
       bindR (check_combined env e w) (\<lambda>_.
       if ne_empty_domain e then bad ''unbounded literal-IP domain coverage''
       else
         bindR (project_subnets env (ne_address e)) (\<lambda>subnets.
         bindR (project_transport env (ne_transport e)) (\<lambda>transport.
         Inr \<lparr>np_dns = ne_domain e, np_subnets = subnets, np_transport_subnets = transport\<rparr>))))))"

section \<open>What a native set matches\<close>

text \<open>A connection or query as the core sees it, and the meaning of the tree: items of one kind are alternatives, kinds are
  joined, domains and addresses are one kind, and a domain item needs a domain.  How domain fields match a name is an
  argument.\<close>

record native_conn =
  nc_domain :: "string option"
  nc_ip :: "32 word option"
  nc_network :: string
  nc_port :: nat

type_synonym domain_matcher = "string list \<Rightarrow> string list \<Rightarrow> string list \<Rightarrow> string list \<Rightarrow> string \<Rightarrow> bool"

definition domain_item :: "domain_matcher \<Rightarrow> headless_default \<Rightarrow> native_conn \<Rightarrow> bool" where
  "domain_item dm d c = (case nc_domain c of None \<Rightarrow> False
     | Some x \<Rightarrow> has_domain d \<and> dm (hd_domain d) (hd_domain_suffix d) (hd_domain_keyword d) (hd_domain_regex d) x)"

definition address_item :: "headless_default \<Rightarrow> native_conn \<Rightarrow> bool" where
  "address_item d c = (case nc_ip c of None \<Rightarrow> False | Some a \<Rightarrow> \<exists>p \<in> set (ipv4_entries (hd_ip_cidr d)). prefix_contains p a)"

definition port_item :: "headless_default \<Rightarrow> native_conn \<Rightarrow> bool" where
  "port_item d c \<longleftrightarrow> nc_port c \<in> set (hd_port d) \<or>
     (\<exists>r \<in> set (hd_port_range d). case port_range_bounds r of None \<Rightarrow> False | Some (lo, hi) \<Rightarrow> lo \<le> nc_port c \<and> nc_port c \<le> hi)"

definition default_matches :: "domain_matcher \<Rightarrow> headless_default \<Rightarrow> native_conn \<Rightarrow> bool" where
  "default_matches dm d c \<longleftrightarrow>
    ((\<not> has_domain d \<and> hd_ip_cidr d = [] \<or> domain_item dm d c \<or> address_item d c) \<and>
     (hd_port d = [] \<and> hd_port_range d = [] \<or> port_item d c) \<and>
     (hd_network d = [] \<or> nc_network c \<in> set (hd_network d))) \<noteq> hd_invert d"

fun native_matches :: "domain_matcher \<Rightarrow> headless \<Rightarrow> native_conn \<Rightarrow> bool" where
  "native_matches dm (HDefault t d) c = default_matches dm d c"
| "native_matches dm (HLogical mode rs inverted) c =
    ((if mode = LogicalTypeAnd then list_all (\<lambda>r. native_matches dm r c) rs else list_ex (\<lambda>r. native_matches dm r c) rs) \<noteq> inverted)"

text \<open>What the compiler relies on of the builder of sets.\<close>

definition ipset_laws :: "ipset_lib \<Rightarrow> bool" where
  "ipset_laws lib \<longleftrightarrow>
    (\<forall>ps. canonical (il_of_prefixes lib ps) \<and> ranges_set (il_of_prefixes lib ps) = {a. \<exists>p \<in> set ps. prefix_contains p a}) \<and>
    (\<forall>rs. (\<forall>r \<in> set rs. fst r \<le> snd r) \<longrightarrow> canonical (il_of_ranges lib rs) \<and> ranges_set (il_of_ranges lib rs) = ranges_set rs) \<and>
    (\<forall>rs. canonical rs \<longrightarrow> canonical (il_complement lib rs) \<and> ranges_set (il_complement lib rs) = - ranges_set rs) \<and>
    (\<forall>rs. canonical rs \<longrightarrow> {a. \<exists>p \<in> set (il_prefixes lib rs). prefix_contains p a} = ranges_set rs \<and>
       (ranges_set rs = UNIV \<longrightarrow> il_prefixes lib rs = [(0, 0)]))"

lemma ipset_lawsD:
  assumes "ipset_laws lib"
  shows "canonical (il_of_prefixes lib ps)" "ranges_set (il_of_prefixes lib ps) = {a. \<exists>p \<in> set ps. prefix_contains p a}"
    "\<forall>r \<in> set rs. fst r \<le> snd r \<Longrightarrow> canonical (il_of_ranges lib rs)"
    "\<forall>r \<in> set rs. fst r \<le> snd r \<Longrightarrow> ranges_set (il_of_ranges lib rs) = ranges_set rs"
    "canonical rs \<Longrightarrow> canonical (il_complement lib rs)" "canonical rs \<Longrightarrow> ranges_set (il_complement lib rs) = - ranges_set rs"
    "canonical rs \<Longrightarrow> (\<exists>p \<in> set (il_prefixes lib rs). prefix_contains p a) \<longleftrightarrow> a \<in> ranges_set rs"
    "canonical rs \<Longrightarrow> ranges_set rs = UNIV \<Longrightarrow> il_prefixes lib rs = [(0, 0)]"
  using assms unfolding ipset_laws_def by (simp_all add: set_eq_iff)

section \<open>Intersection\<close>

lemma ranges_set_Cons: "ranges_set (r # rs) = range_set r \<union> ranges_set rs"
  by (simp add: ranges_set_def)

lemma ranges_set_Nil [simp]: "ranges_set [] = {}"
  by (simp add: ranges_set_def)

lemma canonical_Cons: "canonical (r # rs) \<longleftrightarrow> fst r \<le> snd r \<and> (\<forall>s \<in> set rs. snd r < fst s) \<and> canonical rs"
  by (auto simp: canonical_def)

lemma canonical_after: "canonical (r # rs) \<Longrightarrow> x \<in> ranges_set rs \<Longrightarrow> snd r < x"
  by (force simp: canonical_Cons ranges_set_def range_set_def)

lemma intersectNativeRanges_set:
  "canonical as \<Longrightarrow> canonical bs \<Longrightarrow> ranges_set (intersectNativeRanges as bs) = ranges_set as \<inter> ranges_set bs"
proof (induction as bs rule: intersectNativeRanges.induct)
  case (1 a as b bs)
  let ?rest = "if snd a < snd b then intersectNativeRanges as (b # bs) else intersectNativeRanges (a # as) bs"
  have c: "canonical as" "canonical bs" using 1(3,4) by (auto simp: canonical_Cons)
  have rest: "ranges_set ?rest = (if snd a < snd b then ranges_set as \<inter> ranges_set (b # bs) else ranges_set (a # as) \<inter> ranges_set bs)"
    using 1(1,2) 1(3,4) c by (simp add: Let_def)
  have first: "ranges_set (intersectNativeRanges (a # as) (b # bs)) = (range_set a \<inter> range_set b) \<union> ranges_set ?rest"
    by (auto simp: Let_def ranges_set_Cons range_set_def)
  have "x \<notin> ranges_set bs" if "x \<in> range_set a" "snd a < snd b" for x
    using canonical_after [OF 1(4), of x] that by (auto simp: range_set_def)
  moreover have "x \<notin> ranges_set as" if "x \<in> range_set b" "\<not> snd a < snd b" for x
    using canonical_after [OF 1(3), of x] that by (auto simp: range_set_def)
  ultimately show ?case unfolding first rest by (auto simp: ranges_set_Cons)
qed auto

lemma intersectNativeRanges_bounds:
  "r \<in> set (intersectNativeRanges as bs) \<Longrightarrow> fst r \<le> snd r \<and> (\<exists>a \<in> set as. fst a \<le> fst r) \<and> (\<exists>b \<in> set bs. fst b \<le> fst r)"
proof (induction as bs rule: intersectNativeRanges.induct)
  case (1 a as b bs)
  let ?lo = "if fst b > fst a then fst b else fst a" let ?hi = "if snd b < snd a then snd b else snd a"
  consider "r = (?lo, ?hi)" "?lo \<le> ?hi" | "snd a < snd b" "r \<in> set (intersectNativeRanges as (b # bs))"
    | "\<not> snd a < snd b" "r \<in> set (intersectNativeRanges (a # as) bs)"
    using 1(3) by (simp only: intersectNativeRanges.simps Let_def split: if_splits) (auto split: if_splits)
  then show ?case
  proof cases
    case 1
    then show ?thesis by auto
  next
    case 2
    then show ?thesis using "1.IH"(1) by (auto simp: Let_def)
  next
    case 3
    then show ?thesis using "1.IH"(2) by (auto simp: Let_def)
  qed
qed auto

lemma intersectNativeRanges_canonical:
  "canonical as \<Longrightarrow> canonical bs \<Longrightarrow> canonical (intersectNativeRanges as bs)"
proof (induction as bs rule: intersectNativeRanges.induct)
  case (1 a as b bs)
  let ?lo = "if fst b > fst a then fst b else fst a" let ?hi = "if snd b < snd a then snd b else snd a"
  let ?rest = "if snd a < snd b then intersectNativeRanges as (b # bs) else intersectNativeRanges (a # as) bs"
  have c: "canonical as" "canonical bs" using 1(3,4) by (auto simp: canonical_Cons)
  then have rest: "canonical ?rest" using 1 by (simp add: Let_def)
  have "?hi < fst r" if r: "r \<in> set ?rest" for r
  proof (cases "snd a < snd b")
    case True
    then obtain x where "x \<in> set as" "fst x \<le> fst r" using r intersectNativeRanges_bounds [of r as "b # bs"] by auto
    then have "snd a < fst r" using 1(3) by (auto simp: canonical_Cons intro: less_le_trans)
    then show ?thesis using True by auto
  next
    case False
    then obtain x where "x \<in> set bs" "fst x \<le> fst r" using r intersectNativeRanges_bounds [of r "a # as" bs] by auto
    then have "snd b < fst r" using 1(4) by (auto simp: canonical_Cons intro: less_le_trans)
    then show ?thesis using False by auto
  qed
  then have "?lo \<le> ?hi \<longrightarrow> canonical ((?lo, ?hi) # ?rest)" using rest by (simp add: canonical_Cons)
  moreover have "intersectNativeRanges (a # as) (b # bs) = (if ?lo \<le> ?hi then (?lo, ?hi) # ?rest else ?rest)" by (simp add: Let_def)
  ultimately show ?case using rest by (cases "?lo \<le> ?hi") (simp_all only: if_True if_False simp_thms)
qed (auto simp: canonical_def)


section \<open>Combining expressions\<close>

definition dom_matches :: "domain_matcher \<Rightarrow> native_expr \<Rightarrow> native_conn \<Rightarrow> bool" where
  "dom_matches dm e c = (case ne_domain e of None \<Rightarrow> False | Some r \<Rightarrow> native_matches dm r c)"

definition addr_in :: "ip_range list option \<Rightarrow> 32 word \<Rightarrow> bool" where
  "addr_in s a = (case s of None \<Rightarrow> False | Some rs \<Rightarrow> a \<in> ranges_set rs)"

definition canonical_opt :: "ip_range list option \<Rightarrow> bool" where
  "canonical_opt s = (case s of None \<Rightarrow> True | Some rs \<Rightarrow> canonical rs)"

lemma addr_in_simps [simp]: "\<not> addr_in None a" "addr_in (Some rs) a \<longleftrightarrow> a \<in> ranges_set rs"
  by (simp_all add: addr_in_def)

lemma canonical_opt_simps [simp]: "canonical_opt None" "canonical_opt (Some rs) = canonical rs"
  by (simp_all add: canonical_opt_def)

lemma dom_matches_simps [simp]:
  "ne_domain e = None \<Longrightarrow> \<not> dom_matches dm e c" "ne_domain e = Some r \<Longrightarrow> dom_matches dm e c = native_matches dm r c"
  by (simp_all add: dom_matches_def)

lemma set_present [simp]: "set (present xs) = {x. Some x \<in> set xs}"
  by (force simp: present_def List.map_filter_def)

lemma present_Nil [simp]: "present xs = [] \<longleftrightarrow> (\<forall>x \<in> set xs. x = None)"
  by (auto simp: present_def List.map_filter_def filter_empty_conv)

lemma present_ex: "(\<exists>x \<in> set (present (map f ee)). Q x) \<longleftrightarrow> (\<exists>e \<in> set ee. \<exists>x. f e = Some x \<and> Q x)"
  by (auto simp: image_iff) (metis+)?

lemma present_all: "(\<forall>x \<in> set (present (map f ee)). Q x) \<longleftrightarrow> (\<forall>e \<in> set ee. \<forall>x. f e = Some x \<longrightarrow> Q x)"
  by (auto simp: image_iff) metis

lemma addr_in_iff: "addr_in s a \<longleftrightarrow> (\<exists>rs. s = Some rs \<and> a \<in> ranges_set rs)"
  by (simp add: addr_in_def split: option.split)

lemma dom_matches_iff: "dom_matches dm e c \<longleftrightarrow> (\<exists>r. ne_domain e = Some r \<and> native_matches dm r c)"
  by (simp add: dom_matches_def split: option.split)

text \<open>Over a list whose entries are all absent or all present, the present ones decide.\<close>

lemma present_every:
  assumes "xs \<noteq> []" "(\<forall>e \<in> set xs. f e = None) \<or> (\<forall>e \<in> set xs. f e \<noteq> None)"
  shows "present (map f xs) \<noteq> [] \<and> (\<forall>y \<in> set (present (map f xs)). Q y) \<longleftrightarrow> (\<forall>e \<in> set xs. \<exists>y. f e = Some y \<and> Q y)"
proof -
  have x: "hd xs \<in> set xs" using assms(1) by simp
  show ?thesis unfolding present_all using assms(2) x by auto
qed

lemma flip_invert_matches: "native_matches dm (flip_invert r) c \<longleftrightarrow> \<not> native_matches dm r c"
proof (cases r)
  case (HDefault t d)
  have "has_domain (d\<lparr>hd_invert := b\<rparr>) = has_domain d" "domain_item dm (d\<lparr>hd_invert := b\<rparr>) c = domain_item dm d c"
    "address_item (d\<lparr>hd_invert := b\<rparr>) c = address_item d c" "port_item (d\<lparr>hd_invert := b\<rparr>) c = port_item d c" for b
    by (simp_all add: has_domain_def domain_item_def address_item_def port_item_def split: option.split)
  then show ?thesis by (simp add: HDefault flip_invert_def default_matches_def)
qed (simp add: flip_invert_def)

lemma combine_domains_matches:
  assumes "combine_domains dr mode = Some r"
  shows "native_matches dm r c \<longleftrightarrow> (if mode = LogicalTypeAnd then \<forall>x \<in> set dr. native_matches dm x c else \<exists>x \<in> set dr. native_matches dm x c)"
  using assms by (auto simp: combine_domains_def list_all_iff list_ex_iff split: list.splits)

lemma combine_domains_None: "combine_domains dr mode = None \<longleftrightarrow> dr = []"
  by (auto simp: combine_domains_def split: list.splits)

lemma canonical_nonempty: "canonical rs \<Longrightarrow> \<forall>r \<in> set rs. fst r \<le> snd r"
  by (simp add: canonical_def)

lemma intersect_all_spec:
  assumes "intersect_all rs sets w = Inr (out, w')" "canonical rs" "\<forall>s \<in> set sets. canonical s"
  shows "canonical out \<and> ranges_set out = ranges_set rs \<inter> (\<Inter>s \<in> set sets. ranges_set s)"
  using assms
proof (induction rs sets w rule: intersect_all.induct)
  case (2 rs nxt others w)
  obtain w1 where w1: "charge_work (length rs + length nxt) False w = Inr w1" using 2(2) by (auto simp: bindR_Inr_iff)
  let ?i = "intersectNativeRanges rs nxt"
  have i: "canonical ?i" "ranges_set ?i = ranges_set rs \<inter> ranges_set nxt"
    using 2(3,4) intersectNativeRanges_canonical intersectNativeRanges_set by auto
  show ?case
  proof (cases "?i = []")
    case True
    then have "out = []" using 2(2) w1 by (auto simp: Let_def)
    then show ?thesis using i True by (auto simp: canonical_def)
  next
    case False
    then have "intersect_all ?i others w1 = Inr (out, w')" using 2(2) w1 by (auto simp: Let_def)
    then have "canonical out \<and> ranges_set out = ranges_set ?i \<inter> (\<Inter>s \<in> set others. ranges_set s)"
      using 2(1) [OF refl False _ i(1)] 2(4) by simp
    then show ?thesis using i(2) by auto
  qed
qed auto

lemma combine_addresses_spec:
  assumes "combine_addresses env sets mode w = Inr (out, w')" "ipset_laws (nv_sets env)" "\<forall>s \<in> set sets. canonical s"
    and "mode = LogicalTypeAnd \<or> mode = LogicalTypeOr"
  shows "canonical_opt out \<and> (out = None \<longleftrightarrow> sets = []) \<and>
    (\<forall>a. addr_in out a \<longleftrightarrow> sets \<noteq> [] \<and> (if mode = LogicalTypeAnd then \<forall>s \<in> set sets. a \<in> ranges_set s else \<exists>s \<in> set sets. a \<in> ranges_set s))"
proof (cases "sets = []")
  case True
  then show ?thesis using assms(1) by (simp add: combine_addresses_def)
next
  case ne: False
  note laws = ipset_lawsD [OF assms(2)]
  show ?thesis
  proof (cases "mode = LogicalTypeOr")
    case True
    have "\<forall>r \<in> set (concat sets). fst r \<le> snd r" using assms(3) canonical_nonempty by fastforce
    note l = laws(3) [OF this] laws(4) [OF this]
    have "ranges_set (concat sets) = (\<Union>s \<in> set sets. ranges_set s)" by (auto simp: ranges_set_def)
    moreover have "out = Some (il_of_ranges (nv_sets env) (concat sets))"
      using assms(1) ne True by (auto simp: combine_addresses_def bindR_Inr_iff)
    ultimately show ?thesis using l ne True by auto
  next
    case False
    let ?s = "sort_key length sets"
    have s: "set ?s = set sets" "?s \<noteq> []" using ne by (simp, metis set_empty set_sort)
    then have hd: "hd ?s \<in> set sets" "set (tl ?s) \<subseteq> set sets" "insert (hd ?s) (set (tl ?s)) = set sets"
      using s by (metis list.set_sel(1), metis list.set_sel(2) subsetI, metis list.collapse list.simps(15))
    obtain rs w1 where rs: "intersect_all (hd ?s) (tl ?s) w = Inr (rs, w1)" "out = Some (il_of_ranges (nv_sets env) rs)"
      using assms(1) ne False by (auto simp: combine_addresses_def Let_def bindR_Inr_iff)
    have i: "canonical rs" "ranges_set rs = ranges_set (hd ?s) \<inter> (\<Inter>x \<in> set (tl ?s). ranges_set x)"
      using intersect_all_spec [OF rs(1)] assms(3) hd(1,2) by auto
    have "ranges_set rs = (\<Inter>x \<in> set sets. ranges_set x)" unfolding i(2) hd(3) [symmetric] by simp
    then show ?thesis using laws(3,4) [OF canonical_nonempty [OF i(1)]] rs(2) ne False assms(4) by auto
  qed
qed

lemma combine_plain_spec:
  assumes "combine_plain env ee mode False w = Inr (out, w')" "ipset_laws (nv_sets env)" "\<forall>e \<in> set ee. canonical_opt (ne_address e)"
    and mode: "mode = LogicalTypeAnd \<or> mode = LogicalTypeOr" and ne: "ee \<noteq> []"
  shows "ne_transport out = None" "canonical_opt (ne_address out)"
    "dom_matches dm out c \<longleftrightarrow> (if mode = LogicalTypeAnd then \<forall>e \<in> set ee. dom_matches dm e c else \<exists>e \<in> set ee. dom_matches dm e c)"
    "addr_in (ne_address out) a \<longleftrightarrow> (if mode = LogicalTypeAnd then \<forall>e \<in> set ee. addr_in (ne_address e) a else \<exists>e \<in> set ee. addr_in (ne_address e) a)"
    "ne_empty_domain out \<longleftrightarrow> (if mode = LogicalTypeAnd then \<forall>e \<in> set ee. ne_empty_domain e else \<exists>e \<in> set ee. ne_empty_domain e)"
    "mode = LogicalTypeAnd \<Longrightarrow> (\<forall>e \<in> set ee. ne_domain e \<noteq> None \<and> ne_address e = None) \<or> (\<forall>e \<in> set ee. ne_domain e = None \<and> ne_address e \<noteq> None)"
    "ne_domain out = None \<longleftrightarrow> (\<forall>e \<in> set ee. ne_domain e = None)" "ne_address out = None \<longleftrightarrow> (\<forall>e \<in> set ee. ne_address e = None)"
proof -
  let ?sets = "present (map ne_address ee)" let ?doms = "present (map ne_domain ee)"
  show dich: "mode = LogicalTypeAnd \<Longrightarrow> (\<forall>e \<in> set ee. ne_domain e \<noteq> None \<and> ne_address e = None) \<or> (\<forall>e \<in> set ee. ne_domain e = None \<and> ne_address e \<noteq> None)"
    using assms(1) by (auto simp: combine_plain_def bad_def split: if_splits)
  have g: "\<not> (mode = LogicalTypeAnd \<and> \<not> (\<forall>e \<in> set ee. ne_domain e \<noteq> None \<and> ne_address e = None)
      \<and> \<not> (\<forall>e \<in> set ee. ne_domain e = None \<and> ne_address e \<noteq> None))" using dich by blast
  obtain addr where addr: "combine_addresses env ?sets mode w = Inr (addr, w')"
    "out = \<lparr>ne_domain = combine_domains ?doms mode, ne_address = addr,
       ne_empty_domain = (if mode = LogicalTypeAnd then \<forall>e \<in> set ee. ne_empty_domain e else \<exists>e \<in> set ee. ne_empty_domain e), ne_transport = None\<rparr>"
    using assms(1) unfolding combine_plain_def if_not_P [OF g] by (auto simp: Let_def bindR_Inr_iff invertNative_def)
  have c: "\<forall>s \<in> set ?sets. canonical s"
  proof
    fix s assume "s \<in> set ?sets"
    then obtain e where "e \<in> set ee" "ne_address e = Some s" by auto
    then show "canonical s" using assms(3) by (metis canonical_opt_simps(2))
  qed
  note spec = combine_addresses_spec [OF addr(1) assms(2) c mode]
  show "ne_transport out = None" "canonical_opt (ne_address out)"
    "ne_empty_domain out \<longleftrightarrow> (if mode = LogicalTypeAnd then \<forall>e \<in> set ee. ne_empty_domain e else \<exists>e \<in> set ee. ne_empty_domain e)"
    using spec addr(2) by auto
  show "ne_domain out = None \<longleftrightarrow> (\<forall>e \<in> set ee. ne_domain e = None)" "ne_address out = None \<longleftrightarrow> (\<forall>e \<in> set ee. ne_address e = None)"
    using spec addr(2) by (auto simp: combine_domains_None)
  have someA: "(\<exists>s \<in> set ?sets. a \<in> ranges_set s) \<longleftrightarrow> (\<exists>e \<in> set ee. addr_in (ne_address e) a)"
    unfolding present_ex addr_in_iff ..
  have allA: "?sets \<noteq> [] \<and> (\<forall>s \<in> set ?sets. a \<in> ranges_set s) \<longleftrightarrow> (\<forall>e \<in> set ee. addr_in (ne_address e) a)" if "mode = LogicalTypeAnd"
    unfolding addr_in_iff by (rule present_every [OF ne]) (use dich [OF that] in blast)
  show "addr_in (ne_address out) a \<longleftrightarrow> (if mode = LogicalTypeAnd then \<forall>e \<in> set ee. addr_in (ne_address e) a else \<exists>e \<in> set ee. addr_in (ne_address e) a)"
    using spec addr(2) someA allA by auto
  have someD: "(\<exists>r \<in> set ?doms. native_matches dm r c) \<longleftrightarrow> (\<exists>e \<in> set ee. dom_matches dm e c)"
    unfolding present_ex dom_matches_iff ..
  have allD: "?doms \<noteq> [] \<and> (\<forall>r \<in> set ?doms. native_matches dm r c) \<longleftrightarrow> (\<forall>e \<in> set ee. dom_matches dm e c)" if "mode = LogicalTypeAnd"
    unfolding dom_matches_iff by (rule present_every [OF ne]) (use dich [OF that] in blast)
  show "dom_matches dm out c \<longleftrightarrow> (if mode = LogicalTypeAnd then \<forall>e \<in> set ee. dom_matches dm e c else \<exists>e \<in> set ee. dom_matches dm e c)"
  proof (cases "combine_domains ?doms mode")
    case None
    then have d: "?doms = []" by (simp add: combine_domains_None)
    have "\<not> dom_matches dm out c" using None addr(2) by simp
    then show ?thesis using d someD allD by auto
  next
    case (Some r)
    then have "?doms \<noteq> []" using combine_domains_None [of ?doms mode] by auto
    then show ?thesis using combine_domains_matches [OF Some, of dm c] Some addr(2) someD allD by auto
  qed
qed


section \<open>An expression stands for its predicate\<close>

text \<open>Domain and addresses are below the predicate and with the envelope they are above it; without a domain the domain
  part has its constant value; and the domain part looks at the domain only.\<close>

definition expr_ok :: "domain_matcher \<Rightarrow> native_expr \<Rightarrow> (native_conn \<Rightarrow> bool) \<Rightarrow> bool" where
  "expr_ok dm e P \<longleftrightarrow> canonical_opt (ne_address e) \<and> canonical_opt (ne_transport e) \<and>
    (\<forall>c. nc_domain c = None \<longrightarrow> dom_matches dm e c = ne_empty_domain e) \<and>
    (\<forall>c c'. nc_domain c = nc_domain c' \<longrightarrow> dom_matches dm e c = dom_matches dm e c') \<and>
    (\<forall>c a. nc_ip c = Some a \<longrightarrow> (dom_matches dm e c \<or> addr_in (ne_address e) a \<longrightarrow> P c) \<and>
      (P c \<longrightarrow> dom_matches dm e c \<or> addr_in (ne_address e) a \<or> addr_in (ne_transport e) a))"

definition nonempty :: "native_expr \<Rightarrow> bool" where
  "nonempty e \<longleftrightarrow> ne_domain e \<noteq> None \<or> ne_address e \<noteq> None \<or> ne_transport e \<noteq> None"

lemma expr_okD:
  assumes "expr_ok dm e P"
  shows "canonical_opt (ne_address e)" "canonical_opt (ne_transport e)"
    "nc_domain c = None \<Longrightarrow> dom_matches dm e c = ne_empty_domain e"
    "nc_domain c = nc_domain c' \<Longrightarrow> dom_matches dm e c = dom_matches dm e c'"
    "nc_ip c = Some a \<Longrightarrow> dom_matches dm e c \<or> addr_in (ne_address e) a \<Longrightarrow> P c"
    "nc_ip c = Some a \<Longrightarrow> P c \<Longrightarrow> dom_matches dm e c \<or> addr_in (ne_address e) a \<or> addr_in (ne_transport e) a"
  using assms unfolding expr_ok_def by blast+

lemma expr_okI:
  assumes "canonical_opt (ne_address e)" "canonical_opt (ne_transport e)"
    "\<And>c. nc_domain c = None \<Longrightarrow> dom_matches dm e c = ne_empty_domain e"
    "\<And>c c'. nc_domain c = nc_domain c' \<Longrightarrow> dom_matches dm e c = dom_matches dm e c'"
    "\<And>c a. nc_ip c = Some a \<Longrightarrow> dom_matches dm e c \<or> addr_in (ne_address e) a \<Longrightarrow> P c"
    "\<And>c a. nc_ip c = Some a \<Longrightarrow> P c \<Longrightarrow> dom_matches dm e c \<or> addr_in (ne_address e) a \<or> addr_in (ne_transport e) a"
  shows "expr_ok dm e P"
  using assms unfolding expr_ok_def by blast

lemma invertNative_ok:
  assumes inv: "invertNative env e True w = Inr (out, w')" and laws: "ipset_laws (nv_sets env)"
    and ok: "expr_ok dm e P" and e: "ne_transport e = None" "nonempty e"
  shows "expr_ok dm out (\<lambda>c. \<not> P c) \<and> nonempty out \<and> ne_transport out = None"
proof (cases "ne_domain e")
  case (Some r)
  then have a: "ne_address e = None" using inv by (cases "ne_address e") (auto simp: invertNative_def bad_def)
  then have out: "out = e\<lparr>ne_domain := Some (flip_invert r), ne_empty_domain := \<not> ne_empty_domain e\<rparr>"
    using inv Some by (simp add: invertNative_def)
  have flip: "dom_matches dm out c \<longleftrightarrow> \<not> dom_matches dm e c" for c using Some by (simp add: out flip_invert_matches)
  have "expr_ok dm out (\<lambda>c. \<not> P c)"
  proof (rule expr_okI)
    show "dom_matches dm out c = dom_matches dm out c'" if "nc_domain c = nc_domain c'" for c c'
      unfolding flip using expr_okD(4) [OF ok that] by simp
    show "\<not> P c" if "nc_ip c = Some x" "dom_matches dm out c \<or> addr_in (ne_address out) x" for c x
      using expr_okD(6) [OF ok that(1)] that(2) unfolding flip by (auto simp: out a e)
    show "dom_matches dm out c \<or> addr_in (ne_address out) x \<or> addr_in (ne_transport out) x" if "nc_ip c = Some x" "\<not> P c" for c x
      using expr_okD(5) [OF ok that(1)] that(2) unfolding flip by blast
  qed (use expr_okD(3) [OF ok] flip in \<open>auto simp: out a e\<close>)
  then show ?thesis by (simp add: out nonempty_def e)
next
  case None
  then obtain rs where rs: "ne_address e = Some rs" using e by (auto simp: nonempty_def)
  have out: "out = e\<lparr>ne_address := Some (il_complement (nv_sets env) rs)\<rparr>"
    using inv None rs by (auto simp: invertNative_def bindR_Inr_iff)
  have can: "canonical rs" using expr_okD(1) [OF ok] rs by simp
  note l = ipset_lawsD(5,6) [OF laws can]
  have d: "\<not> dom_matches dm e c" "\<not> dom_matches dm out c" for c using None by (simp_all add: out)
  have "expr_ok dm out (\<lambda>c. \<not> P c)"
  proof (rule expr_okI)
    show "dom_matches dm out c = ne_empty_domain out" if "nc_domain c = None" for c
      using expr_okD(3) [OF ok that] d by (simp add: out)
    show "\<not> P c" if "nc_ip c = Some x" "dom_matches dm out c \<or> addr_in (ne_address out) x" for c x
      using expr_okD(6) [OF ok that(1)] that(2) d l rs by (auto simp: out e)
    show "dom_matches dm out c \<or> addr_in (ne_address out) x \<or> addr_in (ne_transport out) x" if "nc_ip c = Some x" "\<not> P c" for c x
      using expr_okD(5) [OF ok that(1)] that(2) l rs by (auto simp: out)
  qed (simp_all add: d, simp_all add: out l e)
  then show ?thesis by (simp add: out nonempty_def e)
qed

lemma list_all2_left: "list_all2 R xs ys \<Longrightarrow> x \<in> set xs \<Longrightarrow> \<exists>y \<in> set ys. R x y"
  by (auto simp: list_all2_conv_all_nth in_set_conv_nth [of x]) (metis nth_mem)

lemma list_all2_right: "list_all2 R xs ys \<Longrightarrow> y \<in> set ys \<Longrightarrow> \<exists>x \<in> set xs. R x y"
  by (auto simp: list_all2_conv_all_nth in_set_conv_nth [of y]) (metis nth_mem)

text \<open>The predicate of a logical node, before its inversion.\<close>

definition joined :: "string \<Rightarrow> (native_conn \<Rightarrow> bool) list \<Rightarrow> native_conn \<Rightarrow> bool" where
  "joined mode Ps c = (if mode = LogicalTypeAnd then \<forall>P \<in> set Ps. P c else \<exists>P \<in> set Ps. P c)"

lemma combine_plain_ok:
  assumes c: "combine_plain env ee mode False w = Inr (out, w')" and laws: "ipset_laws (nv_sets env)"
    and ok: "list_all2 (expr_ok dm) ee Ps" and t: "\<forall>e \<in> set ee. ne_transport e = None"
    and mode: "mode = LogicalTypeAnd \<or> mode = LogicalTypeOr" and ne: "ee \<noteq> []"
  shows "expr_ok dm out (joined mode Ps)"
proof -
  have can: "\<forall>e \<in> set ee. canonical_opt (ne_address e)" using list_all2_left [OF ok] expr_okD(1) by blast
  note spec = combine_plain_spec [OF c laws can mode ne]
  have one: "\<exists>P \<in> set Ps. expr_ok dm e P" if "e \<in> set ee" for e using list_all2_left [OF ok that] .
  have two: "\<exists>e \<in> set ee. expr_ok dm e P" if "P \<in> set Ps" for P using list_all2_right [OF ok that] .
  show ?thesis
  proof (rule expr_okI)
    show "dom_matches dm out c = ne_empty_domain out" if "nc_domain c = None" for c
      unfolding spec(3,5) using one expr_okD(3) [OF _ that] by metis
    show "dom_matches dm out c = dom_matches dm out c'" if "nc_domain c = nc_domain c'" for c c'
      unfolding spec(3) using one expr_okD(4) [OF _ that] by metis
    show "joined mode Ps c" if ip: "nc_ip c = Some a" and h: "dom_matches dm out c \<or> addr_in (ne_address out) a" for c a
    proof (cases "mode = LogicalTypeAnd")
      case True
      then have h': "(\<forall>e \<in> set ee. dom_matches dm e c) \<or> (\<forall>e \<in> set ee. addr_in (ne_address e) a)"
        using h unfolding spec(3,4) by simp
      have "P c" if P: "P \<in> set Ps" for P
      proof -
        obtain e where "e \<in> set ee" "expr_ok dm e P" using two [OF P] by blast
        then show ?thesis using expr_okD(5) [OF _ ip] h' by blast
      qed
      then show ?thesis unfolding joined_def using True by auto
    next
      case False
      then obtain e where e: "e \<in> set ee" "dom_matches dm e c \<or> addr_in (ne_address e) a" using h unfolding spec(3,4) by auto
      obtain P where "P \<in> set Ps" "expr_ok dm e P" using one [OF e(1)] by blast
      then show ?thesis using expr_okD(5) [OF _ ip e(2)] False by (auto simp: joined_def)
    qed
    show "dom_matches dm out c \<or> addr_in (ne_address out) a \<or> addr_in (ne_transport out) a"
      if ip: "nc_ip c = Some a" and j: "joined mode Ps c" for c a
    proof (cases "mode = LogicalTypeAnd")
      case True
      have "dom_matches dm e c \<or> addr_in (ne_address e) a" if e: "e \<in> set ee" for e
      proof -
        obtain P where "P \<in> set Ps" "expr_ok dm e P" using one [OF e] by blast
        then show ?thesis using expr_okD(6) [OF _ ip, of dm e P] j True t e by (auto simp: joined_def)
      qed
      then have "(\<forall>e \<in> set ee. dom_matches dm e c) \<or> (\<forall>e \<in> set ee. addr_in (ne_address e) a)"
        using spec(6) [OF True] by (metis addr_in_simps(1) dom_matches_simps(1))
      then show ?thesis unfolding spec(3,4) using True by auto
    next
      case False
      then obtain P where P: "P \<in> set Ps" "P c" using j by (auto simp: joined_def)
      obtain e where e: "e \<in> set ee" "expr_ok dm e P" using two [OF P(1)] by blast
      then have "dom_matches dm e c \<or> addr_in (ne_address e) a" using expr_okD(6) [OF e(2) ip P(2)] t by auto
      then show ?thesis unfolding spec(3,4) using False e(1) by auto
    qed
  qed (use spec(1,2) in auto)
qed


lemma combine_plain_invert:
  "combine_plain env ee mode True w = bindR (combine_plain env ee mode False w) (\<lambda>(e, w). invertNative env e True w)"
  by (cases "combine_addresses env (present (map ne_address ee)) mode w") (auto simp: combine_plain_def Let_def bad_def invertNative_def [of env _ False])

lemma only_address_simps [simp]:
  "ne_domain (only_address s) = None" "ne_address (only_address s) = s" "ne_transport (only_address s) = None" "\<not> ne_empty_domain (only_address s)"
  by (simp_all add: only_address_def no_expr_def)

lemma dom_matches_transport [simp]: "dom_matches dm (e\<lparr>ne_transport := t\<rparr>) c = dom_matches dm e c"
  by (simp add: dom_matches_def)

lemma join_envelopes_spec:
  assumes "join_envelopes env ee w = Inr (ms, w')" "ipset_laws (nv_sets env)"
    "\<forall>e \<in> set ee. canonical_opt (ne_address e) \<and> canonical_opt (ne_transport e)"
  shows "(\<forall>e \<in> set ee. ne_domain e = None) \<and> list_all2 (\<lambda>e m. ne_domain m = None \<and> canonical_opt (ne_address m) \<and>
    (\<forall>a. addr_in (ne_address m) a \<longleftrightarrow> addr_in (ne_address e) a \<or> addr_in (ne_transport e) a)) ee ms"
  using assms
proof (induction ee arbitrary: w ms)
  case (Cons e ee)
  have d: "ne_domain e = None" using Cons.prems(1) by (auto simp: bad_def split: if_splits)
  obtain m w1 ms1 where m: "combine_plain env [only_address (ne_address e), only_address (ne_transport e)] LogicalTypeOr False w = Inr (m, w1)"
    "join_envelopes env ee w1 = Inr (ms1, w')" "ms = m # ms1"
    using Cons.prems(1) d by (auto simp: bindR_Inr_iff)
  have "\<forall>x \<in> set [only_address (ne_address e), only_address (ne_transport e)]. canonical_opt (ne_address x)" using Cons.prems(3) by simp
  note spec = combine_plain_spec [OF m(1) Cons.prems(2) this]
  have "ne_domain m = None" "canonical_opt (ne_address m)" "\<forall>a. addr_in (ne_address m) a \<longleftrightarrow> addr_in (ne_address e) a \<or> addr_in (ne_transport e) a"
    using spec(2,4,7) by auto
  then show ?case using Cons.IH [OF m(2) Cons.prems(2)] Cons.prems(3) d m(3) by auto
qed simp

lemma combine_transport_and_ok:
  assumes c: "combine_transport_and env ee w = Inr (out, w')" and laws: "ipset_laws (nv_sets env)"
    and ok: "list_all2 (expr_ok dm) ee Ps" and t: "\<exists>e \<in> set ee. ne_transport e \<noteq> None"
  shows "expr_ok dm out (joined LogicalTypeAnd Ps) \<and> nonempty out"
proof -
  have ne: "ee \<noteq> []" using t by auto
  have one: "\<exists>P \<in> set Ps. expr_ok dm e P" if "e \<in> set ee" for e using list_all2_left [OF ok that] .
  have two: "\<exists>e \<in> set ee. expr_ok dm e P" if "P \<in> set Ps" for P using list_all2_right [OF ok that] .
  have can: "\<forall>e \<in> set ee. canonical_opt (ne_address e) \<and> canonical_opt (ne_transport e)" using one expr_okD(1,2) by blast
  obtain ms w1 envl w2 where j: "join_envelopes env ee w = Inr (ms, w1)" "combine_plain env ms LogicalTypeAnd False w1 = Inr (envl, w2)"
    "keep_unconditional env ee envl w2 = Inr (out, w')"
    using c by (auto simp: combine_transport_and_def bindR_Inr_iff)
  note js = join_envelopes_spec [OF j(1) laws can]
  have dn: "\<not> dom_matches dm e c" if "e \<in> set ee" for e c using js that by simp
  have l2: "list_all2 (\<lambda>e m. ne_domain m = None \<and> canonical_opt (ne_address m) \<and> (\<forall>a. addr_in (ne_address m) a \<longleftrightarrow> addr_in (ne_address e) a \<or> addr_in (ne_transport e) a)) ee ms"
    using js by blast
  have msne: "ms \<noteq> []" using l2 ne by auto
  have msc: "\<forall>m \<in> set ms. canonical_opt (ne_address m)" using list_all2_right [OF l2] by blast
  note es = combine_plain_spec [OF j(2) laws msc disjI1 [OF refl] msne]
  have env_in: "addr_in (ne_address envl) a \<longleftrightarrow> (\<forall>e \<in> set ee. addr_in (ne_address e) a \<or> addr_in (ne_transport e) a)" for a
    unfolding es(4) using list_all2_left [OF l2] list_all2_right [OF l2] by (simp, meson)
  have out: "ne_domain out = None" "\<not> ne_empty_domain out" "ne_transport out = ne_address envl"
    using j(3) by (auto simp: keep_unconditional_def no_expr_def bindR_Inr_iff split: if_splits)
  have addr: "canonical_opt (ne_address out) \<and> (\<forall>a. addr_in (ne_address out) a \<longrightarrow> (\<forall>e \<in> set ee. addr_in (ne_address e) a))"
  proof (cases "\<forall>e \<in> set ee. ne_address e \<noteq> None")
    case True
    then obtain u where u: "combine_plain env (map (\<lambda>e. only_address (ne_address e)) ee) LogicalTypeAnd False w2 = Inr (u, w')" "ne_address out = ne_address u"
      using j(3) unfolding keep_unconditional_def if_P [OF True] by (auto simp: bindR_Inr_iff)
    have "\<forall>x \<in> set (map (\<lambda>e. only_address (ne_address e)) ee). canonical_opt (ne_address x)" using can by auto
    note us = combine_plain_spec [OF u(1) laws this]
    show ?thesis using us(2,4) ne u(2) by auto
  next
    case False
    then have "ne_address out = None" using j(3) unfolding keep_unconditional_def if_not_P [OF False] by (auto simp: no_expr_def)
    then show ?thesis by simp
  qed
  have "expr_ok dm out (joined LogicalTypeAnd Ps)"
  proof (rule expr_okI)
    show "joined LogicalTypeAnd Ps c" if ip: "nc_ip c = Some a" and h: "dom_matches dm out c \<or> addr_in (ne_address out) a" for c a
    proof -
      have "addr_in (ne_address e) a" if "e \<in> set ee" for e using h addr that out(1) by auto
      then have "P c" if P: "P \<in> set Ps" for P using two [OF P] expr_okD(5) [OF _ ip] by blast
      then show ?thesis unfolding joined_def by auto
    qed
    show "dom_matches dm out c \<or> addr_in (ne_address out) a \<or> addr_in (ne_transport out) a"
      if ip: "nc_ip c = Some a" and h: "joined LogicalTypeAnd Ps c" for c a
    proof -
      have "addr_in (ne_address e) a \<or> addr_in (ne_transport e) a" if e: "e \<in> set ee" for e
      proof -
        obtain P where "P \<in> set Ps" "expr_ok dm e P" using one [OF e] by blast
        then show ?thesis using expr_okD(6) [OF _ ip, of dm e P] h dn [OF e] by (auto simp: joined_def)
      qed
      then show ?thesis unfolding out(3) env_in by blast
    qed
  qed (use addr es(2) out in auto)
  moreover have "nonempty out"
  proof -
    have "\<forall>m \<in> set ms. ne_domain m = None" using list_all2_right [OF l2] by blast
    then have "\<forall>m \<in> set ms. ne_address m \<noteq> None" using es(6) [OF refl] msne by (metis list.set_sel(1))
    then have "ne_address envl \<noteq> None" unfolding es(8) using msne by (metis list.set_sel(1))
    then show ?thesis by (simp add: nonempty_def out)
  qed
  ultimately show ?thesis by blast
qed


lemma combine_transport_or_ok:
  assumes c: "combine_transport_or env ee LogicalTypeOr w = Inr (out, w')" and laws: "ipset_laws (nv_sets env)"
    and ok: "list_all2 (expr_ok dm) ee Ps" and t: "\<exists>e \<in> set ee. ne_transport e \<noteq> None"
  shows "expr_ok dm out (joined LogicalTypeOr Ps) \<and> nonempty out"
proof -
  let ?ord = "map (\<lambda>e. e\<lparr>ne_transport := None\<rparr>) ee" let ?trs = "map (\<lambda>t. only_address (Some t)) (present (map ne_transport ee))"
  have ne: "?ord \<noteq> []" "?trs \<noteq> []" using t by auto
  have one: "\<exists>P \<in> set Ps. expr_ok dm e P" if "e \<in> set ee" for e using list_all2_left [OF ok that] .
  have two: "\<exists>e \<in> set ee. expr_ok dm e P" if "P \<in> set Ps" for P using list_all2_right [OF ok that] .
  obtain o1 w1 tr where j: "combine_plain env ?ord LogicalTypeOr False w = Inr (o1, w1)" "combine_plain env ?trs LogicalTypeOr False w1 = Inr (tr, w')"
    "out = o1\<lparr>ne_transport := ne_address tr\<rparr>"
    using c by (auto simp: combine_transport_or_def bindR_Inr_iff)
  have c1: "\<forall>e \<in> set ?ord. canonical_opt (ne_address e)" using one expr_okD(1) by force
  have c2: "\<forall>e \<in> set ?trs. canonical_opt (ne_address e)"
  proof -
    have "canonical rs" if "e \<in> set ee" "ne_transport e = Some rs" for e rs
      using one [OF that(1)] expr_okD(2) that(2) by (metis canonical_opt_simps(2))
    then show ?thesis by (auto simp: image_iff)
  qed
  note os = combine_plain_spec [OF j(1) laws c1 disjI2 [OF refl] ne(1)]
  note ts = combine_plain_spec [OF j(2) laws c2 disjI2 [OF refl] ne(2)]
  have D: "dom_matches dm out c \<longleftrightarrow> (\<exists>e \<in> set ee. dom_matches dm e c)" for c using os(3) [of dm c] by (simp add: j(3))
  have A: "addr_in (ne_address out) a \<longleftrightarrow> (\<exists>e \<in> set ee. addr_in (ne_address e) a)" for a using os(4) [of a] by (simp add: j(3))
  have T: "addr_in (ne_transport out) a \<longleftrightarrow> (\<exists>e \<in> set ee. addr_in (ne_transport e) a)" for a
    using ts(4) [of a] present_ex [of ne_transport ee "\<lambda>rs. a \<in> ranges_set rs"] by (simp add: j(3) addr_in_iff [of "ne_transport _"])
  have E: "ne_empty_domain out \<longleftrightarrow> (\<exists>e \<in> set ee. ne_empty_domain e)" using os(5) by (simp add: j(3))
  have "expr_ok dm out (joined LogicalTypeOr Ps)"
  proof (rule expr_okI)
    show "dom_matches dm out c = ne_empty_domain out" if "nc_domain c = None" for c
      unfolding D E using one expr_okD(3) [OF _ that] by metis
    show "dom_matches dm out c = dom_matches dm out c'" if "nc_domain c = nc_domain c'" for c c'
      unfolding D using one expr_okD(4) [OF _ that] by metis
    show "joined LogicalTypeOr Ps c" if ip: "nc_ip c = Some a" and h: "dom_matches dm out c \<or> addr_in (ne_address out) a" for c a
    proof -
      obtain e where e: "e \<in> set ee" "dom_matches dm e c \<or> addr_in (ne_address e) a" using h unfolding D A by blast
      obtain P where "P \<in> set Ps" "expr_ok dm e P" using one [OF e(1)] by blast
      then show ?thesis using expr_okD(5) [OF _ ip e(2)] by (auto simp: joined_def)
    qed
    show "dom_matches dm out c \<or> addr_in (ne_address out) a \<or> addr_in (ne_transport out) a"
      if ip: "nc_ip c = Some a" and h: "joined LogicalTypeOr Ps c" for c a
    proof -
      obtain P where P: "P \<in> set Ps" "P c" using h by (auto simp: joined_def)
      obtain e where e: "e \<in> set ee" "expr_ok dm e P" using two [OF P(1)] by blast
      show ?thesis unfolding D A T using expr_okD(6) [OF e(2) ip P(2)] e(1) by blast
    qed
  qed (use os(2) ts(2) in \<open>auto simp: j(3)\<close>)
  have "\<not> (\<forall>e \<in> set ?trs. ne_address e = None)" using ne(2) by (metis hd_in_set hd_map list.map_disc_iff only_address_simps(2) option.distinct(1))
  then have "nonempty out" using ts(8) by (simp add: nonempty_def j(3))
  then show ?thesis using \<open>expr_ok dm out _\<close> by blast
qed

lemma combineNative_ok:
  assumes c: "combineNative env ee mode invert w = Inr (out, w')" and laws: "ipset_laws (nv_sets env)"
    and ok: "list_all2 (expr_ok dm) ee Ps" and ne: "ee \<noteq> []" "\<forall>e \<in> set ee. nonempty e"
    and mode: "mode = LogicalTypeAnd \<or> mode = LogicalTypeOr"
  shows "expr_ok dm out (\<lambda>c. joined mode Ps c \<noteq> invert) \<and> nonempty out"
proof (cases "\<exists>e \<in> set ee. ne_transport e \<noteq> None")
  case True
  then have g: "\<not> \<not> (\<exists>e \<in> set ee. ne_transport e \<noteq> None)" by blast
  have ni: "\<not> invert" using c unfolding combineNative_def if_not_P [OF g] by (auto simp: bad_def)
  show ?thesis
  proof (cases "mode = LogicalTypeAnd")
    case conj: True
    then have "combine_transport_and env ee w = Inr (out, w')" using c ni conj unfolding combineNative_def if_not_P [OF g] by simp
    from combine_transport_and_ok [OF this laws ok True] show ?thesis using conj ni by simp
  next
    case False
    then have "combine_transport_or env ee LogicalTypeOr w = Inr (out, w')" using c ni False mode unfolding combineNative_def if_not_P [OF g] by simp
    from combine_transport_or_ok [OF this laws ok True] show ?thesis using False mode ni by simp
  qed
next
  case False
  then have t: "\<forall>e \<in> set ee. ne_transport e = None" by blast
  have p: "combine_plain env ee mode invert w = Inr (out, w')" using c False by (simp add: combineNative_def)
  have can: "\<forall>e \<in> set ee. canonical_opt (ne_address e)" using list_all2_left [OF ok] expr_okD(1) by blast
  have some: "\<exists>e \<in> set ee. ne_domain e \<noteq> None \<or> ne_address e \<noteq> None"
    using ne t by (metis list.set_sel(1) nonempty_def)
  have plain: "expr_ok dm o1 (joined mode Ps) \<and> nonempty o1 \<and> ne_transport o1 = None"
    if "combine_plain env ee mode False w = Inr (o1, w1)" for o1 w1
    using combine_plain_ok [OF that laws ok t mode ne(1)] combine_plain_spec(1,7,8) [OF that laws can mode ne(1)] some
    by (auto simp: nonempty_def)
  show ?thesis
  proof (cases invert)
    case True
    obtain o1 w1 where o1: "combine_plain env ee mode False w = Inr (o1, w1)" "invertNative env o1 True w1 = Inr (out, w')"
      using p True by (auto simp: combine_plain_invert bindR_Inr_iff)
    then show ?thesis using invertNative_ok [OF o1(2) laws] plain [OF o1(1)] True by auto
  next
    case False
    then show ?thesis using p plain by simp
  qed
qed


section \<open>Compiling the tree\<close>

lemma check_default_context:
  "check_default env t d w = Inr w' \<Longrightarrow> contextual d \<Longrightarrow> \<not> hd_invert d \<and> \<not> has_domain d"
  by (auto simp: check_default_def bad_def Let_def split: if_splits)

lemma domain_part_matches:
  assumes "has_domain d" "\<not> contextual d"
  shows "native_matches dm (HDefault RuleTypeDefault (d\<lparr>hd_ip_cidr := [], hd_invert := False\<rparr>)) c \<longleftrightarrow> domain_item dm d c"
proof -
  have "has_domain (d\<lparr>hd_ip_cidr := [], hd_invert := False\<rparr>) = has_domain d"
    "domain_item dm (d\<lparr>hd_ip_cidr := [], hd_invert := False\<rparr>) c = domain_item dm d c"
    "\<not> address_item (d\<lparr>hd_ip_cidr := [], hd_invert := False\<rparr>) c"
    by (simp_all add: has_domain_def domain_item_def address_item_def ipv4_entries_def present_def List.map_filter_def split: option.split)
  then show ?thesis using assms by (simp add: default_matches_def contextual_def)
qed

lemma domain_item_has: "domain_item dm d c \<Longrightarrow> has_domain d"
  by (simp add: domain_item_def split: option.splits)

lemma prefix_contains_0: "prefix_contains (p, 0) a"
  by (auto simp: prefix_contains_def bit_eq_iff bit_drop_bit_eq dest: bit_imp_le_length)

lemma address_part_addr:
  "address_part env d w = Inr (addr, w') \<Longrightarrow>
    addr = (if hd_ip_cidr d = [] then None else Some (il_of_prefixes (nv_sets env) (ipv4_entries (hd_ip_cidr d))))"
  by (auto simp: address_part_def bindR_Inr_iff bad_def split: if_splits)

lemma all_addresses_set: "ipset_laws (nv_sets env) \<Longrightarrow> ranges_set (all_addresses env) = UNIV"
  by (auto simp: all_addresses_def ipset_lawsD(2) prefix_contains_0)

lemma compile_default_ok:
  assumes c: "compile_default env t d w = Inr (out, w')" and laws: "ipset_laws (nv_sets env)"
  shows "expr_ok dm out (default_matches dm d) \<and> nonempty out"
proof -
  obtain w1 where w1: "check_default env t d w = Inr w1" using c by (auto simp: compile_default_def bindR_Inr_iff)
  obtain addr w2 where a: "address_part env d w1 = Inr (addr, w2)" "nonempty (default_expr env d addr)"
    and inv: "invertNative env (default_expr env d addr) (hd_invert d) w2 = Inr (out, w')"
    using c w1 by (auto simp: compile_default_def bindR_Inr_iff Let_def bad_def nonempty_def split: if_splits)
  have addr: "addr = (if hd_ip_cidr d = [] then None else Some (il_of_prefixes (nv_sets env) (ipv4_entries (hd_ip_cidr d))))"
    using address_part_addr [OF a(1)] .
  have can: "canonical_opt addr" using ipset_lawsD(1) [OF laws] by (simp add: addr)
  have ain: "addr_in addr x \<longleftrightarrow> address_item d c" if "nc_ip c = Some x" for x c
    using ipset_lawsD(2) [OF laws] that by (simp add: addr address_item_def ipv4_entries_def present_def List.map_filter_def)
  let ?e = "default_expr env d addr"
  note ne = a(2)
  show ?thesis
  proof (cases "contextual d")
    case True
    then have d: "\<not> hd_invert d" "\<not> has_domain d" using check_default_context [OF w1] by auto
    then have out: "out = no_expr\<lparr>ne_transport := Some (case addr of None \<Rightarrow> all_addresses env | Some a \<Rightarrow> a)\<rparr>"
      using inv True by (simp add: invertNative_def no_expr_def default_expr_def domain_part_def)
    have "expr_ok dm out (default_matches dm d)"
    proof (rule expr_okI)
      show "dom_matches dm out c \<or> addr_in (ne_address out) a \<or> addr_in (ne_transport out) a"
        if "nc_ip c = Some a" "default_matches dm d c" for c a
      proof -
        have "addr = None \<or> address_item d c" using that(2) d domain_item_has [of dm d c] by (auto simp: default_matches_def addr)
        then show ?thesis using ain [OF that(1)] all_addresses_set [OF laws] by (cases addr) (auto simp: out)
      qed
      show "canonical_opt (ne_transport out)" using can ipset_lawsD(1) [OF laws] by (cases addr) (simp_all add: out all_addresses_def)
    qed (simp_all add: out no_expr_def)
    then show ?thesis by (simp add: out nonempty_def)
  next
    case False
    let ?P = "\<lambda>c. domain_item dm d c \<or> address_item d c"
    have ctx: "default_matches dm d c \<longleftrightarrow> ?P c \<noteq> hd_invert d" for c
    proof -
      have "\<not> (\<not> has_domain d \<and> hd_ip_cidr d = [])" using False ne
        by (auto simp: nonempty_def default_expr_def no_expr_def domain_part_def addr)
      then show ?thesis using False by (auto simp: default_matches_def contextual_def)
    qed
    have D: "dom_matches dm ?e c \<longleftrightarrow> domain_item dm d c" for c
      using False domain_part_matches [of d dm c] domain_item_has [of dm d c] by (auto simp: dom_matches_def no_expr_def default_expr_def domain_part_def)
    have e: "ne_address ?e = addr" "ne_transport ?e = None" "\<not> ne_empty_domain ?e" using False by (simp_all add: no_expr_def default_expr_def)
    have ok: "expr_ok dm ?e ?P"
    proof (rule expr_okI)
      show "dom_matches dm ?e c = dom_matches dm ?e c'" if "nc_domain c = nc_domain c'" for c c'
        unfolding D using that by (simp add: domain_item_def)
      show "dom_matches dm ?e c = ne_empty_domain ?e" if "nc_domain c = None" for c
        unfolding D using that e(3) by (simp add: domain_item_def)
    qed (unfold D e, use can ain in \<open>simp_all\<close>)
    show ?thesis
    proof (cases "hd_invert d")
      case True
      then have "invertNative env ?e True w2 = Inr (out, w')" using inv by simp
      then have "expr_ok dm out (\<lambda>c. \<not> ?P c) \<and> nonempty out"
        using invertNative_ok [OF _ laws ok e(2) ne] by blast
      moreover have "default_matches dm d = (\<lambda>c. \<not> ?P c)" using ctx True by (intro ext) simp
      ultimately show ?thesis by simp
    next
      case ni: False
      then have "out = ?e" using inv by (simp add: invertNative_def)
      moreover have "default_matches dm d = ?P" using ctx ni by (intro ext) simp
      ultimately show ?thesis using ok ne by simp
    qed
  qed
qed

lemma joined_matches: "joined mode (map (native_matches dm) rs) c \<longleftrightarrow>
    (if mode = LogicalTypeAnd then list_all (\<lambda>r. native_matches dm r c) rs else list_ex (\<lambda>r. native_matches dm r c) rs)"
  by (auto simp: joined_def list_all_iff list_ex_iff)

lemma compileNative_ok:
  assumes laws: "ipset_laws (nv_sets env)"
  shows "compileNative env r depth w = Inr (e, w') \<Longrightarrow> expr_ok dm e (native_matches dm r) \<and> nonempty e"
    and "compile_all env rs depth w = Inr (ee, w') \<Longrightarrow>
      list_all2 (expr_ok dm) ee (map (native_matches dm) rs) \<and> (\<forall>e \<in> set ee. nonempty e)"
  using laws
proof (induction env r depth w and env rs depth w arbitrary: e w' and ee w' rule: compileNative_compile_all.induct)
  case (1 env t d depth w)
  then have "compile_default env t d (w\<lparr>nw_nodes := nw_nodes w + 1\<rparr>) = Inr (e, w')"
    by (auto simp: Let_def bad_def split: if_splits)
  moreover have "native_matches dm (HDefault t d) = default_matches dm d" by (rule ext) simp
  ultimately show ?case using compile_default_ok 1(2) by metis
next
  case (2 env mode rs invert depth w)
  let ?w = "w\<lparr>nw_nodes := nw_nodes w + 1\<rparr>"
  have g: "\<not> (depth > maxNativeDepth \<or> nw_nodes ?w > maxNativeNodes)" "\<not> (rs = [] \<or> (mode \<noteq> LogicalTypeAnd \<and> mode \<noteq> LogicalTypeOr))"
    using 2(2) by (auto simp: Let_def bad_def split: if_splits)
  obtain ee w1 where ee: "compile_all env rs (depth + 1) ?w = Inr (ee, w1)" "combineNative env ee mode invert w1 = Inr (e, w')"
    using 2(2) g by (auto simp: Let_def bindR_Inr_iff)
  have ok: "list_all2 (expr_ok dm) ee (map (native_matches dm) rs)" "\<forall>e \<in> set ee. nonempty e"
    using 2(1) [OF refl g ee(1) 2(3)] by auto
  have "ee \<noteq> []" using ok(1) g(2) by auto
  moreover have "mode = LogicalTypeAnd \<or> mode = LogicalTypeOr" using g(2) by blast
  ultimately have "expr_ok dm e (\<lambda>c. joined mode (map (native_matches dm) rs) c \<noteq> invert) \<and> nonempty e"
    using combineNative_ok [OF ee(2) 2(3) ok(1) _ ok(2)] by blast
  moreover have "native_matches dm (HLogical mode rs invert) = (\<lambda>c. joined mode (map (native_matches dm) rs) c \<noteq> invert)"
    by (rule ext) (simp add: joined_matches)
  ultimately show ?case by simp
next
  case (4 env r rs depth w)
  then show ?case by (auto simp: bindR_Inr_iff)
qed auto


section \<open>The projections agree with the set\<close>

definition covered :: "(32 word \<times> nat) list \<Rightarrow> 32 word \<Rightarrow> bool" where
  "covered ps a \<longleftrightarrow> (\<exists>p \<in> set ps. prefix_contains p a)"

definition dns_matches :: "domain_matcher \<Rightarrow> native_projection \<Rightarrow> native_conn \<Rightarrow> bool" where
  "dns_matches dm pr c = (case np_dns pr of None \<Rightarrow> False | Some r \<Rightarrow> native_matches dm r c)"

lemma project_subnets_covered:
  assumes "project_subnets env s = Inr ps" "ipset_laws (nv_sets env)" "canonical_opt s"
  shows "covered ps a \<longleftrightarrow> addr_in s a" "\<exists>a. \<not> addr_in s a"
proof -
  show "covered ps a \<longleftrightarrow> addr_in s a"
    using assms(1,3) ipset_lawsD(7) [OF assms(2)] by (cases s) (auto simp: project_subnets_def covered_def bad_def Let_def split: if_splits)
  show "\<exists>a. \<not> addr_in s a"
  proof (rule ccontr)
    assume "\<not> (\<exists>a. \<not> addr_in s a)"
    then obtain rs where rs: "s = Some rs" "ranges_set rs = UNIV" by (cases s) auto
    then have "il_prefixes (nv_sets env) rs = [(0, 0)]" using ipset_lawsD(8) [OF assms(2)] assms(3) by simp
    then show False using assms(1) rs(1) by (simp add: project_subnets_def bad_def)
  qed
qed

lemma project_transport_covered:
  assumes "project_transport env s = Inr ps" "ipset_laws (nv_sets env)" "canonical_opt s"
  shows "covered ps a \<longleftrightarrow> addr_in s a" "\<exists>a. \<not> addr_in s a"
proof -
  show "covered ps a \<longleftrightarrow> addr_in s a"
    using assms(1,3) ipset_lawsD(7) [OF assms(2)] by (cases s) (auto simp: project_transport_def covered_def bad_def Let_def split: if_splits)
  show "\<exists>a. \<not> addr_in s a"
  proof (rule ccontr)
    assume "\<not> (\<exists>a. \<not> addr_in s a)"
    then obtain rs where rs: "s = Some rs" "ranges_set rs = UNIV" by (cases s) auto
    then have "il_prefixes (nv_sets env) rs = [(0, 0)]" using ipset_lawsD(8) [OF assms(2)] assms(3) by simp
    then show False using assms(1) rs(1) by (simp add: project_transport_def bad_def unbounded_def)
  qed
qed

lemma check_combined_bounded:
  assumes "check_combined env e w = Inr u" "ipset_laws (nv_sets env)" "ne_address e = Some rs" "ne_transport e = Some ts" "canonical rs" "canonical ts"
  shows "\<exists>a. a \<notin> ranges_set rs \<and> a \<notin> ranges_set ts"
proof (rule ccontr)
  assume all: "\<not> ?thesis"
  let ?ee = "[only_address (Some rs), only_address (Some ts)]"
  obtain m w' where m: "combineNative env ?ee LogicalTypeOr False w = Inr (m, w')"
    and nb: "\<not> unbounded (il_prefixes (nv_sets env) (case ne_address m of Some rs \<Rightarrow> rs | None \<Rightarrow> []))"
    using assms(1,3,4) by (auto simp: check_combined_def bindR_Inr_iff bad_def split: if_splits)
  then have p: "combine_plain env ?ee LogicalTypeOr False w = Inr (m, w')" by (simp add: combineNative_def)
  have "\<forall>e \<in> set ?ee. canonical_opt (ne_address e)" using assms(5,6) by simp
  note spec = combine_plain_spec [OF p assms(2) this disjI2 [OF refl] list.distinct(2)]
  have "addr_in (ne_address m) a" for a using spec(4) [of a] all by auto
  then obtain ms where "ne_address m = Some ms" "ranges_set ms = UNIV" by (cases "ne_address m") auto
  then have "il_prefixes (nv_sets env) ms = [(0, 0)]" using ipset_lawsD(8) [OF assms(2)] spec(2) by simp
  then show False using nb \<open>ne_address m = Some ms\<close> by (simp add: unbounded_def)
qed

text \<open>C17: The projections of a native rule set agree with the whole tree, for every way domain fields may match names.  A connection whose domain the DNS projection matches, or whose address is in the subnets, is matched by the set whatever its transport; and a connection the set matches is matched by the DNS projection or lies in the subnets or, for rules with ports and networks, in the transport subnets.  A connection to a literal address is never left to DNS, the DNS projection looks at the domain alone, and subnets and transport subnets together never cover all of IPv4.\<close>

theorem projection_agrees:
  assumes laws: "ipset_laws (nv_sets env)" and pr: "project_rules env rules = Inr pr" and ip: "nc_ip c = Some a"
  shows "(dns_matches dm pr c \<or> covered (np_subnets pr) a \<longrightarrow> (\<exists>r \<in> set rules. native_matches dm r c)) \<and>
    ((\<exists>r \<in> set rules. native_matches dm r c) \<longrightarrow> dns_matches dm pr c \<or> covered (np_subnets pr) a \<or> covered (np_transport_subnets pr) a) \<and>
    (nc_domain c = None \<longrightarrow> \<not> dns_matches dm pr c) \<and>
    (nc_domain c' = nc_domain c \<longrightarrow> dns_matches dm pr c' = dns_matches dm pr c) \<and>
    (\<exists>b. \<not> covered (np_subnets pr) b \<and> \<not> covered (np_transport_subnets pr) b)"
proof -
  let ?w = "\<lparr>nw_nodes = 0, nw_values = 0, nw_remaining = maxNativeProjectionWork, nw_regex = no_regex\<rparr>"
  obtain ee w1 e w2 subs trs where s: "rules \<noteq> []" "compile_all env rules 0 ?w = Inr (ee, w1)" "combineNative env ee LogicalTypeOr False w1 = Inr (e, w2)"
    "check_combined env e w2 = Inr ()" "\<not> ne_empty_domain e" "project_subnets env (ne_address e) = Inr subs" "project_transport env (ne_transport e) = Inr trs"
    "pr = \<lparr>np_dns = ne_domain e, np_subnets = subs, np_transport_subnets = trs\<rparr>"
    using pr by (auto simp: project_rules_def bindR_Inr_iff bad_def split: if_splits)
  have l2: "list_all2 (expr_ok dm) ee (map (native_matches dm) rules)" "\<forall>e \<in> set ee. nonempty e"
    using compileNative_ok(2) [OF laws s(2)] by auto
  then have "ee \<noteq> []" using s(1) by auto
  then have ok: "expr_ok dm e (joined LogicalTypeOr (map (native_matches dm) rules))"
    using combineNative_ok [OF s(3) laws l2(1) _ l2(2)] by simp
  note okD = expr_okD [OF ok]
  have any: "joined LogicalTypeOr (map (native_matches dm) rules) c \<longleftrightarrow> (\<exists>r \<in> set rules. native_matches dm r c)" for c by (simp add: joined_def)
  have D: "dns_matches dm pr c = dom_matches dm e c" for c by (simp add: dns_matches_def dom_matches_def s(8))
  have S: "covered (np_subnets pr) b \<longleftrightarrow> addr_in (ne_address e) b" for b using project_subnets_covered(1) [OF s(6) laws okD(1)] by (simp add: s(8))
  have T: "covered (np_transport_subnets pr) b \<longleftrightarrow> addr_in (ne_transport e) b" for b
    using project_transport_covered(1) [OF s(7) laws okD(2)] by (simp add: s(8))
  have "\<exists>b. \<not> addr_in (ne_address e) b \<and> \<not> addr_in (ne_transport e) b"
  proof (cases "ne_address e = None \<or> ne_transport e = None")
    case True
    then show ?thesis using project_subnets_covered(2) [OF s(6) laws okD(1)] project_transport_covered(2) [OF s(7) laws okD(2)] by auto
  next
    case False
    then obtain rs ts where rt: "ne_address e = Some rs" "ne_transport e = Some ts" by auto
    then show ?thesis using check_combined_bounded [OF s(4) laws rt] okD(1,2) by simp
  qed
  moreover have "nc_domain c = None \<longrightarrow> \<not> dom_matches dm e c" using okD(3) s(5) by blast
  moreover have "nc_domain c' = nc_domain c \<longrightarrow> dom_matches dm e c' = dom_matches dm e c" using okD(4) by blast
  ultimately show ?thesis unfolding D S T using okD(5,6) [OF ip] any by blast
qed


section \<open>A builder of sets\<close>

text \<open>A builder that keeps the laws, to run the compiler on examples.\<close>

fun insert_range :: "ip_range \<Rightarrow> ip_range list \<Rightarrow> ip_range list" where
  "insert_range r [] = [r]"
| "insert_range r (s # rs) =
    (if snd r < fst s then r # s # rs
     else if snd s < fst r then s # insert_range r rs
     else insert_range (min (fst r) (fst s), max (snd r) (snd s)) rs)"

definition insert_ranges :: "ip_range list \<Rightarrow> ip_range list" where
  "insert_ranges rs = foldr insert_range rs []"

definition prefix_range :: "32 word \<times> nat \<Rightarrow> ip_range" where
  "prefix_range p = (let k = 32 - snd p; low = unat (fst p) div 2 ^ k * 2 ^ k in (word_of_nat low, word_of_nat (low + (2 ^ k - 1))))"

fun gaps :: "32 word \<Rightarrow> ip_range list \<Rightarrow> ip_range list" where
  "gaps lo [] = [(lo, - 1)]"
| "gaps lo (r # rs) = (if lo < fst r then [(lo, fst r - 1)] else []) @ (if snd r = - 1 then [] else gaps (snd r + 1) rs)"

definition range_addresses :: "ip_range \<Rightarrow> 32 word list" where
  "range_addresses r = map word_of_nat [unat (fst r) ..< Suc (unat (snd r))]"

lemma insert_range_starts: "x \<in> set (insert_range r rs) \<Longrightarrow> fst x = fst r \<or> (\<exists>s \<in> set rs. fst x = fst s)"
  by (induction r rs rule: insert_range.induct) (auto simp: min_def split: if_splits)

lemma insert_range_ok:
  "canonical rs \<Longrightarrow> fst r \<le> snd r \<Longrightarrow> canonical (insert_range r rs) \<and> ranges_set (insert_range r rs) = range_set r \<union> ranges_set rs"
proof (induction r rs rule: insert_range.induct)
  case (2 r s rs)
  have s: "fst s \<le> snd s" "\<forall>x \<in> set rs. snd s < fst x" "canonical rs" using 2(3) by (auto simp: canonical_Cons)
  consider (before) "snd r < fst s" | (behind) "\<not> snd r < fst s" "snd s < fst r" | (meet) "\<not> snd r < fst s" "\<not> snd s < fst r" by blast
  then show ?case
  proof cases
    case before
    then show ?thesis using 2(3,4) s by (auto simp: canonical_Cons ranges_set_Cons)
  next
    case behind
    have "snd s < fst x" if "x \<in> set (insert_range r rs)" for x using insert_range_starts [OF that] s(2) behind(2) by auto
    then show ?thesis using 2(1) [OF behind s(3) 2(4)] behind s by (auto simp: canonical_Cons ranges_set_Cons)
  next
    case meet
    let ?m = "(min (fst r) (fst s), max (snd r) (snd s))"
    have "range_set ?m = range_set r \<union> range_set s" using meet s(1) 2(4) by (auto simp: range_set_def min_def max_def)
    moreover have "fst ?m \<le> snd ?m" using s(1) 2(4) by (auto simp: min_def max_def)
    ultimately show ?thesis using 2(2) [OF meet s(3)] meet by (auto simp: ranges_set_Cons)
  qed
qed (auto simp: canonical_def ranges_set_Cons)

lemma insert_ranges_ok: "\<forall>r \<in> set rs. fst r \<le> snd r \<Longrightarrow> canonical (insert_ranges rs) \<and> ranges_set (insert_ranges rs) = ranges_set rs"
proof (induction rs)
  case (Cons r rs)
  then show ?case using insert_range_ok [of "insert_ranges rs" r] by (simp add: insert_ranges_def ranges_set_Cons)
qed (simp add: insert_ranges_def canonical_def)

lemma div_between:
  fixes m :: nat
  assumes "0 < m"
  shows "x div m = q \<longleftrightarrow> q * m \<le> x \<and> x \<le> q * m + (m - 1)"
proof
  assume "x div m = q"
  then have "x = q * m + x mod m" by (metis div_mult_mod_eq)
  moreover have "x mod m < m" using assms by simp
  ultimately show "q * m \<le> x \<and> x \<le> q * m + (m - 1)" by linarith
next
  assume "q * m \<le> x \<and> x \<le> q * m + (m - 1)"
  then have "m * q \<le> x" "x < m * Suc q" using assms by (auto simp: mult.commute)
  then show "x div m = q" by (rule div_nat_eqI)
qed

lemma unat_small: "n < 2 ^ 32 \<Longrightarrow> unat (word_of_nat n :: 32 word) = n"
  by (simp add: unat_of_nat)

lemma prefix_range_set: "range_set (prefix_range p) = {a. prefix_contains p a} \<and> fst (prefix_range p) \<le> snd (prefix_range p)"
proof -
  let ?k = "32 - snd p"
  let ?q = "unat (fst p) div 2 ^ ?k"
  have "unat (fst p) < 2 ^ 32" using unsigned_less [of "fst p"] by simp
  then have "unat (fst p) < 2 ^ (32 - ?k) * 2 ^ ?k" by (simp add: power_add [symmetric])
  then have q: "?q < 2 ^ (32 - ?k)" by (simp add: less_mult_imp_div_less)
  then have "(?q + 1) * 2 ^ ?k \<le> 2 ^ (32 - ?k) * 2 ^ ?k" by (intro mult_le_mono1) simp
  then have hi: "?q * 2 ^ ?k + 2 ^ ?k \<le> 2 ^ 32" by (simp add: power_add [symmetric])
  have one: "(1::nat) \<le> 2 ^ ?k" by simp
  have u: "unat (fst (prefix_range p)) = ?q * 2 ^ ?k" "unat (snd (prefix_range p)) = ?q * 2 ^ ?k + (2 ^ ?k - 1)"
    using hi one unfolding prefix_range_def Let_def fst_conv snd_conv by (intro unat_small, linarith)+
  have "prefix_contains p a \<longleftrightarrow> unat a div 2 ^ ?k = ?q" for a
    unfolding prefix_contains_def word_unat_eq_iff unat_drop_bit_eq by (simp add: drop_bit_eq_div)
  moreover have "unat a div 2 ^ ?k = ?q \<longleftrightarrow> ?q * 2 ^ ?k \<le> unat a \<and> unat a \<le> ?q * 2 ^ ?k + (2 ^ ?k - 1)" for a :: "32 word"
    by (rule div_between) simp
  ultimately have "a \<in> range_set (prefix_range p) \<longleftrightarrow> prefix_contains p a" for a
    unfolding range_set_def atLeastAtMost_iff word_le_nat_alt u by blast
  moreover have "fst (prefix_range p) \<le> snd (prefix_range p)" unfolding word_le_nat_alt u by (rule le_add1)
  ultimately show ?thesis by blast
qed


lemma word_pred_le:
  fixes x l :: "32 word"
  assumes "lo < l"
  shows "x \<le> l - 1 \<longleftrightarrow> x < l"
proof -
  have "0 < unat l" using assms by (metis gr_implies_not0 neq0_conv word_less_nat_alt)
  then have "unat (l - 1) = unat l - 1" by (metis One_nat_def Suc_leI unat_1 unat_sub word_le_nat_alt)
  then show ?thesis using \<open>0 < unat l\<close> unfolding word_le_nat_alt word_less_nat_alt by linarith
qed

lemma word_succ_le:
  fixes x h :: "32 word"
  assumes "h \<noteq> - 1"
  shows "h + 1 \<le> x \<longleftrightarrow> h < x"
proof -
  have "unat h \<noteq> unat (- 1 :: 32 word)" using assms by (metis word_unat_eq_iff)
  moreover have "unat (- 1 :: 32 word) = 2 ^ 32 - 1" by (simp add: unsigned_minus_1_eq_mask mask_eq_exp_minus_1)
  moreover have "unat h < 2 ^ 32" using unsigned_less [of h] by simp
  ultimately have "unat h + 1 < 2 ^ 32" by linarith
  then have "unat (h + 1) = unat h + 1" by (simp add: unat_word_ariths)
  then show ?thesis unfolding word_le_nat_alt word_less_nat_alt by linarith
qed

lemma gaps_ok:
  "canonical rs \<Longrightarrow> \<forall>r \<in> set rs. lo \<le> fst r \<Longrightarrow>
    canonical (gaps lo rs) \<and> (\<forall>g \<in> set (gaps lo rs). lo \<le> fst g) \<and> ranges_set (gaps lo rs) = {lo ..} - ranges_set rs"
proof (induction lo rs rule: gaps.induct)
  case (1 lo)
  have "{lo .. - 1} = {lo ..}" by auto
  then show ?case by (auto simp: canonical_def ranges_set_def range_set_def)
next
  case (2 lo r rs)
  have r: "fst r \<le> snd r" "\<forall>s \<in> set rs. snd r < fst s" "canonical rs" "lo \<le> fst r" using 2(2,3) by (auto simp: canonical_Cons)
  let ?first = "if lo < fst r then [(lo, fst r - 1)] else []" let ?rest = "if snd r = - 1 then [] else gaps (snd r + 1) rs"
  have first: "ranges_set ?first = {lo ..< fst r}"
  proof (cases "lo < fst r")
    case True
    have "{lo .. fst r - 1} = {lo ..< fst r}"
      unfolding atLeastAtMost_def atLeastLessThan_def atMost_def lessThan_def word_pred_le [OF True] ..
    then show ?thesis using True by (simp add: ranges_set_def range_set_def)
  next
    case False
    then have "{lo ..< fst r} = {}" by (simp add: not_less)
    then show ?thesis using False by simp
  qed
  have rest: "canonical ?rest \<and> (\<forall>g \<in> set ?rest. snd r < fst g) \<and> ranges_set ?rest = {snd r <..} - ranges_set rs"
  proof (cases "snd r = - 1")
    case True
    have "x \<le> - 1" for x :: "32 word" by simp
    then have "{snd r <..} = {}" unfolding True by (simp add: greaterThan_def not_less)
    then show ?thesis using True by (simp add: canonical_def)
  next
    case False
    note w = word_succ_le [OF False]
    have "\<forall>s \<in> set rs. snd r + 1 \<le> fst s" using r(2) w by auto
    note ih = 2(1) [OF False r(3) this]
    have "{snd r + 1 ..} = {snd r <..}" unfolding atLeast_def greaterThan_def w ..
    then show ?thesis using ih w False by simp
  qed
  have "fst r - 1 < fst g" if "lo < fst r" "g \<in> set ?rest" for g
  proof -
    have "fst r - 1 < fst r" using word_pred_le [OF that(1), of "fst r - 1"] by simp
    moreover have "fst r < fst g" using rest that(2) r(1) by (auto intro: le_less_trans)
    ultimately show ?thesis by (rule less_trans)
  qed
  then have "canonical (?first @ ?rest)" using rest word_pred_le [of lo "fst r" lo] by (auto simp: canonical_Cons)
  moreover have "\<forall>g \<in> set (?first @ ?rest). lo \<le> fst g" 
  proof -
    have "lo \<le> fst g" if "g \<in> set ?rest" for g
    proof -
      have "snd r < fst g" using rest that by blast
      then show ?thesis using r(1,4) by (meson less_imp_le order.trans)
    qed
    then show ?thesis by auto
  qed
  moreover have "ranges_set (?first @ ?rest) = {lo ..} - ranges_set (r # rs)"
  proof -
    have "ranges_set (?first @ ?rest) = {lo ..< fst r} \<union> ({snd r <..} - ranges_set rs)"
      using first rest by (simp add: ranges_set_def)
    moreover have "x \<notin> ranges_set rs" if "x < fst r" for x using canonical_after [OF 2(2), of x] r(1) that by auto
    ultimately show ?thesis using r(1,4) by (auto simp: ranges_set_Cons range_set_def)
  qed
  ultimately show ?case by simp
qed

lemma complement_ok: "canonical rs \<Longrightarrow> canonical (gaps 0 rs) \<and> ranges_set (gaps 0 rs) = - ranges_set rs"
proof -
  assume "canonical rs"
  moreover have "{0 :: 32 word ..} = UNIV" by (simp add: atLeast_def)
  ultimately show ?thesis using gaps_ok [of rs 0] by (simp add: Compl_eq_Diff_UNIV)
qed

lemma canonical_empty: "canonical rs \<Longrightarrow> ranges_set rs = {} \<longleftrightarrow> rs = []"
  by (cases rs) (simp_all add: ranges_set_Cons canonical_Cons range_set_def)

lemma gaps_full: "canonical rs \<Longrightarrow> gaps 0 rs = [] \<longleftrightarrow> ranges_set rs = UNIV"
proof -
  assume "canonical rs"
  then have c: "canonical (gaps 0 rs)" "ranges_set (gaps 0 rs) = - ranges_set rs" using complement_ok by blast+
  have "gaps 0 rs = [] \<longleftrightarrow> - ranges_set rs = {}" unfolding canonical_empty [OF c(1), symmetric] c(2) ..
  also have "\<dots> \<longleftrightarrow> ranges_set rs = UNIV" by blast
  finally show ?thesis .
qed

lemma range_addresses_set: "set (range_addresses r) = range_set r"
proof (intro set_eqI iffI)
  fix x assume "x \<in> set (range_addresses r)"
  then obtain k where k: "x = word_of_nat k" "unat (fst r) \<le> k" "k \<le> unat (snd r)" by (auto simp: range_addresses_def)
  have "unat (snd r) < 2 ^ 32" using unsigned_less [of "snd r"] by simp
  then have "unat x = k" unfolding k(1) using k(3) by (intro unat_small) linarith
  then show "x \<in> range_set r" using k by (simp add: range_set_def word_le_nat_alt)
next
  fix x assume "x \<in> range_set r"
  then have "unat x \<in> set [unat (fst r) ..< Suc (unat (snd r))]"
    unfolding range_set_def atLeastAtMost_iff word_le_nat_alt set_upt atLeastLessThan_iff less_Suc_eq_le .
  then have "word_of_nat (unat x) \<in> set (range_addresses r)" unfolding range_addresses_def set_map by (rule imageI)
  then show "x \<in> set (range_addresses r)" by simp
qed

definition plain_prefixes :: "ip_range list \<Rightarrow> (32 word \<times> nat) list" where
  "plain_prefixes rs = (if gaps 0 rs = [] then [(0, 0)] else map (\<lambda>x. (x, 32)) (concat (map range_addresses rs)))"

lemma plain_prefixes_ok:
  assumes "canonical rs"
  shows "{a. \<exists>p \<in> set (plain_prefixes rs). prefix_contains p a} = ranges_set rs" "ranges_set rs = UNIV \<Longrightarrow> plain_prefixes rs = [(0, 0)]"
proof -
  have host: "prefix_contains (x, 32) a \<longleftrightarrow> a = x" for x a by (auto simp: prefix_contains_def)
  show "{a. \<exists>p \<in> set (plain_prefixes rs). prefix_contains p a} = ranges_set rs"
  proof (cases "gaps 0 rs = []")
    case True
    then have "ranges_set rs = UNIV" using gaps_full [OF assms] by simp
    then show ?thesis using True by (simp add: plain_prefixes_def prefix_contains_0)
  next
    case False
    have "set (concat (map range_addresses rs)) = ranges_set rs" by (simp add: range_addresses_set ranges_set_def)
    then show ?thesis using False by (simp add: plain_prefixes_def host)
  qed
  show "ranges_set rs = UNIV \<Longrightarrow> plain_prefixes rs = [(0, 0)]" using gaps_full [OF assms] by (simp add: plain_prefixes_def)
qed

definition plain_ipset :: ipset_lib where
  "plain_ipset = \<lparr>il_of_prefixes = (\<lambda>ps. insert_ranges (map prefix_range ps)), il_of_ranges = insert_ranges, il_complement = gaps 0,
     il_prefixes = plain_prefixes\<rparr>"

lemma plain_ipset_laws: "ipset_laws plain_ipset"
proof -
  have "canonical (insert_ranges (map prefix_range ps)) \<and> ranges_set (insert_ranges (map prefix_range ps)) = {a. \<exists>p \<in> set ps. prefix_contains p a}" for ps
  proof -
    have "ranges_set (map prefix_range ps) = {a. \<exists>p \<in> set ps. prefix_contains p a}" using prefix_range_set by (simp add: ranges_set_def) blast
    then show ?thesis using insert_ranges_ok [of "map prefix_range ps"] prefix_range_set by simp
  qed
  then show ?thesis
    unfolding ipset_laws_def plain_ipset_def ipset_lib.simps using insert_ranges_ok complement_ok plain_prefixes_ok by blast
qed


section \<open>Example\<close>

definition no_fields :: headless_default where
  "no_fields = \<lparr>hd_domain = [], hd_domain_suffix = [], hd_domain_keyword = [], hd_domain_regex = [], hd_ip_cidr = [], hd_network = [],
     hd_port = [], hd_port_range = [], hd_invert = False, hd_other = False\<rparr>"

definition demo_native :: "headless list" where
  "demo_native = [HDefault RuleTypeDefault (no_fields\<lparr>hd_domain := [''a.b'']\<rparr>), HDefault RuleTypeDefault (no_fields\<lparr>hd_ip_cidr := [''10.0.0.5'']\<rparr>),
     HDefault RuleTypeDefault (no_fields\<lparr>hd_ip_cidr := [''10.0.0.6''], hd_network := [''tcp'']\<rparr>)]"

definition demo_native_env :: native_env where
  "demo_native_env = \<lparr>nv_sets = plain_ipset, nv_parse = (\<lambda>_. None), nv_compiles = (\<lambda>_. True), nv_legacy = False\<rparr>"

lemma demo_entries:
  "cidr_entry ''10.0.0.5'' = Some (IP4 0x0A000005, 32)" "cidr_entry ''10.0.0.6'' = Some (IP4 0x0A000006, 32)"
  by code_simp+

lemma demo_native_sets: "il_of_prefixes plain_ipset [(x, 32)] = [(x, x)]" "il_of_ranges plain_ipset [(x, x)] = [(x, x)]"
  by (simp_all add: plain_ipset_def insert_ranges_def prefix_range_def)

lemma demo_bits: "bits_Len (Suc 0) = 1" "bits_Len 2 = 2" "bits_Len (Suc (Suc 0)) = 2"
  by (simp_all add: bits_Len.simps)

lemma demo_native_compiled:
  "compile_all demo_native_env demo_native 0 \<lparr>nw_nodes = 0, nw_values = 0, nw_remaining = maxNativeProjectionWork, nw_regex = no_regex\<rparr> =
    Inr ([no_expr\<lparr>ne_domain := Some (HDefault RuleTypeDefault (no_fields\<lparr>hd_domain := [''a.b'']\<rparr>))\<rparr>, only_address (Some [(0x0A000005, 0x0A000005)]),
        no_expr\<lparr>ne_transport := Some [(0x0A000006, 0x0A000006)]\<rparr>],
      \<lparr>nw_nodes = 3, nw_values = 4, nw_remaining = maxNativeProjectionWork - 4, nw_regex = no_regex\<rparr>)"
  by (simp add: demo_native_def no_fields_def maxNativeDepth_def maxNativeNodes_def maxNativeValues_def maxNativeProjectionWork_def compile_default_def
      check_default_def string_fields_def contextual_def has_domain_def address_part_def default_expr_def domain_part_def charge_work_def demo_bits
      demo_entries ipv4_entries_def present_def List.map_filter_simps demo_native_env_def demo_native_sets invertNative_def no_expr_def only_address_def Let_def)


lemma demo_combined:
  "\<exists>w'. combineNative demo_native_env [no_expr\<lparr>ne_domain := Some r\<rparr>, only_address (Some [(x, x)]), no_expr\<lparr>ne_transport := Some [(y, y)]\<rparr>] LogicalTypeOr False
      \<lparr>nw_nodes = 3, nw_values = 4, nw_remaining = maxNativeProjectionWork - 4, nw_regex = no_regex\<rparr> =
    Inr (\<lparr>ne_domain = Some r, ne_address = Some [(x, x)], ne_empty_domain = False, ne_transport = Some [(y, y)]\<rparr>, w') \<and> nw_remaining w' = maxNativeProjectionWork - 8"
  by (simp add: combineNative_def combine_transport_or_def combine_plain_def combine_addresses_def combine_domains_def present_def List.map_filter_simps
      no_expr_def only_address_def charge_work_def demo_bits maxNativeProjectionWork_def demo_native_env_def demo_native_sets invertNative_def Let_def)


lemma demo_prefixes: "0 < x \<Longrightarrow> plain_prefixes [(x, x)] = [(x, 32)]"
  by (simp add: plain_prefixes_def range_addresses_def)

lemma demo_projected:
  "project_rules demo_native_env demo_native = Inr
    \<lparr>np_dns = Some (HDefault RuleTypeDefault (no_fields\<lparr>hd_domain := [''a.b'']\<rparr>)), np_subnets = [(0x0A000005, 32)], np_transport_subnets = [(0x0A000006, 32)]\<rparr>"
proof -
  let ?r = "HDefault RuleTypeDefault (no_fields\<lparr>hd_domain := [''a.b'']\<rparr>)"
  let ?e = "\<lparr>ne_domain = Some ?r, ne_address = Some [(0x0A000005, 0x0A000005)], ne_empty_domain = False, ne_transport = Some [(0x0A000006, 0x0A000006)]\<rparr>"
  obtain w' where c: "combineNative demo_native_env [no_expr\<lparr>ne_domain := Some ?r\<rparr>, only_address (Some [(0x0A000005, 0x0A000005)]),
        no_expr\<lparr>ne_transport := Some [(0x0A000006, 0x0A000006)]\<rparr>] LogicalTypeOr False
      \<lparr>nw_nodes = 3, nw_values = 4, nw_remaining = maxNativeProjectionWork - 4, nw_regex = no_regex\<rparr> = Inr (?e, w')"
    "nw_remaining w' = maxNativeProjectionWork - 8" using demo_combined by blast
  have "insert_ranges [(0x0A000005, 0x0A000005), (0x0A000006, 0x0A000006)] = [(0x0A000005, 0x0A000005), (0x0A000006, 0x0A000006)]"
    by (simp add: insert_ranges_def)
  moreover have "\<not> unbounded (plain_prefixes [(0x0A000005, 0x0A000005), (0x0A000006, 0x0A000006)])"
    by (simp add: unbounded_def plain_prefixes_def range_addresses_def)
  ultimately have "check_combined demo_native_env ?e w' = Inr ()"
    by (simp add: check_combined_def combineNative_def combine_plain_def combine_addresses_def combine_domains_def present_def List.map_filter_simps
        only_address_def no_expr_def charge_work_def demo_bits c(2) maxNativeProjectionWork_def demo_native_env_def plain_ipset_def invertNative_def Let_def)
  moreover have "project_subnets demo_native_env (ne_address ?e) = Inr [(0x0A000005, 32)]" "project_transport demo_native_env (ne_transport ?e) = Inr [(0x0A000006, 32)]"
    by (simp_all add: project_subnets_def project_transport_def demo_native_env_def plain_ipset_def demo_prefixes unbounded_def maxNativeValues_def Let_def)
  ultimately show ?thesis unfolding project_rules_def demo_native_compiled using c(1) by (simp add: demo_native_def)
qed

theorem projection_agrees_witness:
  "list_ex (\<lambda>r. native_matches (\<lambda>_ _ _ _ x. x = ''a.b'') r \<lparr>nc_domain = None, nc_ip = Some 0x0A000005, nc_network = ''udp'', nc_port = 53\<rparr>) demo_native \<and>
   \<not> list_ex (\<lambda>r. native_matches (\<lambda>_ _ _ _ x. x = ''a.b'') r \<lparr>nc_domain = None, nc_ip = Some 0x0A000007, nc_network = ''tcp'', nc_port = 80\<rparr>) demo_native"
proof -
  have laws: "ipset_laws (nv_sets demo_native_env)" using plain_ipset_laws by (simp add: demo_native_env_def)
  let ?c = "\<lparr>nc_domain = None, nc_ip = Some 0x0A000005, nc_network = ''udp'', nc_port = 53\<rparr> :: native_conn"
  let ?d = "\<lparr>nc_domain = None, nc_ip = Some 0x0A000007, nc_network = ''tcp'', nc_port = 80\<rparr> :: native_conn"
  note one = projection_agrees [OF laws demo_projected, where c = ?c and a = "0x0A000005" and dm = "\<lambda>_ _ _ _ x. x = ''a.b''" and c' = ?c]
  note two = projection_agrees [OF laws demo_projected, where c = ?d and a = "0x0A000007" and dm = "\<lambda>_ _ _ _ x. x = ''a.b''" and c' = ?d]
  show ?thesis unfolding list_ex_iff using one two by (simp add: covered_def prefix_contains_def) blast
qed


end
