(* ===== verification/Lists_Regex.thy ===== *)
theory Lists_Regex
  imports Lists_Native
begin

text \<open>
  The budget of regular expressions (\<open>internal/lists/native_regex.go\<close>).  The estimate of a program's size saturates instead of
  overflowing; here it is compared with the exact size, computed without a ceiling, and the budget is shown to bound the
  exact sizes of everything it admits.
\<close>

section \<open>Exact sizes\<close>

text \<open>The nodes and runes of a tree, and the instructions and runes of the program it compiles to, copies of repeated parts
  counted.\<close>

fun exact_ast :: "regexp \<Rightarrow> int" where
  "exact_ast (Regexp op rn mn mx sub) = 1 + int rn + sum_list (map exact_ast sub)"

definition copies_of :: "int \<Rightarrow> int \<Rightarrow> int" where
  "copies_of mn mx = (if mx < 0 then max 1 mn else mx)"

fun exact_runes :: "regexp \<Rightarrow> int" where
  "exact_runes (Regexp op rn mn mx sub) = (case op of
     OpLiteral \<Rightarrow> int rn | OpCharClass \<Rightarrow> int rn | OpAnyChar \<Rightarrow> 2 | OpAnyCharNotNL \<Rightarrow> 4
   | OpRepeat \<Rightarrow> copies_of mn mx * sum_list (map exact_runes sub)
   | OpCapture \<Rightarrow> sum_list (map exact_runes sub) | OpStar \<Rightarrow> sum_list (map exact_runes sub) | OpPlus \<Rightarrow> sum_list (map exact_runes sub)
   | OpQuest \<Rightarrow> sum_list (map exact_runes sub) | OpConcat \<Rightarrow> sum_list (map exact_runes sub) | OpAlternate \<Rightarrow> sum_list (map exact_runes sub)
   | _ \<Rightarrow> 0)"

definition op_instructions :: "re_op \<Rightarrow> nat \<Rightarrow> int \<Rightarrow> int \<Rightarrow> nat \<Rightarrow> int \<Rightarrow> int" where
  "op_instructions op rn mn mx parts sums = (case op of
     OpLiteral \<Rightarrow> int rn
   | OpCapture \<Rightarrow> sums + 2 | OpStar \<Rightarrow> sums + 2 | OpPlus \<Rightarrow> sums + 1 | OpQuest \<Rightarrow> sums + 1 | OpConcat \<Rightarrow> sums
   | OpAlternate \<Rightarrow> sums + max 0 (int parts - 1)
   | OpRepeat \<Rightarrow> copies_of mn mx * sums + (if mx < 0 then 2 else mx - mn)
   | _ \<Rightarrow> 1)"

fun exact_instructions :: "regexp \<Rightarrow> int" where
  "exact_instructions (Regexp op rn mn mx sub) =
    max 1 (op_instructions op rn mn mx (length sub) (sum_list (map exact_instructions sub)))"

text \<open>Bounds of a repetition as the parser gives them.\<close>

fun re_ok :: "regexp \<Rightarrow> bool" where
  "re_ok (Regexp op rn mn mx sub) \<longleftrightarrow> 0 \<le> mn \<and> (mx < 0 \<or> mn \<le> mx) \<and> list_all re_ok sub"

section \<open>Saturation\<close>

definition sat :: "int \<Rightarrow> int" where
  "sat n = min nativeRegexCostCeiling n"

lemma ceiling_pos: "0 < nativeRegexCostCeiling"
  by (simp add: nativeRegexCostCeiling_def maxNativeRegexRunes_def)

lemma regexCostAdd_sat: "regexCostAdd a b = sat (a + b)"
  by (auto simp: regexCostAdd_def sat_def)

lemma le_div_iff_mult_le:
  assumes a: "0 < (a::int)"
  shows "b \<le> c div a \<longleftrightarrow> a * b \<le> c"
proof -
  define q where "q = c div a"
  define m where "m = c mod a"
  have c: "c = a * q + m" "0 \<le> m" "m < a" using a by (simp_all add: q_def m_def pos_mod_bound)
  have "a * b \<le> c" if "b \<le> q"
    using mult_left_mono [OF that, of a] a c by linarith
  moreover have "\<not> a * b \<le> c" if "\<not> b \<le> q"
  proof -
    have "q + 1 \<le> b" using that by simp
    then have "a * (q + 1) \<le> a * b" using a by (intro mult_left_mono) simp_all
    then show ?thesis using c by (simp add: distrib_left)
  qed
  ultimately show ?thesis unfolding q_def by blast
qed

lemma regexCostMultiply_sat:
  assumes "0 \<le> a" "0 \<le> b"
  shows "regexCostMultiply a b = sat (a * b)"
proof (cases "a = 0")
  case True
  then show ?thesis using ceiling_pos by (simp add: regexCostMultiply_def sat_def)
next
  case False
  then have a: "0 < a" using assms by simp
  then have "quo nativeRegexCostCeiling a = nativeRegexCostCeiling div a" using ceiling_pos by (intro quo_pos) simp_all
  then show ?thesis using False le_div_iff_mult_le [OF a, of b nativeRegexCostCeiling] by (auto simp: regexCostMultiply_def sat_def)
qed

text \<open>An estimate stands for an exact size when both saturate to the same value.\<close>

definition near :: "int \<Rightarrow> int \<Rightarrow> bool" where
  "near x y \<longleftrightarrow> 0 \<le> x \<and> 0 \<le> y \<and> sat x = sat y"

lemma near_refl: "0 \<le> x \<Longrightarrow> near x x"
  by (simp add: near_def)

lemma near_sat: "near x y \<Longrightarrow> near (sat x) y"
  using ceiling_pos by (auto simp: near_def sat_def)

lemma near_exact: "near x y \<Longrightarrow> x < nativeRegexCostCeiling \<or> y < nativeRegexCostCeiling \<Longrightarrow> x = y"
  by (auto simp: near_def sat_def min_def split: if_splits)

lemma near_add: "near a a' \<Longrightarrow> near b b' \<Longrightarrow> near (regexCostAdd a b) (a' + b')"
  unfolding regexCostAdd_sat by (rule near_sat) (auto simp: near_def sat_def min_def split: if_splits)

lemma mult_below: "0 < k \<Longrightarrow> 0 \<le> x \<Longrightarrow> x \<le> k * (x::int)"
  using mult_right_mono [of 1 k x] by simp

lemma near_mult:
  assumes "0 \<le> k" "near a a'"
  shows "near (regexCostMultiply k a) (k * a')"
proof -
  have a: "0 \<le> a" "0 \<le> a'" "sat a = sat a'" using assms by (simp_all add: near_def)
  have "sat (k * a) = sat (k * a')"
  proof (cases "a = a' \<or> k = 0")
    case False
    then have "nativeRegexCostCeiling \<le> a" "nativeRegexCostCeiling \<le> a'" "0 < k"
      using a(3) assms(1) by (auto simp: sat_def min_def split: if_splits)
    then have "nativeRegexCostCeiling \<le> k * a" "nativeRegexCostCeiling \<le> k * a'"
      using mult_below [of k a] mult_below [of k a'] a by simp_all
    then show ?thesis by (simp add: sat_def)
  qed auto
  then show ?thesis
    using a assms(1) near_sat [of "k * a" "k * a'"] by (simp add: regexCostMultiply_sat near_def)
qed

lemma near_foldl:
  assumes "list_all2 (\<lambda>c r. near (f c) (g r)) cs rs" "near a a'"
  shows "near (foldl (\<lambda>a c. regexCostAdd a (f c)) a cs) (a' + sum_list (map g rs))"
  using assms
proof (induction cs rs arbitrary: a a' rule: list_all2_induct)
  case (Cons c cs r rs)
  then show ?case using Cons.IH [OF near_add [OF Cons.prems Cons.hyps(1)]] by (simp add: add.assoc)
qed simp

lemma near_max: "near x y \<Longrightarrow> near (if x < 1 then 1 else x) (max 1 y)"
  using ceiling_pos by (auto simp: near_def sat_def min_def max_def split: if_splits)

section \<open>The estimate\<close>

text \<open>Trees the estimate knows: no foreign operator, and a repetition of exactly one part.\<close>

fun known :: "regexp \<Rightarrow> bool" where
  "known (Regexp op rn mn mx sub) \<longleftrightarrow> op \<noteq> OpOther \<and> (op = OpRepeat \<longrightarrow> length sub = 1) \<and> list_all known sub"

definition estimates :: "regex_cost \<Rightarrow> regexp \<Rightarrow> bool" where
  "estimates c r \<longleftrightarrow> near (rc_ast c) (exact_ast r) \<and> near (rc_instructions c) (exact_instructions r) \<and> near (rc_runes c) (exact_runes r)"

lemma estimates_sums:
  assumes "list_all2 estimates cs rs"
  shows "near a a' \<Longrightarrow> near (add_ast a cs) (a' + sum_list (map exact_ast rs))"
    and "near (fst (sum_costs cs)) (sum_list (map exact_instructions rs))"
    and "near (snd (sum_costs cs)) (sum_list (map exact_runes rs))"
proof -
  have l: "list_all2 (\<lambda>c r. near (rc_ast c) (exact_ast r)) cs rs"
    "list_all2 (\<lambda>c r. near (rc_instructions c) (exact_instructions r)) cs rs"
    "list_all2 (\<lambda>c r. near (rc_runes c) (exact_runes r)) cs rs"
    using assms by (auto elim!: list_all2_mono simp: estimates_def)
  have z: "near 0 0" by (simp add: near_refl)
  show "near a a' \<Longrightarrow> near (add_ast a cs) (a' + sum_list (map exact_ast rs))"
    unfolding add_ast_def by (rule near_foldl [OF l(1)])
  show "near (fst (sum_costs cs)) (sum_list (map exact_instructions rs))"
    using near_foldl [OF l(2) z] by (simp add: sum_costs_def)
  show "near (snd (sum_costs cs)) (sum_list (map exact_runes rs))"
    using near_foldl [OF l(3) z] by (simp add: sum_costs_def)
qed

text \<open>One operator, children estimated.\<close>

lemma op_cost_known:
  assumes "known (Regexp op rn mn mx sub)" "length cs = length sub"
  shows "\<exists>p. op_cost (Regexp op rn mn mx sub) cs = Some p"
  using assms by (cases op) (auto simp: op_cost_def Let_def case_prod_beta length_Suc_conv)

lemma op_cost_unknown:
  assumes "op = OpOther \<or> op = OpRepeat \<and> length cs \<noteq> 1"
  shows "op_cost (Regexp op rn mn mx sub) cs = None"
  using assms by (auto simp: op_cost_def Let_def case_prod_beta split: list.splits)

lemma op_cost_near:
  assumes ok: "re_ok (Regexp op rn mn mx sub)" and cs: "list_all2 estimates cs sub"
    and op: "op_cost (Regexp op rn mn mx sub) cs = Some (ins, rns)"
  shows "near (if ins < 1 then 1 else ins) (exact_instructions (Regexp op rn mn mx sub))"
    and "near rns (exact_runes (Regexp op rn mn mx sub))"
proof -
  let ?i = "sum_list (map exact_instructions sub)" and ?r = "sum_list (map exact_runes sub)"
  have len: "length cs = length sub" using cs by (rule list_all2_lengthD)
  have i: "near (fst (sum_costs cs)) ?i" and r: "near (snd (sum_costs cs)) ?r" using estimates_sums [OF cs] by blast+
  have c: "near 1 1" "near 2 2" "near 0 0" "near 4 4" "near (int rn) (int rn)" by (simp_all add: near_refl)
  have alt: "near (if length cs > 1 then regexCostAdd (fst (sum_costs cs)) (int (length cs) - 1) else fst (sum_costs cs))
      (?i + max 0 (int (length sub) - 1))"
    using near_add [OF i near_refl, of "int (length cs) - 1"] i len by (cases sub) auto
  have rep: "near (regexCostAdd (regexCostMultiply (copies_of mn mx) (rc_instructions k)) (if mx < 0 then 2 else mx - mn))
        (copies_of mn mx * ?i + (if mx < 0 then 2 else mx - mn))"
      "near (regexCostMultiply (copies_of mn mx) (rc_runes k)) (copies_of mn mx * ?r)" if one: "cs = [k]" for k
  proof -
    obtain s where s: "sub = [s]" "estimates k s" using cs one by (auto simp: list_all2_Cons1)
    have "0 \<le> copies_of mn mx" "0 \<le> (if mx < 0 then 2 else mx - mn)" using ok by (auto simp: copies_of_def)
    then show "near (regexCostAdd (regexCostMultiply (copies_of mn mx) (rc_instructions k)) (if mx < 0 then 2 else mx - mn))
        (copies_of mn mx * ?i + (if mx < 0 then 2 else mx - mn))"
      "near (regexCostMultiply (copies_of mn mx) (rc_runes k)) (copies_of mn mx * ?r)"
      using s by (auto simp: estimates_def intro!: near_add near_mult near_refl)
  qed
  have "near ins (op_instructions op rn mn mx (length sub) ?i) \<and> near rns (exact_runes (Regexp op rn mn mx sub))"
  proof (cases "op = OpRepeat")
    case True
    then obtain k where k: "cs = [k]" using op by (auto simp: op_cost_def Let_def case_prod_beta split: list.splits)
    then show ?thesis
      using op rep [OF k] True
      by (cases "mx < 0"; cases "mn < 1") (auto simp: op_cost_def Let_def case_prod_beta copies_of_def op_instructions_def)
  next
    case False
    then show ?thesis
      using op i r c alt near_add [OF i c(1)] near_add [OF i c(2)]
      by (cases op) (auto simp: op_cost_def Let_def case_prod_beta op_instructions_def)
  qed
  then show "near (if ins < 1 then 1 else ins) (exact_instructions (Regexp op rn mn mx sub))"
    "near rns (exact_runes (Regexp op rn mn mx sub))"
    using near_max by simp_all
qed

lemma estimate_spec:
  "re_ok r \<Longrightarrow> (case estimateNativeRegex r of None \<Rightarrow> \<not> known r | Some c \<Rightarrow> known r \<and> estimates c r)"
  "list_all re_ok rs \<Longrightarrow> (case estimate_all rs of None \<Rightarrow> \<not> list_all known rs
     | Some cs \<Rightarrow> list_all known rs \<and> list_all2 estimates cs rs)"
proof (induction r and rs rule: estimateNativeRegex_estimate_all.induct)
  case (1 op rn mn mx sub)
  show ?case
  proof (cases "estimate_all sub")
    case (Some cs)
    then have cs: "list_all known sub" "list_all2 estimates cs sub" using 1 by simp_all
    then have len: "length cs = length sub" by (simp add: list_all2_lengthD)
    show ?thesis
    proof (cases "op_cost (Regexp op rn mn mx sub) cs")
      case None
      then have "\<not> known (Regexp op rn mn mx sub)" using op_cost_known [OF _ len, of op rn mn mx] by auto
      then show ?thesis using None Some by simp
    next
      case p: (Some p)
      obtain ins rns where pr: "p = (ins, rns)" by (cases p)
      have "known (Regexp op rn mn mx sub)"
        using p op_cost_unknown [of op cs rn mn mx sub] len cs(1) by (auto simp del: One_nat_def)
      moreover have "near (add_ast (regexCostAdd 1 (int rn)) cs) (exact_ast (Regexp op rn mn mx sub))"
        using estimates_sums(1) [OF cs(2) near_add [OF near_refl near_refl], of 1 "int rn"] by simp
      ultimately show ?thesis
        using op_cost_near [OF 1(2) cs(2)] p pr Some by (simp add: estimates_def)
    qed
  qed (use 1 in simp)
next
  case (3 r rs)
  then show ?case by (cases "estimateNativeRegex r"; cases "estimate_all rs") simp_all
qed simp

section \<open>The budget\<close>

text \<open>What one program is charged: two copies of it.\<close>

definition charged :: "(regexp \<Rightarrow> int) \<Rightarrow> native_env \<Rightarrow> string list \<Rightarrow> int" where
  "charged weigh env ps = sum_list (map (\<lambda>p. 2 * weigh (the (nv_parse env p))) ps)"

definition program_size :: "regexp \<Rightarrow> int" where
  "program_size r = exact_instructions r + 2"

lemma copies_nonneg: "0 \<le> copies_of mn mx"
  by (simp add: copies_of_def max_def)

lemma exact_nonneg: "0 \<le> exact_ast r" "0 \<le> exact_runes r" "0 \<le> program_size r"
proof -
  show "0 \<le> exact_ast r" by (induction r) (auto intro!: add_nonneg_nonneg sum_list_nonneg)
  show "0 \<le> exact_runes r"
  proof (induction r)
    case (Regexp op rn mn mx sub)
    then have "0 \<le> sum_list (map exact_runes sub)" by (auto intro!: sum_list_nonneg)
    then show ?case by (cases op) (simp_all add: copies_nonneg)
  qed
  show "0 \<le> program_size r" by (cases r) (simp add: program_size_def)
qed

lemma charged_nonneg: "(\<And>r. 0 \<le> weigh r) \<Longrightarrow> 0 \<le> charged weigh env ps"
  unfolding charged_def by (rule sum_list_nonneg) auto

definition fits :: "native_env \<Rightarrow> string list \<Rightarrow> regex_budget \<Rightarrow> bool" where
  "fits env ps b \<longleftrightarrow> rb_count b + int (length ps) \<le> maxNativeRegexCount \<and> rb_bytes b + int (length (concat ps)) \<le> maxNativeRegexBytes
     \<and> rb_ast b + charged exact_ast env ps \<le> maxNativeRegexAST
     \<and> rb_instructions b + charged program_size env ps \<le> maxNativeRegexInstructions
     \<and> rb_runes b + charged exact_runes env ps \<le> maxNativeRegexRunes"

definition spend :: "native_env \<Rightarrow> string \<Rightarrow> regex_budget \<Rightarrow> regex_budget" where
  "spend env p b = \<lparr>rb_count = rb_count b + 1, rb_bytes = rb_bytes b + int (length p), rb_ast = rb_ast b + charged exact_ast env [p],
     rb_instructions = rb_instructions b + charged program_size env [p], rb_runes = rb_runes b + charged exact_runes env [p]\<rparr>"

lemma charged_Cons: "charged weigh env (p # ps) = charged weigh env [p] + charged weigh env ps"
  by (simp add: charged_def)

lemma fits_Cons: "fits env (p # ps) b \<longleftrightarrow> fits env [p] b \<and> fits env ps (spend env p b)"
  using charged_nonneg [of exact_ast env ps, OF exact_nonneg(1)] charged_nonneg [of exact_runes env ps, OF exact_nonneg(2)]
    charged_nonneg [of program_size env ps, OF exact_nonneg(3)]
  by (auto simp: fits_def spend_def charged_Cons [of _ _ p ps])

lemma near_twice: "near x y \<Longrightarrow> near (regexCostMultiply x 2) (2 * y)"
  using near_mult [of 2 x y] by (auto simp: regexCostMultiply_sat near_def mult.commute)

lemma near_le: "near x y \<Longrightarrow> n < nativeRegexCostCeiling \<Longrightarrow> x \<le> n \<longleftrightarrow> y \<le> n"
  by (auto simp: near_def sat_def min_def split: if_splits)

definition positive :: "regex_budget \<Rightarrow> bool" where
  "positive b \<longleftrightarrow> 0 \<le> rb_ast b \<and> 0 \<le> rb_instructions b \<and> 0 \<le> rb_runes b"

lemma spend_positive: "positive b \<Longrightarrow> positive (spend env p b)"
  using charged_nonneg [of exact_ast env "[p]", OF exact_nonneg(1)] charged_nonneg [of exact_runes env "[p]", OF exact_nonneg(2)]
    charged_nonneg [of program_size env "[p]", OF exact_nonneg(3)]
  by (simp add: positive_def spend_def)

text \<open>Patterns the budget can weigh: they parse, to a tree the estimate knows.\<close>

definition weighable :: "native_env \<Rightarrow> string \<Rightarrow> bool" where
  "weighable env p \<longleftrightarrow> (case nv_parse env p of None \<Rightarrow> False | Some re \<Rightarrow> known re)"

lemma near_charge:
  assumes "near x y" "n < nativeRegexCostCeiling" "0 \<le> m"
  shows "\<not> x > n - m \<longleftrightarrow> m + y \<le> n" and "\<not> x > n - m \<Longrightarrow> x = y"
  using near_le [OF assms(1), of "n - m"] near_exact [OF assms(1)] assms(2,3) by auto

lemma limits_below: "maxNativeRegexAST < nativeRegexCostCeiling" "maxNativeRegexInstructions < nativeRegexCostCeiling"
    "maxNativeRegexRunes < nativeRegexCostCeiling"
  by (simp_all add: nativeRegexCostCeiling_def maxNativeRegexAST_def maxNativeRegexInstructions_def maxNativeRegexRunes_def)

lemma admit_iff:
  assumes ok: "pred_option re_ok (nv_parse env p)" and pos: "positive b"
  shows "admit (nv_parse env) p b = Inr b' \<longleftrightarrow> weighable env p \<and> fits env [p] b \<and> b' = spend env p b"
proof (cases "nv_parse env p")
  case None
  then show ?thesis by (simp add: admit_def weighable_def bad_def)
next
  case (Some re)
  show ?thesis
  proof (cases "estimateNativeRegex re")
    case None
    then show ?thesis using Some ok estimate_spec(1) [of re] by (simp add: admit_def weighable_def bad_def)
  next
    case c: (Some c)
    have kn: "known re" and e: "estimates c re" using c Some ok estimate_spec(1) [of re] by simp_all
    let ?a = "regexCostMultiply (rc_ast c) 2" and ?i = "regexCostMultiply (regexCostAdd (rc_instructions c) 2) 2"
      and ?r = "regexCostMultiply (rc_runes c) 2"
    have a: "near ?a (charged exact_ast env [p])" and r: "near ?r (charged exact_runes env [p])"
      and i: "near ?i (charged program_size env [p])"
      using e near_twice near_add [OF _ near_refl, of _ _ 2] Some
      by (auto simp: estimates_def charged_def program_size_def simp del: distrib_left_numeral)
    note A = near_charge [OF a limits_below(1), of "rb_ast b"] and I = near_charge [OF i limits_below(2), of "rb_instructions b"]
      and R = near_charge [OF r limits_below(3), of "rb_runes b"]
    have pos': "0 \<le> rb_ast b" "0 \<le> rb_instructions b" "0 \<le> rb_runes b" using pos by (simp_all add: positive_def)
    show ?thesis
      using A [OF pos'(1)] I [OF pos'(2)] R [OF pos'(3)] kn Some c
      by (auto simp: admit_def weighable_def bad_def fits_def spend_def Let_def)
  qed
qed

lemma admit_all_iff:
  assumes "\<And>p. pred_option re_ok (nv_parse env p)" "positive (nw_regex w)"
    and "fits env [] (nw_regex w)"
  shows "(\<exists>w'. admit_all env ps w = Inr w') \<longleftrightarrow> list_all (\<lambda>p. weighable env p \<and> nv_compiles env p) ps \<and> fits env ps (nw_regex w)"
  using assms(2,3)
proof (induction ps arbitrary: w)
  case (Cons p ps)
  let ?b = "nw_regex w"
  show ?case
  proof (cases "weighable env p \<and> fits env [p] ?b \<and> nv_compiles env p")
    case True
    then have a: "admit (nv_parse env) p ?b = Inr (spend env p ?b)" using admit_iff [OF assms(1) Cons.prems(1)] by blast
    have s: "fits env [] (spend env p ?b)" using True fits_Cons [of env p "[]" ?b] by blast
    show ?thesis
      using Cons.IH [of "w\<lparr>nw_regex := spend env p ?b\<rparr>"] spend_positive [OF Cons.prems(1)] s True a fits_Cons [of env p ps ?b]
      by simp
  next
    case False
    have "admit_all env (p # ps) w \<noteq> Inr w'" for w'
      using False admit_iff [OF assms(1) Cons.prems(1)] by (auto simp: bindR_Inr_iff bad_def)
    moreover have "\<not> (list_all (\<lambda>p. weighable env p \<and> nv_compiles env p) (p # ps) \<and> fits env (p # ps) ?b)"
      using False fits_Cons [of env p ps ?b] by auto
    ultimately show ?thesis by blast
  qed
qed simp

definition fresh_work :: native_work where
  "fresh_work = \<lparr>nw_nodes = 0, nw_values = 0, nw_remaining = maxNativeProjectionWork, nw_regex = no_regex\<rparr>"

text \<open>C23: the saturating budget of regular expressions is exact.  For a parser that gives repetitions sensible bounds, a
  list of patterns is admitted by a fresh budget exactly when every pattern parses to a tree the estimate knows and
  compiles, there are at most 1024 of them of 32 KiB together, and the exact sizes of their trees, programs and runes, with
  repetitions written out and each program counted twice, stay within 64 Ki, 64 Ki and 128 Ki.  No pattern slips through
  because an estimate saturated, and none is refused that fits.\<close>

theorem regex_budget_exact:
  assumes "\<forall>p. pred_option re_ok (nv_parse env p)"
  shows "(\<exists>w. admit_all env ps fresh_work = Inr w) \<longleftrightarrow>
      list_all (\<lambda>p. weighable env p \<and> nv_compiles env p) ps \<and> int (length ps) \<le> 1024 \<and> int (length (concat ps)) \<le> 32768
      \<and> charged exact_ast env ps \<le> 65536 \<and> charged program_size env ps \<le> 65536 \<and> charged exact_runes env ps \<le> 131072"
proof -
  have "fits env [] (nw_regex fresh_work)" "positive (nw_regex fresh_work)"
    by (simp_all add: fits_def positive_def fresh_work_def no_regex_def charged_def maxNativeRegexCount_def maxNativeRegexBytes_def
        maxNativeRegexAST_def maxNativeRegexInstructions_def maxNativeRegexRunes_def)
  then show ?thesis
    using admit_all_iff [of env fresh_work ps] assms
    by (simp add: fits_def fresh_work_def no_regex_def maxNativeRegexCount_def maxNativeRegexBytes_def
        maxNativeRegexAST_def maxNativeRegexInstructions_def maxNativeRegexRunes_def)
qed

text \<open>A parser that reads one pattern, \<open>a{1000}\<close> nested: \<open>(a{1000}){1000}\<close>.\<close>

definition nested_parse :: "string \<Rightarrow> regexp option" where
  "nested_parse p = (if p = ''a'' then Some (Regexp OpLiteral 1 0 0 [])
     else if p = ''(a{1000}){1000}'' then Some (Regexp OpRepeat 0 1000 1000 [Regexp OpRepeat 0 1000 1000 [Regexp OpLiteral 1 0 0 []]])
     else None)"

definition nested_env :: native_env where
  "nested_env = \<lparr>nv_sets = \<lparr>il_of_prefixes = \<lambda>_. [], il_of_ranges = \<lambda>r. r, il_complement = \<lambda>r. r, il_prefixes = \<lambda>_. []\<rparr>,
     nv_parse = nested_parse, nv_compiles = \<lambda>_. True, nv_legacy = False\<rparr>"

theorem regex_budget_exact_witness:
  "(\<exists>w. admit_all nested_env [''a''] fresh_work = Inr w) \<and> (\<nexists>w. admit_all nested_env [''a'', ''(a{1000}){1000}''] fresh_work = Inr w)"
proof -
  have p: "\<forall>p. pred_option re_ok (nv_parse nested_env p)" by (simp add: nested_env_def nested_parse_def)
  show ?thesis
    unfolding regex_budget_exact [OF p]
    by (simp add: nested_env_def nested_parse_def weighable_def charged_def program_size_def op_instructions_def copies_of_def)
qed

end
