(* ===== verification/Spec2Isabelle.thy ===== *)
theory Spec2Isabelle
  imports Store_Steps Qr_Matrix Api_Login Sb_Apply Lists_Manager Lists_Regex
begin

text \<open>
  Verification library for razdacha, a home VPN gateway: a daemon (\<open>razdachad\<close>) that keeps its configuration in
  SQLite, serves a web panel, and generates the configuration of the sing-box core that carries the traffic.

  \<^bold>\<open>Parts and how they meet.\<close>  \<open>internal/store\<close> owns the database: tunnels, routing rules, client devices
  (peers), REALITY credentials, settings, the panel's password and sessions.  \<open>internal/singbox\<close> compiles a snapshot of
  it into the configuration of the core: rules, name resolution, exits, and the authenticated entrance beside WireGuard.
  A candidate is checked by the core, published by a rename and loaded by a restart.  \<open>internal/lists\<close> refreshes the
  servers of pools from public catalogues on a schedule and projects rule sets in the core's own format to what the gateway
  itself needs.  \<open>internal/api\<close> serves the panel; \<open>internal/qr\<close> draws the picture a phone scans.

  \<^bold>\<open>Theories.\<close>
  \<^item> \<open>Prelude\<close>: results as sums, tables as lists of rows, updates by key, ordering by a column.
  \<^item> \<open>Go_Std\<close>, \<open>Go_Text\<close>, \<open>Go_Netip\<close>, \<open>Go_Json\<close>: what the sources use of Go's library: strings,
    numbers, time, IP prefixes, UTF-8, base64, \<open>Sscanf\<close>, addresses and their texts, the validity of a JSON text.
  \<^item> \<open>Store_Model\<close> (\<open>model.go\<close>): the records and their validation.  \<open>Store_Db\<close> (\<open>migrate.go\<close>,
    \<open>store.go\<close>): the tables after the last migration with their constraints, and transactions, which leave the
    state alone when they fail.  The locale \<open>store_op\<close> is the contract of an operation: it keeps the invariant.
  \<^item> \<open>Store_Rules\<close> (\<open>rules.go\<close>): priorities are always the numbers from zero without a gap, and each operation
    is the obvious change of the list of rules.
  \<^item> \<open>Store_Reality\<close>, \<open>Store_Peers\<close>, \<open>Store_Admission\<close> (\<open>reality.go\<close>, \<open>peers.go\<close>, \<open>snapshot.go\<close>,
    \<open>route_explain.go\<close>, \<open>reality_inventory.go\<close>): client devices and the credentials that admit them.
  \<^item> \<open>Store_Tunnels\<close> (\<open>tunnels.go\<close>, \<open>tunnels_warp.go\<close>, \<open>tunnel_checks.go\<close>): tunnels and the one built-in pool.
  \<^item> \<open>Store_Settings\<close> (\<open>settings.go\<close>): the settings, their text form and validation.
  \<^item> \<open>Store_Auth\<close> (\<open>auth.go\<close>, \<open>auth_restore.go\<close>, \<open>notify.go\<close>, \<open>install.go\<close>, \<open>wgkeys.go\<close>): password,
    sessions and the values beside the settings.
  \<^item> \<open>Store_Steps\<close>: all calls of the store as one step relation; what holds in every reachable state and across every
    sequence of calls.
  \<^item> \<open>Login_Throttle\<close> (\<open>throttle.go\<close>), \<open>Api_ClientIp\<close> (\<open>clientip.go\<close>), \<open>Api_Password\<close>
    (\<open>password.go\<close>), \<open>Api_Login\<close> (\<open>session.go\<close>, \<open>handlers.go\<close>): signing in, from the address of a request
    to the session behind a cookie.
  \<^item> \<open>Pool_Filter\<close> (\<open>poolfilter.go\<close>): which servers of a public catalogue a pool may use.
  \<^item> \<open>Sb_Options\<close>: the parts of the core's configuration the compiler emits, and how the core reads its route
    rules: in order, the first match whose action ends routing decides, and resolving or sniffing changes what is known on
    the way.  \<open>Sb_Generate\<close> (\<open>generate.go\<close>, \<open>tunnel.go\<close>, \<open>pool.go\<close>, \<open>ruleset.go\<close>,
    \<open>peer_egress.go\<close>, \<open>dns.go\<close>, \<open>chain_alias.go\<close>): the compiler.  \<open>Sb_Policy\<close>: what each of its stages
    gives, collected in \<open>stages\<close>.  \<open>Sb_Safety\<close>: the guarantees of its result.  \<open>Sb_Reality\<close>
    (\<open>reality.go\<close>, \<open>reality_denial.go\<close>): the entrance, and that it neither disturbs nor widens the policy.
    \<open>Sb_Apply\<close> (\<open>apply.go\<close>, \<open>pool_reject.go\<close>): publication, over a disk of files and a core that accepts or
    refuses; servers of pools the core refuses are dropped one by one.
  \<^item> \<open>Lists_Pool\<close>, \<open>Lists_Manager\<close> (\<open>lists/pool.go\<close>): the merge of a pool with a crawl of its catalogue, and
    the schedule that crawls, merges, writes to the store and tells the compiler.
  \<^item> \<open>Lists_Native\<close> (\<open>lists/native.go\<close>): native rule sets compiled to domain predicates and address ranges.
    \<open>Lists_Regex\<close> (\<open>lists/native_regex.go\<close>): the budget of regular expressions.
  \<^item> \<open>Qr_Field\<close>, \<open>Qr_Stream\<close>, \<open>Qr_Matrix\<close> (\<open>qr.go\<close>): the QR encoder, from the field to the picture.

  \<^bold>\<open>How state and operations correspond.\<close>  The database is the record \<open>db\<close>, one list of rows per table; an
  operation of \<open>Store\<close> is the function of the same name, from its arguments and the state to a result and the new
  state, with every error the code can return as a value.  Each SQL statement is a definition of its own.  Clock
  readings, random values and identifiers are arguments.  Integers are \<open>int\<close> with the wrap-around written out where
  it can happen, bytes of the QR encoder are words.

  \<^bold>\<open>What is shown.\<close>  For the store: every operation keeps the constraints of the schema and the invariants of the
  components; what each operation does to what the readers return; that revoked credentials never come back, in any order
  of calls; that a login that verified an old password is refused.  For the panel: the counters of failed logins answer as
  the full history would, guessing is slow, the address cannot be forged, a login has exactly its intended outcome, only a
  live session passes the guard.  For the compiler: every reference resolves, rules fail closed, a client with an exit of
  its own leaves by no other and leaks no query, pools are filtered and verified, and the entrance decides for a client as
  WireGuard does or refuses.  How the core matches a rule is an argument of these properties, restricted by named
  hypotheses to what its documentation says of inbounds, sources and users.  For publication: only checked bytes reach the
  published file, a failure before the rename changes nothing, no temporary file survives, servers of pools cannot block it,
  and applying twice restarts nothing.  For the lists: a pool is what the history of crawls says, servers that stay keep
  their tags, a quiet crawl writes nothing; the projections of a native set agree with the whole tree; the budget of regular
  expressions is exact.  For the encoder: field arithmetic, code words, bit stream and picture read back as the
  text.

  \<^bold>\<open>Bounds.\<close>  Loops are structural recursions or carry a termination proof; no definition needs fuel.  The QR
  property assumes that the free modules of the chosen version hold its bits, which is evaluated for version 1.  The
  throttle properties assume fewer than \<open>2 ^ 63\<close> steps, below the overflow of its counter.

  \<^bold>\<open>Not modelled.\<close>  The migration of an older database step by step; the texts of messages and log lines; file
  permissions, sockets, goroutines and cancellation other than as arguments; the parsers of proxy links, downloads of lists
  and catalogues and the decoding of their formats, the clash client, the network stack, diagnostics and the two command-line
  programs.  Argon2, SHA-256, X25519, the JSON encoder, the Unicode tables, the builder of address sets and the parser of
  regular expressions are parameters.  Requests are served one at a time: interleavings of store calls are covered by
  \<open>Store_Steps\<close>.  Removing a temporary file is taken to succeed, address sets of equal size are intersected in the
  order they come, and projected subnets are kept as prefixes.
\<close>

end
